(* ===== verification/Prelude.thy ===== *)
theory Prelude
  imports
    Main
    "HOL-Library.AList"
    "HOL-Library.Char_ord"
    "HOL-Library.List_Lexorder"
    "HOL-Library.Word"
begin

text \<open>
  Shared vocabulary of the development: the Go types the components use, the model of a Go
  \<open>map\<close> as an association list with distinct keys, the result type of fallible functions, and
  the facts on sorted lists, finite key sets and folds that the component proofs rest on.
\<close>

section \<open>Go types\<close>

text \<open>
  A UUID is its sixteen bytes. An instant (\<open>time.Time\<close>) is the number of nanoseconds since the
  Unix epoch. A Go string is its sequence of bytes; \<open>sort.Strings\<close> and \<open><\<close> compare bytes, as
  the lexicographic order on \<^typ>\<open>string\<close> does.
\<close>

type_synonym uuid = "128 word"
type_synonym u32 = "32 word"
type_synonym i64 = "64 word"
type_synonym instant = int
type_synonym ('e, 'a) result = "'e + 'a"

named_theorems gomap_simps \<open>lookup and key facts of the association-list maps\<close>

text \<open>Integer division of Go, which truncates towards zero.\<close>

definition go_div :: "int \<Rightarrow> int \<Rightarrow> int" where
  "go_div a b = sgn a * sgn b * (\<bar>a\<bar> div \<bar>b\<bar>)"

text \<open>The sixteen bytes of a UUID.\<close>

definition uuid_bytes :: "uuid \<Rightarrow> string" where
  "uuid_bytes u = map (\<lambda>i. char_of (unat (drop_bit (8 * (15 - i)) u) mod 256)) [0..<16]"

text \<open>What the sources use of the package \<open>google/uuid\<close>, which is not part of them.\<close>

record uuid_lib =
  ul_NewSHA1 :: "uuid \<Rightarrow> string \<Rightarrow> uuid"
  ul_Parse :: "string \<Rightarrow> uuid option"
  ul_String :: "uuid \<Rightarrow> string"

text \<open>The name space that the sources derive their identifiers in.\<close>

definition NameSpaceOID :: uuid where
  "NameSpaceOID = 0x6ba7b8129dad11d180b400c04fd430c8"

section \<open>Results\<close>

text \<open>\<open>x, err := m; if err != nil { return err }; k(x)\<close>.\<close>

definition bindE :: "'e + 'a \<Rightarrow> ('a \<Rightarrow> 'e + 'b) \<Rightarrow> 'e + 'b" where
  "bindE m k = (case m of Inl e \<Rightarrow> Inl e | Inr x \<Rightarrow> k x)"

lemma bindE_simps [simp]: "bindE (Inl e) k = Inl e" "bindE (Inr x) k = k x"
  by (simp_all add: bindE_def)

lemma bindE_Inr_iff: "bindE m k = Inr y \<longleftrightarrow> (\<exists>x. m = Inr x \<and> k x = Inr y)"
  by (cases m) auto

lemma bindE_Inl_iff: "bindE m k = Inl e \<longleftrightarrow> m = Inl e \<or> (\<exists>x. m = Inr x \<and> k x = Inl e)"
  by (cases m) auto

section \<open>Go maps\<close>

text \<open>
  A Go map is an association list without repeated keys. \<open>m[k]\<close> with its \<open>ok\<close> flag is
  \<open>gm_get\<close>, \<open>m[k] = v\<close> is \<open>gm_put\<close>, \<open>delete(m, k)\<close> is \<open>gm_del\<close>. The order of the list is
  the order of insertion; Go leaves the iteration order open, so a definition that iterates over
  a map sorts what it collects, as the code does.
\<close>

type_synonym ('k, 'v) gomap = "('k \<times> 'v) list"

definition gm_get :: "('k, 'v) gomap \<Rightarrow> 'k \<Rightarrow> 'v option" where
  "gm_get m k = map_of m k"

definition gm_put :: "('k, 'v) gomap \<Rightarrow> 'k \<Rightarrow> 'v \<Rightarrow> ('k, 'v) gomap" where
  "gm_put m k v = AList.update k v m"

definition gm_del :: "('k, 'v) gomap \<Rightarrow> 'k \<Rightarrow> ('k, 'v) gomap" where
  "gm_del m k = AList.delete k m"

definition gm_keys :: "('k, 'v) gomap \<Rightarrow> 'k list" where
  "gm_keys m = map fst m"

definition gm_ok :: "('k, 'v) gomap \<Rightarrow> bool" where
  "gm_ok m = distinct (map fst m)"

lemma gm_get_Nil [gomap_simps, simp]: "gm_get [] k = None"
  by (simp add: gm_get_def)

lemma gm_get_put [gomap_simps, simp]:
  "gm_get (gm_put m k v) k' = (if k' = k then Some v else gm_get m k')"
  by (simp add: gm_get_def gm_put_def update_conv')

lemma gm_get_del [gomap_simps, simp]:
  "gm_get (gm_del m k) k' = (if k' = k then None else gm_get m k')"
  by (simp add: gm_get_def gm_del_def delete_conv')

lemma gm_keys_Nil [gomap_simps, simp]: "gm_keys [] = []"
  by (simp add: gm_keys_def)

lemma set_gm_keys_put [gomap_simps, simp]: "set (gm_keys (gm_put m k v)) = insert k (set (gm_keys m))"
  by (simp add: gm_keys_def gm_put_def dom_update)

lemma set_gm_keys_del [gomap_simps, simp]: "set (gm_keys (gm_del m k)) = set (gm_keys m) - {k}"
  by (auto simp: gm_keys_def gm_del_def delete_keys)

lemma gm_ok_Nil [gomap_simps, simp]: "gm_ok []"
  by (simp add: gm_ok_def)

lemma gm_ok_put [gomap_simps, simp]: "gm_ok m \<Longrightarrow> gm_ok (gm_put m k v)"
  by (simp add: gm_ok_def gm_put_def distinct_update)

lemma gm_ok_del [gomap_simps, simp]: "gm_ok m \<Longrightarrow> gm_ok (gm_del m k)"
  by (simp add: gm_ok_def gm_del_def distinct_delete)

lemma gm_keys_distinct: "gm_ok m \<longleftrightarrow> distinct (gm_keys m)"
  by (simp add: gm_ok_def gm_keys_def)

lemma gm_get_None_iff [gomap_simps]: "gm_get m k = None \<longleftrightarrow> k \<notin> set (gm_keys m)"
  by (auto simp: gm_get_def gm_keys_def map_of_eq_None_iff)

lemma gm_get_Some_key: "gm_get m k = Some v \<Longrightarrow> k \<in> set (gm_keys m)"
  by (metis gm_get_None_iff option.distinct(1))

lemma gm_keys_get: "k \<in> set (gm_keys m) \<longleftrightarrow> (\<exists>v. gm_get m k = Some v)"
  by (metis gm_get_None_iff not_None_eq)

lemma gm_get_append: "gm_get (xs @ ys) k = (case gm_get xs k of None \<Rightarrow> gm_get ys k | Some v \<Rightarrow> Some v)"
  by (simp add: gm_get_def map_add_def split: option.splits)

lemma gm_get_in_set: "gm_ok m \<Longrightarrow> (k, v) \<in> set m \<longleftrightarrow> gm_get m k = Some v"
  by (simp add: gm_ok_def gm_get_def)

section \<open>Sorted enumerations\<close>

lemma sort_cong_set:
  fixes xs ys :: "'a::linorder list"
  assumes "distinct xs" "distinct ys" "set xs = set ys"
  shows "sort xs = sort ys"
  using assms by (metis distinct_sort set_sort sorted_distinct_set_unique sorted_sort)

lemma sort_eq_sorted_list_of_set:
  fixes xs :: "'a::linorder list"
  shows "distinct xs \<Longrightarrow> sort xs = sorted_list_of_set (set xs)"
  by (simp add: sorted_list_of_set_sort_remdups distinct_remdups_id)

lemma strict_sorted_sort:
  fixes xs :: "'a::linorder list"
  shows "distinct xs \<Longrightarrow> sorted_wrt (<) (sort xs)"
  by (simp add: strict_sorted_iff)

end
