(* ===== verification/Dataset_Views.thy ===== *)
theory Dataset_Views
  imports Prelude
begin

text \<open>
  The dataset view computation of \<open>dataset-versioning-service/internal/domain/views.go\<close>:
  \<open>ComputeView\<close> replays the committed transactions of a branch, from the last SNAPSHOT inside
  the time window on, and lists the resulting files by logical path. The definitions follow the
  Go function; \<open>view_spec\<close> is the abstract contract, one map transformer per transaction kind
  applied to the whole history in the window.
\<close>

section \<open>Data\<close>

datatype TransactionType =
    TransactionTypeSnapshot
  | TransactionTypeAppend
  | TransactionTypeUpdate
  | TransactionTypeDelete
  | TransactionTypeOther string

record FileRef =
  fr_LogicalPath :: string
  fr_PhysicalPath :: string
  fr_SizeBytes :: i64
  fr_IntroducedBy :: uuid

datatype FileOpKind = FileOpAdd | FileOpReplace | FileOpRemove

record FileOp =
  fo_LogicalPath :: string
  fo_PhysicalPath :: string
  fo_SizeBytes :: i64
  fo_Kind :: FileOpKind

record TransactionEntry =
  te_TxnID :: uuid
  te_Kind :: TransactionType
  te_CommittedAt :: instant
  te_Files :: "FileOp list"

type_synonym files = "(string, FileRef) gomap"

section \<open>Operations\<close>

definition file_ref_of :: "uuid \<Rightarrow> FileOp \<Rightarrow> FileRef" where
  "file_ref_of txn op =
     \<lparr>fr_LogicalPath = fo_LogicalPath op, fr_PhysicalPath = fo_PhysicalPath op,
      fr_SizeBytes = fo_SizeBytes op, fr_IntroducedBy = txn\<rparr>"

text \<open>The loop body of the SNAPSHOT and UPDATE cases, and of the APPEND case.\<close>

definition put_file :: "uuid \<Rightarrow> files \<Rightarrow> FileOp \<Rightarrow> files" where
  "put_file txn files op =
     (if fo_Kind op = FileOpRemove then files
      else gm_put files (fo_LogicalPath op) (file_ref_of txn op))"

definition append_file :: "uuid \<Rightarrow> files \<Rightarrow> FileOp \<Rightarrow> files" where
  "append_file txn files op =
     (if fo_Kind op = FileOpRemove then files
      else if gm_get files (fo_LogicalPath op) = None
      then gm_put files (fo_LogicalPath op) (file_ref_of txn op)
      else files)"

definition delete_file :: "files \<Rightarrow> FileOp \<Rightarrow> files" where
  "delete_file files op = gm_del files (fo_LogicalPath op)"

definition replay_entry :: "files \<Rightarrow> TransactionEntry \<Rightarrow> files" where
  "replay_entry files e =
     (case te_Kind e of
        TransactionTypeSnapshot \<Rightarrow> foldl (put_file (te_TxnID e)) [] (te_Files e)
      | TransactionTypeAppend \<Rightarrow> foldl (append_file (te_TxnID e)) files (te_Files e)
      | TransactionTypeUpdate \<Rightarrow> foldl (put_file (te_TxnID e)) files (te_Files e)
      | TransactionTypeDelete \<Rightarrow> foldl delete_file files (te_Files e)
      | TransactionTypeOther _ \<Rightarrow> files)"

definition inWindow :: "TransactionEntry list \<Rightarrow> instant option \<Rightarrow> TransactionEntry list" where
  "inWindow transactions atTs =
     filter (\<lambda>t. case atTs of None \<Rightarrow> True | Some ts \<Rightarrow> \<not> te_CommittedAt t > ts) transactions"

text \<open>
  The anchor search runs from the last index down; \<open>startIdx w n\<close> is its result when the indices
  below \<open>n\<close> are still to be looked at.
\<close>

fun startIdx :: "TransactionEntry list \<Rightarrow> nat \<Rightarrow> nat" where
  "startIdx w 0 = 0"
| "startIdx w (Suc i) = (if te_Kind (w ! i) = TransactionTypeSnapshot then i else startIdx w i)"

definition sorted_refs :: "files \<Rightarrow> FileRef list" where
  "sorted_refs files =
     List.map_filter (gm_get files) (sort (gm_keys files))"

definition ComputeView :: "TransactionEntry list \<Rightarrow> instant option \<Rightarrow> FileRef list" where
  "ComputeView transactions atTs =
     (let w = inWindow transactions atTs in
      if w = [] then []
      else sorted_refs (foldl replay_entry [] (drop (startIdx w (length w)) w)))"

section \<open>Abstract specification\<close>

text \<open>
  What a transaction means for the logical contents: a SNAPSHOT replaces them, an UPDATE
  overwrites, an APPEND adds only what is missing, a DELETE drops its paths.
\<close>

definition staged :: "TransactionEntry \<Rightarrow> (string \<times> FileRef) list" where
  "staged e = map (\<lambda>op. (fo_LogicalPath op, file_ref_of (te_TxnID e) op))
     (filter (\<lambda>op. fo_Kind op \<noteq> FileOpRemove) (te_Files e))"

definition entry_spec :: "(string \<rightharpoonup> FileRef) \<Rightarrow> TransactionEntry \<Rightarrow> (string \<rightharpoonup> FileRef)" where
  "entry_spec m e =
     (case te_Kind e of
        TransactionTypeSnapshot \<Rightarrow> map_of (rev (staged e))
      | TransactionTypeAppend \<Rightarrow> map_of (staged e) ++ m
      | TransactionTypeUpdate \<Rightarrow> m ++ map_of (rev (staged e))
      | TransactionTypeDelete \<Rightarrow> m |` (- (fo_LogicalPath ` set (te_Files e)))
      | TransactionTypeOther _ \<Rightarrow> m)"

definition view_spec :: "TransactionEntry list \<Rightarrow> instant option \<Rightarrow> (string \<rightharpoonup> FileRef)" where
  "view_spec transactions atTs = foldl entry_spec Map.empty (inWindow transactions atTs)"

section \<open>Lemmas\<close>

text \<open>The file map keeps distinct keys and files each reference under its own logical path.\<close>

definition files_ok :: "files \<Rightarrow> bool" where
  "files_ok m \<longleftrightarrow> gm_ok m \<and> (\<forall>p r. gm_get m p = Some r \<longrightarrow> fr_LogicalPath r = p)"

lemma file_ref_of_path [simp]: "fr_LogicalPath (file_ref_of txn op) = fo_LogicalPath op"
  by (simp add: file_ref_of_def)

lemma foldl_inv:
  assumes "P a" and "\<And>a x. P a \<Longrightarrow> P (f a x)"
  shows "P (foldl f a xs)"
  using assms(1) by (induction xs arbitrary: a) (auto intro: assms(2))

lemma files_ok_put [intro]: "files_ok m \<Longrightarrow> files_ok (put_file txn m op)"
  by (simp add: files_ok_def put_file_def)

lemma files_ok_append [intro]: "files_ok m \<Longrightarrow> files_ok (append_file txn m op)"
  by (simp add: files_ok_def append_file_def)

lemma files_ok_delete [intro]: "files_ok m \<Longrightarrow> files_ok (delete_file m op)"
  by (simp add: files_ok_def delete_file_def)

lemma files_ok_empty [simp]: "files_ok []"
  by (simp add: files_ok_def)

lemmas files_ok_folds =
  foldl_inv [where P = files_ok, OF _ files_ok_put] foldl_inv [where P = files_ok, OF _ files_ok_append]
  foldl_inv [where P = files_ok, OF _ files_ok_delete]

lemma files_ok_replay_entry: "files_ok m \<Longrightarrow> files_ok (replay_entry m e)"
  by (simp add: replay_entry_def files_ok_folds split: TransactionType.split)

lemma files_ok_replay: "files_ok m \<Longrightarrow> files_ok (foldl replay_entry m es)"
  by (rule foldl_inv) (auto intro: files_ok_replay_entry)

lemma get_foldl_put:
  "gm_get (foldl (put_file txn) m ops) =
     gm_get m ++ map_of (rev (map (\<lambda>op. (fo_LogicalPath op, file_ref_of txn op))
       (filter (\<lambda>op. fo_Kind op \<noteq> FileOpRemove) ops)))"
  by (induction ops arbitrary: m) (auto simp: put_file_def fun_eq_iff map_add_def split: option.splits)

lemma get_foldl_append:
  "gm_get (foldl (append_file txn) m ops) =
     map_of (map (\<lambda>op. (fo_LogicalPath op, file_ref_of txn op))
       (filter (\<lambda>op. fo_Kind op \<noteq> FileOpRemove) ops)) ++ gm_get m"
  by (induction ops arbitrary: m)
    (auto simp: append_file_def fun_eq_iff map_add_def split: option.splits)

lemma get_foldl_delete:
  "gm_get (foldl delete_file m ops) = gm_get m |` (- (fo_LogicalPath ` set ops))"
  by (induction ops arbitrary: m) (auto simp: delete_file_def fun_eq_iff restrict_map_def)

lemmas replay_gets = get_foldl_put get_foldl_append get_foldl_delete

lemma gm_get_empty_fun [simp]: "gm_get [] = Map.empty"
  by (simp add: fun_eq_iff)

lemma replay_entry_refines: "gm_get (replay_entry m e) = entry_spec (gm_get m) e"
  by (cases "te_Kind e")
    (simp_all add: replay_entry_def entry_spec_def staged_def replay_gets)

lemma replay_refines: "gm_get (foldl replay_entry m es) = foldl entry_spec (gm_get m) es"
  by (induction es arbitrary: m) (simp_all add: replay_entry_refines)

text \<open>Replaying a SNAPSHOT forgets what was before it, so any anchor search result will do.\<close>

lemma replay_snapshot_forgets:
  "te_Kind e = TransactionTypeSnapshot \<Longrightarrow> replay_entry m e = replay_entry m' e"
  by (simp add: replay_entry_def)

lemma startIdx_cases:
  "n \<le> length w \<Longrightarrow> startIdx w n = 0 \<or>
     (startIdx w n < length w \<and> te_Kind (w ! startIdx w n) = TransactionTypeSnapshot)"
  by (induction n) auto

lemma replay_from_anchor:
  "foldl replay_entry [] (drop (startIdx w (length w)) w) = foldl replay_entry [] w"
proof -
  let ?i = "startIdx w (length w)"
  consider "?i = 0" | "?i < length w" "te_Kind (w ! ?i) = TransactionTypeSnapshot"
    using startIdx_cases [of "length w" w] by auto
  then show ?thesis
  proof cases
    case 2
    have "foldl replay_entry [] w
        = foldl replay_entry (foldl replay_entry [] (take ?i w)) (drop ?i w)"
      by (metis append_take_drop_id foldl_append)
    also have "\<dots> = foldl replay_entry [] (drop ?i w)"
      using 2 by (simp add: Cons_nth_drop_Suc [symmetric]
          replay_snapshot_forgets [of "w ! ?i" "foldl replay_entry [] (take ?i w)" "[]"])
    finally show ?thesis by simp
  qed simp
qed

lemma map_filter_Some: "\<forall>x \<in> set xs. f x \<noteq> None \<Longrightarrow> List.map_filter f xs = map (the \<circ> f) xs"
  by (induction xs) (auto simp: List.map_filter_simps)

lemma sorted_refs_eq:
  "files_ok m \<Longrightarrow> sorted_refs m = map (the \<circ> gm_get m) (sort (gm_keys m))"
  unfolding sorted_refs_def by (rule map_filter_Some) (auto simp: gm_get_None_iff)

lemma sorted_refs_paths:
  assumes "files_ok m"
  shows "map fr_LogicalPath (sorted_refs m) = sort (gm_keys m)"
proof -
  have "\<And>p. p \<in> set (gm_keys m) \<Longrightarrow> fr_LogicalPath (the (gm_get m p)) = p"
    using assms by (auto simp: files_ok_def gm_keys_get)
  then show ?thesis
    using assms by (auto simp: sorted_refs_eq intro!: map_idI)
qed

lemma sorted_refs_member:
  assumes "files_ok m"
  shows "r \<in> set (sorted_refs m) \<longleftrightarrow> gm_get m (fr_LogicalPath r) = Some r"
proof
  assume "r \<in> set (sorted_refs m)"
  then obtain p where "p \<in> set (gm_keys m)" "r = the (gm_get m p)"
    using assms by (auto simp: sorted_refs_eq)
  then have "gm_get m p = Some r"
    by (auto simp: gm_keys_get)
  with assms show "gm_get m (fr_LogicalPath r) = Some r"
    by (auto simp: files_ok_def)
next
  assume r: "gm_get m (fr_LogicalPath r) = Some r"
  then have "fr_LogicalPath r \<in> set (gm_keys m)" by (rule gm_get_Some_key)
  with r show "r \<in> set (sorted_refs m)"
    using assms by (force simp: sorted_refs_eq)
qed

lemma ComputeView_full:
  "ComputeView ts atTs = sorted_refs (foldl replay_entry [] (inWindow ts atTs))"
  by (simp add: ComputeView_def Let_def replay_from_anchor)
     (simp add: sorted_refs_def List.map_filter_simps)

section \<open>Properties\<close>

text \<open>
  C10. The view starts its replay at the last SNAPSHOT inside the window; it lists exactly the files
  that replaying the whole history in the window, oldest transaction first, leaves behind. A
  reference is listed if and only if the abstract contents map its own logical path to it.
\<close>

theorem ComputeView_refines_spec:
  "r \<in> set (ComputeView ts atTs) \<longleftrightarrow> view_spec ts atTs (fr_LogicalPath r) = Some r"
  by (simp add: ComputeView_full sorted_refs_member files_ok_replay replay_refines view_spec_def)

text \<open>
  The listing is in strictly increasing order of logical path: no path occurs twice, and the
  listed paths are exactly the keys of the abstract contents.
\<close>

theorem ComputeView_sorted:
  "sorted_wrt (<) (map fr_LogicalPath (ComputeView ts atTs)) \<and>
   fr_LogicalPath ` set (ComputeView ts atTs) = dom (view_spec ts atTs)"
proof -
  let ?m = "foldl replay_entry [] (inWindow ts atTs)"
  have ok: "files_ok ?m" by (simp add: files_ok_replay)
  have paths: "map fr_LogicalPath (ComputeView ts atTs) = sort (gm_keys ?m)"
    using ok by (simp add: ComputeView_full sorted_refs_paths)
  have "sorted_wrt (<) (sort (gm_keys ?m))"
    using ok by (simp add: strict_sorted_sort files_ok_def gm_keys_distinct)
  moreover have "set (sort (gm_keys ?m)) = dom (view_spec ts atTs)"
    using replay_refines [of "[]" "inWindow ts atTs"]
    by (auto simp: view_spec_def gm_keys_get dom_def)
  ultimately show ?thesis
    by (metis paths list.set_map)
qed

end
