(* ===== verification/Retention.thy ===== *)
theory Retention
  imports Prelude
begin

text \<open>
  Branch retention of \<open>dataset-versioning-service/internal/domain/retention/retention.go\<close>: the
  resolution of the INHERITED policy along the parent chain (\<open>ResolveEffective\<close>) and the archive
  decision (\<open>IsArchiveEligible\<close>, whose TTL is a \<open>time.Duration\<close>, a signed 64-bit count of
  nanoseconds, computed with Go's wrap-around). \<open>nearest_explicit\<close> is the abstract contract of
  the resolver.
\<close>

section \<open>Data\<close>

datatype RetentionPolicy =
    RetentionPolicyInherited
  | RetentionPolicyForever
  | RetentionPolicyTTLDays
  | RetentionPolicyOther string

record RetentionRow =
  rr_ID :: uuid
  rr_ParentBranchID :: "uuid option"
  rr_Policy :: RetentionPolicy
  rr_TTLDays :: "32 word option"
  rr_LastActivityAt :: instant
  rr_HasOpenTransaction :: bool
  rr_IsRoot :: bool
  rr_ArchivedAt :: "instant option"

record EffectiveRetention =
  er_Policy :: RetentionPolicy
  er_TTLDays :: "32 word option"
  er_SourceBranchID :: "uuid option"

type_synonym row_index = "(uuid, RetentionRow) gomap"

section \<open>Operations\<close>

definition ParsePolicy :: "string \<Rightarrow> RetentionPolicy option" where
  "ParsePolicy value =
     (if value = ''INHERITED'' then Some RetentionPolicyInherited
      else if value = ''FOREVER'' then Some RetentionPolicyForever
      else if value = ''TTL_DAYS'' then Some RetentionPolicyTTLDays
      else None)"

fun PolicyAsString :: "RetentionPolicy \<Rightarrow> string" where
  "PolicyAsString RetentionPolicyInherited = ''INHERITED''"
| "PolicyAsString RetentionPolicyForever = ''FOREVER''"
| "PolicyAsString RetentionPolicyTTLDays = ''TTL_DAYS''"
| "PolicyAsString (RetentionPolicyOther s) = s"

definition DefaultForeverEffective :: EffectiveRetention where
  "DefaultForeverEffective =
     \<lparr>er_Policy = RetentionPolicyForever, er_TTLDays = None, er_SourceBranchID = None\<rparr>"

text \<open>
  The loop of \<open>ResolveEffective\<close>. Each round appends a row id that was not visited yet, and every
  cursor after the first comes from the index, so the ids still to be visited run out.
\<close>

definition row_ids :: "row_index \<Rightarrow> uuid set" where
  "row_ids index = rr_ID ` snd ` set index"

lemma gm_get_row_ids: "gm_get index k = Some r \<Longrightarrow> rr_ID r \<in> row_ids index"
  unfolding row_ids_def gm_get_def by (auto dest!: map_of_SomeD intro!: image_eqI)

function (sequential) resolve_loop :: "row_index \<Rightarrow> RetentionRow \<Rightarrow> uuid list \<Rightarrow> EffectiveRetention" where
  "resolve_loop index cursor visited =
     (if rr_ID cursor \<in> set visited then DefaultForeverEffective
      else case rr_Policy cursor of
        RetentionPolicyForever \<Rightarrow>
          \<lparr>er_Policy = RetentionPolicyForever, er_TTLDays = None,
           er_SourceBranchID = Some (rr_ID cursor)\<rparr>
      | RetentionPolicyTTLDays \<Rightarrow>
          \<lparr>er_Policy = RetentionPolicyTTLDays, er_TTLDays = rr_TTLDays cursor,
           er_SourceBranchID = Some (rr_ID cursor)\<rparr>
      | RetentionPolicyInherited \<Rightarrow>
          (case rr_ParentBranchID cursor of
             None \<Rightarrow> DefaultForeverEffective
           | Some p \<Rightarrow>
               (case gm_get index p of
                  None \<Rightarrow> DefaultForeverEffective
                | Some parent \<Rightarrow> resolve_loop index parent (visited @ [rr_ID cursor])))
      | RetentionPolicyOther _ \<Rightarrow> DefaultForeverEffective)"
  by pat_completeness auto
termination
proof (relation "measure (\<lambda>(index, cursor, visited).
    card (insert (rr_ID cursor) (row_ids index) - set visited))", goal_cases)
  case (2 index cursor visited p parent)
  let ?old = "insert (rr_ID cursor) (row_ids index) - set visited"
  let ?new = "insert (rr_ID parent) (row_ids index) - set (visited @ [rr_ID cursor])"
  have "rr_ID parent \<in> row_ids index" using 2 by (auto intro: gm_get_row_ids)
  then have "?new \<subset> ?old" using 2 by auto
  moreover have "finite ?old" by (simp add: row_ids_def)
  ultimately show ?case by (simp add: psubset_card_mono del: set_append)
qed simp

declare resolve_loop.simps [simp del]

definition ResolveEffective :: "RetentionRow \<Rightarrow> row_index \<Rightarrow> EffectiveRetention" where
  "ResolveEffective row index = resolve_loop index row []"

text \<open>\<open>-time.Duration(days) * 24 * time.Hour\<close>, an \<open>int64\<close> that wraps around.\<close>

definition ttl_duration :: "32 word \<Rightarrow> i64" where
  "ttl_duration days = - (scast days) * 24 * 3600000000000"

definition IsArchiveEligible :: "RetentionRow \<Rightarrow> EffectiveRetention \<Rightarrow> instant \<Rightarrow> bool" where
  "IsArchiveEligible row effective now =
     (if rr_ArchivedAt row \<noteq> None \<or> rr_IsRoot row \<or> rr_HasOpenTransaction row then False
      else case er_Policy effective of
        RetentionPolicyForever \<Rightarrow> False
      | RetentionPolicyInherited \<Rightarrow> False
      | RetentionPolicyTTLDays \<Rightarrow>
          (case er_TTLDays effective of
             None \<Rightarrow> False
           | Some days \<Rightarrow>
               if days \<le>s 0 then False
               else rr_LastActivityAt row < now + sint (ttl_duration days))
      | RetentionPolicyOther _ \<Rightarrow> False)"

fun CountEligible :: "RetentionRow list \<Rightarrow> row_index \<Rightarrow> instant \<Rightarrow> nat" where
  "CountEligible [] index now = 0"
| "CountEligible (row # rows) index now =
     (if IsArchiveEligible row (ResolveEffective row index) now then 1 else 0)
       + CountEligible rows index now"

definition IndexRows :: "RetentionRow list \<Rightarrow> row_index" where
  "IndexRows rows = foldl (\<lambda>out row. gm_put out (rr_ID row) row) [] rows"

section \<open>Abstract specification\<close>

text \<open>
  \<open>climb index n row\<close> is the \<open>n\<close>-th ancestor of \<open>row\<close>, as long as every row below it inherits.
  \<open>nearest_explicit\<close>: the climb reaches a row that carries a policy of its own.
\<close>

definition parent_row :: "row_index \<Rightarrow> RetentionRow \<Rightarrow> RetentionRow option" where
  "parent_row index row =
     (if rr_Policy row = RetentionPolicyInherited
      then Option.bind (rr_ParentBranchID row) (gm_get index) else None)"

fun climb :: "row_index \<Rightarrow> nat \<Rightarrow> RetentionRow \<Rightarrow> RetentionRow option" where
  "climb index 0 row = Some row"
| "climb index (Suc n) row = Option.bind (parent_row index row) (climb index n)"

definition explicit :: "RetentionRow \<Rightarrow> bool" where
  "explicit r \<longleftrightarrow> rr_Policy r = RetentionPolicyForever \<or> rr_Policy r = RetentionPolicyTTLDays"

definition own_retention :: "RetentionRow \<Rightarrow> EffectiveRetention" where
  "own_retention r =
     \<lparr>er_Policy = rr_Policy r,
      er_TTLDays = (if rr_Policy r = RetentionPolicyTTLDays then rr_TTLDays r else None),
      er_SourceBranchID = Some (rr_ID r)\<rparr>"

definition nearest_explicit :: "row_index \<Rightarrow> RetentionRow \<Rightarrow> RetentionRow \<Rightarrow> bool" where
  "nearest_explicit index row r \<longleftrightarrow> (\<exists>n. climb index n row = Some r) \<and> explicit r"

definition index_ok :: "row_index \<Rightarrow> bool" where
  "index_ok index \<longleftrightarrow> (\<forall>k r. gm_get index k = Some r \<longrightarrow> rr_ID r = k)"

section \<open>Lemmas\<close>

lemma index_ok_put: "index_ok m \<Longrightarrow> index_ok (gm_put m (rr_ID row) row)"
  unfolding index_ok_def by (metis gm_get_put option.inject)

lemma index_ok_IndexRows: "index_ok (IndexRows rows)"
proof -
  have "index_ok m \<Longrightarrow> index_ok (foldl (\<lambda>out row. gm_put out (rr_ID row) row) m rows)" for m
    by (induction rows arbitrary: m) (simp_all add: index_ok_put)
  moreover have "index_ok []" by (simp add: index_ok_def)
  ultimately show ?thesis unfolding IndexRows_def by blast
qed

lemma IndexRows_get_aux:
  "distinct (map rr_ID rows) \<Longrightarrow> row \<in> set rows \<Longrightarrow>
   gm_get (foldl (\<lambda>out row. gm_put out (rr_ID row) row) m rows) (rr_ID row) = Some row"
proof (induction rows rule: rev_induct)
  case (snoc r rows)
  then show ?case by (cases "row = r") (auto simp: image_iff)
qed simp

lemma IndexRows_get:
  "distinct (map rr_ID rows) \<Longrightarrow> row \<in> set rows \<Longrightarrow> gm_get (IndexRows rows) (rr_ID row) = Some row"
  by (simp add: IndexRows_def IndexRows_get_aux)

lemma climb_add: "climb index (m + n) row = Option.bind (climb index m row) (climb index n)"
  by (induction m arbitrary: row) (auto simp: bind_eq_Some_conv intro: Option.bind_cong)

lemma climb_indexed:
  "climb index n row = Some q \<Longrightarrow> index_ok index \<Longrightarrow> gm_get index (rr_ID row) = Some row \<Longrightarrow>
   gm_get index (rr_ID q) = Some q"
proof (induction n arbitrary: row)
  case (Suc n)
  then obtain parent where par: "parent_row index row = Some parent" "climb index n parent = Some q"
    by (auto simp: bind_eq_Some_conv)
  then have "gm_get index (rr_ID parent) = Some parent"
    using Suc.prems(2) by (auto simp: parent_row_def index_ok_def bind_eq_Some_conv split: if_splits)
  then show ?case using Suc.IH par Suc.prems(2) by blast
qed simp

lemma explicit_no_parent: "explicit r \<Longrightarrow> parent_row index r = None"
  by (auto simp: explicit_def parent_row_def)

lemma climb_past_explicit:
  "climb index n row = Some r \<Longrightarrow> explicit r \<Longrightarrow> climb index (n + Suc k) row = None"
  by (subst climb_add) (simp add: explicit_no_parent)

text \<open>A row on the way to an explicit ancestor is not its own proper ancestor.\<close>

lemma no_cycle_below_explicit:
  assumes "climb index n row = Some r" "explicit r"
  shows "climb index (Suc m) row \<noteq> Some row"
proof
  assume cyc: "climb index (Suc m) row = Some row"
  have "climb index (j * Suc m) row = Some row" for j
  proof (induction j)
    case (Suc j)
    have "climb index (Suc m + j * Suc m) row = Some row"
      by (subst climb_add) (simp only: cyc Suc Option.bind.simps)
    then show ?case by (simp only: mult_Suc)
  qed simp
  then have "climb index (Suc n * Suc m) row = Some row" .
  moreover have "Suc n * Suc m = n + Suc (m + n * m)" by simp
  ultimately show False
    using climb_past_explicit [OF assms, of "m + n * m"] by simp
qed

lemma resolve_loop_explicit:
  assumes "climb index n row = Some r" "explicit r"
    and "\<And>m q. climb index m row = Some q \<Longrightarrow> rr_ID q \<notin> set visited"
    and "index_ok index" "gm_get index (rr_ID row) = Some row"
  shows "resolve_loop index row visited = own_retention r"
  using assms
proof (induction n arbitrary: row visited)
  case 0
  have "rr_ID row \<notin> set visited" using 0(3) [of 0] by simp
  then show ?case
    using 0(1,2) by (auto simp: resolve_loop.simps [of index r] explicit_def own_retention_def)
next
  case (Suc n)
  then obtain parent where par: "parent_row index row = Some parent"
    and climb: "climb index n parent = Some r"
    by (auto simp: bind_eq_Some_conv)
  have indexed: "gm_get index (rr_ID parent) = Some parent"
    using climb_indexed [of index "Suc 0" row parent] par Suc.prems(4,5) by simp
  have fresh: "rr_ID q \<notin> set (visited @ [rr_ID row])" if q: "climb index m parent = Some q" for m q
  proof -
    have up: "climb index (Suc m) row = Some q" using par q by simp
    then have "rr_ID q \<notin> set visited" by (rule Suc.prems(3))
    moreover have "rr_ID q \<noteq> rr_ID row"
      using climb_indexed [OF up] up no_cycle_below_explicit [OF Suc.prems(1,2), of m] Suc.prems(4,5)
      by auto
    ultimately show ?thesis by simp
  qed
  have "rr_ID row \<notin> set visited" using Suc.prems(3) [of 0] by simp
  then have "resolve_loop index row visited = resolve_loop index parent (visited @ [rr_ID row])"
    using par by (auto simp: resolve_loop.simps [of index row] parent_row_def bind_eq_Some_conv
        split: if_splits)
  also have "\<dots> = own_retention r"
    using Suc.IH [OF climb Suc.prems(2) fresh Suc.prems(4) indexed] .
  finally show ?case .
qed

lemma resolve_loop_default:
  "\<forall>n r. climb index n row = Some r \<longrightarrow> \<not> explicit r \<Longrightarrow>
   resolve_loop index row visited = DefaultForeverEffective"
proof (induction index row visited rule: resolve_loop.induct)
  case (1 index row visited)
  have not_explicit: "\<not> explicit row" using 1(2) by (metis climb.simps(1))
  show ?case
  proof (cases "rr_ID row \<notin> set visited \<and> parent_row index row \<noteq> None")
    case True
    then obtain p parent where par: "rr_ID row \<notin> set visited"
      "rr_Policy row = RetentionPolicyInherited" "rr_ParentBranchID row = Some p"
      "gm_get index p = Some parent"
      by (auto simp: parent_row_def bind_eq_Some_conv split: if_splits)
    have "climb index (Suc n) row = climb index n parent" for n
      using par by (simp add: parent_row_def)
    then have "resolve_loop index parent (visited @ [rr_ID row]) = DefaultForeverEffective"
      using 1(1) [OF par] 1(2) by metis
    with par show ?thesis by (simp add: resolve_loop.simps [of index row visited])
  next
    case False
    with not_explicit show ?thesis
      by (cases "rr_Policy row"; cases "rr_ParentBranchID row")
        (auto simp: resolve_loop.simps [of index row visited] explicit_def parent_row_def)
  qed
qed

text \<open>The TTL is exact as long as the 64-bit nanosecond count does not overflow.\<close>

lemma sint_ttl_duration:
  assumes "0 < sint days" "sint days \<le> 106751"
  shows "sint (ttl_duration days) = - sint days * 86400000000000"
proof -
  have "scast days = (word_of_int (sint days) :: i64)" by simp
  then have "ttl_duration days = word_of_int (- sint days * 86400000000000)"
    by (simp add: ttl_duration_def)
  then have "sint (ttl_duration days)
      = (- sint days * 86400000000000 + 2 ^ 63) mod 2 ^ 64 - (2 ^ 63 :: int)"
    by (simp only: int_word_sint) simp
  also have "(- sint days * 86400000000000 + 2 ^ 63) mod 2 ^ 64
      = - sint days * 86400000000000 + (2 ^ 63 :: int)"
    using assms by (intro mod_pos_pos_trivial) simp_all
  finally show ?thesis by simp
qed

section \<open>Properties\<close>

text \<open>
  For a row of a list of branches with distinct ids, the resolved retention is that of the
  nearest ancestor (the row itself included) with a policy of its own, and the keep-forever default
  if the climb leaves the table, ends in a cycle or meets an unknown policy.
\<close>

theorem ResolveEffective_nearest:
  assumes "distinct (map rr_ID rows)" "row \<in> set rows"
  shows "ResolveEffective row (IndexRows rows) = eff \<longleftrightarrow>
     (\<exists>r. nearest_explicit (IndexRows rows) row r \<and> eff = own_retention r) \<or>
     ((\<nexists>r. nearest_explicit (IndexRows rows) row r) \<and> eff = DefaultForeverEffective)"
proof (cases "\<exists>r. nearest_explicit (IndexRows rows) row r")
  case True
  then obtain r where r: "nearest_explicit (IndexRows rows) row r" by blast
  have "ResolveEffective row (IndexRows rows) = own_retention q"
    if "nearest_explicit (IndexRows rows) row q" for q
    using that index_ok_IndexRows IndexRows_get [OF assms] resolve_loop_explicit
    by (fastforce simp: ResolveEffective_def nearest_explicit_def)
  with r show ?thesis by metis
next
  case False
  then have "ResolveEffective row (IndexRows rows) = DefaultForeverEffective"
    unfolding ResolveEffective_def nearest_explicit_def by (intro resolve_loop_default) blast
  with False show ?thesis by auto
qed

definition ret_child :: RetentionRow where
  "ret_child = \<lparr>rr_ID = 2, rr_ParentBranchID = Some 1, rr_Policy = RetentionPolicyInherited,
     rr_TTLDays = None, rr_LastActivityAt = 0, rr_HasOpenTransaction = False, rr_IsRoot = False,
     rr_ArchivedAt = None\<rparr>"

definition ret_parent :: "32 word \<Rightarrow> RetentionRow" where
  "ret_parent days = \<lparr>rr_ID = 1, rr_ParentBranchID = None, rr_Policy = RetentionPolicyTTLDays,
     rr_TTLDays = Some days, rr_LastActivityAt = 0, rr_HasOpenTransaction = False,
     rr_IsRoot = True, rr_ArchivedAt = None\<rparr>"

theorem ResolveEffective_nearest_witness:
  "ResolveEffective ret_child (IndexRows [ret_parent 30, ret_child]) = own_retention (ret_parent 30)"
proof -
  let ?rows = "[ret_parent 30, ret_child]"
  have rows: "distinct (map rr_ID ?rows)" "ret_child \<in> set ?rows"
    by (simp_all add: ret_child_def ret_parent_def)
  have "gm_get (IndexRows ?rows) 1 = Some (ret_parent 30)"
    by (simp add: IndexRows_def ret_child_def ret_parent_def)
  then have "climb (IndexRows ?rows) 1 ret_child = Some (ret_parent 30)"
    by (simp add: parent_row_def ret_child_def)
  then have "nearest_explicit (IndexRows ?rows) ret_child (ret_parent 30)"
    unfolding nearest_explicit_def by (metis explicit_def ret_parent_def RetentionRow.select_convs(3))
  then show ?thesis
    using ResolveEffective_nearest [OF rows] by blast
qed

text \<open>
  The archive decision for a TTL of at most 106751 days (the largest number of days whose
  nanoseconds fit a \<open>time.Duration\<close>): a branch is archived exactly if it is neither archived
  already, nor a root, nor holding an open transaction, and its last activity is more than the TTL
  ago.
\<close>

theorem IsArchiveEligible_TTL:
  assumes "er_Policy eff = RetentionPolicyTTLDays" "er_TTLDays eff = Some days"
    and "0 < sint days" "sint days \<le> 106751"
  shows "IsArchiveEligible row eff now \<longleftrightarrow>
     rr_ArchivedAt row = None \<and> \<not> rr_IsRoot row \<and> \<not> rr_HasOpenTransaction row \<and>
     rr_LastActivityAt row + sint days * 86400000000000 < now"
  using assms(1,2,3)
  by (auto simp: IsArchiveEligible_def sint_ttl_duration [OF assms(3,4)] word_sle_eq)

theorem IsArchiveEligible_TTL_witness:
  "IsArchiveEligible ret_child (own_retention (ret_parent 30)) 2592000000000001"
proof -
  have "er_Policy (own_retention (ret_parent 30)) = RetentionPolicyTTLDays"
    "er_TTLDays (own_retention (ret_parent 30)) = Some 30"
    by (simp_all add: own_retention_def ret_parent_def)
  then show ?thesis
    using IsArchiveEligible_TTL [of "own_retention (ret_parent 30)" 30 ret_child 2592000000000001]
    by (simp add: ret_child_def)
qed

text \<open>
  A branch whose effective policy is FOREVER, or whose chain resolves to the default, is never
  archived, whatever its age; neither is a root nor a branch with an open transaction.
\<close>

theorem IsArchiveEligible_safe:
  assumes "IsArchiveEligible row (ResolveEffective row index) now"
  shows "\<not> rr_IsRoot row \<and> \<not> rr_HasOpenTransaction row \<and> rr_ArchivedAt row = None \<and>
    ResolveEffective row index \<noteq> DefaultForeverEffective \<and>
    er_Policy (ResolveEffective row index) = RetentionPolicyTTLDays"
  using assms
  by (auto simp: IsArchiveEligible_def DefaultForeverEffective_def
      split: if_splits RetentionPolicy.splits)

theorem IsArchiveEligible_safe_witness:
  "er_Policy (ResolveEffective ret_child (IndexRows [ret_parent 30, ret_child])) = RetentionPolicyTTLDays"
proof -
  have "IsArchiveEligible ret_child
      (ResolveEffective ret_child (IndexRows [ret_parent 30, ret_child])) 2592000000000001"
    by code_simp
  then show ?thesis using IsArchiveEligible_safe by blast
qed

text \<open>
  From 106752 days on the negated duration wraps around to a positive one, the cut-off lies
  in the future, and a branch that was active at this very instant is archived.
\<close>

theorem IsArchiveEligible_overflow:
  "IsArchiveEligible (ret_child\<lparr>rr_LastActivityAt := now\<rparr>) (own_retention (ret_parent 106752)) now"
  by (simp add: IsArchiveEligible_def own_retention_def ret_child_def ret_parent_def ttl_duration_def
      word_sle_eq)

end
