(* ===== verification/Graph_Search.thy ===== *)
theory Graph_Search
  imports Prelude
begin

text \<open>
  The graph searches the build service uses in several places, on adjacency maps
  \<open>map[string][]string\<close>: the stack search of \<open>reachableNodes\<close>, the mark-on-push search of
  \<open>computeCascade\<close>, and the recursive search for a cycle path that \<open>detectCycle\<close> (executor) and
  \<open>findCyclePath\<close> (resolver) share. Stacks are lists with the top first.
\<close>

type_synonym 'a adjacency = "('a, 'a list) gomap"

section \<open>Definitions\<close>

text \<open>\<open>m[x]\<close> of a map of slices: a missing key reads as the empty slice.\<close>

definition succs :: "'a adjacency \<Rightarrow> 'a \<Rightarrow> 'a list" where
  "succs g x = (case gm_get g x of None \<Rightarrow> [] | Some ys \<Rightarrow> ys)"

definition edges :: "'a adjacency \<Rightarrow> ('a \<times> 'a) set" where
  "edges g = {(x, y). y \<in> set (succs g x)}"

text \<open>\<open>m[k] = append(m[k], v)\<close>.\<close>

definition add_edge :: "'a adjacency \<Rightarrow> 'a \<Rightarrow> 'a \<Rightarrow> 'a adjacency" where
  "add_edge g x y = gm_put g x (succs g x @ [y])"

text \<open>\<open>if _, ok := m[k]; !ok { m[k] = nil }\<close>.\<close>

definition ensure_node :: "'a adjacency \<Rightarrow> 'a \<Rightarrow> 'a adjacency" where
  "ensure_node g x = (if gm_get g x = None then gm_put g x [] else g)"

lemma succs_add_edge [simp]:
  "succs (add_edge g x y) z = (if z = x then succs g x @ [y] else succs g z)"
  by (simp add: succs_def add_edge_def)

lemma succs_ensure_node [simp]: "succs (ensure_node g x) z = succs g z"
  by (simp add: succs_def ensure_node_def)

lemma succs_Nil [simp]: "succs [] x = []"
  by (simp add: succs_def)

lemma succs_no_key: "x \<notin> set (gm_keys g) \<Longrightarrow> succs g x = []"
  by (metis gm_get_None_iff option.simps(4) succs_def)

lemma edges_iff [simp]: "(x, y) \<in> edges g \<longleftrightarrow> y \<in> set (succs g x)"
  by (simp add: edges_def)

text \<open>
  The stack search: pop a node, skip it if it was reached before, otherwise record it and push its
  successors (the last successor ends on top).
\<close>

function (sequential) stack_reach :: "'a adjacency \<Rightarrow> 'a list \<Rightarrow> 'a list \<Rightarrow> 'a list" where
  "stack_reach g [] seen = seen"
| "stack_reach g (x # stack) seen =
     (if x \<in> set seen then stack_reach g stack seen
      else stack_reach g (rev (succs g x) @ stack) (x # seen))"
  by pat_completeness auto
termination
proof (relation "inv_image (finite_psubset <*lex*> less_than)
    (\<lambda>(g, stack, seen). (set (gm_keys g) - set seen, length stack))", goal_cases)
  case (3 g x stack seen)
  then show ?case
    by (cases "x \<in> set (gm_keys g)") (auto simp: finite_psubset_def succs_no_key)
qed auto

text \<open>
  The mark-on-push search: \<open>push_children\<close> is the inner loop, which records and pushes the children
  not recorded yet.
\<close>

fun push_children :: "'a list \<Rightarrow> 'a list \<Rightarrow> 'a list \<Rightarrow> 'a list \<times> 'a list" where
  "push_children [] stack visited = (stack, visited)"
| "push_children (c # cs) stack visited =
     (if c \<in> set visited then push_children cs stack visited
      else push_children cs (c # stack) (visited @ [c]))"

lemma push_children_eq:
  "push_children cs stack visited = (stack', visited') \<Longrightarrow>
   \<exists>new. stack' = rev new @ stack \<and> visited' = visited @ new \<and> distinct new \<and>
     set new = set cs - set visited"
proof (induction cs arbitrary: stack visited)
  case (Cons c cs)
  show ?case
  proof (cases "c \<in> set visited")
    case True
    then show ?thesis using Cons.IH [of stack visited] Cons.prems by fastforce
  next
    case False
    then obtain new where "stack' = rev new @ c # stack" "visited' = (visited @ [c]) @ new"
      "distinct new" "set new = set cs - set (visited @ [c])"
      using Cons.IH [of "c # stack" "visited @ [c]"] Cons.prems by auto
    with False show ?thesis by (intro exI [of _ "c # new"]) auto
  qed
qed simp

definition all_targets :: "'a adjacency \<Rightarrow> 'a set" where
  "all_targets g = (\<Union>ys \<in> snd ` set g. set ys)"

lemma finite_all_targets [simp]: "finite (all_targets g)"
  by (simp add: all_targets_def)

lemma succs_all_targets: "set (succs g x) \<subseteq> all_targets g"
proof (cases "gm_get g x")
  case (Some ys)
  then have "ys \<in> snd ` set g" unfolding gm_get_def by (metis image_eqI map_of_SomeD snd_conv)
  with Some show ?thesis by (auto simp: succs_def all_targets_def)
qed (simp add: succs_def)

function (sequential) cascade_search :: "'a adjacency \<Rightarrow> 'a list \<Rightarrow> 'a list \<Rightarrow> 'a list" where
  "cascade_search g [] visited = visited"
| "cascade_search g (x # stack) visited =
     (case push_children (succs g x) stack visited of
        (stack', visited') \<Rightarrow> cascade_search g stack' visited')"
  by pat_completeness auto
termination
proof (relation "measure (\<lambda>(g, stack, visited). length stack + card (all_targets g - set visited))",
    goal_cases)
  case (2 g x stack visited stack' visited')
  obtain new where new: "stack' = rev new @ stack" "visited' = visited @ new" "distinct new"
    "set new = set (succs g x) - set visited"
    using push_children_eq 2 by metis
  have "all_targets g - set visited = (all_targets g - set visited') \<union> set new"
    using new succs_all_targets by fastforce
  moreover have "(all_targets g - set visited') \<inter> set new = {}" using new by auto
  ultimately have "card (all_targets g - set visited) = card (all_targets g - set visited') + length new"
    using new(3) by (simp add: card_Un_disjoint distinct_card)
  with new(1) show ?case by simp
qed simp

text \<open>
  The recursive search for a cycle path: \<open>stack\<close> is the path from the root, \<open>visited\<close> all nodes
  entered so far. The list argument is what the \<open>for\<close> loop over the sorted successors has left;
  \<open>Inl\<close> is a cycle, \<open>Inr\<close> the visited nodes when there is none.
\<close>

definition cut_cycle :: "'a list \<Rightarrow> 'a \<Rightarrow> 'a list" where
  "cut_cycle stack x = dropWhile (\<lambda>y. y \<noteq> x) stack @ [x]"

function (sequential) dfs_cycle ::
  "'a::linorder adjacency \<Rightarrow> 'a list \<Rightarrow> 'a list \<Rightarrow> 'a list \<Rightarrow> 'a list + 'a list" where
  "dfs_cycle g visited stack [] = Inr visited"
| "dfs_cycle g visited stack (x # xs) =
     (if x \<in> set stack then Inl (cut_cycle stack x)
      else if x \<in> set visited then dfs_cycle g visited stack xs
      else case dfs_cycle g (x # visited) (stack @ [x]) (sort (succs g x)) of
             Inl c \<Rightarrow> Inl c
           | Inr visited' \<Rightarrow> dfs_cycle g visited' stack xs)"
  by pat_completeness auto

lemma dfs_cycle_visited:
  "dfs_cycle_dom (g, visited, stack, xs) \<Longrightarrow> dfs_cycle g visited stack xs = Inr visited' \<Longrightarrow>
   set visited \<subseteq> set visited'"
proof (induction g visited stack xs arbitrary: visited' rule: dfs_cycle.pinduct)
  case (1 g visited stack)
  then show ?case by (simp add: dfs_cycle.psimps)
next
  case (2 g visited stack x xs)
  show ?case
  proof (cases "x \<in> set visited")
    case True
    with 2(2,3,5) show ?thesis
      using 2(1) by (simp add: dfs_cycle.psimps split: if_splits)
  next
    case False
    with 2(5) obtain v where v: "x \<notin> set stack"
      "dfs_cycle g (x # visited) (stack @ [x]) (sort (succs g x)) = Inr v"
      "dfs_cycle g v stack xs = Inr visited'"
      using 2(1) by (auto simp: dfs_cycle.psimps split: if_splits sum.splits)
    have "set (x # visited) \<subseteq> set v" using 2(3) [OF v(1) False v(2)] .
    moreover have "set v \<subseteq> set visited'" using 2(4) [OF v(1) False v(2) v(3)] .
    ultimately show ?thesis by auto
  qed
qed

termination dfs_cycle
proof (relation "inv_image (finite_psubset <*lex*> less_than)
    (\<lambda>(g, visited, stack, xs). (set (gm_keys g) - set visited, length xs))", goal_cases)
  case (3 g visited stack x xs)
  then show ?case
    by (cases "x \<in> set (gm_keys g)") (auto simp: finite_psubset_def succs_no_key)
next
  case (4 g visited stack x xs visited')
  then have "set (x # visited) \<subseteq> set visited'" by (intro dfs_cycle_visited) auto
  then show ?case by (auto simp: finite_psubset_def)
qed auto

section \<open>Reachability\<close>

lemma stack_reach_mono: "set seen \<subseteq> set (stack_reach g stack seen)"
  by (induction g stack seen rule: stack_reach.induct) auto

lemma stack_reach_stack: "set stack \<subseteq> set (stack_reach g stack seen)"
proof (induction g stack seen rule: stack_reach.induct)
  case (2 g x stack seen)
  then show ?case
    using stack_reach_mono [of seen g stack] stack_reach_mono [of "x # seen" g "rev (succs g x) @ stack"]
    by (auto split: if_splits)
qed simp

lemma stack_reach_closed:
  "edges g `` set seen \<subseteq> set stack \<union> set seen \<Longrightarrow>
   edges g `` set (stack_reach g stack seen) \<subseteq> set (stack_reach g stack seen)"
proof (induction g stack seen rule: stack_reach.induct)
  case (2 g x stack seen)
  then show ?case by (cases "x \<in> set seen") (auto simp: Image_def subset_iff)
qed simp

lemma succs_reachable: "y \<in> set (succs g x) \<Longrightarrow> (y, z) \<in> (edges g)\<^sup>* \<Longrightarrow> (x, z) \<in> (edges g)\<^sup>*"
  by (rule converse_rtrancl_into_rtrancl) simp_all

lemma stack_reach_sound:
  "set (stack_reach g stack seen) \<subseteq> (edges g)\<^sup>* `` set stack \<union> set seen"
proof (induction g stack seen rule: stack_reach.induct)
  case (2 g x stack seen)
  have "(edges g)\<^sup>* `` set (rev (succs g x) @ stack) \<subseteq> (edges g)\<^sup>* `` set (x # stack)"
    using succs_reachable [where g = g and x = x] by (auto simp del: edges_iff)
  with 2 show ?case by (cases "x \<in> set seen") (auto simp del: edges_iff)
qed simp

theorem stack_reach_reachable: "set (stack_reach g [s] []) = (edges g)\<^sup>* `` {s}"
proof
  let ?R = "set (stack_reach g [s] [])"
  have closed: "edges g `` ?R \<subseteq> ?R" by (intro stack_reach_closed) simp
  have "y \<in> ?R" if "(s, y) \<in> (edges g)\<^sup>*" for y
    using that
  proof (induction rule: rtrancl_induct)
    case base
    show ?case using stack_reach_stack [of "[s]" g "[]"] by simp
  next
    case (step y z)
    then show ?case using closed by blast
  qed
  then show "(edges g)\<^sup>* `` {s} \<subseteq> ?R" by auto
  show "?R \<subseteq> (edges g)\<^sup>* `` {s}" using stack_reach_sound [of g "[s]" "[]"] by simp
qed

subsection \<open>The cascade search\<close>

lemma cascade_mono: "set visited \<subseteq> set (cascade_search g stack visited)"
proof (induction g stack visited rule: cascade_search.induct)
  case (2 g x stack visited)
  obtain stack' visited' where p: "push_children (succs g x) stack visited = (stack', visited')"
    by fastforce
  then have "set visited \<subseteq> set visited'" using push_children_eq by fastforce
  with p 2 show ?case by fastforce
qed simp

lemma cascade_distinct: "distinct visited \<Longrightarrow> distinct (cascade_search g stack visited)"
proof (induction g stack visited rule: cascade_search.induct)
  case (2 g x stack visited)
  obtain stack' visited' where p: "push_children (succs g x) stack visited = (stack', visited')"
    by fastforce
  then have "distinct visited'" using push_children_eq [OF p] 2(2) by auto
  with p 2(1) show ?case by simp
qed simp

text \<open>Every child of a node on the stack ends up recorded, and every recorded node was stacked.\<close>

lemma cascade_closed:
  "edges g `` (A - set stack) \<subseteq> set visited \<Longrightarrow> set visited \<subseteq> A \<Longrightarrow> set stack \<subseteq> A \<Longrightarrow>
   A \<subseteq> insert f (set visited) \<Longrightarrow>
   edges g `` insert f (set (cascade_search g stack visited)) \<subseteq> set (cascade_search g stack visited)
   \<or> f \<notin> A"
proof (induction g stack visited arbitrary: A rule: cascade_search.induct)
  case (1 g visited)
  then show ?case by (auto simp: Image_def)
next
  case (2 g x stack visited)
  obtain stack' visited' where p: "push_children (succs g x) stack visited = (stack', visited')"
    by fastforce
  then obtain new where new: "stack' = rev new @ stack" "visited' = visited @ new"
    "set new = set (succs g x) - set visited"
    using push_children_eq by blast
  let ?A = "A \<union> set new"
  have "edges g `` (?A - set stack') \<subseteq> set visited'"
    using 2(2) new by (fastforce simp: Image_def)
  moreover have "set visited' \<subseteq> ?A" "set stack' \<subseteq> ?A" "?A \<subseteq> insert f (set visited')"
    using 2(3,4,5) new by auto
  ultimately show ?case using 2(1) [OF p [symmetric], of ?A] p by auto
qed

lemma cascade_sound:
  "set (cascade_search g stack visited) \<subseteq> (edges g)\<^sup>+ `` set stack \<union> set visited"
proof (induction g stack visited rule: cascade_search.induct)
  case (2 g x stack visited)
  obtain stack' visited' where p: "push_children (succs g x) stack visited = (stack', visited')"
    by fastforce
  then obtain new where new: "stack' = rev new @ stack" "visited' = visited @ new"
    "set new = set (succs g x) - set visited"
    using push_children_eq by blast
  have step: "(x, y) \<in> (edges g)\<^sup>+" if "y \<in> set new" for y
    using that new(3) by (auto intro: r_into_trancl)
  have "(edges g)\<^sup>+ `` set new \<subseteq> (edges g)\<^sup>+ `` {x}"
    using trancl_trans [OF step] by blast
  then have "(edges g)\<^sup>+ `` set stack' \<union> set visited'
      \<subseteq> (edges g)\<^sup>+ `` set (x # stack) \<union> set visited"
    using new(1,2) step by auto
  moreover have "set (cascade_search g stack' visited') \<subseteq> (edges g)\<^sup>+ `` set stack' \<union> set visited'"
    using 2 p by simp
  ultimately have "set (cascade_search g stack' visited') \<subseteq> (edges g)\<^sup>+ `` set (x # stack) \<union> set visited"
    by blast
  then show ?case using p by simp
qed simp

theorem cascade_descendants: "set (cascade_search g [f] []) = (edges g)\<^sup>+ `` {f}"
proof
  let ?C = "set (cascade_search g [f] [])"
  have closed: "edges g `` insert f ?C \<subseteq> ?C"
    using cascade_closed [of g "{f}" "[f]" "[]" f] by simp
  have "y \<in> ?C" if "(f, y) \<in> (edges g)\<^sup>+" for y
    using that by (induction rule: trancl_induct) (use closed in blast)+
  then show "(edges g)\<^sup>+ `` {f} \<subseteq> ?C" by auto
  show "?C \<subseteq> (edges g)\<^sup>+ `` {f}" using cascade_sound [of g "[f]" "[]"] by simp
qed

section \<open>Cycle paths\<close>

text \<open>A walk along edges, and a cycle path as the code reports it: first and last node agree.\<close>

fun walk :: "'a adjacency \<Rightarrow> 'a list \<Rightarrow> bool" where
  "walk g [] = True"
| "walk g [x] = True"
| "walk g (x # y # zs) \<longleftrightarrow> y \<in> set (succs g x) \<and> walk g (y # zs)"

definition cycle_path :: "'a adjacency \<Rightarrow> 'a list \<Rightarrow> bool" where
  "cycle_path g c \<longleftrightarrow> 2 \<le> length c \<and> walk g c \<and> hd c = last c"

lemma walk_snoc: "xs \<noteq> [] \<Longrightarrow> walk g (xs @ [y]) \<longleftrightarrow> walk g xs \<and> y \<in> set (succs g (last xs))"
  by (induction g xs rule: walk.induct) auto

lemma walk_dropWhile: "walk g xs \<Longrightarrow> walk g (dropWhile P xs)"
  by (induction g xs rule: walk.induct) auto

lemma walk_trancl: "walk g (x # xs) \<Longrightarrow> xs \<noteq> [] \<Longrightarrow> (x, last xs) \<in> (edges g)\<^sup>+"
proof (induction xs arbitrary: x)
  case (Cons y ys)
  then have "(x, y) \<in> (edges g)\<^sup>+" by auto
  then show ?case using Cons by (cases "ys = []") (auto intro: trancl_trans)
qed simp

lemma cycle_path_not_acyclic: "cycle_path g c \<Longrightarrow> \<not> acyclic (edges g)"
proof -
  assume c: "cycle_path g c"
  then obtain x xs where "c = x # xs" "xs \<noteq> []"
    by (cases c) (auto simp: cycle_path_def Suc_le_eq)
  with c show ?thesis
    using walk_trancl [of g x xs] by (auto simp: cycle_path_def acyclic_def)
qed

lemma cut_cycle_path:
  assumes "walk g stack" "x \<in> set stack" "x \<in> set (succs g (last stack))"
  shows "cycle_path g (cut_cycle stack x)"
proof -
  let ?d = "dropWhile (\<lambda>y. y \<noteq> x) stack"
  have ne: "?d \<noteq> []" using assms(2) by (auto simp: dropWhile_eq_Nil_conv)
  then have "hd ?d = x" using hd_dropWhile [of "\<lambda>y. y \<noteq> x" stack] by auto
  moreover have "last ?d = last stack"
    using ne by (metis last_appendR takeWhile_dropWhile_id)
  ultimately show ?thesis
    using assms ne by (auto simp: cycle_path_def cut_cycle_def walk_snoc walk_dropWhile Suc_le_eq)
qed

lemma dfs_cycle_sound:
  "dfs_cycle g visited stack xs = Inl c \<Longrightarrow> walk g stack \<Longrightarrow>
   stack = [] \<or> set xs \<subseteq> set (succs g (last stack)) \<Longrightarrow> cycle_path g c"
proof (induction g visited stack xs rule: dfs_cycle.induct)
  case (2 g visited stack x xs)
  have inner: "walk g (stack @ [x])" using 2(5,6) by (cases "stack = []") (auto simp: walk_snoc)
  consider "x \<in> set stack" | "x \<notin> set stack" "x \<in> set visited"
    | "x \<notin> set stack" "x \<notin> set visited" by blast
  then show ?case
  proof cases
    case 1
    then show ?thesis using 2(4,5,6) cut_cycle_path by fastforce
  next
    case A: 2
    then show ?thesis using 2(1) 2(4-6) by auto
  next
    case B: 3
    then show ?thesis
      using 2(2) [OF B _ inner] 2(3) [OF B] 2(4-6) by (auto split: sum.splits)
  qed
qed simp

text \<open>
  A node is finished when it was entered and has left the path. Finished nodes are closed under
  successors and carry no cycle; the search keeps this.
\<close>

definition finished_ok :: "'a adjacency \<Rightarrow> 'a set \<Rightarrow> bool" where
  "finished_ok g F \<longleftrightarrow> edges g `` F \<subseteq> F \<and> acyclic (edges g \<inter> F \<times> F)"

lemma finished_closed: "finished_ok g F \<Longrightarrow> u \<in> F \<Longrightarrow> v \<in> set (succs g u) \<Longrightarrow> v \<in> F"
  unfolding finished_ok_def by (metis ImageI edges_iff subsetD)

lemma finished_insert:
  assumes "finished_ok g F" "set (succs g x) \<subseteq> F" "x \<notin> F"
  shows "finished_ok g (insert x F)"
proof -
  let ?R = "edges g \<inter> insert x F \<times> insert x F"
  have closed: "v \<in> F" if "u \<in> F" "v \<in> set (succs g u)" for u v
    using that finished_closed [OF assms(1)] by blast
  have stay: "(y, z) \<in> ?R\<^sup>+ \<Longrightarrow> y \<in> F \<Longrightarrow> (y, z) \<in> (edges g \<inter> F \<times> F)\<^sup>+ \<and> z \<in> F" for y z
  proof (induction rule: trancl_induct)
    case (base z)
    then show ?case using closed [of y z] by (auto intro: r_into_trancl)
  next
    case (step u z)
    then show ?case using closed [of u z] by (auto intro: trancl_into_trancl)
  qed
  have leave: "(x, z) \<in> ?R\<^sup>+ \<Longrightarrow> z \<in> F" for z
    by (induction rule: trancl_induct) (use assms(2) closed in auto)
  have "acyclic ?R"
  proof (rule acyclicI, intro allI notI)
    fix y assume y: "(y, y) \<in> ?R\<^sup>+"
    then have "y \<in> insert x F" by (metis IntD2 SigmaD1 tranclD)
    then have "y \<in> F" using y leave by blast
    then have "(y, y) \<in> (edges g \<inter> F \<times> F)\<^sup>+" using stay [OF y] by simp
    then show False using assms(1) unfolding finished_ok_def acyclic_def by blast
  qed
  then show ?thesis using assms(1,2) by (auto simp: finished_ok_def)
qed

lemma dfs_cycle_complete:
  "dfs_cycle g visited stack xs = Inr visited' \<Longrightarrow> set stack \<subseteq> set visited \<Longrightarrow>
   finished_ok g (set visited - set stack) \<Longrightarrow>
   set visited \<subseteq> set visited' \<and> set xs \<subseteq> set visited' - set stack \<and>
   finished_ok g (set visited' - set stack)"
proof (induction g visited stack xs arbitrary: visited' rule: dfs_cycle.induct)
  case (2 g visited stack x xs)
  show ?case
  proof (cases "x \<in> set visited")
    case True
    then have "x \<notin> set stack" "dfs_cycle g visited stack xs = Inr visited'"
      using 2(4) by (auto split: if_splits)
    then show ?thesis using 2(1) [OF _ True] 2(5,6) True by auto
  next
    case False
    then obtain v where v: "x \<notin> set stack"
      "dfs_cycle g (x # visited) (stack @ [x]) (sort (succs g x)) = Inr v"
      "dfs_cycle g v stack xs = Inr visited'"
      using 2(4) by (auto split: if_splits sum.splits)
    have "set (x # visited) - set (stack @ [x]) = set visited - set stack" using False by auto
    then have inner: "set (x # visited) \<subseteq> set v" "set (succs g x) \<subseteq> set v - set (stack @ [x])"
      "finished_ok g (set v - set (stack @ [x]))"
      using 2(2) [OF v(1) False v(2)] 2(5,6) by auto
    have "finished_ok g (insert x (set v - set (stack @ [x])))"
      using inner by (intro finished_insert) auto
    moreover have "insert x (set v - set (stack @ [x])) = set v - set stack"
      using inner(1) v(1) by auto
    ultimately have "finished_ok g (set v - set stack)" by simp
    then show ?thesis
      using 2(3) [OF v(1) False v(2) v(3)] inner(1) 2(5) v(1) by auto
  qed
qed simp

text \<open>
  The whole search from a list of roots: a cycle path when it finds one; when it finds none, no
  cycle can be reached from the roots.
\<close>

theorem dfs_cycle_cycle: "dfs_cycle g [] [] roots = Inl c \<Longrightarrow> cycle_path g c"
  by (rule dfs_cycle_sound) auto

theorem dfs_cycle_acyclic:
  assumes "dfs_cycle g [] [] roots = Inr visited" "set (gm_keys g) \<subseteq> set roots"
  shows "acyclic (edges g)"
proof -
  have fin: "set roots \<subseteq> set visited" "finished_ok g (set visited)"
    using dfs_cycle_complete [OF assms(1)] by (auto simp: finished_ok_def acyclic_def)
  have "edges g \<subseteq> set visited \<times> set visited"
  proof (clarify, unfold edges_iff)
    fix u v assume uv: "v \<in> set (succs g u)"
    then have "u \<in> set (gm_keys g)" using succs_no_key [of u g]
      by (cases "u \<in> set (gm_keys g)") simp_all
    then have "u \<in> set visited" using fin(1) assms(2) by auto
    then show "u \<in> set visited \<and> v \<in> set visited" using finished_closed [OF fin(2)] uv by blast
  qed
  then have "edges g \<inter> set visited \<times> set visited = edges g" by blast
  with fin(2) show ?thesis by (simp add: finished_ok_def)
qed

end
