(* ===== verification/Kahn.thy ===== *)
theory Kahn
  imports Graph_Search
begin

text \<open>
  Kahn's algorithm, as \<open>topologicalSort\<close>, \<open>executionStages\<close> and \<open>DetectCycles\<close> use it: an
  in-degree map, the relaxation of the successors of one node, and the invariant that every queue
  discipline keeps. The locale \<open>counted_graph\<close> is the interface between a loop and the code that
  builds its maps: an adjacency list and a predecessor list that count the same edges.
\<close>

section \<open>In-degrees and relaxation\<close>

type_synonym 'a degrees = "('a, int) gomap"

definition deg_of :: "'a degrees \<Rightarrow> 'a \<Rightarrow> int" where
  "deg_of deg v = (case gm_get deg v of None \<Rightarrow> 0 | Some d \<Rightarrow> d)"

lemma deg_of_put [simp]: "deg_of (gm_put deg v d) w = (if w = v then d else deg_of deg w)"
  by (simp add: deg_of_def)

lemma deg_of_Nil [simp]: "deg_of [] v = 0"
  by (simp add: deg_of_def)

text \<open>
  The inner loop: decrement each neighbour, and collect the neighbours whose in-degree reaches zero
  in the order of their discovery.
\<close>

fun relax :: "'a degrees \<Rightarrow> 'a list \<Rightarrow> 'a degrees \<times> 'a list" where
  "relax deg [] = (deg, [])"
| "relax deg (v # vs) =
     (let d = deg_of deg v - 1;
          (deg', new) = relax (gm_put deg v d) vs
      in (deg', if d = 0 then v # new else new))"

lemma relax_ConsE:
  assumes "relax deg (v # vs) = (deg', new)"
  obtains new1 where "relax (gm_put deg v (deg_of deg v - 1)) vs = (deg', new1)"
    "new = (if deg_of deg v = 1 then v # new1 else new1)"
  using assms by (auto simp: Let_def split: prod.splits)

lemma relax_deg: "relax deg vs = (deg', new) \<Longrightarrow> deg_of deg' v = deg_of deg v - int (count_list vs v)"
proof (induction vs arbitrary: deg new)
  case (Cons w vs)
  obtain new1 where "relax (gm_put deg w (deg_of deg w - 1)) vs = (deg', new1)"
    using Cons.prems by (rule relax_ConsE)
  from Cons.IH [OF this] show ?case by auto
qed simp

lemma relax_set: "relax deg vs = (deg', new) \<Longrightarrow> set new \<subseteq> set vs"
proof (induction vs arbitrary: deg new)
  case (Cons w vs)
  obtain new1 where "relax (gm_put deg w (deg_of deg w - 1)) vs = (deg', new1)"
    "new = (if deg_of deg w = 1 then w # new1 else new1)"
    using Cons.prems by (rule relax_ConsE)
  with Cons.IH [OF this(1)] show ?case by auto
qed simp

lemma relax_new:
  "relax deg vs = (deg', new) \<Longrightarrow> \<forall>v \<in> set vs. int (count_list vs v) \<le> deg_of deg v \<Longrightarrow>
   distinct new \<and> set new = {v \<in> set vs. deg_of deg' v = 0}"
proof (induction vs arbitrary: deg new)
  case (Cons v vs)
  let ?deg = "gm_put deg v (deg_of deg v - 1)"
  obtain new1 where r: "relax ?deg vs = (deg', new1)"
    and new: "new = (if deg_of deg v = 1 then v # new1 else new1)"
    using Cons.prems(1) by (rule relax_ConsE)
  have "int (count_list vs w) \<le> deg_of ?deg w" if "w \<in> set vs" for w
    using bspec [OF Cons.prems(2), of w] that by (auto split: if_splits)
  then have IH: "distinct new1" "set new1 = {w \<in> set vs. deg_of deg' w = 0}"
    using Cons.IH [OF r] by auto
  have degv: "deg_of deg' v = deg_of deg v - 1 - int (count_list vs v)"
    using relax_deg [OF r, of v] by simp
  have "v \<notin> set vs \<longleftrightarrow> count_list vs v = 0" by (simp add: count_list_0_iff)
  moreover have "int (count_list vs v) + 1 \<le> deg_of deg v" using Cons.prems(2) by auto
  ultimately show ?case
    using IH new degv by (auto split: if_splits)
qed simp

text \<open>Every discovery uses up a node of positive in-degree; the loops terminate because of this.\<close>

definition pending :: "'a set \<Rightarrow> 'a degrees \<Rightarrow> nat" where
  "pending T deg = card {v \<in> T. 0 < deg_of deg v}"

lemma pending_put:
  assumes "finite T" "v \<in> T"
  shows "pending T (gm_put deg v (deg_of deg v - 1)) + (if deg_of deg v = 1 then 1 else 0) \<le> pending T deg"
proof -
  let ?deg = "gm_put deg v (deg_of deg v - 1)"
  have sub: "{w \<in> T. 0 < deg_of ?deg w} \<subseteq> {w \<in> T. 0 < deg_of deg w}" by auto
  show ?thesis
  proof (cases "deg_of deg v = 1")
    case True
    then have "v \<in> {w \<in> T. 0 < deg_of deg w}" "v \<notin> {w \<in> T. 0 < deg_of ?deg w}"
      using assms by auto
    then have "{w \<in> T. 0 < deg_of ?deg w} \<subset> {w \<in> T. 0 < deg_of deg w}" using sub by blast
    then have "pending T ?deg < pending T deg"
      unfolding pending_def using assms(1) by (intro psubset_card_mono) auto
    with True show ?thesis by simp
  next
    case False
    then show ?thesis unfolding pending_def using assms(1) sub by (simp add: card_mono)
  qed
qed

lemma relax_pending:
  "relax deg vs = (deg', new) \<Longrightarrow> finite T \<Longrightarrow> set vs \<subseteq> T \<Longrightarrow> pending T deg' + length new \<le> pending T deg"
proof (induction vs arbitrary: deg new)
  case (Cons v vs)
  let ?deg = "gm_put deg v (deg_of deg v - 1)"
  obtain new1 where r: "relax ?deg vs = (deg', new1)"
    and new: "new = (if deg_of deg v = 1 then v # new1 else new1)"
    using Cons.prems(1) by (rule relax_ConsE)
  have "pending T deg' + length new1 \<le> pending T ?deg" using Cons.IH [OF r] Cons.prems(2,3) by simp
  then show ?case using pending_put [of T v deg] Cons.prems(2,3) new by (auto split: if_splits)
qed simp

section \<open>Topological orders and the invariant\<close>

definition topo_order :: "'a set \<Rightarrow> ('a \<Rightarrow> 'a list) \<Rightarrow> 'a list \<Rightarrow> bool" where
  "topo_order V pred ord \<longleftrightarrow> distinct ord \<and> set ord = V \<and>
     (\<forall>xs v ys. ord = xs @ v # ys \<longrightarrow> set (pred v) \<subseteq> set xs)"

definition kahn_inv :: "'a set \<Rightarrow> ('a \<Rightarrow> 'a list) \<Rightarrow> 'a degrees \<Rightarrow> 'a list \<Rightarrow> 'a list \<Rightarrow> bool" where
  "kahn_inv V pred deg done front \<longleftrightarrow>
     distinct (done @ front) \<and> set (done @ front) \<subseteq> V \<and>
     (\<forall>v \<in> V. deg_of deg v = int (length (filter (\<lambda>u. u \<notin> set done) (pred v)))) \<and>
     (\<forall>v \<in> V. v \<in> set (done @ front) \<longleftrightarrow> set (pred v) \<subseteq> set done) \<and>
     (\<forall>xs v ys. done = xs @ v # ys \<longrightarrow> set (pred v) \<subseteq> set xs)"

lemma filter_remove_length:
  "n \<notin> set done \<Longrightarrow>
   length (filter (\<lambda>u. u \<notin> set done) ps) =
     length (filter (\<lambda>u. u \<notin> set (done @ [n])) ps) + count_list ps n"
  by (induction ps) auto

text \<open>When the frontier is empty, everything a topological order could hold has been ordered.\<close>

lemma kahn_exhausted:
  assumes inv: "kahn_inv V pred deg done []" and ord: "topo_order V pred ord"
  shows "topo_order V pred done"
proof -
  have "set ys \<subseteq> set done" if "ord = ys @ zs" for ys zs
    using that
  proof (induction ys arbitrary: zs rule: rev_induct)
    case (snoc v ys)
    then have "set ys \<subseteq> set done" by simp
    moreover have "set (pred v) \<subseteq> set ys" "v \<in> V"
      using ord snoc.prems by (auto simp: topo_order_def)
    ultimately have "v \<in> set done" using inv by (auto simp: kahn_inv_def)
    with \<open>set ys \<subseteq> set done\<close> show ?case by simp
  qed simp
  from this [of ord "[]"] have "V \<subseteq> set done" using ord by (auto simp: topo_order_def)
  then show ?thesis using inv by (auto simp: topo_order_def kahn_inv_def)
qed

lemma kahn_complete_topo: "kahn_inv V pred deg done [] \<Longrightarrow> set done = V \<Longrightarrow> topo_order V pred done"
  by (auto simp: topo_order_def kahn_inv_def)

lemma kahn_inv_length:
  assumes "kahn_inv V pred deg ord []" "finite V"
  shows "length ord = card V \<longleftrightarrow> set ord = V"
proof -
  have "distinct ord" "set ord \<subseteq> V" using assms(1) by (simp_all add: kahn_inv_def)
  then show ?thesis using assms(2) card_subset_eq by (metis distinct_card)
qed

lemma kahn_inv_distinct: "kahn_inv V pred deg ord front \<Longrightarrow> distinct ord"
  by (simp add: kahn_inv_def)

lemma kahn_inv_start:
  assumes "distinct front" "set front = {v \<in> V. pred v = []}"
    and "\<forall>v \<in> V. deg_of deg v = int (length (pred v))"
  shows "kahn_inv V pred deg [] front"
  using assms by (auto simp: kahn_inv_def)

section \<open>The interface between a loop and its maps\<close>

locale counted_graph =
  fixes V :: "'a set" and succ :: "'a \<Rightarrow> 'a list" and pred :: "'a \<Rightarrow> 'a list"
  assumes finite_V: "finite V"
    and succ_V: "set (succ u) \<subseteq> V"
    and counts: "v \<in> V \<Longrightarrow> count_list (succ u) v = count_list (pred v) u"
begin

lemma succ_pred: "v \<in> V \<Longrightarrow> v \<in> set (succ u) \<longleftrightarrow> u \<in> set (pred v)"
  using counts [of v u] by (metis count_list_0_iff)

text \<open>What one relaxation does to the in-degrees and which nodes it discovers.\<close>

lemma relax_facts:
  assumes inv: "kahn_inv V pred deg done front" and n: "n \<in> set front"
    and r: "relax deg (succ n) = (deg', new)"
  shows relax_degrees: "v \<in> V \<Longrightarrow>
      deg_of deg' v = int (length (filter (\<lambda>u. u \<notin> set (done @ [n])) (pred v)))"
    and relax_discovers: "set new = {v \<in> set (succ n). set (pred v) \<subseteq> set (done @ [n])}"
    and relax_distinct: "distinct new"
    and relax_fresh: "set new \<inter> set (done @ front) = {}"
proof -
  have nV: "n \<in> V" "n \<notin> set done" using inv n by (auto simp: kahn_inv_def)
  have deg: "deg_of deg v = int (length (filter (\<lambda>u. u \<notin> set (done @ [n])) (pred v)) + count_list (succ n) v)"
    if "v \<in> V" for v
    using inv that filter_remove_length [OF nV(2), of "pred v"] counts [OF that, of n]
    by (simp add: kahn_inv_def)
  show deg': "deg_of deg' v = int (length (filter (\<lambda>u. u \<notin> set (done @ [n])) (pred v)))" if "v \<in> V" for v
    using relax_deg [OF r, of v] deg [OF that] by simp
  have zero: "deg_of deg' v = 0 \<longleftrightarrow> set (pred v) \<subseteq> set (done @ [n])" if "v \<in> V" for v
    using deg' [OF that] by (auto simp: filter_empty_conv)
  have enough: "\<forall>v \<in> set (succ n). int (count_list (succ n) v) \<le> deg_of deg v"
    using deg succ_V [of n] by (metis int_ops(5) le_add2 of_nat_le_iff subsetD)
  have new: "distinct new" "set new = {v \<in> set (succ n). deg_of deg' v = 0}"
    using relax_new [OF r] enough by auto
  show "distinct new" by (fact new)
  show "set new = {v \<in> set (succ n). set (pred v) \<subseteq> set (done @ [n])}"
    using new(2) zero succ_V [of n] by blast
  show "set new \<inter> set (done @ front) = {}"
  proof (rule equals0I)
    fix v assume v: "v \<in> set new \<inter> set (done @ front)"
    then have "v \<in> V" using new(2) succ_V [of n] by auto
    then have "n \<in> set (pred v)" "set (pred v) \<subseteq> set done"
      using v new(2) succ_pred [of v n] inv by (auto simp: kahn_inv_def)
    then show False using nV(2) by blast
  qed
qed

lemma relax_step:
  assumes inv: "kahn_inv V pred deg done front" and n: "n \<in> set front"
    and r: "relax deg (succ n) = (deg', new)"
    and front': "distinct front'" "set front' = set front - {n} \<union> set new"
  shows "kahn_inv V pred deg' (done @ [n]) front'"
proof -
  note facts = relax_facts [OF inv n r]
  have nV: "n \<in> V" "n \<notin> set done" using inv n by (auto simp: kahn_inv_def)
  have mem: "v \<in> set (done @ front) \<longleftrightarrow> set (pred v) \<subseteq> set done" if "v \<in> V" for v
    using inv that by (simp add: kahn_inv_def)
  have ready: "v \<in> set ((done @ [n]) @ front') \<longleftrightarrow> set (pred v) \<subseteq> set (done @ [n])" if v: "v \<in> V" for v
  proof
    assume "v \<in> set ((done @ [n]) @ front')"
    then have "v \<in> set (done @ front) \<or> v \<in> set new" using front'(2) n by auto
    then show "set (pred v) \<subseteq> set (done @ [n])" using mem [OF v] facts(2) by auto
  next
    assume *: "set (pred v) \<subseteq> set (done @ [n])"
    show "v \<in> set ((done @ [n]) @ front')"
    proof (cases "n \<in> set (pred v)")
      case True
      then have "v \<in> set new" using succ_pred [OF v] facts(2) * by auto
      then show ?thesis using front'(2) by simp
    next
      case False
      then have "v \<in> set (done @ front)" using mem [OF v] * by auto
      then show ?thesis using front'(2) by auto
    qed
  qed
  have "distinct ((done @ [n]) @ front')"
    using inv front' facts(4) nV n by (auto simp: kahn_inv_def)
  moreover have "set ((done @ [n]) @ front') \<subseteq> V"
    using inv front'(2) facts(2) succ_V [of n] nV by (auto simp: kahn_inv_def)
  moreover have "set (pred w) \<subseteq> set xs" if "done @ [n] = xs @ w # ys" for xs w ys
  proof (cases ys rule: rev_cases)
    case Nil
    then show ?thesis using that mem [OF nV(1)] n by auto
  next
    case (snoc zs z)
    then have "done = xs @ w # zs" using that by auto
    then show ?thesis using inv by (auto simp: kahn_inv_def)
  qed
  ultimately show "kahn_inv V pred deg' (done @ [n]) front'"
    using facts(1) ready unfolding kahn_inv_def by blast
qed

end

end
