(* ===== verification/Pipeline_Dag.thy ===== *)
theory Pipeline_Dag
  imports Kahn
begin

text \<open>
  The DAG planner of \<open>pipeline-build-service/internal/domain/engine/dag.go\<close>: \<open>topologicalSort\<close>,
  \<open>reachableNodes\<close>, \<open>executionOrder\<close> and \<open>executionStages\<close>. A node is its id and its
  dependencies, the only fields the planner reads. The two Kahn loops are total functions; the
  contract they implement is \<open>topo_order\<close>.
\<close>

section \<open>Data\<close>

record PipelineNode =
  pn_ID :: string
  pn_DependsOn :: "string list"

datatype dag_error = CycleDetected | StartNodeNotFound string

section \<open>Operations\<close>

text \<open>The first loop of \<open>topologicalSort\<close>: one node, then one dependency at a time.\<close>

fun add_deps :: "string \<Rightarrow> string degrees \<times> string adjacency \<Rightarrow> string list \<Rightarrow>
    string degrees \<times> string adjacency" where
  "add_deps i (deg, adj) [] = (deg, adj)"
| "add_deps i (deg, adj) (dep # deps) =
     add_deps i (gm_put deg i (deg_of deg i + 1), add_edge adj dep i) deps"

definition init_node :: "string degrees \<times> string adjacency \<Rightarrow> PipelineNode \<Rightarrow>
    string degrees \<times> string adjacency" where
  "init_node = (\<lambda>(deg, adj) n.
     add_deps (pn_ID n)
       (if gm_get deg (pn_ID n) = None then gm_put deg (pn_ID n) 0 else deg, ensure_node adj (pn_ID n))
       (pn_DependsOn n))"

definition dag_init :: "PipelineNode list \<Rightarrow> string degrees \<times> string adjacency" where
  "dag_init nodes = foldl init_node ([], []) nodes"

definition zero_frontier :: "string degrees \<Rightarrow> string list" where
  "zero_frontier deg = sort (filter (\<lambda>i. deg_of deg i = 0) (gm_keys deg))"

text \<open>The queue of \<open>topologicalSort\<close> is popped at its end: a stack, kept top first.\<close>

function (sequential) kahn_lifo :: "'a adjacency \<Rightarrow> 'a degrees \<Rightarrow> 'a list \<Rightarrow> 'a list \<Rightarrow> 'a list" where
  "kahn_lifo adj deg [] order = order"
| "kahn_lifo adj deg (n # queue) order =
     (case relax deg (succs adj n) of
        (deg', new) \<Rightarrow> kahn_lifo adj deg' (rev new @ queue) (order @ [n]))"
  by pat_completeness auto
termination
proof (relation "measure (\<lambda>(adj, deg, queue, order). length queue + pending (all_targets adj) deg)",
    goal_cases)
  case (2 adj deg n queue order deg' new)
  then show ?case
    using relax_pending [of deg "succs adj n" deg' new "all_targets adj"] succs_all_targets [of adj n]
    by simp
qed simp

definition topologicalSort :: "PipelineNode list \<Rightarrow> dag_error + string list" where
  "topologicalSort nodes =
     (let (deg, adj) = dag_init nodes;
          order = kahn_lifo adj deg (rev (zero_frontier deg)) []
      in if length order \<noteq> length nodes then Inl CycleDetected else Inr order)"

fun add_dependents :: "string \<Rightarrow> string adjacency \<Rightarrow> string list \<Rightarrow> string adjacency" where
  "add_dependents i adj [] = adj"
| "add_dependents i adj (dep # deps) = add_dependents i (add_edge adj dep i) deps"

definition dependents_map :: "PipelineNode list \<Rightarrow> string adjacency" where
  "dependents_map nodes =
     foldl (\<lambda>adj n. add_dependents (pn_ID n) (ensure_node adj (pn_ID n)) (pn_DependsOn n)) [] nodes"

definition reachableNodes :: "PipelineNode list \<Rightarrow> string \<Rightarrow> string list" where
  "reachableNodes nodes start = stack_reach (dependents_map nodes) [start] []"

definition executionOrder :: "PipelineNode list \<Rightarrow> string option \<Rightarrow> dag_error + string list" where
  "executionOrder nodes startFrom =
     bindE (topologicalSort nodes) (\<lambda>order.
       case startFrom of
         None \<Rightarrow> Inr order
       | Some start \<Rightarrow>
           if start \<notin> pn_ID ` set nodes then Inl (StartNodeNotFound start)
           else let reachable = set (reachableNodes nodes start)
                in Inr (filter (\<lambda>i. i \<in> reachable) order))"

text \<open>The first loop of \<open>executionStages\<close> skips nodes and dependencies outside the reachable set.\<close>

definition stage_node :: "string set \<Rightarrow> string degrees \<times> string adjacency \<Rightarrow> PipelineNode \<Rightarrow>
    string degrees \<times> string adjacency" where
  "stage_node reachable = (\<lambda>(deg, adj) n.
     if pn_ID n \<notin> reachable then (deg, adj)
     else add_deps (pn_ID n)
       (if gm_get deg (pn_ID n) = None then gm_put deg (pn_ID n) 0 else deg, ensure_node adj (pn_ID n))
       (filter (\<lambda>dep. dep \<in> reachable) (pn_DependsOn n)))"

definition stage_init :: "string set \<Rightarrow> PipelineNode list \<Rightarrow> string degrees \<times> string adjacency" where
  "stage_init reachable nodes = foldl (stage_node reachable) ([], []) nodes"

fun run_frontier :: "'a adjacency \<Rightarrow> 'a degrees \<Rightarrow> 'a list \<Rightarrow> 'a degrees \<times> 'a list" where
  "run_frontier adj deg [] = (deg, [])"
| "run_frontier adj deg (i # ids) =
     (let (deg', new) = relax deg (succs adj i);
          (deg'', rest) = run_frontier adj deg' ids
      in (deg'', new @ rest))"

lemma run_frontier_pending:
  "run_frontier adj deg ids = (deg', nxt) \<Longrightarrow>
   pending (all_targets adj) deg' + length nxt \<le> pending (all_targets adj) deg"
proof (induction ids arbitrary: deg nxt)
  case (Cons i ids)
  obtain deg1 new rest where r: "relax deg (succs adj i) = (deg1, new)"
    "run_frontier adj deg1 ids = (deg', rest)" "nxt = new @ rest"
    using Cons.prems by (auto simp: Let_def split: prod.splits)
  then show ?case
    using Cons.IH [OF r(2)] relax_pending [OF r(1), of "all_targets adj"] succs_all_targets [of adj i]
    by simp
qed simp

function (sequential) kahn_waves :: "'a::linorder adjacency \<Rightarrow> 'a degrees \<Rightarrow> 'a list \<Rightarrow> 'a list list" where
  "kahn_waves adj deg [] = []"
| "kahn_waves adj deg frontier =
     (case run_frontier adj deg frontier of
        (deg', nxt) \<Rightarrow> frontier # kahn_waves adj deg' (sort nxt))"
  by pat_completeness auto
termination
proof (relation "measure (\<lambda>(adj, deg, frontier).
    2 * pending (all_targets adj) deg + (if frontier = [] then 0 else 1))", goal_cases)
  case (2 adj deg i ids deg' nxt)
  have "pending (all_targets adj) deg' + length nxt \<le> pending (all_targets adj) deg"
    by (rule run_frontier_pending) (rule 2 [symmetric])
  then show ?case by (cases nxt) (auto simp: insort_not_Nil)
qed simp

definition stage_scope :: "PipelineNode list \<Rightarrow> string option \<Rightarrow> dag_error + string set" where
  "stage_scope nodes startFrom =
     (case startFrom of
        Some start \<Rightarrow>
          if start \<notin> pn_ID ` set nodes then Inl (StartNodeNotFound start)
          else Inr (set (reachableNodes nodes start))
      | None \<Rightarrow> Inr (pn_ID ` set nodes))"

definition executionStages :: "PipelineNode list \<Rightarrow> string option \<Rightarrow> dag_error + string list list" where
  "executionStages nodes startFrom =
     bindE (stage_scope nodes startFrom) (\<lambda>reachable.
       let (deg, adj) = stage_init reachable nodes;
           stages = kahn_waves adj deg (zero_frontier deg)
       in if length (concat stages) \<noteq> card reachable then Inl CycleDetected else Inr stages)"

section \<open>The maps the loops run on\<close>

definition deps_of :: "PipelineNode list \<Rightarrow> string \<Rightarrow> string list" where
  "deps_of nodes v = concat (map pn_DependsOn (filter (\<lambda>n. pn_ID n = v) nodes))"

definition maps_ok :: "string set \<Rightarrow> (string \<Rightarrow> string list) \<Rightarrow> string degrees \<times> string adjacency \<Rightarrow> bool" where
  "maps_ok V pred = (\<lambda>(deg, adj).
     gm_ok deg \<and> set (gm_keys deg) = V \<and>
     (\<forall>v. deg_of deg v = int (length (pred v))) \<and>
     (\<forall>u v. count_list (succs adj u) v = count_list (pred v) u))"

lemma count_list_append [simp]: "count_list (xs @ ys) x = count_list xs x + count_list ys x"
  by (induction xs) auto

lemma add_deps_ok:
  "maps_ok V pred s \<Longrightarrow> i \<in> V \<Longrightarrow>
   maps_ok V (pred(i := pred i @ deps)) (add_deps i s deps)"
proof (induction deps arbitrary: s pred)
  case (Cons dep deps)
  obtain deg adj where s: "s = (deg, adj)" by fastforce
  have "maps_ok V (pred(i := pred i @ [dep])) (gm_put deg i (deg_of deg i + 1), add_edge adj dep i)"
    using Cons.prems s by (auto simp: maps_ok_def insert_absorb)
  moreover have "(pred(i := pred i @ [dep]))(i := (pred(i := pred i @ [dep])) i @ deps)
      = pred(i := pred i @ dep # deps)"
    by (simp add: fun_eq_iff)
  ultimately show ?case
    using Cons.IH [of "pred(i := pred i @ [dep])", OF _ Cons.prems(2)] by (simp only: s add_deps.simps)
next
  case Nil
  then show ?case by (cases s) simp
qed

lemma ensure_ok:
  "maps_ok V pred (deg, adj) \<Longrightarrow>
   maps_ok (insert i V) pred (if gm_get deg i = None then gm_put deg i 0 else deg, ensure_node adj i)"
  by (auto simp: maps_ok_def deg_of_def gm_get_None_iff insert_absorb split: option.splits)

lemma init_node_ok:
  "maps_ok V pred s \<Longrightarrow>
   maps_ok (insert (pn_ID n) V) (pred(pn_ID n := pred (pn_ID n) @ pn_DependsOn n)) (init_node s n)"
  unfolding init_node_def by (cases s) (simp only: prod.case add_deps_ok ensure_ok insertI1)

lemma deps_of_snoc:
  "deps_of (nodes @ [n]) = (deps_of nodes)(pn_ID n := deps_of nodes (pn_ID n) @ pn_DependsOn n)"
  by (auto simp: deps_of_def fun_eq_iff)

lemma dag_init_ok: "maps_ok (pn_ID ` set nodes) (deps_of nodes) (dag_init nodes)"
proof (induction nodes rule: rev_induct)
  case Nil
  show ?case by (simp add: maps_ok_def dag_init_def deps_of_def)
next
  case (snoc n nodes)
  from init_node_ok [OF this, of n] show ?case
    unfolding deps_of_snoc by (simp add: dag_init_def del: fun_upd_apply)
qed

text \<open>The dependencies that count when the plan is restricted to a set of node ids.\<close>

definition deps_in :: "string set \<Rightarrow> PipelineNode list \<Rightarrow> string \<Rightarrow> string list" where
  "deps_in reachable nodes v =
     (if v \<in> reachable then filter (\<lambda>dep. dep \<in> reachable) (deps_of nodes v) else [])"

lemma stage_node_ok:
  assumes "maps_ok (pn_ID ` set nodes \<inter> R) (deps_in R nodes) s"
  shows "maps_ok (pn_ID ` set (nodes @ [n]) \<inter> R) (deps_in R (nodes @ [n])) (stage_node R s n)"
proof (cases "pn_ID n \<in> R")
  case True
  let ?deps = "filter (\<lambda>dep. dep \<in> R) (pn_DependsOn n)"
  have "deps_in R (nodes @ [n]) = (deps_in R nodes)(pn_ID n := deps_in R nodes (pn_ID n) @ ?deps)"
    using True by (auto simp: deps_in_def deps_of_snoc fun_eq_iff)
  moreover have "pn_ID ` set (nodes @ [n]) \<inter> R = insert (pn_ID n) (pn_ID ` set nodes \<inter> R)"
    using True by auto
  ultimately show ?thesis
    using True assms by (cases s) (simp add: stage_node_def add_deps_ok ensure_ok)
next
  case False
  then have "deps_in R (nodes @ [n]) = deps_in R nodes"
    by (auto simp: deps_in_def deps_of_snoc fun_eq_iff)
  with False assms show ?thesis by (cases s) (auto simp: stage_node_def)
qed

lemma stage_init_ok: "maps_ok (pn_ID ` set nodes \<inter> R) (deps_in R nodes) (stage_init R nodes)"
proof (induction nodes rule: rev_induct)
  case Nil
  show ?case by (simp add: maps_ok_def stage_init_def deps_of_def deps_in_def)
next
  case (snoc n nodes)
  from stage_node_ok [OF this, of n] show ?case by (simp add: stage_init_def)
qed

section \<open>The loops\<close>

locale kahn_maps = counted_graph V "succs adj" pred
  for V :: "'a::linorder set" and adj :: "'a adjacency" and pred :: "'a \<Rightarrow> 'a list"
begin

lemma kahn_lifo_inv:
  "kahn_inv V pred deg order queue \<Longrightarrow> \<exists>deg'. kahn_inv V pred deg' (kahn_lifo adj deg queue order) []"
proof (induction "length queue + pending (all_targets adj) deg" arbitrary: deg queue order
    rule: less_induct)
  case less
  show ?case
  proof (cases queue)
    case Nil
    with less.prems show ?thesis by auto
  next
    case (Cons n rest)
    obtain deg' new where r: "relax deg (succs adj n) = (deg', new)" by fastforce
    have n: "n \<in> set queue" using Cons by simp
    note new = relax_distinct [OF less.prems n r] relax_fresh [OF less.prems n r]
    have "distinct queue" using less.prems by (simp add: kahn_inv_def)
    then have "distinct (rev new @ rest)" "set (rev new @ rest) = set queue - {n} \<union> set new"
      using Cons new by auto
    then have "kahn_inv V pred deg' (order @ [n]) (rev new @ rest)"
      by (rule relax_step [OF less.prems n r])
    moreover have "pending (all_targets adj) deg' + length new \<le> pending (all_targets adj) deg"
      using relax_pending [OF r finite_all_targets succs_all_targets] .
    ultimately show ?thesis using less.hyps [of "rev new @ rest" deg' "order @ [n]"] r Cons by simp
  qed
qed

lemma run_frontier_inv:
  "kahn_inv V pred deg fin (ids @ acc) \<Longrightarrow> run_frontier adj deg ids = (deg', nxt) \<Longrightarrow>
   kahn_inv V pred deg' (fin @ ids) (acc @ nxt)"
proof (induction ids arbitrary: deg fin acc nxt)
  case (Cons i ids)
  obtain deg1 new rest where r: "relax deg (succs adj i) = (deg1, new)"
    "run_frontier adj deg1 ids = (deg', rest)" "nxt = new @ rest"
    using Cons.prems(2) by (auto simp: Let_def split: prod.splits)
  have i: "i \<in> set ((i # ids) @ acc)" by simp
  note new = relax_distinct [OF Cons.prems(1) i r(1)] relax_fresh [OF Cons.prems(1) i r(1)]
  have "distinct ((i # ids) @ acc)" using Cons.prems(1) by (simp add: kahn_inv_def)
  then have "distinct (ids @ acc @ new)" "set (ids @ acc @ new) = set ((i # ids) @ acc) - {i} \<union> set new"
    using new by auto
  then have "kahn_inv V pred deg1 (fin @ [i]) (ids @ acc @ new)"
    by (rule relax_step [OF Cons.prems(1) i r(1)])
  from Cons.IH [OF this r(2)] show ?case by (simp add: r(3))
qed simp

text \<open>A wave consists of nodes whose predecessors all belong to earlier waves.\<close>

lemma kahn_waves_inv:
  "kahn_inv V pred deg fin frontier \<Longrightarrow> sorted frontier \<Longrightarrow>
   (\<exists>deg'. kahn_inv V pred deg' (fin @ concat (kahn_waves adj deg frontier)) []) \<and>
   (\<forall>xs st ys. kahn_waves adj deg frontier = xs @ st # ys \<longrightarrow>
      st \<noteq> [] \<and> sorted st \<and> (\<forall>v \<in> set st. set (pred v) \<subseteq> set (fin @ concat xs)))"
proof (induction "2 * pending (all_targets adj) deg + (if frontier = [] then 0 else 1)"
    arbitrary: deg frontier fin rule: less_induct)
  case less
  show ?case
  proof (cases "frontier = []")
    case True
    with less.prems show ?thesis by auto
  next
    case False
    obtain deg' nxt where r: "run_frontier adj deg frontier = (deg', nxt)" by fastforce
    then have waves: "kahn_waves adj deg frontier = frontier # kahn_waves adj deg' (sort nxt)"
      using False by (cases frontier) simp_all
    have "kahn_inv V pred deg' (fin @ frontier) nxt"
      using run_frontier_inv [of deg fin frontier "[]"] less.prems(1) r by simp
    then have inv: "kahn_inv V pred deg' (fin @ frontier) (sort nxt)"
      by (auto simp: kahn_inv_def)
    have "pending (all_targets adj) deg' + length nxt \<le> pending (all_targets adj) deg"
      using r by (rule run_frontier_pending)
    then have dec: "2 * pending (all_targets adj) deg' + (if sort nxt = [] then 0 else 1)
        < 2 * pending (all_targets adj) deg + (if frontier = [] then 0 else 1)"
      using False by (cases nxt) (auto simp: insort_not_Nil)
    note IH = less.hyps [OF dec inv sorted_sort]
    have first: "\<forall>v \<in> set frontier. set (pred v) \<subseteq> set fin"
      using less.prems(1) by (auto simp: kahn_inv_def)
    show ?thesis
    proof (intro conjI allI impI)
      show "\<exists>deg'. kahn_inv V pred deg' (fin @ concat (kahn_waves adj deg frontier)) []"
        using IH waves by simp
    next
      fix xs st ys
      assume "kahn_waves adj deg frontier = xs @ st # ys"
      then consider "xs = []" "st = frontier"
        | xs' where "xs = frontier # xs'" "kahn_waves adj deg' (sort nxt) = xs' @ st # ys"
        by (cases xs) (auto simp: waves)
      then show "st \<noteq> []" "sorted st" "\<forall>v \<in> set st. set (pred v) \<subseteq> set (fin @ concat xs)"
        using IH False less.prems(2) first by (cases; auto)+
    qed
  qed
qed

end

lemma maps_counted:
  assumes "maps_ok V pred (deg, adj)" "finite V" "\<And>v. v \<notin> V \<Longrightarrow> pred v = []"
  shows "kahn_maps V adj pred"
proof
  show "finite V" by fact
  show counts: "count_list (succs adj u) v = count_list (pred v) u" for u v
    using assms(1) by (simp add: maps_ok_def)
  show "set (succs adj u) \<subseteq> V" for u
  proof
    fix v assume "v \<in> set (succs adj u)"
    then have "count_list (pred v) u \<noteq> 0" using counts [of u v] by (metis count_list_0_iff)
    then show "v \<in> V" using assms(3) [of v] by (cases "v \<in> V") auto
  qed
qed

lemma deps_of_outside: "v \<notin> pn_ID ` set nodes \<Longrightarrow> deps_of nodes v = []"
  by (auto simp: deps_of_def)

lemma deps_in_outside: "v \<notin> pn_ID ` set nodes \<inter> R \<Longrightarrow> deps_in R nodes v = []"
  by (auto simp: deps_in_def deps_of_outside)

interpretation dag: kahn_maps "pn_ID ` set nodes" "snd (dag_init nodes)" "deps_of nodes" for nodes
  using dag_init_ok [of nodes]
  by (intro maps_counted [where deg = "fst (dag_init nodes)"]) (auto simp: deps_of_outside)

interpretation stg: kahn_maps "pn_ID ` set nodes \<inter> R" "snd (stage_init R nodes)" "deps_in R nodes" for nodes R
  using stage_init_ok [of nodes R]
  by (intro maps_counted [where deg = "fst (stage_init R nodes)"]) (auto simp: deps_in_outside)

lemma zero_frontier_inv:
  assumes "maps_ok V pred (deg, adj)"
  shows "kahn_inv V pred deg [] (zero_frontier deg)" "sorted (zero_frontier deg)"
    "kahn_inv V pred deg [] (rev (zero_frontier deg))"
proof -
  have "distinct (zero_frontier deg)" "set (zero_frontier deg) = {v \<in> V. pred v = []}"
    "\<forall>v \<in> V. deg_of deg v = int (length (pred v))"
    using assms by (auto simp: maps_ok_def zero_frontier_def gm_keys_distinct)
  then show "kahn_inv V pred deg [] (zero_frontier deg)" "kahn_inv V pred deg [] (rev (zero_frontier deg))"
    by (simp_all add: kahn_inv_start)
  show "sorted (zero_frontier deg)" by (simp add: zero_frontier_def)
qed

lemma topologicalSort_run:
  obtains deg order where "kahn_inv (pn_ID ` set nodes) (deps_of nodes) deg order []"
    "topologicalSort nodes = (if length order \<noteq> length nodes then Inl CycleDetected else Inr order)"
proof -
  obtain deg adj where d: "dag_init nodes = (deg, adj)" by fastforce
  have "kahn_inv (pn_ID ` set nodes) (deps_of nodes) deg [] (rev (zero_frontier deg))"
    using dag_init_ok [of nodes] d by (auto intro: zero_frontier_inv)
  from dag.kahn_lifo_inv [OF this] d show ?thesis
    by (auto simp: topologicalSort_def intro!: that)
qed

lemma card_ids: "card (pn_ID ` set nodes) = length nodes \<longleftrightarrow> distinct (map pn_ID nodes)"
  by (metis card_distinct distinct_card length_map list.set_map)

lemma card_ids_le: "card (pn_ID ` set nodes) \<le> length nodes"
  by (metis card_length length_map list.set_map)

lemma topologicalSort_topo:
  "topologicalSort nodes = Inr order \<Longrightarrow>
   distinct (map pn_ID nodes) \<and> topo_order (pn_ID ` set nodes) (deps_of nodes) order"
proof -
  assume "topologicalSort nodes = Inr order"
  then obtain deg where inv: "kahn_inv (pn_ID ` set nodes) (deps_of nodes) deg order []"
    and len: "length order = length nodes"
    by (rule_tac nodes = nodes in topologicalSort_run) (auto split: if_splits)
  have "card (set order) = length nodes" "set order \<subseteq> pn_ID ` set nodes"
    using inv len by (auto simp: kahn_inv_def distinct_card)
  then have "set order = pn_ID ` set nodes" "card (pn_ID ` set nodes) = length nodes"
    using card_ids_le [of nodes] card_seteq [of "pn_ID ` set nodes" "set order"]
    by auto
  then show ?thesis using inv card_ids kahn_complete_topo by blast
qed

lemma topologicalSort_found:
  assumes "distinct (map pn_ID nodes)" "topo_order (pn_ID ` set nodes) (deps_of nodes) ord"
  shows "\<exists>order. topologicalSort nodes = Inr order"
proof -
  obtain deg order where inv: "kahn_inv (pn_ID ` set nodes) (deps_of nodes) deg order []"
    and run: "topologicalSort nodes = (if length order \<noteq> length nodes then Inl CycleDetected else Inr order)"
    by (rule topologicalSort_run)
  from inv assms(2) have "topo_order (pn_ID ` set nodes) (deps_of nodes) order"
    by (rule kahn_exhausted)
  then have "length order = length nodes"
    using assms(1) card_ids by (metis distinct_card topo_order_def)
  with run show ?thesis by simp
qed

section \<open>Reachability from the start node\<close>

text \<open>\<open>depends nodes\<close>: the pairs of a node id and the id of a node that depends on it directly.\<close>

definition depends :: "PipelineNode list \<Rightarrow> (string \<times> string) set" where
  "depends nodes = {(d, pn_ID n) | n d. n \<in> set nodes \<and> d \<in> set (pn_DependsOn n)}"

lemma succs_add_dependents:
  "set (succs (add_dependents i adj deps) d) = set (succs adj d) \<union> (if d \<in> set deps then {i} else {})"
  by (induction deps arbitrary: adj) auto

lemma edges_dependents_map: "edges (dependents_map nodes) = depends nodes"
proof (induction nodes rule: rev_induct)
  case Nil
  show ?case by (auto simp: dependents_map_def depends_def edges_def)
next
  case (snoc n nodes)
  have "edges (dependents_map (nodes @ [n]))
      = edges (dependents_map nodes) \<union> {(d, pn_ID n) | d. d \<in> set (pn_DependsOn n)}"
    by (auto simp: dependents_map_def edges_def succs_add_dependents split: if_splits)
  then show ?case using snoc by (auto simp: depends_def)
qed

lemma reachableNodes_set: "set (reachableNodes nodes start) = (depends nodes)\<^sup>* `` {start}"
  unfolding reachableNodes_def stack_reach_reachable edges_dependents_map ..

lemma reachable_ids:
  assumes "start \<in> pn_ID ` set nodes"
  shows "(depends nodes)\<^sup>* `` {start} \<subseteq> pn_ID ` set nodes"
proof -
  have "(start, y) \<in> (depends nodes)\<^sup>* \<Longrightarrow> y \<in> pn_ID ` set nodes" for y
    by (induction rule: rtrancl_induct) (use assms in \<open>auto simp: depends_def\<close>)
  then show ?thesis by auto
qed

lemma stage_scope_ids: "stage_scope nodes startFrom = Inr R \<Longrightarrow> R \<subseteq> pn_ID ` set nodes"
  using reachable_ids
  by (cases startFrom) (auto simp: stage_scope_def reachableNodes_set simp del: Image_singleton_iff
      split: if_splits)

lemma filter_split:
  "filter P l = xs @ v # ys \<Longrightarrow> \<exists>as bs. l = as @ v # bs \<and> filter P as = xs"
proof (induction l arbitrary: xs)
  case (Cons a l)
  show ?case
  proof (cases "P a")
    case True
    with Cons.prems consider "xs = []" "a = v" | xs' where "xs = a # xs'" "filter P l = xs' @ v # ys"
      by (cases xs) auto
    then show ?thesis
    proof cases
      case 1
      then have "a # l = [] @ v # l \<and> filter P [] = xs" by simp
      then show ?thesis by blast
    next
      case 2
      with Cons.IH obtain as bs where "l = as @ v # bs" "filter P as = xs'" by blast
      with True 2 have "a # l = (a # as) @ v # bs \<and> filter P (a # as) = xs" by simp
      then show ?thesis by blast
    qed
  next
    case False
    with Cons obtain as bs where "l = as @ v # bs" "filter P as = xs" by auto
    with False have "a # l = (a # as) @ v # bs \<and> filter P (a # as) = xs" by simp
    then show ?thesis by blast
  qed
qed simp

lemma topo_order_restrict:
  assumes ord: "topo_order (pn_ID ` set nodes) (deps_of nodes) ord" and R: "R \<subseteq> pn_ID ` set nodes"
  shows "topo_order R (deps_in R nodes) (filter (\<lambda>i. i \<in> R) ord)"
proof -
  have "set (deps_in R nodes v) \<subseteq> set xs" if split: "filter (\<lambda>i. i \<in> R) ord = xs @ v # ys" for xs v ys
  proof -
    obtain as bs where as: "ord = as @ v # bs" "filter (\<lambda>i. i \<in> R) as = xs"
      using filter_split [OF split] by blast
    then have "set (deps_of nodes v) \<subseteq> set as" using ord unfolding topo_order_def by blast
    then show ?thesis using as(2) by (auto simp: deps_in_def)
  qed
  then show ?thesis using ord R by (auto simp: topo_order_def)
qed

lemma executionStages_run:
  assumes "stage_scope nodes startFrom = Inr R"
  obtains deg stages where "kahn_inv R (deps_in R nodes) deg (concat stages) []"
    "\<And>xs st ys. stages = xs @ st # ys \<Longrightarrow>
       st \<noteq> [] \<and> sorted st \<and> (\<forall>v \<in> set st. set (deps_in R nodes v) \<subseteq> set (concat xs))"
    "executionStages nodes startFrom =
       (if length (concat stages) \<noteq> card R then Inl CycleDetected else Inr stages)"
proof -
  obtain deg adj where d: "stage_init R nodes = (deg, adj)" by fastforce
  have R: "pn_ID ` set nodes \<inter> R = R" using stage_scope_ids [OF assms] by blast
  have ok: "maps_ok R (deps_in R nodes) (deg, adj)"
    using stage_init_ok [of nodes R] d R by simp
  let ?stages = "kahn_waves adj deg (zero_frontier deg)"
  have waves: "\<exists>deg'. kahn_inv R (deps_in R nodes) deg' (concat ?stages) []"
    "\<forall>xs st ys. ?stages = xs @ st # ys \<longrightarrow>
       st \<noteq> [] \<and> sorted st \<and> (\<forall>v \<in> set st. set (deps_in R nodes v) \<subseteq> set (concat xs))"
    using stg.kahn_waves_inv [of nodes R deg "[]" "zero_frontier deg"] zero_frontier_inv [OF ok] d R
    by simp_all
  then obtain deg' where inv: "kahn_inv R (deps_in R nodes) deg' (concat ?stages) []" by blast
  have "executionStages nodes startFrom =
      (if length (concat ?stages) \<noteq> card R then Inl CycleDetected else Inr ?stages)"
    using assms d by (simp add: executionStages_def)
  with inv waves(2) show ?thesis using that by blast
qed

section \<open>Properties\<close>

text \<open>
  C31. \<open>topologicalSort\<close>: an order it returns lists every node exactly once, each after all of its
  dependencies; in particular the node ids were distinct and every dependency known.
\<close>

theorem topologicalSort_sound:
  assumes "topologicalSort nodes = Inr order"
  shows "distinct (map pn_ID nodes) \<and> distinct order \<and> set order = pn_ID ` set nodes \<and>
    (\<forall>xs v ys. order = xs @ v # ys \<longrightarrow> set (deps_of nodes v) \<subseteq> set xs)"
  using topologicalSort_topo [OF assms] by (simp add: topo_order_def)

definition dag_diamond :: "PipelineNode list" where
  "dag_diamond =
     [\<lparr>pn_ID = ''d'', pn_DependsOn = [''b'', ''c'']\<rparr>, \<lparr>pn_ID = ''a'', pn_DependsOn = []\<rparr>,
      \<lparr>pn_ID = ''b'', pn_DependsOn = [''a'']\<rparr>, \<lparr>pn_ID = ''c'', pn_DependsOn = [''a'']\<rparr>]"

theorem topologicalSort_sound_witness:
  "set [''a'', ''c'', ''b'', ''d''] = pn_ID ` set dag_diamond"
proof -
  have "topologicalSort dag_diamond = Inr [''a'', ''c'', ''b'', ''d'']" by code_simp
  from topologicalSort_sound [OF this] show ?thesis by blast
qed

text \<open>
  C32. \<open>topologicalSort\<close> reports a cycle exactly if no order exists: it never rejects a list of nodes
  with distinct ids that can be ordered.
\<close>

theorem topologicalSort_error:
  "topologicalSort nodes = Inl e \<longleftrightarrow>
     e = CycleDetected \<and>
     \<not> (distinct (map pn_ID nodes) \<and> (\<exists>ord. topo_order (pn_ID ` set nodes) (deps_of nodes) ord))"
proof (cases "topologicalSort nodes")
  case (Inl e')
  have "e' = CycleDetected"
    using Inl by (auto simp: topologicalSort_def Let_def split: prod.splits if_splits)
  with Inl topologicalSort_found [of nodes] show ?thesis by auto
next
  case (Inr order)
  with topologicalSort_topo [OF Inr] show ?thesis by auto
qed

text \<open>
  \<open>executionOrder\<close> with a start node lists exactly the node and its transitive dependents, each
  after those of its dependencies that are listed.
\<close>

theorem executionOrder_downstream:
  assumes "executionOrder nodes (Some start) = Inr order"
  shows "topo_order ((depends nodes)\<^sup>* `` {start})
     (deps_in ((depends nodes)\<^sup>* `` {start}) nodes) order"
proof -
  obtain ord where ord: "topologicalSort nodes = Inr ord" and start: "start \<in> pn_ID ` set nodes"
    and order: "order = filter (\<lambda>i. i \<in> (depends nodes)\<^sup>* `` {start}) ord"
    using assms by (auto simp: executionOrder_def bindE_Inr_iff Let_def reachableNodes_set split: if_splits)
  show ?thesis
    unfolding order
    using topologicalSort_topo [OF ord] reachable_ids [OF start] by (intro topo_order_restrict) auto
qed

theorem executionOrder_downstream_witness:
  "topo_order ((depends dag_diamond)\<^sup>* `` {''b''})
     (deps_in ((depends dag_diamond)\<^sup>* `` {''b''}) dag_diamond) [''b'', ''d'']"
  by (rule executionOrder_downstream) code_simp

text \<open>
  \<open>executionStages\<close>: the stages partition the nodes in scope (all of them, or the start node
  and its transitive dependents); no stage is empty, each is sorted, and a node's dependencies in
  scope all lie in earlier stages, so the nodes of one stage can run in parallel.
\<close>

theorem executionStages_sound:
  assumes "executionStages nodes startFrom = Inr stages"
  shows "\<exists>R. stage_scope nodes startFrom = Inr R \<and> distinct (concat stages) \<and> set (concat stages) = R \<and>
    (\<forall>xs st ys. stages = xs @ st # ys \<longrightarrow>
       st \<noteq> [] \<and> sorted st \<and> (\<forall>v \<in> set st. set (deps_in R nodes v) \<subseteq> set (concat xs)))"
proof -
  obtain R where R: "stage_scope nodes startFrom = Inr R"
    using assms by (auto simp: executionStages_def bindE_Inr_iff)
  obtain deg where inv: "kahn_inv R (deps_in R nodes) deg (concat stages) []"
    and st: "\<And>xs st ys. stages = xs @ st # ys \<Longrightarrow>
       st \<noteq> [] \<and> sorted st \<and> (\<forall>v \<in> set st. set (deps_in R nodes v) \<subseteq> set (concat xs))"
    and len: "length (concat stages) = card R"
    by (rule executionStages_run [OF R]) (use assms in \<open>auto split: if_splits\<close>)
  have "finite R" using stage_scope_ids [OF R] by (auto intro: finite_subset)
  then have "set (concat stages) = R" using kahn_inv_length [OF inv] len by blast
  with R st kahn_inv_distinct [OF inv] show ?thesis by blast
qed

theorem executionStages_sound_witness:
  "\<exists>R. stage_scope dag_diamond None = Inr R \<and> set (concat [[''a''], [''b'', ''c''], [''d'']]) = R"
proof -
  have "executionStages dag_diamond None = Inr [[''a''], [''b'', ''c''], [''d'']]" by code_simp
  from executionStages_sound [OF this] show ?thesis by blast
qed

text \<open>
  \<open>executionStages\<close> reports a cycle exactly if the nodes in scope cannot be ordered.
\<close>

theorem executionStages_error:
  "executionStages nodes startFrom = Inl CycleDetected \<longleftrightarrow>
     (\<exists>R. stage_scope nodes startFrom = Inr R \<and> (\<nexists>ord. topo_order R (deps_in R nodes) ord))"
proof (cases "stage_scope nodes startFrom")
  case (Inl e)
  then show ?thesis
    by (auto simp: executionStages_def stage_scope_def split: option.splits if_splits)
next
  case (Inr R)
  obtain deg stages where inv: "kahn_inv R (deps_in R nodes) deg (concat stages) []"
    and run: "executionStages nodes startFrom =
       (if length (concat stages) \<noteq> card R then Inl CycleDetected else Inr stages)"
    by (rule executionStages_run [OF Inr])
  have "finite R" using stage_scope_ids [OF Inr] by (auto intro: finite_subset)
  then have "length (concat stages) = card R \<longleftrightarrow> set (concat stages) = R"
    using kahn_inv_length [OF inv] by blast
  moreover have "set (concat stages) = R \<longleftrightarrow> (\<exists>ord. topo_order R (deps_in R nodes) ord)"
    using kahn_exhausted [OF inv] kahn_complete_topo [OF inv] unfolding topo_order_def by blast
  ultimately show ?thesis using Inr run by auto
qed

text \<open>
  The two planners disagree on a dependency that names no node: the order planner calls it a cycle,
  the stage planner ignores it.
\<close>

lemma planners_disagree:
  "topologicalSort [\<lparr>pn_ID = ''a'', pn_DependsOn = [''ghost'']\<rparr>] = Inl CycleDetected"
  "executionStages [\<lparr>pn_ID = ''a'', pn_DependsOn = [''ghost'']\<rparr>] None = Inr [[''a'']]"
  by code_simp+

end
