(* ===== verification/Lifecycle.thy ===== *)
theory Lifecycle
  imports Prelude
begin

text \<open>
  Job states of the build service (\<open>pipeline-build-service/internal/models/job.go\<close> and
  \<open>internal/domain/joblifecycle/joblifecycle.go\<close>): the lifecycle diagram, and the row update with
  its audit insert in one database transaction. The locales state what a transition table promises;
  \<open>lifecycle\<close> is interpreted for the job states here and for automation runs in \<open>Automation_Run\<close>,
  \<open>ranked_lifecycle\<close>, which adds that no state is entered twice, for the job states.
  Database failures are part of the model: every statement takes an optional fault.
\<close>

section \<open>Transition tables\<close>

locale lifecycle =
  fixes valid :: "'s \<Rightarrow> 's \<Rightarrow> bool" and terminal :: "'s \<Rightarrow> bool"
  assumes terminal_final: "terminal s \<Longrightarrow> valid s t \<Longrightarrow> s = t"
begin

lemma terminal_stays: "valid\<^sup>*\<^sup>* s t \<Longrightarrow> terminal s \<Longrightarrow> s = t"
  by (induction rule: rtranclp_induct) (auto dest: terminal_final)

end

text \<open>A trail of recorded transitions from one state to another.\<close>

fun trail_ok :: "('s \<Rightarrow> 's \<Rightarrow> bool) \<Rightarrow> 's \<Rightarrow> ('s \<times> 's) list \<Rightarrow> 's \<Rightarrow> bool" where
  "trail_ok valid s [] t \<longleftrightarrow> s = t"
| "trail_ok valid s ((a, b) # tr) t \<longleftrightarrow> a = s \<and> valid a b \<and> trail_ok valid b tr t"

lemma trail_ok_append:
  "trail_ok valid s (tr @ tr') t \<longleftrightarrow> (\<exists>u. trail_ok valid s tr u \<and> trail_ok valid u tr' t)"
  by (induction valid s tr t rule: trail_ok.induct) auto

locale ranked_lifecycle = lifecycle valid terminal
  for valid :: "'s \<Rightarrow> 's \<Rightarrow> bool" and terminal :: "'s \<Rightarrow> bool" +
  fixes rank :: "'s \<Rightarrow> nat"
  assumes rank_less: "valid s t \<Longrightarrow> rank s < rank t"
begin

lemma trail_bound: "trail_ok valid s tr t \<Longrightarrow> rank s + length tr \<le> rank t"
proof (induction tr arbitrary: s)
  case (Cons ab tr)
  then show ?case by (cases ab) (fastforce dest!: rank_less)
qed simp

lemma trail_to_terminal: "trail_ok valid s tr t \<Longrightarrow> terminal s \<Longrightarrow> tr = []"
  using rank_less terminal_final by (cases tr) (auto, fastforce)

end

section \<open>Job states\<close>

datatype JobState = JobWaiting | JobRunPending | JobRunning | JobAbortPending
  | JobAborted | JobFailed | JobCompleted

fun job_state_string :: "JobState \<Rightarrow> string" where
  "job_state_string JobWaiting = ''WAITING''"
| "job_state_string JobRunPending = ''RUN_PENDING''"
| "job_state_string JobRunning = ''RUNNING''"
| "job_state_string JobAbortPending = ''ABORT_PENDING''"
| "job_state_string JobAborted = ''ABORTED''"
| "job_state_string JobFailed = ''FAILED''"
| "job_state_string JobCompleted = ''COMPLETED''"

definition AllJobStates :: "JobState list" where
  "AllJobStates = [JobWaiting, JobRunPending, JobRunning, JobAbortPending, JobAborted, JobFailed, JobCompleted]"

definition JobState_IsTerminal :: "JobState \<Rightarrow> bool" where
  "JobState_IsTerminal s \<longleftrightarrow> s = JobAborted \<or> s = JobFailed \<or> s = JobCompleted"

datatype job_error =
    ErrNotFound uuid
  | ErrInvalidTransition JobState JobState
  | UnknownJobState string
  | JobDbError string

definition ParseJobState :: "string \<Rightarrow> job_error + JobState" where
  "ParseJobState s =
     (case List.find (\<lambda>candidate. job_state_string candidate = s) AllJobStates of
        Some candidate \<Rightarrow> Inr candidate
      | None \<Rightarrow> Inl (UnknownJobState s))"

definition IsValidTransition :: "JobState \<Rightarrow> JobState \<Rightarrow> bool" where
  "IsValidTransition from to \<longleftrightarrow>
     (from, to) \<in> {(JobWaiting, JobRunPending), (JobWaiting, JobAborted), (JobWaiting, JobAbortPending),
       (JobRunPending, JobRunning), (JobRunPending, JobAbortPending), (JobRunPending, JobFailed),
       (JobRunning, JobCompleted), (JobRunning, JobFailed), (JobRunning, JobAbortPending),
       (JobAbortPending, JobAborted)}"

section \<open>The row update and its audit record\<close>

record job_row =
  jr_state :: string
  jr_state_changed_at :: instant

record transition_row =
  tr_job_id :: uuid
  tr_from_state :: JobState
  tr_to_state :: JobState
  tr_reason :: "string option"

record jobs_db =
  jobs :: "(uuid, job_row) gomap"
  job_state_transitions :: "transition_row list"

record tx_faults =
  f_begin :: "string option"
  f_select :: "string option"
  f_update :: "string option"
  f_insert :: "string option"
  f_commit :: "string option"

definition TransitionJobInTx ::
  "tx_faults \<Rightarrow> instant \<Rightarrow> jobs_db \<Rightarrow> uuid \<Rightarrow> JobState option \<Rightarrow> JobState \<Rightarrow> string option \<Rightarrow>
   (job_error + JobState) \<times> jobs_db" where
  "TransitionJobInTx f now db jobID expectedFrom to reason =
     (case f_select f of
        Some e \<Rightarrow> (Inl (JobDbError e), db)
      | None \<Rightarrow>
     (case gm_get (jobs db) jobID of
        None \<Rightarrow> (Inl (ErrNotFound jobID), db)
      | Some row \<Rightarrow>
     (case ParseJobState (jr_state row) of
        Inl e \<Rightarrow> (Inl e, db)
      | Inr from \<Rightarrow>
        if expectedFrom \<noteq> None \<and> expectedFrom \<noteq> Some from then (Inl (ErrInvalidTransition from to), db)
        else if from = to then (Inr from, db)
        else if \<not> IsValidTransition from to then (Inl (ErrInvalidTransition from to), db)
        else
     (case f_update f of
        Some e \<Rightarrow> (Inl (JobDbError e), db)
      | None \<Rightarrow>
        let db1 = db\<lparr>jobs := gm_put (jobs db) jobID
                      \<lparr>jr_state = job_state_string to, jr_state_changed_at = now\<rparr>\<rparr>
        in
     (case f_insert f of
        Some e \<Rightarrow> (Inl (JobDbError e), db1)
      | None \<Rightarrow>
        (Inr from, db1\<lparr>job_state_transitions := job_state_transitions db1 @
           [\<lparr>tr_job_id = jobID, tr_from_state = from, tr_to_state = to, tr_reason = reason\<rparr>]\<rparr>))))))"

text \<open>The wrapper: a failed call rolls back to the state before the transaction.\<close>

definition TransitionJob ::
  "tx_faults \<Rightarrow> instant \<Rightarrow> jobs_db \<Rightarrow> uuid \<Rightarrow> JobState option \<Rightarrow> JobState \<Rightarrow> string option \<Rightarrow>
   (job_error + JobState) \<times> jobs_db" where
  "TransitionJob f now db jobID expectedFrom to reason =
     (case f_begin f of
        Some e \<Rightarrow> (Inl (JobDbError e), db)
      | None \<Rightarrow>
     (case TransitionJobInTx f now db jobID expectedFrom to reason of
        (Inl e, _) \<Rightarrow> (Inl e, db)
      | (Inr from, db') \<Rightarrow>
          (case f_commit f of
             Some e \<Rightarrow> (Inl (JobDbError e), db)
           | None \<Rightarrow> (Inr from, db'))))"

section \<open>The audit trail\<close>

definition trail_of :: "jobs_db \<Rightarrow> uuid \<Rightarrow> (JobState \<times> JobState) list" where
  "trail_of db j = map (\<lambda>t. (tr_from_state t, tr_to_state t))
     (filter (\<lambda>t. tr_job_id t = j) (job_state_transitions db))"

text \<open>
  \<open>jobs.state\<close> and \<open>job_state_transitions\<close> agree: the recorded transitions of a job lead, edge by
  edge of the diagram, from WAITING to the state in its row.
\<close>

definition jobs_in_sync :: "jobs_db \<Rightarrow> bool" where
  "jobs_in_sync db \<longleftrightarrow>
     (\<forall>j row. gm_get (jobs db) j = Some row \<longrightarrow>
        (\<exists>s. ParseJobState (jr_state row) = Inr s \<and> trail_ok IsValidTransition JobWaiting (trail_of db j) s))"

lemma ParseJobState_string [simp]: "ParseJobState (job_state_string s) = Inr s"
  by (cases s) (simp_all add: ParseJobState_def AllJobStates_def)

lemma ParseJobState_Inr: "ParseJobState str = Inr s \<Longrightarrow> str = job_state_string s"
  by (auto simp: ParseJobState_def find_Some_iff split: option.splits)

fun job_rank :: "JobState \<Rightarrow> nat" where
  "job_rank JobWaiting = 0"
| "job_rank JobRunPending = 1"
| "job_rank JobRunning = 2"
| "job_rank JobAbortPending = 3"
| "job_rank JobAborted = 4"
| "job_rank JobFailed = 3"
| "job_rank JobCompleted = 3"

interpretation job: ranked_lifecycle IsValidTransition JobState_IsTerminal job_rank
  by unfold_locales (auto simp: IsValidTransition_def JobState_IsTerminal_def)

text \<open>The one way a call changes the database.\<close>

definition moved_db :: "instant \<Rightarrow> jobs_db \<Rightarrow> uuid \<Rightarrow> JobState \<Rightarrow> JobState \<Rightarrow> string option \<Rightarrow> jobs_db" where
  "moved_db now db j frm to reason =
     db\<lparr>jobs := gm_put (jobs db) j \<lparr>jr_state = job_state_string to, jr_state_changed_at = now\<rparr>,
        job_state_transitions := job_state_transitions db @
          [\<lparr>tr_job_id = j, tr_from_state = frm, tr_to_state = to, tr_reason = reason\<rparr>]\<rparr>"

lemma TransitionJobInTx_Inr:
  "TransitionJobInTx f now db j ef to reason = (Inr frm, db') \<Longrightarrow>
   db' = db \<or> (\<exists>row. gm_get (jobs db) j = Some row \<and> ParseJobState (jr_state row) = Inr frm \<and>
     IsValidTransition frm to \<and> (ef = None \<or> ef = Some frm) \<and> db' = moved_db now db j frm to reason)"
  by (auto simp: TransitionJobInTx_def moved_db_def Let_def split: option.splits sum.splits if_splits)

lemma TransitionJob_cases:
  obtains (unchanged) "snd (TransitionJob f now db j ef to reason) = db"
  | (moved) frm row where "gm_get (jobs db) j = Some row" "ParseJobState (jr_state row) = Inr frm"
      "IsValidTransition frm to" "snd (TransitionJob f now db j ef to reason) = moved_db now db j frm to reason"
proof (cases "TransitionJobInTx f now db j ef to reason")
  case (Pair r db')
  show thesis
  proof (cases r)
    case (Inl e)
    with Pair unchanged show thesis by (simp add: TransitionJob_def split: option.splits)
  next
    case (Inr frm)
    with Pair have "TransitionJobInTx f now db j ef to reason = (Inr frm, db')" by simp
    from TransitionJobInTx_Inr [OF this] Pair Inr show thesis
      using unchanged moved by (fastforce simp: TransitionJob_def split: option.splits)
  qed
qed

lemma trail_of_moved:
  "trail_of (moved_db now db j frm to reason) k
   = (if k = j then trail_of db j @ [(frm, to)] else trail_of db k)"
  by (simp add: trail_of_def moved_db_def)

lemma jobs_moved:
  "gm_get (jobs (moved_db now db j frm to reason)) k
   = (if k = j then Some \<lparr>jr_state = job_state_string to, jr_state_changed_at = now\<rparr> else gm_get (jobs db) k)"
  by (simp add: moved_db_def)

section \<open>Properties\<close>

text \<open>
  C33. A call of \<open>TransitionJob\<close>, whatever its arguments and whichever statement fails, keeps the job
  rows and the audit table in step: every job's recorded transitions form a path of the lifecycle
  diagram from WAITING to its current state.
\<close>

theorem TransitionJob_in_sync:
  assumes "jobs_in_sync db"
  shows "jobs_in_sync (snd (TransitionJob f now db j ef to reason))"
proof (cases rule: TransitionJob_cases [of f now db j ef to reason])
  case unchanged
  with assms show ?thesis by simp
next
  case (moved frm row)
  have "trail_ok IsValidTransition JobWaiting (trail_of db j) frm"
    using assms moved(1,2) by (fastforce simp: jobs_in_sync_def)
  then have "trail_ok IsValidTransition JobWaiting (trail_of db j @ [(frm, to)]) to"
    using moved(3) by (auto simp: trail_ok_append)
  with assms show ?thesis
    unfolding moved(4) jobs_in_sync_def trail_of_moved jobs_moved by auto
qed

definition jobs_db1 :: jobs_db where
  "jobs_db1 = \<lparr>jobs = [(1, \<lparr>jr_state = ''WAITING'', jr_state_changed_at = 0\<rparr>)], job_state_transitions = []\<rparr>"

definition no_faults :: tx_faults where
  "no_faults = \<lparr>f_begin = None, f_select = None, f_update = None, f_insert = None, f_commit = None\<rparr>"

lemma jobs_db1_in_sync: "jobs_in_sync jobs_db1"
  by (auto simp: jobs_in_sync_def jobs_db1_def gm_get_def trail_of_def ParseJobState_def AllJobStates_def)

theorem TransitionJob_in_sync_witness:
  "jobs_in_sync (snd (TransitionJob no_faults 5 jobs_db1 1 None JobRunPending None)) \<and>
   trail_of (snd (TransitionJob no_faults 5 jobs_db1 1 None JobRunPending None)) 1 = [(JobWaiting, JobRunPending)]"
  using TransitionJob_in_sync [OF jobs_db1_in_sync, of no_faults 5 1 None JobRunPending None]
  by (simp add: TransitionJob_def TransitionJobInTx_def no_faults_def jobs_db1_def gm_get_def
      ParseJobState_def AllJobStates_def IsValidTransition_def trail_of_def)

text \<open>
  A job that has reached ABORTED, FAILED or COMPLETED never leaves it: no call changes its row or
  its trail.
\<close>

theorem TransitionJob_terminal:
  assumes "gm_get (jobs db) k = Some row" "ParseJobState (jr_state row) = Inr s" "JobState_IsTerminal s"
  shows "gm_get (jobs (snd (TransitionJob f now db j ef to reason))) k = Some row \<and>
    trail_of (snd (TransitionJob f now db j ef to reason)) k = trail_of db k"
proof (cases rule: TransitionJob_cases [of f now db j ef to reason])
  case unchanged
  with assms show ?thesis by simp
next
  case (moved frm row')
  have "k \<noteq> j"
  proof
    assume "k = j"
    then have "IsValidTransition s to" using assms moved by simp
    then show False using assms(3) job.rank_less job.terminal_final by fastforce
  qed
  then show ?thesis unfolding moved(4) trail_of_moved jobs_moved using assms(1) by simp
qed

theorem TransitionJob_terminal_witness:
  "gm_get (jobs (snd (TransitionJob no_faults 5
     (jobs_db1\<lparr>jobs := [(1, \<lparr>jr_state = ''ABORTED'', jr_state_changed_at = 0\<rparr>)]\<rparr>) 1 None JobRunning None))) 1
   = Some \<lparr>jr_state = ''ABORTED'', jr_state_changed_at = 0\<rparr>"
proof -
  let ?db = "jobs_db1\<lparr>jobs := [(1, \<lparr>jr_state = ''ABORTED'', jr_state_changed_at = 0\<rparr>)]\<rparr>"
  have "gm_get (jobs ?db) 1 = Some \<lparr>jr_state = ''ABORTED'', jr_state_changed_at = 0\<rparr>"
    by (simp add: gm_get_def)
  moreover have "ParseJobState ''ABORTED'' = Inr JobAborted"
    by (simp add: ParseJobState_def AllJobStates_def)
  ultimately show ?thesis
    using TransitionJob_terminal [of ?db 1 _ JobAborted no_faults 5 1 None JobRunning None]
    by (simp add: JobState_IsTerminal_def)
qed

text \<open>
  The diagram has no loops: the audit trail of a job holds at most four transitions.
\<close>

theorem job_trail_bound:
  assumes "jobs_in_sync db" "gm_get (jobs db) j = Some row"
  shows "length (trail_of db j) \<le> 4"
proof -
  obtain s where "trail_ok IsValidTransition JobWaiting (trail_of db j) s"
    using assms by (auto simp: jobs_in_sync_def)
  from job.trail_bound [OF this] show ?thesis by (cases s) simp_all
qed

theorem job_trail_bound_witness: "length (trail_of jobs_db1 1) \<le> 4"
  by (rule job_trail_bound [OF jobs_db1_in_sync]) (simp add: jobs_db1_def gm_get_def)

end
