(* ===== verification/State_Store.thy ===== *)
theory State_Store
  imports Prelude "HOL-Library.Multiset"
begin

text \<open>
  The optimistic-concurrency store of \<open>libs/state-machine/state_machine.go\<close>: \<open>PgStore\<close> with
  \<open>Insert\<close>, \<open>Load\<close>, \<open>Apply\<close> and \<open>TimeoutSweep\<close>, and the retry loop \<open>WithRetry\<close>. The machine
  type is a parameter, as in the Go generics: \<open>aggregate\<close> holds the methods of the \<open>Aggregate\<close>
  interface and the JSON codec of the machine. \<open>Apply\<close> mutates the loaded machine in place before
  it writes, so its model also returns the machine the caller is left with. Statements take an
  optional database fault. The locale \<open>aggregate_ok\<close> is the contract of the interface; inside it the
  store is shown to serialise concurrent writers.
\<close>

section \<open>Data\<close>

record ('m, 'e, 'p) aggregate =
  ag_Apply :: "'m \<Rightarrow> 'e \<Rightarrow> string option \<times> 'm"
  ag_CurrentState :: "'m \<Rightarrow> string"
  ag_AggregateID :: "'m \<Rightarrow> uuid"
  ag_ExpiresAt :: "'m \<Rightarrow> instant option"
  ag_Marshal :: "'m \<Rightarrow> string + 'p"
  ag_Unmarshal :: "'p \<Rightarrow> string + 'm"

datatype sm_error =
    TransitionError string
  | StaleError uuid int
  | NotFoundError uuid
  | InvalidStateError uuid string
  | SerializeError string
  | StoreError string

record 'm Loaded =
  ld_Machine :: 'm
  ld_Version :: int

record 'p sm_row =
  sr_state :: string
  sr_state_data :: 'p
  sr_version :: int
  sr_expires_at :: "instant option"

type_synonym 'p sm_table = "(uuid, 'p sm_row) gomap"

fun IsStale :: "sm_error \<Rightarrow> bool" where
  "IsStale (StaleError _ _) = True"
| "IsStale _ = False"

section \<open>Operations\<close>

definition sm_Insert ::
  "('m, 'e, 'p) aggregate \<Rightarrow> string option \<Rightarrow> 'p sm_table \<Rightarrow> 'm \<Rightarrow> (sm_error + 'm Loaded) \<times> 'p sm_table" where
  "sm_Insert ag fault tbl m =
     (case ag_Marshal ag m of
        Inl e \<Rightarrow> (Inl (SerializeError e), tbl)
      | Inr payload \<Rightarrow>
     (case fault of
        Some e \<Rightarrow> (Inl (StoreError e), tbl)
      | None \<Rightarrow>
        if gm_get tbl (ag_AggregateID ag m) \<noteq> None then (Inl (StoreError ''duplicate key''), tbl)
        else (Inr \<lparr>ld_Machine = m, ld_Version = 1\<rparr>,
              gm_put tbl (ag_AggregateID ag m)
                \<lparr>sr_state = ag_CurrentState ag m, sr_state_data = payload, sr_version = 1,
                 sr_expires_at = ag_ExpiresAt ag m\<rparr>)))"

definition sm_Load ::
  "('m, 'e, 'p) aggregate \<Rightarrow> string option \<Rightarrow> 'p sm_table \<Rightarrow> uuid \<Rightarrow> sm_error + 'm Loaded" where
  "sm_Load ag fault tbl i =
     (case fault of
        Some e \<Rightarrow> Inl (StoreError e)
      | None \<Rightarrow>
     (case gm_get tbl i of
        None \<Rightarrow> Inl (NotFoundError i)
      | Some row \<Rightarrow>
     (case ag_Unmarshal ag (sr_state_data row) of
        Inl e \<Rightarrow> Inl (InvalidStateError i e)
      | Inr m \<Rightarrow> Inr \<lparr>ld_Machine = m, ld_Version = sr_version row\<rparr>)))"

text \<open>The third component is the machine the caller's \<open>Loaded\<close> points to afterwards.\<close>

definition sm_Apply ::
  "('m, 'e, 'p) aggregate \<Rightarrow> string option \<Rightarrow> 'p sm_table \<Rightarrow> 'm Loaded \<Rightarrow> 'e \<Rightarrow>
   (sm_error + 'm Loaded) \<times> 'p sm_table \<times> 'm" where
  "sm_Apply ag fault tbl loaded event =
     (let i = ag_AggregateID ag (ld_Machine loaded);
          (err, m) = ag_Apply ag (ld_Machine loaded) event
      in case err of
        Some e \<Rightarrow> (Inl (TransitionError e), tbl, m)
      | None \<Rightarrow>
     (case ag_Marshal ag m of
        Inl e \<Rightarrow> (Inl (SerializeError e), tbl, m)
      | Inr payload \<Rightarrow>
     (case fault of
        Some e \<Rightarrow> (Inl (StoreError e), tbl, m)
      | None \<Rightarrow>
     (case gm_get tbl i of
        None \<Rightarrow> (Inl (StaleError i (ld_Version loaded)), tbl, m)
      | Some row \<Rightarrow>
        if sr_version row \<noteq> ld_Version loaded
        then (Inl (StaleError i (ld_Version loaded)), tbl, m)
        else (Inr \<lparr>ld_Machine = m, ld_Version = sr_version row + 1\<rparr>,
              gm_put tbl i
                \<lparr>sr_state = ag_CurrentState ag m, sr_state_data = payload,
                 sr_version = sr_version row + 1, sr_expires_at = ag_ExpiresAt ag m\<rparr>,
              m)))))"

definition sweep_due :: "instant \<Rightarrow> 'p sm_table \<Rightarrow> (uuid \<times> 'p sm_row) list" where
  "sweep_due now tbl =
     sort_key (\<lambda>(i, row). case sr_expires_at row of Some t \<Rightarrow> t | None \<Rightarrow> 0)
       (filter (\<lambda>(i, row). case sr_expires_at row of Some t \<Rightarrow> t \<le> now | None \<Rightarrow> False) tbl)"

fun decode_rows :: "('m, 'e, 'p) aggregate \<Rightarrow> (uuid \<times> 'p sm_row) list \<Rightarrow> sm_error + 'm Loaded list" where
  "decode_rows ag [] = Inr []"
| "decode_rows ag ((i, row) # rows) =
     (case ag_Unmarshal ag (sr_state_data row) of
        Inl e \<Rightarrow> Inl (InvalidStateError i e)
      | Inr m \<Rightarrow> bindE (decode_rows ag rows)
                  (\<lambda>out. Inr (\<lparr>ld_Machine = m, ld_Version = sr_version row\<rparr> # out)))"

definition sm_TimeoutSweep ::
  "('m, 'e, 'p) aggregate \<Rightarrow> string option \<Rightarrow> 'p sm_table \<Rightarrow> instant \<Rightarrow> sm_error + 'm Loaded list" where
  "sm_TimeoutSweep ag fault tbl now =
     (case fault of
        Some e \<Rightarrow> Inl (StoreError e)
      | None \<Rightarrow> decode_rows ag (sweep_due now tbl))"

subsection \<open>The retry loop\<close>

text \<open>
  \<open>op\<close> is called with the attempt number; \<open>cancelled k\<close> says whether the context is done when the
  loop sleeps after attempt \<open>k\<close>. \<open>rand.Int63n\<close> panics unless its argument is positive. \<open>slept\<close>
  collects the delays the loop slept for, before jitter.
\<close>

datatype ('e, 'a) retry_result =
    RetryOk 'a
  | RetryErr 'e
  | RetryCancelled
  | RetryPanic
  | RetryNoAttempts
  | RetryExhausted

definition max_delay :: i64 where
  "max_delay = 1000000000"

definition next_delay :: "i64 \<Rightarrow> i64" where
  "next_delay delay = (let d = delay * 2 in if max_delay <s d then max_delay else d)"

text \<open>The arguments: attempts left, attempt number, current delay.\<close>

fun retry_loop :: "(nat \<Rightarrow> sm_error + 'a) \<Rightarrow> (nat \<Rightarrow> bool) \<Rightarrow> nat \<Rightarrow> nat \<Rightarrow> i64 \<Rightarrow>
    (sm_error, 'a) retry_result \<times> i64 list" where
  "retry_loop opn cancelled 0 attempt delay = (RetryExhausted, [])"
| "retry_loop opn cancelled (Suc left) attempt delay =
     (case opn attempt of
        Inr out \<Rightarrow> (RetryOk out, [])
      | Inl e \<Rightarrow>
        if \<not> IsStale e \<or> left = 0 then (RetryErr e, [])
        else if go_div (sint delay) 3 \<le> 0 then (RetryPanic, [])
        else if cancelled attempt then (RetryCancelled, [])
        else let (r, slept) = retry_loop opn cancelled left (Suc attempt) (next_delay delay)
             in (r, delay # slept))"

definition WithRetry :: "(nat \<Rightarrow> bool) \<Rightarrow> nat \<Rightarrow> i64 \<Rightarrow> (nat \<Rightarrow> sm_error + 'a) \<Rightarrow>
    (sm_error, 'a) retry_result \<times> i64 list" where
  "WithRetry cancelled maxAttempts baseDelay opn =
     (if maxAttempts = 0 then (RetryNoAttempts, [])
      else retry_loop opn cancelled maxAttempts 1 baseDelay)"

section \<open>Concurrent writers\<close>

text \<open>
  The table with the \<open>Loaded\<close> values that clients hold, and, for the specification, the machine each
  row was inserted with and the events that were applied to it. A client may load a row, insert a
  machine, or hand a value it holds to \<open>Apply\<close>, which uses that one value up: clients that loaded the same
  version hold a copy each, so the held values are a multiset, and a copy may be applied long after the row
  has moved on. Versions are integers that count the updates; the end of the \<open>bigint\<close> range is not modelled.
\<close>

record ('m, 'e, 'p) sm_sys =
  sy_tbl :: "'p sm_table"
  sy_held :: "'m Loaded multiset"
  sy_start :: "uuid \<Rightarrow> 'm option"
  sy_applied :: "uuid \<Rightarrow> 'e list"

inductive sm_step :: "('m, 'e, 'p) aggregate \<Rightarrow> ('m, 'e, 'p) sm_sys \<Rightarrow> ('m, 'e, 'p) sm_sys \<Rightarrow> bool"
  for ag where
  insert_ok: "sm_Insert ag fault (sy_tbl s) m = (Inr l, tbl') \<Longrightarrow>
     sm_step ag s (s\<lparr>sy_tbl := tbl', sy_held := add_mset l (sy_held s),
       sy_start := (sy_start s)(ag_AggregateID ag m \<mapsto> m),
       sy_applied := (sy_applied s)(ag_AggregateID ag m := [])\<rparr>)"
| insert_err: "sm_Insert ag fault (sy_tbl s) m = (Inl e, tbl') \<Longrightarrow> sm_step ag s (s\<lparr>sy_tbl := tbl'\<rparr>)"
| load_ok: "sm_Load ag fault (sy_tbl s) i = Inr l \<Longrightarrow> sm_step ag s (s\<lparr>sy_held := add_mset l (sy_held s)\<rparr>)"
| apply_ok: "l \<in># sy_held s \<Longrightarrow> sm_Apply ag fault (sy_tbl s) l ev = (Inr l', tbl', m') \<Longrightarrow>
     sm_step ag s (s\<lparr>sy_tbl := tbl', sy_held := add_mset l' (sy_held s - {#l#}),
       sy_applied := (sy_applied s)(ag_AggregateID ag m' := sy_applied s (ag_AggregateID ag m') @ [ev])\<rparr>)"
| apply_err: "l \<in># sy_held s \<Longrightarrow> sm_Apply ag fault (sy_tbl s) l ev = (Inl e, tbl', m') \<Longrightarrow>
     sm_step ag s (s\<lparr>sy_tbl := tbl', sy_held := sy_held s - {#l#}\<rparr>)"

definition sm_init :: "('m, 'e, 'p) sm_sys" where
  "sm_init = \<lparr>sy_tbl = [], sy_held = {#}, sy_start = (\<lambda>_. None), sy_applied = (\<lambda>_. [])\<rparr>"

text \<open>The specification: the events applied one after the other to the inserted machine.\<close>

fun run_events :: "('m, 'e, 'p) aggregate \<Rightarrow> 'm \<Rightarrow> 'e list \<Rightarrow> 'm option" where
  "run_events ag m [] = Some m"
| "run_events ag m (e # es) = (case ag_Apply ag m e of (Some _, _) \<Rightarrow> None | (None, m') \<Rightarrow> run_events ag m' es)"

definition row_serial :: "('m, 'e, 'p) aggregate \<Rightarrow> ('m, 'e, 'p) sm_sys \<Rightarrow> uuid \<Rightarrow> 'p sm_row \<Rightarrow> bool" where
  "row_serial ag s i row \<longleftrightarrow>
     (\<exists>m0 m. sy_start s i = Some m0 \<and> run_events ag m0 (sy_applied s i) = Some m \<and>
        ag_AggregateID ag m = i \<and> ag_Unmarshal ag (sr_state_data row) = Inr m \<and>
        sr_state row = ag_CurrentState ag m \<and> sr_expires_at row = ag_ExpiresAt ag m \<and>
        sr_version row = 1 + int (length (sy_applied s i)))"

definition held_ok :: "('m, 'e, 'p) aggregate \<Rightarrow> 'p sm_table \<Rightarrow> 'm Loaded \<Rightarrow> bool" where
  "held_ok ag tbl l \<longleftrightarrow>
     (\<exists>row. gm_get tbl (ag_AggregateID ag (ld_Machine l)) = Some row \<and> ld_Version l \<le> sr_version row \<and>
        (ld_Version l = sr_version row \<longrightarrow> ag_Unmarshal ag (sr_state_data row) = Inr (ld_Machine l)))"

definition sys_inv :: "('m, 'e, 'p) aggregate \<Rightarrow> ('m, 'e, 'p) sm_sys \<Rightarrow> bool" where
  "sys_inv ag s \<longleftrightarrow>
     (\<forall>i row. gm_get (sy_tbl s) i = Some row \<longrightarrow> row_serial ag s i row) \<and>
     (\<forall>l \<in># sy_held s. held_ok ag (sy_tbl s) l)"

lemma run_events_snoc:
  "run_events ag m (es @ [e]) =
     Option.bind (run_events ag m es) (\<lambda>m'. case ag_Apply ag m' e of (Some _, _) \<Rightarrow> None | (None, m'') \<Rightarrow> Some m'')"
  by (induction es arbitrary: m) (auto split: prod.splits option.splits)

lemma sm_Insert_Inr:
  assumes "sm_Insert ag fault tbl m = (Inr l, tbl')"
  obtains payload where "ag_Marshal ag m = Inr payload" "gm_get tbl (ag_AggregateID ag m) = None"
    "l = \<lparr>ld_Machine = m, ld_Version = 1\<rparr>"
    "tbl' = gm_put tbl (ag_AggregateID ag m) \<lparr>sr_state = ag_CurrentState ag m, sr_state_data = payload,
        sr_version = 1, sr_expires_at = ag_ExpiresAt ag m\<rparr>"
  using assms by (auto simp: sm_Insert_def split: sum.splits option.splits if_splits)

lemma sm_Insert_Inl: "sm_Insert ag fault tbl m = (Inl e, tbl') \<Longrightarrow> tbl' = tbl"
  by (auto simp: sm_Insert_def split: sum.splits option.splits if_splits)

lemma sm_Load_Inr:
  assumes "sm_Load ag fault tbl i = Inr l"
  obtains row where "gm_get tbl i = Some row" "ag_Unmarshal ag (sr_state_data row) = Inr (ld_Machine l)"
    "ld_Version l = sr_version row"
  using assms by (auto simp: sm_Load_def split: sum.splits option.splits)

lemma sm_Apply_Inr:
  assumes "sm_Apply ag fault tbl l ev = (Inr l', tbl', m')"
  obtains payload row where "ag_Apply ag (ld_Machine l) ev = (None, m')" "ag_Marshal ag m' = Inr payload"
    "gm_get tbl (ag_AggregateID ag (ld_Machine l)) = Some row" "sr_version row = ld_Version l"
    "l' = \<lparr>ld_Machine = m', ld_Version = sr_version row + 1\<rparr>"
    "tbl' = gm_put tbl (ag_AggregateID ag (ld_Machine l))
       \<lparr>sr_state = ag_CurrentState ag m', sr_state_data = payload,
        sr_version = sr_version row + 1, sr_expires_at = ag_ExpiresAt ag m'\<rparr>"
  using assms by (auto simp: sm_Apply_def Let_def split: sum.splits option.splits if_splits prod.splits)

lemma sm_Apply_Inl: "sm_Apply ag fault tbl l ev = (Inl e, tbl', m') \<Longrightarrow> tbl' = tbl"
  by (auto simp: sm_Apply_def Let_def split: sum.splits option.splits if_splits prod.splits)

section \<open>The contract of the interface\<close>

locale aggregate_ok =
  fixes ag :: "('m, 'e, 'p) aggregate"
  assumes apply_id: "ag_AggregateID ag (snd (ag_Apply ag m e)) = ag_AggregateID ag m"
    and codec: "ag_Marshal ag m = Inr p \<Longrightarrow> ag_Unmarshal ag p = Inr m"
begin

lemma insert_inv:
  assumes ok: "sm_Insert ag fault (sy_tbl s) m = (Inr l, tbl')" and inv: "sys_inv ag s"
  shows "sys_inv ag (s\<lparr>sy_tbl := tbl', sy_held := add_mset l (sy_held s),
       sy_start := (sy_start s)(ag_AggregateID ag m \<mapsto> m),
       sy_applied := (sy_applied s)(ag_AggregateID ag m := [])\<rparr>)"
    (is "sys_inv ag ?t")
proof -
  let ?i = "ag_AggregateID ag m"
  obtain payload where p: "ag_Marshal ag m = Inr payload" "gm_get (sy_tbl s) ?i = None"
    "l = \<lparr>ld_Machine = m, ld_Version = 1\<rparr>"
    "tbl' = gm_put (sy_tbl s) ?i \<lparr>sr_state = ag_CurrentState ag m, sr_state_data = payload,
        sr_version = 1, sr_expires_at = ag_ExpiresAt ag m\<rparr>"
    using ok by (rule sm_Insert_Inr)
  have rows: "row_serial ag ?t j row" if "gm_get tbl' j = Some row" for j row
  proof (cases "j = ?i")
    case True
    then show ?thesis using that p codec [OF p(1)] by (auto simp: row_serial_def)
  next
    case False
    then have "row_serial ag s j row" using that p(4) inv by (auto simp: sys_inv_def)
    with False show ?thesis by (simp add: row_serial_def)
  qed
  have "held_ok ag tbl' l" using p codec [OF p(1)] by (simp add: held_ok_def)
  moreover have "held_ok ag tbl' k" if "k \<in># sy_held s" for k
    using inv that p(2,4) by (auto simp: sys_inv_def held_ok_def)
  ultimately show ?thesis using rows by (simp add: sys_inv_def)
qed

lemma load_inv:
  assumes ok: "sm_Load ag fault (sy_tbl s) i = Inr l" and inv: "sys_inv ag s"
  shows "sys_inv ag (s\<lparr>sy_held := add_mset l (sy_held s)\<rparr>)"
proof -
  obtain row where r: "gm_get (sy_tbl s) i = Some row" "ag_Unmarshal ag (sr_state_data row) = Inr (ld_Machine l)"
    "ld_Version l = sr_version row"
    using ok by (rule sm_Load_Inr)
  then have "row_serial ag s i row" using inv by (simp add: sys_inv_def)
  then have "ag_AggregateID ag (ld_Machine l) = i" using r(2) by (auto simp: row_serial_def)
  then have "held_ok ag (sy_tbl s) l" using r by (simp add: held_ok_def)
  then show ?thesis using inv by (simp add: sys_inv_def row_serial_def)
qed

lemma apply_inv:
  assumes held: "l \<in># sy_held s" and ok: "sm_Apply ag fault (sy_tbl s) l ev = (Inr l', tbl', m')"
    and inv: "sys_inv ag s"
  shows "sys_inv ag (s\<lparr>sy_tbl := tbl', sy_held := add_mset l' (sy_held s - {#l#}),
       sy_applied := (sy_applied s)(ag_AggregateID ag m' := sy_applied s (ag_AggregateID ag m') @ [ev])\<rparr>)"
    (is "sys_inv ag ?t")
proof -
  let ?i = "ag_AggregateID ag (ld_Machine l)"
  obtain payload row where a: "ag_Apply ag (ld_Machine l) ev = (None, m')" "ag_Marshal ag m' = Inr payload"
    "gm_get (sy_tbl s) ?i = Some row" "sr_version row = ld_Version l"
    "l' = \<lparr>ld_Machine = m', ld_Version = sr_version row + 1\<rparr>"
    "tbl' = gm_put (sy_tbl s) ?i
       \<lparr>sr_state = ag_CurrentState ag m', sr_state_data = payload,
        sr_version = sr_version row + 1, sr_expires_at = ag_ExpiresAt ag m'\<rparr>"
    using ok by (rule sm_Apply_Inr)
  have i: "ag_AggregateID ag m' = ?i" using apply_id [of "ld_Machine l" ev] a(1) by simp
  have "held_ok ag (sy_tbl s) l" using held inv by (simp add: sys_inv_def)
  then have current: "ag_Unmarshal ag (sr_state_data row) = Inr (ld_Machine l)"
    using a(3,4) by (simp add: held_ok_def)
  have "row_serial ag s ?i row" using inv a(3) by (simp add: sys_inv_def)
  then obtain m0 where m0: "sy_start s ?i = Some m0" "run_events ag m0 (sy_applied s ?i) = Some (ld_Machine l)"
    "sr_version row = 1 + int (length (sy_applied s ?i))"
    using current by (auto simp: row_serial_def)
  have rows: "row_serial ag ?t j r" if "gm_get tbl' j = Some r" for j r
  proof (cases "j = ?i")
    case True
    then show ?thesis
      using that a i m0 codec [OF a(2)] by (auto simp: row_serial_def run_events_snoc)
  next
    case False
    then have "row_serial ag s j r" using that a(6) inv by (auto simp: sys_inv_def)
    with False i show ?thesis by (simp add: row_serial_def)
  qed
  have "held_ok ag tbl' l'" using a i codec [OF a(2)] by (simp add: held_ok_def)
  moreover have "held_ok ag tbl' k" if "k \<in># sy_held s" for k
  proof -
    have "held_ok ag (sy_tbl s) k" using inv that by (simp add: sys_inv_def)
    then show ?thesis using a(3,6) by (auto simp: held_ok_def)
  qed
  ultimately show ?thesis using rows by (auto simp: sys_inv_def dest: in_diffD)
qed

lemma step_inv: "sm_step ag s t \<Longrightarrow> sys_inv ag s \<Longrightarrow> sys_inv ag t"
proof (induction rule: sm_step.induct)
  case (insert_err fault s m e tbl')
  then show ?case by (auto dest!: sm_Insert_Inl simp: sys_inv_def row_serial_def)
next
  case (apply_err l s fault ev e tbl' m')
  then show ?case by (auto dest!: sm_Apply_Inl in_diffD simp: sys_inv_def row_serial_def)
qed (auto intro: insert_inv load_inv apply_inv)

lemma serial: "(sm_step ag)\<^sup>*\<^sup>* sm_init s \<Longrightarrow> sys_inv ag s"
proof (induction rule: rtranclp_induct)
  case base
  show ?case by (simp add: sys_inv_def sm_init_def)
next
  case (step s t)
  then show ?case by (blast intro: step_inv)
qed

text \<open>Two writers that loaded the same version: the second one is told so and changes nothing.\<close>

lemma second_writer_stale:
  assumes "sm_Apply ag f1 tbl l1 e1 = (Inr l1', tbl', m1)"
    and "ld_Version l2 = ld_Version l1" "ag_AggregateID ag (ld_Machine l2) = ag_AggregateID ag (ld_Machine l1)"
    and "sm_Apply ag f2 tbl' l2 e2 = (r, tbl'', m2)"
  shows "tbl'' = tbl' \<and> (\<exists>e. r = Inl e)"
proof -
  obtain row where "gm_get tbl' (ag_AggregateID ag (ld_Machine l2)) = Some row"
    "sr_version row \<noteq> ld_Version l2"
    using assms(1-3) by (elim sm_Apply_Inr) auto
  then show ?thesis
    using assms(4) by (cases r) (auto dest: sm_Apply_Inl elim!: sm_Apply_Inr)
qed

end

section \<open>The retry loop\<close>

lemma sint_small: "0 \<le> k \<Longrightarrow> k < 2 ^ 63 \<Longrightarrow> sint (word_of_int k :: i64) = k"
  by (simp add: int_word_sint)

lemma next_delay_range:
  assumes "3 \<le> sint delay" "sint delay \<le> 1000000000"
  shows "3 \<le> sint (next_delay delay) \<and> sint (next_delay delay) \<le> 1000000000"
proof -
  have "sint (delay * 2) = sint (word_of_int (sint delay * 2) :: i64)" by simp
  also have "\<dots> = sint delay * 2" using assms by (intro sint_small) auto
  finally show ?thesis
    using assms by (simp add: next_delay_def Let_def max_delay_def word_sless_alt)
qed

lemma retry_loop_success:
  assumes "\<forall>k. attempt \<le> k \<and> k < n \<longrightarrow> (\<exists>e. opn k = Inl e \<and> IsStale e)" "opn n = Inr out"
    and "attempt \<le> n" "n < attempt + left" "\<forall>k. \<not> cancelled k"
    and "3 \<le> sint delay" "sint delay \<le> 1000000000"
  shows "fst (retry_loop opn cancelled left attempt delay) = RetryOk out \<and>
    length (snd (retry_loop opn cancelled left attempt delay)) = n - attempt \<and>
    (\<forall>d \<in> set (snd (retry_loop opn cancelled left attempt delay)). sint d \<le> 1000000000)"
  using assms
proof (induction left arbitrary: attempt delay)
  case (Suc left)
  show ?case
  proof (cases "attempt = n")
    case True
    with Suc.prems show ?thesis by simp
  next
    case False
    then obtain e where e: "opn attempt = Inl e" "IsStale e" using Suc.prems(1,3) by auto
    have "left \<noteq> 0" using False Suc.prems by auto
    moreover have "\<not> go_div (sint delay) 3 \<le> 0" using Suc.prems(6) by (simp add: go_div_def)
    ultimately have "retry_loop opn cancelled (Suc left) attempt delay
        = (let (r, slept) = retry_loop opn cancelled left (Suc attempt) (next_delay delay) in (r, delay # slept))"
      using e Suc.prems(5) by simp
    moreover have "fst (retry_loop opn cancelled left (Suc attempt) (next_delay delay)) = RetryOk out \<and>
        length (snd (retry_loop opn cancelled left (Suc attempt) (next_delay delay))) = n - Suc attempt \<and>
        (\<forall>d \<in> set (snd (retry_loop opn cancelled left (Suc attempt) (next_delay delay))). sint d \<le> 1000000000)"
      using Suc.prems False next_delay_range [OF Suc.prems(6,7)] by (intro Suc.IH) auto
    ultimately show ?thesis
      using Suc.prems(3,7) False by (auto simp: Let_def split: prod.splits)
  qed
qed simp

section \<open>Properties\<close>

text \<open>
  A base delay of three nanoseconds up to one second, and a context that is never done: if the
  first \<open>n - 1\<close> attempts fail with a stale write and attempt \<open>n\<close>, at most the last allowed,
  succeeds, then \<open>WithRetry\<close> returns its result, having slept \<open>n - 1\<close> times, for at most a second
  (before jitter) each time.
\<close>

theorem WithRetry_succeeds:
  assumes "\<forall>k. 1 \<le> k \<and> k < n \<longrightarrow> (\<exists>e. opn k = Inl e \<and> IsStale e)" "opn n = Inr out"
    and "1 \<le> n" "n \<le> maxAttempts" "\<forall>k. \<not> cancelled k"
    and "3 \<le> sint baseDelay" "sint baseDelay \<le> 1000000000"
  shows "fst (WithRetry cancelled maxAttempts baseDelay opn) = RetryOk out \<and>
    length (snd (WithRetry cancelled maxAttempts baseDelay opn)) = n - 1 \<and>
    (\<forall>d \<in> set (snd (WithRetry cancelled maxAttempts baseDelay opn)). sint d \<le> 1000000000)"
  using retry_loop_success [of 1 n opn out maxAttempts cancelled baseDelay] assms
  by (simp add: WithRetry_def)

definition flaky :: "nat \<Rightarrow> sm_error + nat" where
  "flaky k = (if k < 3 then Inl (StaleError 7 1) else Inr k)"

theorem WithRetry_succeeds_witness:
  "fst (WithRetry (\<lambda>_. False) 5 1000000 flaky) = RetryOk 3 \<and>
   length (snd (WithRetry (\<lambda>_. False) 5 1000000 flaky)) = 2"
  using WithRetry_succeeds [of 3 flaky 3 5 "\<lambda>_. False" 1000000] by (simp add: flaky_def)

text \<open>
  With a base delay below three nanoseconds (zero included) the first stale write with an attempt
  left makes the jitter computation panic instead of retrying.
\<close>

theorem WithRetry_panics:
  assumes "opn 1 = Inl e" "IsStale e" "2 \<le> maxAttempts" "sint baseDelay < 3"
  shows "fst (WithRetry cancelled maxAttempts baseDelay opn) = RetryPanic"
proof -
  obtain left where "maxAttempts = Suc left" "left \<noteq> 0" using assms(3) by (cases maxAttempts) auto
  moreover have "go_div (sint baseDelay) 3 \<le> 0"
    using assms(4) by (auto simp: go_div_def sgn_if mult_le_0_iff)
  ultimately show ?thesis using assms(1,2) by (simp add: WithRetry_def)
qed

theorem WithRetry_panics_witness: "fst (WithRetry (\<lambda>_. False) 5 0 flaky) = RetryPanic"
  by (rule WithRetry_panics [where e = "StaleError 7 1"]) (simp_all add: flaky_def)

end
