(* ===== verification/Json_Codec.thy ===== *)
theory Json_Codec
  imports Prelude
begin

text \<open>
  What the sources use of \<open>encoding/json\<close>. A \<open>json.RawMessage\<close> is empty, one well-formed value, or
  bytes that are not JSON, which \<open>json.Marshal\<close> refuses. The object that a struct is written to keeps
  its leaves typed (a UUID, a time and a number are not rendered as text): a \<open>jobject\<close> maps field
  names to leaves, \<open>omitempty\<close> fields are left out, and reading a field that is absent or null leaves
  the zero value. Text is taken to be valid UTF-8, which the encoder passes unchanged.
\<close>

section \<open>Values\<close>

datatype json =
    JNull
  | JBool bool
  | JNum string
  | JStr string
  | JArr "json list"
  | JObj "(string \<times> json) list"

datatype 'j raw =
    RawEmpty
  | Raw 'j
  | RawBad string

type_synonym raw_message = "json raw"

datatype jfield =
    FUuid uuid
  | FText string
  | FTime instant
  | FNum int
  | FBool bool
  | FTexts "string list"
  | FRaw json
  | FObj "(string \<times> jfield) list"

type_synonym jobject = "(string, jfield) gomap"

section \<open>Writing\<close>

text \<open>\<open>Time.MarshalJSON\<close> accepts the years 0 to 9999.\<close>

definition year_0 :: instant where
  "year_0 = -62167219200 * 10 ^ 9"

definition year_10000 :: instant where
  "year_10000 = 253402300800 * 10 ^ 9"

text \<open>The zero \<open>time.Time\<close>, the first instant of the year 1.\<close>

definition zero_time :: instant where
  "zero_time = -62135596800 * 10 ^ 9"

definition put_time :: "instant \<Rightarrow> string + jfield" where
  "put_time t = (if year_0 \<le> t \<and> t < year_10000 then Inr (FTime t)
     else Inl ''Time.MarshalJSON: year outside of range [0,9999]'')"

definition put_opt :: "string \<Rightarrow> ('a \<Rightarrow> string + jfield) \<Rightarrow> 'a option \<Rightarrow> string + jobject" where
  "put_opt k enc v = (case v of None \<Rightarrow> Inr [] | Some x \<Rightarrow> bindE (enc x) (\<lambda>f. Inr [(k, f)]))"

definition put_raw :: "string \<Rightarrow> raw_message \<Rightarrow> string + jobject" where
  "put_raw k r = (case r of RawEmpty \<Rightarrow> Inr [] | Raw j \<Rightarrow> Inr [(k, FRaw j)] | RawBad s \<Rightarrow> Inl s)"

fun join_fields :: "(string + jobject) list \<Rightarrow> string + jobject" where
  "join_fields [] = Inr []"
| "join_fields (f # fs) = bindE f (\<lambda>x. bindE (join_fields fs) (\<lambda>xs. Inr (x @ xs)))"

section \<open>Reading\<close>

definition bad_field :: "string \<Rightarrow> string + 'a" where
  "bad_field k = Inl (''json: cannot unmarshal field '' @ k)"

definition get_uuid :: "jobject \<Rightarrow> string \<Rightarrow> string + uuid" where
  "get_uuid ob k = (case gm_get ob k of None \<Rightarrow> Inr 0 | Some (FRaw JNull) \<Rightarrow> Inr 0
     | Some (FUuid u) \<Rightarrow> Inr u | _ \<Rightarrow> bad_field k)"

definition get_text :: "jobject \<Rightarrow> string \<Rightarrow> string + string" where
  "get_text ob k = (case gm_get ob k of None \<Rightarrow> Inr [] | Some (FRaw JNull) \<Rightarrow> Inr []
     | Some (FText s) \<Rightarrow> Inr s | _ \<Rightarrow> bad_field k)"

definition get_text_ptr :: "jobject \<Rightarrow> string \<Rightarrow> string + string option" where
  "get_text_ptr ob k = (case gm_get ob k of None \<Rightarrow> Inr None | Some (FRaw JNull) \<Rightarrow> Inr None
     | Some (FText s) \<Rightarrow> Inr (Some s) | _ \<Rightarrow> bad_field k)"

definition get_time_ptr :: "jobject \<Rightarrow> string \<Rightarrow> string + instant option" where
  "get_time_ptr ob k = (case gm_get ob k of None \<Rightarrow> Inr None | Some (FRaw JNull) \<Rightarrow> Inr None
     | Some (FTime t) \<Rightarrow> Inr (Some t) | _ \<Rightarrow> bad_field k)"

definition get_u32 :: "jobject \<Rightarrow> string \<Rightarrow> string + u32" where
  "get_u32 ob k = (case gm_get ob k of None \<Rightarrow> Inr 0 | Some (FRaw JNull) \<Rightarrow> Inr 0
     | Some (FNum n) \<Rightarrow> if 0 \<le> n \<and> n < 2 ^ 32 then Inr (word_of_int n) else bad_field k | _ \<Rightarrow> bad_field k)"

definition get_texts :: "jobject \<Rightarrow> string \<Rightarrow> string + string list" where
  "get_texts ob k = (case gm_get ob k of None \<Rightarrow> Inr [] | Some (FRaw JNull) \<Rightarrow> Inr []
     | Some (FTexts ss) \<Rightarrow> Inr ss | _ \<Rightarrow> bad_field k)"

definition get_raw :: "jobject \<Rightarrow> string \<Rightarrow> string + raw_message" where
  "get_raw ob k = (case gm_get ob k of None \<Rightarrow> Inr RawEmpty | Some (FRaw j) \<Rightarrow> Inr (Raw j) | _ \<Rightarrow> bad_field k)"

definition get_bool :: "jobject \<Rightarrow> string \<Rightarrow> string + bool" where
  "get_bool ob k = (case gm_get ob k of None \<Rightarrow> Inr False | Some (FRaw JNull) \<Rightarrow> Inr False
     | Some (FBool b) \<Rightarrow> Inr b | _ \<Rightarrow> bad_field k)"

definition get_u64 :: "jobject \<Rightarrow> string \<Rightarrow> string + 64 word" where
  "get_u64 ob k = (case gm_get ob k of None \<Rightarrow> Inr 0 | Some (FRaw JNull) \<Rightarrow> Inr 0
     | Some (FNum n) \<Rightarrow> if 0 \<le> n \<and> n < 2 ^ 64 then Inr (word_of_int n) else bad_field k | _ \<Rightarrow> bad_field k)"

definition get_time :: "jobject \<Rightarrow> string \<Rightarrow> string + instant" where
  "get_time ob k = (case gm_get ob k of None \<Rightarrow> Inr zero_time | Some (FRaw JNull) \<Rightarrow> Inr zero_time
     | Some (FTime t) \<Rightarrow> Inr t | _ \<Rightarrow> bad_field k)"

text \<open>
  A \<open>json.RawMessage\<close> field whose reader expects an object; null is read as an object without members.
\<close>

definition get_obj :: "jobject \<Rightarrow> string \<Rightarrow> jobject raw" where
  "get_obj ob k = (case gm_get ob k of None \<Rightarrow> RawEmpty | Some (FObj x) \<Rightarrow> Raw x | Some (FRaw JNull) \<Rightarrow> Raw []
     | Some _ \<Rightarrow> RawBad ''json: cannot unmarshal into a struct'')"

section \<open>Lookups in what was written\<close>

text \<open>A field that was written is found under its name and under no other.\<close>

lemma gm_get_Cons: "gm_get ((k', v) # xs) k = (if k = k' then Some v else gm_get xs k)"
  by (simp add: gm_get_def)

lemma put_opt_get:
  "put_opt k enc v = Inr ob \<Longrightarrow> gm_get ob k' = (if k' = k then map_option (\<lambda>x. projr (enc x)) v else None)"
  by (auto simp: put_opt_def bindE_Inr_iff gm_get_Cons split: option.splits)

lemma put_opt_time: "put_opt k put_time v = Inr ob \<Longrightarrow> map_option (\<lambda>x. projr (put_time x)) v = map_option FTime v"
  by (auto simp: put_opt_def bindE_Inr_iff put_time_def split: option.splits if_splits)

lemma put_raw_get:
  "put_raw k r = Inr ob \<Longrightarrow>
   gm_get ob k' = (if k' = k then (case r of Raw j \<Rightarrow> Some (FRaw j) | _ \<Rightarrow> None) else None)"
  by (auto simp: put_raw_def gm_get_Cons split: raw.splits)

lemma put_raw_good: "put_raw k r = Inr ob \<Longrightarrow> r = RawEmpty \<or> (\<exists>j. r = Raw j)"
  by (auto simp: put_raw_def split: raw.splits)

lemma join_fields_Inr:
  "join_fields (f # fs) = Inr ob \<longleftrightarrow> (\<exists>x xs. f = Inr x \<and> join_fields fs = Inr xs \<and> ob = x @ xs)"
  by (auto simp: bindE_Inr_iff)

lemma unat_u32_less: "unat (x :: u32) < 2 ^ 32"
  using unsigned_less [of x] by simp

lemma uint_u32_less: "uint (x :: u32) < 2 ^ 32"
  using unsigned_less [of x] by simp

section \<open>Reading back what was written\<close>

lemma read_uuid: "gm_get ob k = Some (FUuid u) \<Longrightarrow> get_uuid ob k = Inr u"
  by (simp add: get_uuid_def)

lemma read_text: "gm_get ob k = Some (FText s) \<Longrightarrow> get_text ob k = Inr s"
  by (simp add: get_text_def)

lemma read_texts: "gm_get ob k = Some (FTexts s) \<Longrightarrow> get_texts ob k = Inr s"
  by (simp add: get_texts_def)

lemma read_time_ptr: "gm_get ob k = map_option FTime v \<Longrightarrow> get_time_ptr ob k = Inr v"
  by (cases v) (simp_all add: get_time_ptr_def)

lemma read_text_ptr: "gm_get ob k = map_option FText v \<Longrightarrow> get_text_ptr ob k = Inr v"
  by (cases v) (simp_all add: get_text_ptr_def)

lemma read_u32: "gm_get ob k = (if n = 0 then None else Some (FNum (uint n))) \<Longrightarrow> get_u32 ob k = Inr n"
  using uint_u32_less [of n] by (auto simp: get_u32_def split: if_splits)

lemma read_raw:
  "gm_get ob k = (case r of Raw j \<Rightarrow> Some (FRaw j) | _ \<Rightarrow> None) \<Longrightarrow> r = RawEmpty \<or> (\<exists>j. r = Raw j) \<Longrightarrow>
   get_raw ob k = Inr r"
  by (auto simp: get_raw_def)

lemmas codec_reads = read_uuid read_text read_texts read_time_ptr read_text_ptr read_u32 read_raw

end
