(* ===== verification/Automation_Run.thy ===== *)
theory Automation_Run
  imports Json_Codec Lifecycle State_Store
begin

text \<open>
  The automation-run state machine
  (\<open>services/workflow-automation-service/internal/domain/automationrun/automation_run.go\<close>): its
  states, events and the in-place \<open>Apply\<close>, with its JSON form. It provides the transition-table
  contract \<open>lifecycle\<close> and the machine contract \<open>aggregate_ok\<close> of the store, so the store's
  serialisation of concurrent writers holds for automation runs. \<open>State\<close> and \<open>EventKind\<close> are
  strings, as in the code: a row may hold any text, and an event any kind.
\<close>

section \<open>States and events\<close>

type_synonym State = string

abbreviation StateQueued :: State where "StateQueued \<equiv> ''queued''"
abbreviation StateRunning :: State where "StateRunning \<equiv> ''running''"
abbreviation StateSuspended :: State where "StateSuspended \<equiv> ''suspended''"
abbreviation StateCompensating :: State where "StateCompensating \<equiv> ''compensating''"
abbreviation StateCompleted :: State where "StateCompleted \<equiv> ''completed''"
abbreviation StateFailed :: State where "StateFailed \<equiv> ''failed''"

text \<open>The message quotes the value (\<open>%q\<close>); the quotes are left out here.\<close>

definition ParseState :: "string \<Rightarrow> string + State" where
  "ParseState value =
     (if value \<in> {StateQueued, StateRunning, StateSuspended, StateCompensating, StateCompleted, StateFailed}
      then Inr value else Inl (''unknown automation run state '' @ value))"

definition State_IsTerminal :: "State \<Rightarrow> bool" where
  "State_IsTerminal s \<longleftrightarrow> s = StateCompleted \<or> s = StateFailed"

definition CanTransitionTo :: "State \<Rightarrow> State \<Rightarrow> bool" where
  "CanTransitionTo s nxt \<longleftrightarrow> s = nxt \<or>
     s = StateQueued \<and> nxt = StateRunning \<or>
     s = StateQueued \<and> nxt = StateFailed \<or>
     s = StateRunning \<and> nxt = StateCompleted \<or>
     s = StateRunning \<and> nxt = StateFailed \<or>
     s = StateRunning \<and> nxt = StateSuspended \<or>
     s = StateRunning \<and> nxt = StateCompensating \<or>
     s = StateSuspended \<and> nxt = StateRunning \<or>
     s = StateSuspended \<and> nxt = StateFailed \<or>
     s = StateCompensating \<and> nxt = StateFailed"

type_synonym EventKind = string

abbreviation EventClaim :: EventKind where "EventClaim \<equiv> ''claim''"
abbreviation EventEffectCompleted :: EventKind where "EventEffectCompleted \<equiv> ''effect_completed''"
abbreviation EventEffectFailed :: EventKind where "EventEffectFailed \<equiv> ''effect_failed''"
abbreviation EventPreFlightFailed :: EventKind where "EventPreFlightFailed \<equiv> ''pre_flight_failed''"
abbreviation EventSuspend :: EventKind where "EventSuspend \<equiv> ''suspend''"
abbreviation EventResume :: EventKind where "EventResume \<equiv> ''resume''"
abbreviation EventStartCompensating :: EventKind where "EventStartCompensating \<equiv> ''start_compensating''"
abbreviation EventCompensationCompleted :: EventKind where
  "EventCompensationCompleted \<equiv> ''compensation_completed''"
abbreviation EventSuspensionFailed :: EventKind where "EventSuspensionFailed \<equiv> ''suspension_failed''"

record Event =
  ev_Kind :: EventKind
  ev_Response :: raw_message
  ev_Error :: string
  ev_WaitUntil :: "instant option"

definition zero_event :: "EventKind \<Rightarrow> Event" where
  "zero_event k = \<lparr>ev_Kind = k, ev_Response = RawEmpty, ev_Error = [], ev_WaitUntil = None\<rparr>"

definition ClaimEvent :: Event where
  "ClaimEvent = zero_event EventClaim"

definition EffectCompletedEvent :: "raw_message \<Rightarrow> Event" where
  "EffectCompletedEvent response = (zero_event EventEffectCompleted)\<lparr>ev_Response := response\<rparr>"

definition EffectFailedEvent :: "string \<Rightarrow> Event" where
  "EffectFailedEvent err = (zero_event EventEffectFailed)\<lparr>ev_Error := err\<rparr>"

definition PreFlightFailedEvent :: "string \<Rightarrow> Event" where
  "PreFlightFailedEvent err = (zero_event EventPreFlightFailed)\<lparr>ev_Error := err\<rparr>"

definition SuspendEvent :: "instant option \<Rightarrow> Event" where
  "SuspendEvent waitUntil = (zero_event EventSuspend)\<lparr>ev_WaitUntil := waitUntil\<rparr>"

definition ResumeEvent :: Event where
  "ResumeEvent = zero_event EventResume"

definition StartCompensatingEvent :: Event where
  "StartCompensatingEvent = zero_event EventStartCompensating"

definition CompensationCompletedEvent :: "string \<Rightarrow> Event" where
  "CompensationCompletedEvent err = (zero_event EventCompensationCompleted)\<lparr>ev_Error := err\<rparr>"

definition SuspensionFailedEvent :: "string \<Rightarrow> Event" where
  "SuspensionFailedEvent err = (zero_event EventSuspensionFailed)\<lparr>ev_Error := err\<rparr>"

lemmas event_defs = zero_event_def ClaimEvent_def EffectCompletedEvent_def EffectFailedEvent_def
  PreFlightFailedEvent_def SuspendEvent_def ResumeEvent_def StartCompensatingEvent_def
  CompensationCompletedEvent_def SuspensionFailedEvent_def

section \<open>The machine\<close>

record AutomationRun =
  ar_ID :: uuid
  ar_TenantID :: uuid
  ar_DefinitionID :: uuid
  ar_CorrelationID :: uuid
  ar_State :: State
  ar_ExpiresAt :: "instant option"
  ar_Attempts :: u32
  ar_LastError :: "string option"
  ar_EffectResponse :: raw_message
  ar_Progress :: raw_message

definition NewRun :: "uuid \<Rightarrow> uuid \<Rightarrow> uuid \<Rightarrow> uuid \<Rightarrow> instant option \<Rightarrow> AutomationRun" where
  "NewRun i tenantID definitionID correlationID expiresAt =
     \<lparr>ar_ID = i, ar_TenantID = tenantID, ar_DefinitionID = definitionID, ar_CorrelationID = correlationID,
      ar_State = StateQueued, ar_ExpiresAt = expiresAt, ar_Attempts = 0, ar_LastError = None,
      ar_EffectResponse = RawEmpty, ar_Progress = Raw (JObj [])\<rparr>"

definition saturatingAdd :: "u32 \<Rightarrow> u32 \<Rightarrow> u32" where
  "saturatingAdd a b = (if a > -1 - b then -1 else a + b)"

text \<open>
  The switch of \<open>Apply\<close>: the machine after the field updates, and the next state, or nothing in
  the default case.
\<close>

definition run_arm :: "AutomationRun \<Rightarrow> Event \<Rightarrow> (AutomationRun \<times> State) option" where
  "run_arm r ev =
     (if ar_State r = StateQueued \<and> ev_Kind ev = EventClaim
      then Some (r\<lparr>ar_Attempts := saturatingAdd (ar_Attempts r) 1\<rparr>, StateRunning)
      else if ar_State r = StateQueued \<and> ev_Kind ev = EventPreFlightFailed
      then Some (r\<lparr>ar_LastError := Some (ev_Error ev)\<rparr>, StateFailed)
      else if ar_State r = StateRunning \<and> ev_Kind ev = EventEffectCompleted
      then Some (r\<lparr>ar_EffectResponse := ev_Response ev, ar_ExpiresAt := None\<rparr>, StateCompleted)
      else if ar_State r = StateRunning \<and> ev_Kind ev = EventEffectFailed
      then Some (r\<lparr>ar_LastError := Some (ev_Error ev), ar_ExpiresAt := None\<rparr>, StateFailed)
      else if ar_State r = StateRunning \<and> ev_Kind ev = EventSuspend
      then Some (r\<lparr>ar_ExpiresAt := ev_WaitUntil ev\<rparr>, StateSuspended)
      else if ar_State r = StateRunning \<and> ev_Kind ev = EventStartCompensating
      then Some (r, StateCompensating)
      else if ar_State r = StateSuspended \<and> ev_Kind ev = EventResume
      then Some (r\<lparr>ar_Attempts := saturatingAdd (ar_Attempts r) 1, ar_ExpiresAt := None\<rparr>, StateRunning)
      else if ar_State r = StateSuspended \<and> ev_Kind ev = EventSuspensionFailed
      then Some (r\<lparr>ar_LastError := Some (ev_Error ev), ar_ExpiresAt := None\<rparr>, StateFailed)
      else if ar_State r = StateCompensating \<and> ev_Kind ev = EventCompensationCompleted
      then Some (r\<lparr>ar_LastError := Some (ev_Error ev)\<rparr>, StateFailed)
      else None)"

definition run_Apply :: "AutomationRun \<Rightarrow> Event \<Rightarrow> string option \<times> AutomationRun" where
  "run_Apply r ev =
     (case run_arm r ev of
        None \<Rightarrow> (Some (''no AutomationRun transition from '' @ ar_State r @ '' for event '' @ ev_Kind ev), r)
      | Some (r', nxt) \<Rightarrow>
        if \<not> CanTransitionTo (ar_State r') nxt
        then (Some (''AutomationRun produced disallowed transition: '' @ ar_State r' @
                [CHR '' '', CHR 0xE2, CHR 0x86, CHR 0x92, CHR '' ''] @ nxt), r')
        else (None, r'\<lparr>ar_State := nxt\<rparr>))"

section \<open>The JSON form\<close>

definition run_Marshal :: "AutomationRun \<Rightarrow> string + jobject" where
  "run_Marshal r = join_fields
     [Inr [(''id'', FUuid (ar_ID r)), (''tenant_id'', FUuid (ar_TenantID r)),
           (''definition_id'', FUuid (ar_DefinitionID r)), (''correlation_id'', FUuid (ar_CorrelationID r)),
           (''state'', FText (ar_State r))],
      put_opt ''expires_at'' put_time (ar_ExpiresAt r),
      Inr (if ar_Attempts r = 0 then [] else [(''attempts'', FNum (uint (ar_Attempts r)))]),
      put_opt ''last_error'' (Inr \<circ> FText) (ar_LastError r),
      put_raw ''effect_response'' (ar_EffectResponse r),
      put_raw ''progress'' (ar_Progress r)]"

definition run_Unmarshal :: "jobject \<Rightarrow> string + AutomationRun" where
  "run_Unmarshal ob =
     bindE (get_uuid ob ''id'') (\<lambda>i.
     bindE (get_uuid ob ''tenant_id'') (\<lambda>tenantID.
     bindE (get_uuid ob ''definition_id'') (\<lambda>definitionID.
     bindE (get_uuid ob ''correlation_id'') (\<lambda>correlationID.
     bindE (get_text ob ''state'') (\<lambda>state.
     bindE (get_time_ptr ob ''expires_at'') (\<lambda>expiresAt.
     bindE (get_u32 ob ''attempts'') (\<lambda>attempts.
     bindE (get_text_ptr ob ''last_error'') (\<lambda>lastError.
     bindE (get_raw ob ''effect_response'') (\<lambda>effectResponse.
     bindE (get_raw ob ''progress'') (\<lambda>progress.
       Inr \<lparr>ar_ID = i, ar_TenantID = tenantID, ar_DefinitionID = definitionID,
            ar_CorrelationID = correlationID, ar_State = state, ar_ExpiresAt = expiresAt,
            ar_Attempts = attempts, ar_LastError = lastError, ar_EffectResponse = effectResponse,
            ar_Progress = progress\<rparr>))))))))))"

definition automation :: "(AutomationRun, Event, jobject) aggregate" where
  "automation = \<lparr>ag_Apply = run_Apply, ag_CurrentState = ar_State, ag_AggregateID = ar_ID,
     ag_ExpiresAt = ar_ExpiresAt, ag_Marshal = run_Marshal, ag_Unmarshal = run_Unmarshal\<rparr>"

section \<open>Facts\<close>

lemma automation_simps [simp]:
  "ag_Apply automation = run_Apply" "ag_CurrentState automation = ar_State"
  "ag_AggregateID automation = ar_ID" "ag_ExpiresAt automation = ar_ExpiresAt"
  "ag_Marshal automation = run_Marshal" "ag_Unmarshal automation = run_Unmarshal"
  by (simp_all add: automation_def)

lemma run_codec:
  assumes "run_Marshal r = Inr ob"
  shows "run_Unmarshal ob = Inr r"
proof -
  obtain a b c d where p: "put_opt ''expires_at'' put_time (ar_ExpiresAt r) = Inr a"
      "put_opt ''last_error'' (Inr \<circ> FText) (ar_LastError r) = Inr b"
      "put_raw ''effect_response'' (ar_EffectResponse r) = Inr c" "put_raw ''progress'' (ar_Progress r) = Inr d"
    and ob: "ob = [(''id'', FUuid (ar_ID r)), (''tenant_id'', FUuid (ar_TenantID r)),
           (''definition_id'', FUuid (ar_DefinitionID r)), (''correlation_id'', FUuid (ar_CorrelationID r)),
           (''state'', FText (ar_State r))] @ a @
      (if ar_Attempts r = 0 then [] else [(''attempts'', FNum (uint (ar_Attempts r)))]) @ b @ c @ d"
    using assms unfolding run_Marshal_def join_fields_Inr by auto
  note look = put_opt_get [OF p(1)] put_opt_get [OF p(2)] put_raw_get [OF p(3)] put_raw_get [OF p(4)]
    put_opt_time [OF p(1)]
  have reads: "get_uuid ob ''id'' = Inr (ar_ID r)" "get_uuid ob ''tenant_id'' = Inr (ar_TenantID r)"
    "get_uuid ob ''definition_id'' = Inr (ar_DefinitionID r)"
    "get_uuid ob ''correlation_id'' = Inr (ar_CorrelationID r)" "get_text ob ''state'' = Inr (ar_State r)"
    "get_time_ptr ob ''expires_at'' = Inr (ar_ExpiresAt r)" "get_u32 ob ''attempts'' = Inr (ar_Attempts r)"
    "get_text_ptr ob ''last_error'' = Inr (ar_LastError r)"
    "get_raw ob ''effect_response'' = Inr (ar_EffectResponse r)" "get_raw ob ''progress'' = Inr (ar_Progress r)"
    using put_raw_good [OF p(3)] put_raw_good [OF p(4)]
    by (intro codec_reads; simp add: ob look gm_get_append gm_get_Cons option.case_eq_if option.map_comp comp_def)+
  show ?thesis unfolding run_Unmarshal_def reads by simp
qed

text \<open>The runs that can be written.\<close>

definition run_storable :: "AutomationRun \<Rightarrow> bool" where
  "run_storable r \<longleftrightarrow> (case ar_ExpiresAt r of None \<Rightarrow> True | Some t \<Rightarrow> year_0 \<le> t \<and> t < year_10000) \<and>
     (\<forall>s. ar_EffectResponse r \<noteq> RawBad s) \<and> (\<forall>s. ar_Progress r \<noteq> RawBad s)"

lemma run_Marshal_iff: "(\<exists>ob. run_Marshal r = Inr ob) \<longleftrightarrow> run_storable r"
proof -
  have "(\<exists>ob. run_Marshal r = Inr ob) \<longleftrightarrow>
     (\<exists>a. put_opt ''expires_at'' put_time (ar_ExpiresAt r) = Inr a) \<and>
     (\<exists>c. put_raw ''effect_response'' (ar_EffectResponse r) = Inr c) \<and>
     (\<exists>d. put_raw ''progress'' (ar_Progress r) = Inr d)"
    unfolding run_Marshal_def join_fields_Inr
    by (auto simp: put_opt_def split: option.splits)
  also have "\<dots> \<longleftrightarrow> run_storable r"
    by (auto simp: run_storable_def put_opt_def put_raw_def put_time_def split: option.splits raw.splits)
  finally show ?thesis .
qed

lemma run_arm_id: "run_arm r ev = Some (r', nxt) \<Longrightarrow> ar_ID r' = ar_ID r \<and> ar_State r' = ar_State r \<and>
    ar_TenantID r' = ar_TenantID r \<and> ar_DefinitionID r' = ar_DefinitionID r \<and>
    ar_CorrelationID r' = ar_CorrelationID r \<and> ar_Progress r' = ar_Progress r"
  by (auto simp: run_arm_def split: if_splits)

interpretation run: lifecycle CanTransitionTo State_IsTerminal
  by unfold_locales (auto simp: CanTransitionTo_def State_IsTerminal_def)

lemma run_Apply_id: "ar_ID (snd (run_Apply r ev)) = ar_ID r"
  by (auto simp: run_Apply_def dest: run_arm_id split: option.splits)

interpretation runs: aggregate_ok automation
  by unfold_locales (auto simp: run_Apply_id run_codec)

text \<open>The nine transitions.\<close>

definition run_table :: "(State \<times> EventKind \<times> State) list" where
  "run_table =
     [(StateQueued, EventClaim, StateRunning), (StateQueued, EventPreFlightFailed, StateFailed),
      (StateRunning, EventEffectCompleted, StateCompleted), (StateRunning, EventEffectFailed, StateFailed),
      (StateRunning, EventSuspend, StateSuspended), (StateRunning, EventStartCompensating, StateCompensating),
      (StateSuspended, EventResume, StateRunning), (StateSuspended, EventSuspensionFailed, StateFailed),
      (StateCompensating, EventCompensationCompleted, StateFailed)]"

lemma run_arm_table:
  "run_arm r ev = Some (r', nxt) \<Longrightarrow> (ar_State r, ev_Kind ev, nxt) \<in> set run_table"
  by (auto simp: run_arm_def run_table_def split: if_splits)

lemma run_arm_None:
  "run_arm r ev = None \<Longrightarrow> (ar_State r, ev_Kind ev, nxt) \<notin> set run_table"
  by (auto simp: run_arm_def run_table_def split: if_splits)

lemma run_table_valid:
  "(s, k, t) \<in> set run_table \<Longrightarrow> CanTransitionTo s t \<and> s \<noteq> t \<and> \<not> State_IsTerminal s"
  by (auto simp: run_table_def CanTransitionTo_def State_IsTerminal_def)

lemma run_Apply_cases:
  obtains (rejected) msg where "run_Apply r ev = (Some msg, r)" "run_arm r ev = None"
  | (applied) r' nxt where "run_Apply r ev = (None, r'\<lparr>ar_State := nxt\<rparr>)" "run_arm r ev = Some (r', nxt)"
proof (cases "run_arm r ev")
  case None
  then show thesis using rejected by (simp add: run_Apply_def)
next
  case (Some a)
  obtain r' nxt where a: "a = (r', nxt)" by (cases a)
  have "CanTransitionTo (ar_State r') nxt"
    using run_arm_id run_table_valid [OF run_arm_table] Some a by metis
  then show thesis using Some a applied by (simp add: run_Apply_def)
qed

section \<open>Properties\<close>

text \<open>
  C9. Clients of the store that insert, load and apply events to automation runs in any interleaving, each with
  copies of its own and as late as it likes, with database errors at any point, never lose an update: the row of every run is what its applied
  events give, one after the other, from the machine it was inserted with, its version counts
  them, and its \<open>state\<close> and \<open>expires_at\<close> columns agree with the stored machine.
\<close>

theorem automation_store_serial:
  assumes "(sm_step automation)\<^sup>*\<^sup>* sm_init s" "gm_get (sy_tbl s) i = Some row"
  shows "\<exists>m0 m. sy_start s i = Some m0 \<and> run_events automation m0 (sy_applied s i) = Some m \<and> ar_ID m = i \<and>
    run_Unmarshal (sr_state_data row) = Inr m \<and> sr_state row = ar_State m \<and>
    sr_expires_at row = ar_ExpiresAt m \<and> sr_version row = 1 + int (length (sy_applied s i))"
  using runs.serial [OF assms(1)] assms(2) by (simp add: sys_inv_def row_serial_def)

definition run_1 :: AutomationRun where
  "run_1 = NewRun 1 2 3 4 (Some 1000)"

text \<open>The run is inserted and claimed.\<close>

definition tbl_1 :: "jobject sm_table" where
  "tbl_1 = snd (sm_Insert automation None [] run_1)"

definition held_1 :: "AutomationRun Loaded" where
  "held_1 = \<lparr>ld_Machine = run_1, ld_Version = 1\<rparr>"

definition held_2 :: "AutomationRun Loaded" where
  "held_2 = \<lparr>ld_Machine = run_1\<lparr>ar_State := StateRunning, ar_Attempts := 1\<rparr>, ld_Version = 2\<rparr>"

definition tbl_2 :: "jobject sm_table" where
  "tbl_2 = fst (snd (sm_Apply automation None tbl_1 held_1 ClaimEvent))"

lemma run_1_stored:
  "sm_Insert automation None [] run_1 = (Inr held_1, tbl_1)"
  "sm_Apply automation None tbl_1 held_1 ClaimEvent = (Inr held_2, tbl_2, ld_Machine held_2)"
  "ar_ID run_1 = 1" "ar_ID (ld_Machine held_2) = 1"
  "map_option sr_version (gm_get tbl_2 1) = Some 2"
  by (code_simp, code_simp, code_simp, code_simp, code_simp)

text \<open>Two clients hold the run when the first one claims it; the second comes too late.\<close>

definition sys_of :: "jobject sm_table \<Rightarrow> AutomationRun Loaded multiset \<Rightarrow> Event list \<Rightarrow> (AutomationRun, Event, jobject) sm_sys" where
  "sys_of tbl held evs = \<lparr>sy_tbl = tbl, sy_held = held, sy_start = (\<lambda>_. None)(1 \<mapsto> run_1), sy_applied = (\<lambda>_. [])(1 := evs)\<rparr>"

abbreviation sys_2 :: "(AutomationRun, Event, jobject) sm_sys" where
  "sys_2 \<equiv> sys_of tbl_2 {#held_2#} [ClaimEvent]"

lemma run_1_late:
  "sm_Load automation None tbl_1 1 = Inr held_1"
  "fst (snd (sm_Apply automation None tbl_2 held_1 ClaimEvent)) = tbl_2"
  "fst (sm_Apply automation None tbl_2 held_1 ClaimEvent) = Inl (StaleError 1 1)"
  by code_simp+

lemma sys_2_reached: "(sm_step automation)\<^sup>*\<^sup>* sm_init sys_2"
proof -
  have "sm_step automation sm_init (sys_of tbl_1 {#held_1#} [])"
    using sm_step.insert_ok [of automation None sm_init run_1 held_1 tbl_1] run_1_stored(1,3)
    by (simp add: sm_init_def sys_of_def fun_upd_idem)
  moreover have "sm_step automation (sys_of tbl_1 {#held_1#} []) (sys_of tbl_1 {#held_1, held_1#} [])"
    using sm_step.load_ok [of automation None "sys_of tbl_1 {#held_1#} []" 1 held_1] run_1_late(1) by (simp add: sys_of_def)
  moreover have "sm_step automation (sys_of tbl_1 {#held_1, held_1#} []) (sys_of tbl_2 {#held_2, held_1#} [ClaimEvent])"
    using sm_step.apply_ok [of held_1 "sys_of tbl_1 {#held_1, held_1#} []" automation None ClaimEvent held_2 tbl_2 "ld_Machine held_2"]
      run_1_stored(2,4) by (simp add: sys_of_def)
  moreover have "sm_step automation (sys_of tbl_2 {#held_2, held_1#} [ClaimEvent]) sys_2"
    using sm_step.apply_err [of held_1 "sys_of tbl_2 {#held_2, held_1#} [ClaimEvent]" automation None ClaimEvent "StaleError 1 1" tbl_2]
      run_1_late(2,3) by (cases "sm_Apply automation None tbl_2 held_1 ClaimEvent") (simp add: sys_of_def)
  ultimately show ?thesis by (meson converse_rtranclp_into_rtranclp r_into_rtranclp)
qed

theorem automation_store_serial_witness:
  "\<exists>row m0 m. gm_get (sy_tbl sys_2) 1 = Some row \<and> sy_start sys_2 1 = Some m0 \<and>
    run_events automation m0 (sy_applied sys_2 1) = Some m \<and> ar_ID m = 1 \<and>
    run_Unmarshal (sr_state_data row) = Inr m \<and> sr_state row = ar_State m \<and> sr_version row = 2"
proof -
  obtain row where row: "gm_get (sy_tbl sys_2) 1 = Some row" "sr_version row = 2"
    using run_1_stored(5) by (auto simp: sys_of_def)
  from automation_store_serial [OF sys_2_reached row(1)] row show ?thesis by blast
qed

text \<open>
  Of two writers that hold the same version of a run, the one that comes second is refused and the
  table stays as the first one left it.
\<close>

theorem automation_second_writer:
  assumes "sm_Apply automation f1 tbl l1 e1 = (Inr l1', tbl', m1)"
    and "ld_Version l2 = ld_Version l1" "ar_ID (ld_Machine l2) = ar_ID (ld_Machine l1)"
  shows "\<exists>e m2. sm_Apply automation f2 tbl' l2 e2 = (Inl e, tbl', m2)"
proof (cases "sm_Apply automation f2 tbl' l2 e2")
  case (fields r tbl'' m2)
  with runs.second_writer_stale [OF assms(1), of l2 f2 e2 r tbl'' m2] assms show ?thesis by auto
qed

theorem automation_second_writer_witness:
  "\<exists>e m2. sm_Apply automation None tbl_2 held_1 (PreFlightFailedEvent ''bad'') = (Inl e, tbl_2, m2)"
  by (rule automation_second_writer [OF run_1_stored(2)]) simp_all

text \<open>
  \<open>Apply\<close> succeeds on exactly the nine transitions; every one is allowed by \<open>CanTransitionTo\<close>, leaves
  a non-terminal state, and keeps the identifiers. A rejected event leaves the machine as it was, and a
  terminal machine rejects every event.
\<close>

theorem run_Apply_diagram:
  "case run_Apply r ev of
     (None, r') \<Rightarrow> (ar_State r, ev_Kind ev, ar_State r') \<in> set run_table \<and>
        CanTransitionTo (ar_State r) (ar_State r') \<and> \<not> State_IsTerminal (ar_State r) \<and>
        ar_ID r' = ar_ID r \<and> ar_TenantID r' = ar_TenantID r \<and> ar_DefinitionID r' = ar_DefinitionID r \<and>
        ar_CorrelationID r' = ar_CorrelationID r
   | (Some e, r') \<Rightarrow> r' = r \<and> (\<forall>nxt. (ar_State r, ev_Kind ev, nxt) \<notin> set run_table)"
proof (cases rule: run_Apply_cases [of r ev])
  case (rejected msg)
  then show ?thesis using run_arm_None by simp
next
  case (applied r' nxt)
  then show ?thesis
    using run_arm_table [OF applied(2)] run_arm_id [OF applied(2)] run_table_valid by auto
qed

text \<open>
  C35. Writing a run as JSON succeeds exactly if its deadline is a time of the years 0 to 9999 and its raw
  fields are well-formed, and reading it back then gives the same run.
\<close>

theorem run_json_roundtrip:
  "(\<exists>ob. run_Marshal r = Inr ob \<and> run_Unmarshal ob = Inr r) \<longleftrightarrow>
   (case ar_ExpiresAt r of None \<Rightarrow> True | Some t \<Rightarrow> year_0 \<le> t \<and> t < year_10000) \<and>
   (\<forall>s. ar_EffectResponse r \<noteq> RawBad s) \<and> (\<forall>s. ar_Progress r \<noteq> RawBad s)"
  using run_Marshal_iff [of r] run_codec unfolding run_storable_def by blast

fun claims :: "Event list \<Rightarrow> nat" where
  "claims [] = 0"
| "claims (ev # evs) = (if ev_Kind ev \<in> {EventClaim, EventResume} then 1 else 0) + claims evs"

lemma unat_all_ones: "unat (- 1 :: u32) = 2 ^ 32 - 1"
  by (simp add: unsigned_minus_1_eq_mask mask_eq_exp_minus_1)

lemma unat_saturatingAdd: "unat (saturatingAdd a b) = min (2 ^ 32 - 1) (unat a + unat b)"
proof -
  have b: "unat b < 2 ^ 32" by (rule unat_u32_less)
  have m: "unat (- 1 - b) = 2 ^ 32 - 1 - unat b"
    using b by (simp add: unat_sub word_le_nat_alt unat_all_ones)
  show ?thesis
  proof (cases "a > - 1 - b")
    case True
    then have "unat a > 2 ^ 32 - 1 - unat b" using m by (simp add: word_less_nat_alt)
    then show ?thesis using True b by (simp add: saturatingAdd_def unat_all_ones)
  next
    case False
    then have "unat a + unat b < 2 ^ 32" using m b by (simp add: word_less_nat_alt)
    then show ?thesis using False by (simp add: saturatingAdd_def unat_word_ariths)
  qed
qed

lemma run_Apply_attempts:
  assumes "run_Apply r ev = (None, r')"
  shows "unat (ar_Attempts r') = min (2 ^ 32 - 1) (unat (ar_Attempts r) + claims [ev])"
proof -
  obtain r1 nxt where "run_arm r ev = Some (r1, nxt)" "r' = r1\<lparr>ar_State := nxt\<rparr>"
    using assms by (cases rule: run_Apply_cases [of r ev]) auto
  then show ?thesis
    using unat_u32_less [of "ar_Attempts r"]
    by (auto simp: run_arm_def unat_saturatingAdd split: if_splits)
qed

text \<open>
  \<open>Attempts\<close> counts how often a run was claimed or resumed, up to the largest \<open>uint32\<close>, where it
  stays.
\<close>

theorem run_attempts_saturate:
  assumes "run_events automation r evs = Some r'"
  shows "unat (ar_Attempts r') = min (2 ^ 32 - 1) (unat (ar_Attempts r) + claims evs)"
  using assms
proof (induction evs arbitrary: r)
  case Nil
  then show ?case using unat_u32_less [of "ar_Attempts r"] by simp
next
  case (Cons ev evs)
  then obtain r1 where "run_Apply r ev = (None, r1)" "run_events automation r1 evs = Some r'"
    by (auto split: prod.splits option.splits)
  with Cons.IH [of r1] run_Apply_attempts [of r ev r1] show ?case by simp
qed

theorem run_attempts_saturate_witness:
  "\<exists>r'. run_events automation (run_1\<lparr>ar_Attempts := -1\<rparr>) [ClaimEvent, SuspendEvent None, ResumeEvent] = Some r' \<and>
     unat (ar_Attempts r') = 2 ^ 32 - 1"
proof -
  let ?evs = "[ClaimEvent, SuspendEvent None, ResumeEvent]"
  obtain r' where r': "run_events automation (run_1\<lparr>ar_Attempts := -1\<rparr>) ?evs = Some r'"
    by (simp add: event_defs run_1_def NewRun_def run_Apply_def run_arm_def CanTransitionTo_def)
  from run_attempts_saturate [OF r'] r' show ?thesis by (simp add: unat_all_ones)
qed

text \<open>
  A queued run with a deadline whose pre-flight check fails keeps the deadline in its row. From the
  deadline on, every sweep returns the failed run again, and every event that the sweep could apply to
  it is rejected and leaves the row as it is.
\<close>

theorem failed_run_swept_again:
  assumes "sm_Insert automation None [] (NewRun i tn d c (Some t)) = (Inr l, tbl)"
    and "sm_Apply automation None tbl l (PreFlightFailedEvent e) = (Inr l', tbl', m)" and "t \<le> now"
  shows "sm_TimeoutSweep automation None tbl' now = Inr [l'] \<and> State_IsTerminal (ar_State (ld_Machine l')) \<and>
    (\<forall>ev. \<exists>msg m'. sm_Apply automation None tbl' l' ev = (Inl (TransitionError msg), tbl', m'))"
proof -
  obtain p where p: "run_Marshal (NewRun i tn d c (Some t)) = Inr p" "l = \<lparr>ld_Machine = NewRun i tn d c (Some t), ld_Version = 1\<rparr>"
    "tbl = gm_put [] i \<lparr>sr_state = StateQueued, sr_state_data = p, sr_version = 1, sr_expires_at = Some t\<rparr>"
    using assms(1) by (elim sm_Insert_Inr) (simp add: NewRun_def)
  obtain q where q: "run_Apply (ld_Machine l) (PreFlightFailedEvent e) = (None, m)" "run_Marshal m = Inr q"
    "l' = \<lparr>ld_Machine = m, ld_Version = ld_Version l + 1\<rparr>"
    "tbl' = gm_put tbl (ar_ID (ld_Machine l)) \<lparr>sr_state = ar_State m, sr_state_data = q,
        sr_version = ld_Version l + 1, sr_expires_at = ar_ExpiresAt m\<rparr>"
    using assms(2) by (elim sm_Apply_Inr) auto
  have m: "m = (NewRun i tn d c (Some t))\<lparr>ar_LastError := Some e, ar_State := StateFailed\<rparr>"
    using q(1) p(2) by (simp add: run_Apply_def run_arm_def event_defs NewRun_def CanTransitionTo_def)
  have "tbl' = [(i, \<lparr>sr_state = StateFailed, sr_state_data = q, sr_version = ld_Version l + 1, sr_expires_at = Some t\<rparr>)]"
    using q(4) p(2,3) m by (simp add: gm_put_def NewRun_def)
  then have "sm_TimeoutSweep automation None tbl' now = Inr [l']"
    using run_codec [OF q(2)] q(3) assms(3) by (simp add: sm_TimeoutSweep_def sweep_due_def)
  moreover have "\<exists>msg m'. sm_Apply automation None tbl' l' ev = (Inl (TransitionError msg), tbl', m')" for ev
    using q(3) m by (simp add: sm_Apply_def run_Apply_def run_arm_def)
  ultimately show ?thesis using q(3) m by (simp add: State_IsTerminal_def)
qed

lemma failed_run_applied:
  "sm_Apply automation None tbl_1 held_1 (PreFlightFailedEvent ''bad'') =
     (Inr \<lparr>ld_Machine = run_1\<lparr>ar_State := StateFailed, ar_LastError := Some ''bad''\<rparr>, ld_Version = 2\<rparr>,
      fst (snd (sm_Apply automation None tbl_1 held_1 (PreFlightFailedEvent ''bad''))),
      run_1\<lparr>ar_State := StateFailed, ar_LastError := Some ''bad''\<rparr>)"
  by code_simp

theorem failed_run_swept_again_witness:
  "\<exists>l' tbl' m. sm_Apply automation None tbl_1 held_1 (PreFlightFailedEvent ''bad'') = (Inr l', tbl', m) \<and>
     sm_TimeoutSweep automation None tbl' 5000 = Inr [l']"
proof -
  obtain l' tbl' m where a: "sm_Apply automation None tbl_1 held_1 (PreFlightFailedEvent ''bad'') = (Inr l', tbl', m)"
    using failed_run_applied by blast
  from failed_run_swept_again [OF run_1_stored(1) [unfolded run_1_def] a, of 5000] a show ?thesis by auto
qed

end
