(* ===== verification/Idempotency.thy ===== *)
theory Idempotency
  imports Prelude
begin

text \<open>
  The deduplication library \<open>libs/idempotency/idempotency.go\<close>: the \<open>Store\<close> interface as the locale
  \<open>idem_store\<close>, the wrapper \<open>Idempotent\<close>, and the two stores, \<open>MemStore\<close> and \<open>PgStore\<close>, which are
  shown to keep the contract. A statement that reports an error may have failed before or after the
  database recorded the row.
\<close>

section \<open>Outcomes and the wrapper\<close>

datatype Outcome = OutcomeFirstSeen | OutcomeAlreadyProcessed

definition IsFirstSeen :: "Outcome \<Rightarrow> bool" where
  "IsFirstSeen o' \<longleftrightarrow> o' = OutcomeFirstSeen"

definition IsAlreadyProcessed :: "Outcome \<Rightarrow> bool" where
  "IsAlreadyProcessed o' \<longleftrightarrow> o' = OutcomeAlreadyProcessed"

datatype 'e idem_error = ErrBackend string | ClosureError 'e

text \<open>
  The closure acts on a world of its own; the result is the value, if the closure gave one, whether
  it ran, and the error.
\<close>

definition Idempotent ::
  "('f \<Rightarrow> 's \<Rightarrow> uuid \<Rightarrow> (string + Outcome) \<times> 's) \<Rightarrow> 'f \<Rightarrow> uuid \<Rightarrow> ('w \<Rightarrow> ('e + 'v) \<times> 'w) \<Rightarrow> 's \<times> 'w \<Rightarrow>
   ('v option \<times> bool \<times> 'e idem_error option) \<times> 's \<times> 'w" where
  "Idempotent CheckAndRecord fault eventID f st =
     (let (s, w) = st; (r, s') = CheckAndRecord fault s eventID
      in case r of
        Inl berr \<Rightarrow> ((None, False, Some (ErrBackend berr)), s', w)
      | Inr outcome \<Rightarrow>
        if IsAlreadyProcessed outcome then ((None, False, None), s', w)
        else (case f w of
            (Inl e, w') \<Rightarrow> ((None, True, Some (ClosureError e)), s', w')
          | (Inr v, w') \<Rightarrow> ((Some v, True, None), s', w')))"

text \<open>A sequence of deliveries; the ids whose closure ran, in order.\<close>

fun deliver_all ::
  "('f \<Rightarrow> 's \<Rightarrow> uuid \<Rightarrow> (string + Outcome) \<times> 's) \<Rightarrow> (uuid \<Rightarrow> 'w \<Rightarrow> ('e + 'v) \<times> 'w) \<Rightarrow> 's \<times> 'w \<Rightarrow>
   ('f \<times> uuid) list \<Rightarrow> uuid list \<times> 's \<times> 'w" where
  "deliver_all check f st [] = ([], st)"
| "deliver_all check f st ((fault, e) # ds) =
     (let ((_, ran, _), st1) = Idempotent check fault e (f e) st;
          (rans, st2) = deliver_all check f st1 ds
      in (if ran then e # rans else rans, st2))"

section \<open>The contract of a store\<close>

locale idem_store =
  fixes check :: "'f \<Rightarrow> 's \<Rightarrow> uuid \<Rightarrow> (string + Outcome) \<times> 's" and seen :: "'s \<Rightarrow> uuid set"
  assumes check_ok: "check fault s e = (Inr outcome, s') \<Longrightarrow>
      seen s' = insert e (seen s) \<and> (IsFirstSeen outcome \<longleftrightarrow> e \<notin> seen s)"
    and check_err: "check fault s e = (Inl err, s') \<Longrightarrow> seen s \<subseteq> seen s' \<and> seen s' \<subseteq> insert e (seen s)"
begin

lemma Idempotent_cases:
  obtains (backend) err s' where "check fault s e = (Inl err, s')" "seen s \<subseteq> seen s'" "seen s' \<subseteq> insert e (seen s)"
      "Idempotent check fault e f (s, w) = ((None, False, Some (ErrBackend err)), s', w)"
  | (dup) s' where "e \<in> seen s" "seen s' = seen s" "Idempotent check fault e f (s, w) = ((None, False, None), s', w)"
  | (first) s' v err w' where "e \<notin> seen s" "seen s' = insert e (seen s)"
      "Idempotent check fault e f (s, w) = ((v, True, err), s', w')" "snd (f w) = w'"
proof (cases "check fault s e")
  case (Pair r s')
  show thesis
  proof (cases r)
    case (Inl err)
    with Pair backend check_err [of fault s e err s'] show thesis by (simp add: Idempotent_def)
  next
    case (Inr outcome)
    with Pair have c: "seen s' = insert e (seen s)" "IsFirstSeen outcome \<longleftrightarrow> e \<notin> seen s"
      using check_ok by auto
    show thesis
    proof (cases outcome)
      case OutcomeFirstSeen
      with c Pair Inr show thesis
        by (cases "f w"; cases "fst (f w)")
          (auto simp: Idempotent_def IsAlreadyProcessed_def IsFirstSeen_def intro: first)
    next
      case OutcomeAlreadyProcessed
      with c Pair Inr dup show thesis
        by (auto simp: Idempotent_def IsAlreadyProcessed_def IsFirstSeen_def insert_absorb)
    qed
  qed
qed

text \<open>However often an event is delivered, and whatever the store reports, its work runs at most once.\<close>

lemma at_most_once:
  "deliver_all check f (s, w) ds = (rans, s', w') \<Longrightarrow>
   distinct rans \<and> set rans \<inter> seen s = {} \<and> set rans \<subseteq> snd ` set ds \<and>
   seen s \<union> set rans \<subseteq> seen s' \<and> seen s' \<subseteq> seen s \<union> snd ` set ds"
proof (induction ds arbitrary: s w rans)
  case (Cons d ds)
  obtain fault e where d: "d = (fault, e)" by (cases d)
  show ?case
  proof (cases rule: Idempotent_cases [where fault = fault and s = s and e = e and f = "f e" and w = w])
    case (backend err s1)
    then have "deliver_all check f (s1, w) ds = (rans, s', w')"
      using Cons.prems d by (auto simp: Let_def split: prod.splits)
    from Cons.IH [OF this] backend(2,3) d show ?thesis by auto
  next
    case (dup s1)
    then have "deliver_all check f (s1, w) ds = (rans, s', w')"
      using Cons.prems d by (auto simp: Let_def split: prod.splits)
    from Cons.IH [OF this] dup(2) d show ?thesis by auto
  next
    case (first s1 v err w1)
    then obtain rans1 where "deliver_all check f (s1, w1) ds = (rans1, s', w')" "rans = e # rans1"
      using Cons.prems d by (auto simp: Let_def split: prod.splits)
    from Cons.IH [OF this(1)] first(1,2) this(2) d show ?thesis by auto
  qed
qed simp

text \<open>If the store never reports an error, the work of every new event runs exactly once.\<close>

lemma exactly_once:
  assumes "deliver_all check f (s, w) ds = (rans, s', w')"
    and "\<And>fault s e. fault \<in> fst ` set ds \<Longrightarrow> \<exists>outcome s'. check fault s e = (Inr outcome, s')"
  shows "distinct rans \<and> set rans = snd ` set ds - seen s"
  using assms
proof (induction ds arbitrary: s w rans)
  case (Cons d ds)
  obtain fault e where d: "d = (fault, e)" by (cases d)
  show ?case
  proof (cases rule: Idempotent_cases [where fault = fault and s = s and e = e and f = "f e" and w = w])
    case (backend err s1)
    then show ?thesis using Cons.prems(2) [of fault s e] d by simp
  next
    case (dup s1)
    then have "deliver_all check f (s1, w) ds = (rans, s', w')"
      using Cons.prems d by (auto simp: Let_def split: prod.splits)
    from Cons.IH [OF this] Cons.prems(2) dup(1,2) d show ?thesis by auto
  next
    case (first s1 v err w1)
    then obtain rans1 where "deliver_all check f (s1, w1) ds = (rans1, s', w')" "rans = e # rans1"
      using Cons.prems d by (auto simp: Let_def split: prod.splits)
    with Cons.IH [OF this(1)] Cons.prems(2) first(1,2) d show ?thesis by auto
  qed
qed simp

end

section \<open>The stores\<close>

type_synonym seen_map = "(uuid, unit) gomap"

text \<open>\<open>MemStore\<close>: the mutex makes a call atomic; no call fails.\<close>

definition mem_CheckAndRecord :: "unit \<Rightarrow> seen_map \<Rightarrow> uuid \<Rightarrow> (string + Outcome) \<times> seen_map" where
  "mem_CheckAndRecord u m eventID =
     (if gm_get m eventID \<noteq> None then (Inr OutcomeAlreadyProcessed, m)
      else (Inr OutcomeFirstSeen, gm_put m eventID ()))"

definition mem_Len :: "seen_map \<Rightarrow> nat" where
  "mem_Len m = length m"

text \<open>\<open>PgStore\<close>: \<open>INSERT ... ON CONFLICT DO NOTHING RETURNING\<close> as one statement.\<close>

datatype db_fault = NoFault | FaultBefore string | FaultAfter string

definition insert_returning :: "seen_map \<Rightarrow> uuid \<Rightarrow> uuid option \<times> seen_map" where
  "insert_returning tbl e = (if gm_get tbl e \<noteq> None then (None, tbl) else (Some e, gm_put tbl e ()))"

definition pg_CheckAndRecord :: "db_fault \<Rightarrow> seen_map \<Rightarrow> uuid \<Rightarrow> (string + Outcome) \<times> seen_map" where
  "pg_CheckAndRecord fault tbl eventID =
     (case fault of
        FaultBefore e \<Rightarrow> (Inl e, tbl)
      | FaultAfter e \<Rightarrow> (Inl e, snd (insert_returning tbl eventID))
      | NoFault \<Rightarrow>
        (case insert_returning tbl eventID of
           (Some _, tbl') \<Rightarrow> (Inr OutcomeFirstSeen, tbl')
         | (None, tbl') \<Rightarrow> (Inr OutcomeAlreadyProcessed, tbl')))"

abbreviation recorded :: "seen_map \<Rightarrow> uuid set" where
  "recorded m \<equiv> set (gm_keys m)"

interpretation mem: idem_store mem_CheckAndRecord recorded
  by unfold_locales
    (auto simp: mem_CheckAndRecord_def IsFirstSeen_def gm_get_None_iff insert_absorb split: if_splits)

interpretation pg: idem_store pg_CheckAndRecord recorded
  by unfold_locales
    (auto simp: pg_CheckAndRecord_def insert_returning_def IsFirstSeen_def gm_get_None_iff insert_absorb
      split: if_splits db_fault.splits)

section \<open>Properties\<close>

text \<open>
  C28. Over the Postgres store, whatever statements fail and in whatever order events are delivered and
  redelivered, the work of an event runs at most once, and never for an event that was recorded
  before; what is recorded afterwards is what was, with delivered events added.
\<close>

theorem Idempotent_pg_at_most_once:
  assumes "deliver_all pg_CheckAndRecord f (tbl, w) ds = (rans, tbl', w')"
  shows "distinct rans \<and> set rans \<inter> recorded tbl = {} \<and> set rans \<subseteq> snd ` set ds \<and>
    recorded tbl \<union> set rans \<subseteq> recorded tbl' \<and> recorded tbl' \<subseteq> recorded tbl \<union> snd ` set ds"
  using assms by (rule pg.at_most_once)

definition tick :: "uuid \<Rightarrow> nat \<Rightarrow> (string + nat) \<times> nat" where
  "tick e w = (Inr w, Suc w)"

theorem Idempotent_pg_at_most_once_witness:
  "\<exists>rans tbl' w'. deliver_all pg_CheckAndRecord tick ([], 0) [(NoFault, 7), (FaultAfter ''lost'', 8), (NoFault, 7), (NoFault, 8)]
     = (rans, tbl', w') \<and> rans = [7] \<and> distinct rans \<and> recorded tbl' \<subseteq> {7, 8}"
proof -
  let ?ds = "[(NoFault, 7), (FaultAfter ''lost'', 8), (NoFault, 7), (NoFault, 8)]"
  obtain rans tbl' w' where d: "deliver_all pg_CheckAndRecord tick ([], 0) ?ds = (rans, tbl', w')"
    by (metis prod_cases3)
  moreover have "fst (deliver_all pg_CheckAndRecord tick ([], 0) ?ds) = [7]" by code_simp
  ultimately show ?thesis using Idempotent_pg_at_most_once [OF d] by auto
qed

text \<open>
  With the in-memory store, and with the Postgres store as long as no statement fails, the work of every
  delivered event that is not recorded yet runs exactly once.
\<close>

theorem Idempotent_exactly_once:
  assumes "deliver_all pg_CheckAndRecord f (tbl, w) (map (Pair NoFault) es) = (rans, tbl', w')"
    and "deliver_all mem_CheckAndRecord f (m, w) (map (Pair ()) es) = (mrans, m', mw')"
  shows "distinct rans \<and> set rans = set es - recorded tbl \<and> distinct mrans \<and> set mrans = set es - recorded m"
proof -
  have "\<exists>outcome s'. pg_CheckAndRecord NoFault s e = (Inr outcome, s')" for s e
    by (simp add: pg_CheckAndRecord_def split: prod.splits option.splits)
  with pg.exactly_once [OF assms(1)] have "distinct rans \<and> set rans = set es - recorded tbl" by force
  moreover have "\<exists>outcome s'. mem_CheckAndRecord u s e = (Inr outcome, s')" for u s e
    by (simp add: mem_CheckAndRecord_def)
  with mem.exactly_once [OF assms(2)] have "distinct mrans \<and> set mrans = set es - recorded m" by force
  ultimately show ?thesis by simp
qed

theorem Idempotent_exactly_once_witness:
  "\<exists>rans mrans tbl' m' w' mw'.
     deliver_all pg_CheckAndRecord tick ([(9, ())], 0) (map (Pair NoFault) [9, 7, 8, 7]) = (rans, tbl', w') \<and>
     deliver_all mem_CheckAndRecord tick ([], 0) (map (Pair ()) [9, 7, 8, 7]) = (mrans, m', mw') \<and>
     set rans = {7, 8} \<and> set mrans = {7, 8, 9}"
proof -
  obtain rans tbl' w' where d: "deliver_all pg_CheckAndRecord tick ([(9, ())], 0) (map (Pair NoFault) [9, 7, 8, 7]) = (rans, tbl', w')"
    by (metis prod_cases3)
  obtain mrans m' mw' where m: "deliver_all mem_CheckAndRecord tick ([], 0) (map (Pair ()) [9, 7, 8, 7]) = (mrans, m', mw')"
    by (metis prod_cases3)
  have "set [9, 7, 8, 7] - recorded [(9, ())] = {7, 8 :: uuid}" by code_simp
  then show ?thesis using Idempotent_exactly_once [OF d m] d m by (auto simp: gm_keys_def)
qed

text \<open>
  A statement that records the event and then reports an error makes the work never run: the caller sees
  the error, and every later delivery is skipped.
\<close>

theorem Idempotent_lost_after_fault:
  assumes "gm_get tbl e = None"
  shows "\<exists>tbl'. Idempotent pg_CheckAndRecord (FaultAfter err) e f (tbl, w) = ((None, False, Some (ErrBackend err)), tbl', w) \<and>
    (\<forall>g v. Idempotent pg_CheckAndRecord NoFault e g (tbl', v) = ((None, False, None), tbl', v))"
  using assms
  by (simp add: Idempotent_def pg_CheckAndRecord_def insert_returning_def IsAlreadyProcessed_def)

theorem Idempotent_lost_after_fault_witness:
  "\<exists>tbl'. Idempotent pg_CheckAndRecord (FaultAfter ''eof'') 7 (tick 7) ([], 0) = ((None, False, Some (ErrBackend ''eof'')), tbl', 0) \<and>
    (\<forall>g v. Idempotent pg_CheckAndRecord NoFault 7 g (tbl', v :: nat) = ((None, False, None :: string idem_error option), tbl', v))"
  by (rule Idempotent_lost_after_fault) simp

end
