(* ===== verification/Outbox.thy ===== *)
theory Outbox
  imports Json_Codec
begin

text \<open>
  The transactional outbox \<open>libs/outbox/outbox.go\<close>. The state that matters is the table
  \<open>outbox.events\<close> and the write-ahead log, from which the connector publishes every INSERT of a
  committed transaction. A transaction works on a copy; its owner keeps the copy on commit and drops
  it on rollback.
\<close>

section \<open>Events\<close>

record OutboxEvent =
  oe_EventID :: uuid
  oe_Aggregate :: string
  oe_AggregateID :: string
  oe_Topic :: string
  oe_Payload :: "jobject raw"
  oe_Headers :: "(string, string) gomap"

definition NewOutboxEvent :: "uuid \<Rightarrow> string \<Rightarrow> string \<Rightarrow> string \<Rightarrow> jobject raw \<Rightarrow> OutboxEvent" where
  "NewOutboxEvent eventID aggregate aggregateID topic payload =
     \<lparr>oe_EventID = eventID, oe_Aggregate = aggregate, oe_AggregateID = aggregateID, oe_Topic = topic,
      oe_Payload = payload, oe_Headers = []\<rparr>"

definition WithHeader :: "string \<Rightarrow> string \<Rightarrow> OutboxEvent \<Rightarrow> OutboxEvent" where
  "WithHeader k v e = e\<lparr>oe_Headers := gm_put (oe_Headers e) k v\<rparr>"

section \<open>The table and the log\<close>

record outbox =
  ob_events :: "(uuid, OutboxEvent) gomap"
  ob_wal :: "OutboxEvent list"

record outbox_faults =
  of_insert :: "string option"
  of_delete :: "string option"

text \<open>
  The columns are \<open>jsonb NOT NULL\<close>, so the INSERT fails on an absent or malformed payload. Encoding a
  map of strings cannot fail.
\<close>

definition Enqueue :: "outbox_faults \<Rightarrow> outbox \<Rightarrow> OutboxEvent \<Rightarrow> string option \<times> outbox" where
  "Enqueue f ob event =
     (case of_insert f of
        Some e \<Rightarrow> (Some (''outbox insert: '' @ e), ob)
      | None \<Rightarrow>
     (case oe_Payload event of
        RawEmpty \<Rightarrow> (Some ''outbox insert: null value'', ob)
      | RawBad s \<Rightarrow> (Some ''outbox insert: invalid json'', ob)
      | Raw payload \<Rightarrow>
        if gm_get (ob_events ob) (oe_EventID event) \<noteq> None then (None, ob)
        else
          let ob1 = \<lparr>ob_events = gm_put (ob_events ob) (oe_EventID event) event, ob_wal = ob_wal ob @ [event]\<rparr>
          in (case of_delete f of
                Some e \<Rightarrow> (Some (''outbox tombstone delete: '' @ e), ob1)
              | None \<Rightarrow> (None, ob1\<lparr>ob_events := gm_del (ob_events ob1) (oe_EventID event)\<rparr>))))"

lemma Enqueue_ok:
  assumes "Enqueue f ob e = (None, ob')" "ob_events ob = []"
  shows "ob_events ob' = [] \<and> ob_wal ob' = ob_wal ob @ [e]"
  using assms
  by (auto simp: Enqueue_def Let_def gm_put_def gm_del_def split: option.splits raw.splits if_splits)

lemma Enqueue_succeeds:
  "of_insert f = None \<Longrightarrow> of_delete f = None \<Longrightarrow> oe_Payload e = Raw p \<Longrightarrow> ob_events ob = [] \<Longrightarrow>
   Enqueue f ob e = (None, ob\<lparr>ob_wal := ob_wal ob @ [e]\<rparr>)"
  by (cases ob) (simp add: Enqueue_def Let_def gm_put_def gm_del_def)

section \<open>Properties\<close>

fun enqueue_all :: "outbox \<Rightarrow> (outbox_faults \<times> OutboxEvent) list \<Rightarrow> string option \<times> outbox" where
  "enqueue_all ob [] = (None, ob)"
| "enqueue_all ob ((f, e) # es) =
     (case Enqueue f ob e of (Some err, ob') \<Rightarrow> (Some err, ob') | (None, ob') \<Rightarrow> enqueue_all ob' es)"

text \<open>
  Enqueueing into an outbox table that is empty either reports an error or adds the event once to
  the log and leaves the table empty again; so for a list of events that are all enqueued without
  error, the log gets exactly these events, in order.
\<close>

theorem Enqueue_emits_each:
  assumes "enqueue_all ob es = (None, ob')" "ob_events ob = []"
  shows "ob_events ob' = [] \<and> ob_wal ob' = ob_wal ob @ map snd es"
  using assms
proof (induction es arbitrary: ob)
  case (Cons fe es)
  obtain f e where fe: "fe = (f, e)" by (cases fe)
  from Cons.prems fe obtain ob1 where e: "Enqueue f ob e = (None, ob1)" "enqueue_all ob1 es = (None, ob')"
    by (auto split: prod.splits option.splits)
  from Enqueue_ok [OF e(1) Cons.prems(2)] Cons.IH [OF e(2)] fe show ?case by simp
qed simp

definition no_outbox_faults :: outbox_faults where
  "no_outbox_faults = \<lparr>of_insert = None, of_delete = None\<rparr>"

definition outbox_event_1 :: OutboxEvent where
  "outbox_event_1 = WithHeader ''ol-job'' ''x'' (NewOutboxEvent 1 ''approval_request'' ''a'' ''t'' (Raw []))"

theorem Enqueue_emits_each_witness:
  "ob_wal (snd (enqueue_all \<lparr>ob_events = [], ob_wal = []\<rparr>
     [(no_outbox_faults, outbox_event_1), (no_outbox_faults, outbox_event_1\<lparr>oe_EventID := 2\<rparr>)]))
   = [outbox_event_1, outbox_event_1\<lparr>oe_EventID := 2\<rparr>]"
proof -
  let ?es = "[(no_outbox_faults, outbox_event_1), (no_outbox_faults, outbox_event_1\<lparr>oe_EventID := 2\<rparr>)]"
  have "fst (enqueue_all \<lparr>ob_events = [], ob_wal = []\<rparr> ?es) = None" by code_simp
  then obtain ob' where "enqueue_all \<lparr>ob_events = [], ob_wal = []\<rparr> ?es = (None, ob')"
    by (metis prod.collapse)
  from Enqueue_emits_each [OF this] this show ?thesis by simp
qed

text \<open>
  The table's primary key does not collapse retries: the row is deleted before commit, so an event
  that was enqueued before, with the same id, is emitted again.
\<close>

theorem Enqueue_repeats_duplicates:
  assumes "Enqueue f ob e = (None, ob1)" "ob_events ob = []" "Enqueue g ob1 e = (None, ob2)"
  shows "ob_wal ob2 = ob_wal ob @ [e, e]"
  using Enqueue_ok [OF assms(1,2)] Enqueue_ok [OF assms(3)] by simp

theorem Enqueue_repeats_duplicates_witness:
  "\<exists>ob1 ob2. Enqueue no_outbox_faults \<lparr>ob_events = [], ob_wal = []\<rparr> outbox_event_1 = (None, ob1) \<and>
     Enqueue no_outbox_faults ob1 outbox_event_1 = (None, ob2) \<and> ob_wal ob2 = [outbox_event_1, outbox_event_1]"
proof -
  let ?ob = "\<lparr>ob_events = [], ob_wal = []\<rparr>"
  have e: "of_insert no_outbox_faults = None" "of_delete no_outbox_faults = None" "oe_Payload outbox_event_1 = Raw []"
    by (simp_all add: no_outbox_faults_def outbox_event_1_def WithHeader_def NewOutboxEvent_def)
  have 1: "Enqueue no_outbox_faults ?ob outbox_event_1 = (None, ?ob\<lparr>ob_wal := [outbox_event_1]\<rparr>)"
    using Enqueue_succeeds [OF e, of ?ob] by simp
  have 2: "Enqueue no_outbox_faults (?ob\<lparr>ob_wal := [outbox_event_1]\<rparr>) outbox_event_1
      = (None, ?ob\<lparr>ob_wal := [outbox_event_1, outbox_event_1]\<rparr>)"
    using Enqueue_succeeds [OF e, of "?ob\<lparr>ob_wal := [outbox_event_1]\<rparr>"] by simp
  from Enqueue_repeats_duplicates [OF 1 _ 2] 1 2 show ?thesis by auto
qed

end
