(* ===== verification/Go_Strings.thy ===== *)
theory Go_Strings
  imports Prelude
begin

text \<open>
  What the sources use of the packages \<open>strings\<close>, \<open>strconv\<close> and \<open>sort\<close>. Trimming, folding of case and
  splitting are modelled for ASCII text.
\<close>

section \<open>Trimming, folding and searching\<close>

definition is_space :: "char \<Rightarrow> bool" where
  "is_space c \<longleftrightarrow> c \<in> {CHR '' '', CHR 0x09, CHR 0x0A, CHR 0x0B, CHR 0x0C, CHR 0x0D}"

definition trim_left :: "string \<Rightarrow> string" where
  "trim_left s = dropWhile is_space s"

definition trim_space :: "string \<Rightarrow> string" where
  "trim_space s = rev (trim_left (rev (trim_left s)))"

definition trim_right_slash :: "string \<Rightarrow> string" where
  "trim_right_slash s = rev (dropWhile (\<lambda>c. c = CHR ''/'') (rev s))"

definition to_lower_char :: "char \<Rightarrow> char" where
  "to_lower_char c = (if CHR ''A'' \<le> c \<and> c \<le> CHR ''Z'' then char_of (of_char c + (32 :: nat)) else c)"

definition has_prefix :: "string \<Rightarrow> string \<Rightarrow> bool" where
  "has_prefix s p \<longleftrightarrow> take (length p) s = p"

fun contains_str :: "string \<Rightarrow> string \<Rightarrow> bool" where
  "contains_str [] p \<longleftrightarrow> p = []"
| "contains_str (c # s) p \<longleftrightarrow> has_prefix (c # s) p \<or> contains_str s p"

definition to_upper_char :: "char \<Rightarrow> char" where
  "to_upper_char c = (if CHR ''a'' \<le> c \<and> c \<le> CHR ''z'' then char_of (of_char c - (32 :: nat)) else c)"

definition equal_fold :: "string \<Rightarrow> string \<Rightarrow> bool" where
  "equal_fold s t \<longleftrightarrow> map to_lower_char s = map to_lower_char t"

text \<open>\<open>strings.Split\<close> at one character, \<open>strings.Fields\<close>, and the parts around the first occurrence of a character.\<close>

fun split_on :: "char \<Rightarrow> string \<Rightarrow> string list" where
  "split_on c [] = [[]]"
| "split_on c (x # xs) = (if x = c then [] # split_on c xs
     else case split_on c xs of [] \<Rightarrow> [[x]] | p # ps \<Rightarrow> (x # p) # ps)"

fun fields_from :: "string \<Rightarrow> string \<Rightarrow> string list" where
  "fields_from acc [] = (if acc = [] then [] else [acc])"
| "fields_from acc (x # xs) = (if is_space x then (if acc = [] then [] else [acc]) @ fields_from [] xs else fields_from (acc @ [x]) xs)"

definition fields_of :: "string \<Rightarrow> string list" where
  "fields_of s = fields_from [] s"

definition cut_at :: "char \<Rightarrow> string \<Rightarrow> (string \<times> string) option" where
  "cut_at c s = (if c \<in> set s then Some (takeWhile (\<lambda>x. x \<noteq> c) s, tl (dropWhile (\<lambda>x. x \<noteq> c) s)) else None)"

lemma split_on_not_Nil [simp]: "split_on c s \<noteq> []"
  by (induction c s rule: split_on.induct) (auto split: list.splits)

section \<open>Numbers\<close>

fun digits :: "nat \<Rightarrow> string" where
  "digits n = (if n < 10 then [char_of (48 + n)] else digits (n div 10) @ [char_of (48 + n mod 10)])"

fun parse_digits :: "string \<Rightarrow> int \<Rightarrow> int option" where
  "parse_digits [] n = Some n"
| "parse_digits (c # cs) n =
     (if CHR ''0'' \<le> c \<and> c \<le> CHR ''9'' then parse_digits cs (10 * n + (of_char c - 48)) else None)"

text \<open>\<open>strconv.ParseUint(s, 10, 32)\<close>.\<close>

definition ParseUint32 :: "string \<Rightarrow> u32 option" where
  "ParseUint32 s = (if s = [] then None else case parse_digits s 0 of
     None \<Rightarrow> None | Some n \<Rightarrow> if n < 2 ^ 32 then Some (word_of_int n) else None)"

text \<open>\<open>%q\<close> of the formatting package.\<close>

definition quote_char :: "char \<Rightarrow> string" where
  "quote_char c =
     (if c = CHR 0x22 then [CHR 0x5C, CHR 0x22]
      else if c = CHR 0x5C then [CHR 0x5C, CHR 0x5C]
      else if c = CHR 0x07 then CHR 0x5C # ''a''
      else if c = CHR 0x08 then CHR 0x5C # ''b''
      else if c = CHR 0x0C then CHR 0x5C # ''f''
      else if c = CHR 0x0A then CHR 0x5C # ''n''
      else if c = CHR 0x0D then CHR 0x5C # ''r''
      else if c = CHR 0x09 then CHR 0x5C # ''t''
      else if c = CHR 0x0B then CHR 0x5C # ''v''
      else if of_char c < (32 :: nat) \<or> c = CHR 0x7F
      then CHR 0x5C # ''x'' @ [(''0123456789abcdef'' ! (of_char c div 16)), (''0123456789abcdef'' ! (of_char c mod 16))]
      else [c])"

definition quote :: "string \<Rightarrow> string" where
  "quote s = CHR 0x22 # concat (map quote_char s) @ [CHR 0x22]"

section \<open>Binary search\<close>

text \<open>\<open>sort.Search\<close>: the smallest index below \<open>hi\<close> at which the predicate holds, by halving.\<close>

function sort_search :: "(nat \<Rightarrow> bool) \<Rightarrow> nat \<Rightarrow> nat \<Rightarrow> nat" where
  "sort_search f i j =
     (if i < j then (let h = (i + j) div 2 in if \<not> f h then sort_search f (h + 1) j else sort_search f i h) else i)"
  by pat_completeness auto

termination by (relation "measure (\<lambda>(f, i, j). j - i)") auto

declare sort_search.simps [simp del]

lemma sort_search_spec:
  assumes "\<And>a b. a \<le> b \<Longrightarrow> f a \<Longrightarrow> f b" "i \<le> j"
  shows "i \<le> sort_search f i j \<and> sort_search f i j \<le> j \<and> (\<forall>k. i \<le> k \<and> k < sort_search f i j \<longrightarrow> \<not> f k) \<and>
    (sort_search f i j < j \<longrightarrow> f (sort_search f i j))"
  using assms
proof (induction f i j rule: sort_search.induct)
  case (1 f i j)
  show ?case
  proof (cases "i < j")
    case True
    define h where "h = (i + j) div 2"
    have h: "i \<le> h" "h < j" using True by (auto simp: h_def)
    show ?thesis
    proof (cases "f h")
      case True
      have e: "sort_search f i j = sort_search f i h" using True \<open>i < j\<close> by (subst sort_search.simps) (simp add: Let_def h_def)
      define r where "r = sort_search f i h"
      have r: "i \<le> r" "r \<le> h" "\<forall>k. i \<le> k \<and> k < r \<longrightarrow> \<not> f k" "r < h \<longrightarrow> f r"
        using "1.IH"(2) [OF \<open>i < j\<close> h_def _ "1.prems"(1)] True h by (auto simp: r_def)
      then have "f r" using True by (cases "r = h") auto
      with r h show ?thesis unfolding e r_def [symmetric] by auto
    next
      case False
      have e: "sort_search f i j = sort_search f (h + 1) j" using False \<open>i < j\<close> by (subst sort_search.simps) (simp add: Let_def h_def)
      have "\<not> f k" if "k \<le> h" for k using "1.prems"(1) [OF that] False by blast
      then have low: "\<not> f k" if "k < h + 1" for k using that by simp
      define r where "r = sort_search f (h + 1) j"
      have r: "h + 1 \<le> r" "r \<le> j" "\<forall>k. h + 1 \<le> k \<and> k < r \<longrightarrow> \<not> f k" "r < j \<longrightarrow> f r"
        using "1.IH"(1) [OF \<open>i < j\<close> h_def False "1.prems"(1)] h by (auto simp: r_def)
      have "\<not> f k" if "k < r" for k
        using low [of k] r(3) that by (cases "k < h + 1") (auto simp: not_less)
      with r h show ?thesis unfolding e r_def [symmetric] by simp
    qed
  next
    case False
    then have "sort_search f i j = i" by (subst sort_search.simps) simp
    with False "1.prems"(2) show ?thesis by auto
  qed
qed

lemma sort_search_cong:
  assumes "\<And>k. k < j \<Longrightarrow> f k = g k"
  shows "sort_search f i j = sort_search g i j"
  using assms
proof (induction f i j rule: sort_search.induct)
  case (1 f i j)
  show ?case
  proof (cases "i < j")
    case True
    define h where "h = (i + j) div 2"
    have "h < j" using True by (simp add: h_def)
    then have "f h = g h" "\<And>k. k < h \<Longrightarrow> f k = g k" using "1.prems" by auto
    with "1.IH" [OF True h_def] "1.prems" show ?thesis
      by (subst (1 2) sort_search.simps) (simp add: Let_def flip: h_def)
  qed (subst (1 2) sort_search.simps, simp)
qed

end
