(* ===== verification/Effect_Dispatcher.thy ===== *)
theory Effect_Dispatcher
  imports Json_Codec Go_Strings
begin

text \<open>
  The HTTP effect dispatcher
  (\<open>services/workflow-automation-service/internal/domain/effectdispatcher/dispatcher.go\<close>): extraction of
  the action from a trigger payload, one call, and the retry loop. The HTTP client is a parameter that
  answers every attempt; \<open>json_text\<close> gives the text of a JSON value. \<open>NextBackoff\<close>, which computes with floating-point numbers, only decides how long the
  loop sleeps and is left out.
\<close>

section \<open>Errors and requests\<close>

datatype ErrorKind = KindInvalidPayload | KindUnconfigured | KindNonRetryable | KindRetryable | KindExhausted

record DispatchError =
  de_Kind :: ErrorKind
  de_Status :: nat
  de_Message :: string
  de_Attempts :: nat

definition dispatch_error :: "ErrorKind \<Rightarrow> string \<Rightarrow> DispatchError" where
  "dispatch_error k msg = \<lparr>de_Kind = k, de_Status = 0, de_Message = msg, de_Attempts = 0\<rparr>"

definition DispatchError_Error :: "DispatchError \<Rightarrow> string" where
  "DispatchError_Error e = (case de_Kind e of
     KindInvalidPayload \<Rightarrow> ''invalid trigger payload: '' @ de_Message e
   | KindUnconfigured \<Rightarrow> ''ontology-actions-service unconfigured: '' @ de_Message e
   | KindNonRetryable \<Rightarrow> ''upstream non-retryable '' @ digits (de_Status e) @ '': '' @ de_Message e
   | KindRetryable \<Rightarrow> ''upstream retryable error: '' @ de_Message e
   | KindExhausted \<Rightarrow> ''retry envelope exhausted after '' @ digits (de_Attempts e) @ '' attempts: '' @ de_Message e)"

definition DispatchError_IsTerminal :: "DispatchError \<Rightarrow> bool" where
  "DispatchError_IsTerminal e \<longleftrightarrow>
     de_Kind e \<in> {KindInvalidPayload, KindUnconfigured, KindNonRetryable, KindExhausted}"

record OntologyActionRequest =
  oa_ActionID :: string
  oa_TargetObjectID :: "string option"
  oa_Parameters :: raw_message
  oa_Justification :: "string option"
  oa_AuditCorrelationID :: uuid

definition action_Body :: "OntologyActionRequest \<Rightarrow> string + (string, json) gomap" where
  "action_Body r =
     (case oa_Parameters r of
        RawBad s \<Rightarrow> Inl s
      | p \<Rightarrow>
        let body = [(''parameters'', case p of Raw j \<Rightarrow> j | _ \<Rightarrow> JObj [])];
            body = (case oa_TargetObjectID r of Some t \<Rightarrow> gm_put body ''target_object_id'' (JStr t) | None \<Rightarrow> body)
        in Inr (case oa_Justification r of Some t \<Rightarrow> gm_put body ''justification'' (JStr t) | None \<Rightarrow> body))"

section \<open>Extraction\<close>

text \<open>
  Decoding into \<open>map[string]json.RawMessage\<close>: an object gives its members, the last of a repeated
  name winning; \<open>null\<close> gives the nil map; anything else is an error.
\<close>

fun as_object :: "json \<Rightarrow> (string, json) gomap option" where
  "as_object (JObj kvs) = Some (fold (\<lambda>(k, v) m. gm_put m k v) kvs [])"
| "as_object JNull = Some []"
| "as_object _ = None"

definition readString :: "(string, json) gomap \<Rightarrow> string \<Rightarrow> string option" where
  "readString ob k = (case gm_get ob k of Some (JStr s) \<Rightarrow> Some s | Some JNull \<Rightarrow> Some [] | _ \<Rightarrow> None)"

definition readNonEmptyString :: "(string, json) gomap \<Rightarrow> string \<Rightarrow> string option" where
  "readNonEmptyString ob k = (case readString ob k of Some s \<Rightarrow> if s = [] then None else Some s | None \<Rightarrow> None)"

definition ExtractActionRequest :: "raw_message \<Rightarrow> uuid \<Rightarrow> DispatchError + OntologyActionRequest" where
  "ExtractActionRequest triggerPayload correlationID =
     (let top = (case triggerPayload of Raw j \<Rightarrow> (case as_object j of Some m \<Rightarrow> m | None \<Rightarrow> []) | _ \<Rightarrow> []);
          scope = (case gm_get top ''ontology_action'' of
                     Some nested \<Rightarrow> (case as_object nested of Some m \<Rightarrow> m | None \<Rightarrow> top)
                   | None \<Rightarrow> top)
      in case readString scope ''action_id'' of
           None \<Rightarrow> Inl (dispatch_error KindInvalidPayload
                     ''trigger_payload.action_id is required to dispatch an ontology action'')
         | Some actionID \<Rightarrow>
           if trim_space actionID = []
           then Inl (dispatch_error KindInvalidPayload
                     ''trigger_payload.action_id is required to dispatch an ontology action'')
           else Inr \<lparr>oa_ActionID = actionID,
                     oa_TargetObjectID = readNonEmptyString scope ''target_object_id'',
                     oa_Parameters = (case gm_get scope ''parameters'' of
                        Some (JObj kvs) \<Rightarrow> Raw (JObj kvs) | _ \<Rightarrow> Raw (JObj [])),
                     oa_Justification = readNonEmptyString scope ''justification'',
                     oa_AuditCorrelationID = correlationID\<rparr>)"

section \<open>One call\<close>

text \<open>What the HTTP client gives: a transport error, an error while reading, or a response. A body has
  its text and, if that is well-formed, its JSON value.\<close>

record http_body =
  hb_text :: string
  hb_json :: "json option"

datatype http_result =
    TransportError string
  | ReadError string
  | Response nat http_body

record EffectDispatcher =
  ed_BaseURL :: string
  ed_BearerToken :: string

definition normalizeBaseURL :: "string \<Rightarrow> string" where
  "normalizeBaseURL raw =
     (let trimmed = trim_space raw
      in if trimmed = [] \<or> contains_str trimmed ''://'' then trimmed else ''http://'' @ trimmed)"

definition normalizeBearerToken :: "string \<Rightarrow> string" where
  "normalizeBearerToken raw =
     (let trimmed = trim_space raw
      in if trimmed = [] then trimmed
         else if has_prefix (map to_lower_char trimmed) ''bearer '' then trimmed
         else ''Bearer '' @ trimmed)"

definition NewDispatcher :: "string \<Rightarrow> string \<Rightarrow> EffectDispatcher" where
  "NewDispatcher baseURL bearerToken =
     \<lparr>ed_BaseURL = normalizeBaseURL baseURL, ed_BearerToken = normalizeBearerToken bearerToken\<rparr>"

definition hex_digit :: "nat \<Rightarrow> char" where
  "hex_digit n = ''0123456789ABCDEF'' ! n"

definition url_safe :: "char \<Rightarrow> bool" where
  "url_safe c \<longleftrightarrow> (CHR ''A'' \<le> c \<and> c \<le> CHR ''Z'') \<or> (CHR ''a'' \<le> c \<and> c \<le> CHR ''z'') \<or>
     (CHR ''0'' \<le> c \<and> c \<le> CHR ''9'') \<or> c \<in> {CHR ''-'', CHR ''.'', CHR ''_'', CHR ''~''}"

definition urlEncode_char :: "char \<Rightarrow> string" where
  "urlEncode_char c = (if url_safe c then [c]
     else [CHR ''%'', hex_digit (of_char c div 16), hex_digit (of_char c mod 16)])"

definition urlEncode :: "string \<Rightarrow> string" where
  "urlEncode value = concat (map urlEncode_char value)"

definition allWhitespace :: "string \<Rightarrow> bool" where
  "allWhitespace body \<longleftrightarrow> (\<forall>c \<in> set body. is_space c)"

definition decodeJSON :: "http_body \<Rightarrow> json" where
  "decodeJSON body =
     (if allWhitespace (hb_text body) then JObj []
      else case hb_json body of Some j \<Rightarrow> j | None \<Rightarrow> JObj [(''raw'', JStr (hb_text body))])"

fun response_key :: "(json \<Rightarrow> string) \<Rightarrow> json \<Rightarrow> string list \<Rightarrow> string option" where
  "response_key json_text payload [] = None"
| "response_key json_text payload (k # ks) =
     (case Option.bind (as_object payload) (\<lambda>holder. gm_get holder k) of
        None \<Rightarrow> response_key json_text payload ks
      | Some (JStr s) \<Rightarrow> if s \<noteq> [] then Some s else Some (json_text (JStr s))
      | Some JNull \<Rightarrow> response_key json_text payload ks
      | Some raw \<Rightarrow> Some (json_text raw))"

definition responseMessage :: "(json \<Rightarrow> string) \<Rightarrow> json \<Rightarrow> http_body \<Rightarrow> string" where
  "responseMessage json_text payload body =
     (case response_key json_text payload [''error'', ''message'', ''details''] of
        Some s \<Rightarrow> s
      | None \<Rightarrow> if allWhitespace (hb_text body) then ''upstream error'' else hb_text body)"

text \<open>The client is asked with the URL, the body and the number of the attempt.\<close>

type_synonym http_client = "string \<Rightarrow> (string, json) gomap \<Rightarrow> nat \<Rightarrow> http_result"

definition DispatchOnce ::
  "(json \<Rightarrow> string) \<Rightarrow> http_client \<Rightarrow> EffectDispatcher \<Rightarrow> OntologyActionRequest \<Rightarrow> nat \<Rightarrow> DispatchError + json" where
  "DispatchOnce json_text client d req attempt =
     (if trim_space (ed_BaseURL d) = []
      then Inl (dispatch_error KindUnconfigured ''OF_ONTOLOGY_ACTIONS_URL is empty'')
      else if trim_space (ed_BearerToken d) = []
      then Inl (dispatch_error KindUnconfigured ''OF_ONTOLOGY_ACTIONS_BEARER_TOKEN is empty'')
      else
        let url = trim_right_slash (ed_BaseURL d) @ ''/api/v1/ontology/actions/'' @ urlEncode (oa_ActionID req) @ ''/execute''
        in case action_Body req of
             Inl e \<Rightarrow> Inl (dispatch_error KindInvalidPayload e)
           | Inr body \<Rightarrow>
             (case client url body attempt of
                TransportError e \<Rightarrow> Inl (dispatch_error KindRetryable (''transport error: '' @ e))
              | ReadError e \<Rightarrow> Inl (dispatch_error KindRetryable (''failed to read response body: '' @ e))
              | Response status rb \<Rightarrow>
                let payload = decodeJSON rb
                in if 200 \<le> status \<and> status < 300 then Inr payload
                   else
                     let message = responseMessage json_text payload rb
                     in if 400 \<le> status \<and> status < 500 \<and> status \<noteq> 429
                        then Inl ((dispatch_error KindNonRetryable message)\<lparr>de_Status := status\<rparr>)
                        else Inl (dispatch_error KindRetryable
                                (''ontology action returned '' @ digits status @ '': '' @ message))))"

section \<open>The retry loop\<close>

datatype dispatch_failure = DispatchErr DispatchError | CtxErr string

fun failure_text :: "dispatch_failure \<Rightarrow> string" where
  "failure_text (DispatchErr e) = DispatchError_Error e"
| "failure_text (CtxErr s) = s"

text \<open>
  \<open>once k\<close> is the result of attempt \<open>k\<close>, \<open>cancelled k\<close> whether the context is done when the loop
  waits after attempt \<open>k\<close>. A result carries the attempts made.
\<close>

function dispatch_loop ::
  "(nat \<Rightarrow> DispatchError + json) \<Rightarrow> (nat \<Rightarrow> string option) \<Rightarrow> nat \<Rightarrow> nat \<Rightarrow> dispatch_failure + (json \<times> nat)" where
  "dispatch_loop once cancelled maxAttempts attempt =
     (case once (Suc attempt) of
        Inr response \<Rightarrow> Inr (response, Suc attempt)
      | Inl de \<Rightarrow>
        if DispatchError_IsTerminal de then Inl (DispatchErr de)
        else if maxAttempts \<le> Suc attempt
        then Inl (DispatchErr \<lparr>de_Kind = KindExhausted, de_Status = 0, de_Message = DispatchError_Error de,
                    de_Attempts = Suc attempt\<rparr>)
        else (case cancelled (Suc attempt) of
            Some e \<Rightarrow> Inl (CtxErr e)
          | None \<Rightarrow> dispatch_loop once cancelled maxAttempts (Suc attempt)))"
  by pat_completeness auto
termination by (relation "measure (\<lambda>(_, _, m, a). m - a)") auto

declare dispatch_loop.simps [simp del]

definition DispatchWithRetries ::
  "(json \<Rightarrow> string) \<Rightarrow> http_client \<Rightarrow> (nat \<Rightarrow> string option) \<Rightarrow> EffectDispatcher \<Rightarrow> OntologyActionRequest \<Rightarrow> u32 \<Rightarrow>
   dispatch_failure + (json \<times> nat)" where
  "DispatchWithRetries json_text client cancelled d req maxAttempts =
     dispatch_loop (DispatchOnce json_text client d req) cancelled (unat maxAttempts) 0"

section \<open>Facts\<close>

definition retryable :: "(nat \<Rightarrow> DispatchError + json) \<Rightarrow> nat \<Rightarrow> bool" where
  "retryable once k \<longleftrightarrow> (\<exists>e. once k = Inl e \<and> \<not> DispatchError_IsTerminal e)"

definition dispatch_spec ::
  "(nat \<Rightarrow> DispatchError + json) \<Rightarrow> nat \<Rightarrow> nat \<Rightarrow> dispatch_failure + (json \<times> nat) \<Rightarrow> bool" where
  "dispatch_spec once a n res \<longleftrightarrow>
     (\<exists>k. a < k \<and> k \<le> n \<and> (\<forall>i. a < i \<and> i < k \<longrightarrow> retryable once i) \<and>
        (case once k of
           Inr j \<Rightarrow> res = Inr (j, k)
         | Inl e \<Rightarrow> if DispatchError_IsTerminal e then res = Inl (DispatchErr e)
            else k = n \<and> res = Inl (DispatchErr \<lparr>de_Kind = KindExhausted, de_Status = 0,
                   de_Message = DispatchError_Error e, de_Attempts = n\<rparr>)))"

lemma dispatch_spec_step:
  assumes "retryable once (Suc a)" "dispatch_spec once (Suc a) n res"
  shows "dispatch_spec once a n res"
proof -
  obtain k where k: "Suc a < k" "k \<le> n" "\<forall>i. Suc a < i \<and> i < k \<longrightarrow> retryable once i"
    "case once k of Inr j \<Rightarrow> res = Inr (j, k)
       | Inl e \<Rightarrow> if DispatchError_IsTerminal e then res = Inl (DispatchErr e)
            else k = n \<and> res = Inl (DispatchErr \<lparr>de_Kind = KindExhausted, de_Status = 0,
                   de_Message = DispatchError_Error e, de_Attempts = n\<rparr>)"
    using assms(2) unfolding dispatch_spec_def by blast
  have "\<forall>i. a < i \<and> i < k \<longrightarrow> retryable once i" using k(3) assms(1) by (metis Suc_lessI)
  with k show ?thesis unfolding dispatch_spec_def using Suc_lessD by blast
qed

lemma dispatch_loop_spec:
  assumes "\<forall>k. cancelled k = None"
  shows "dispatch_spec once a (max (Suc a) m) (dispatch_loop once cancelled m a)"
  using assms
proof (induction once cancelled m a rule: dispatch_loop.induct)
  case (1 once cancelled m a)
  have c: "cancelled = (\<lambda>_. None)" using 1(2) by auto
  show ?case
  proof (cases "retryable once (Suc a) \<and> Suc a < m")
    case True
    then obtain e where e: "once (Suc a) = Inl e" "\<not> DispatchError_IsTerminal e" by (auto simp: retryable_def)
    have "dispatch_spec once (Suc a) (max (Suc (Suc a)) m) (dispatch_loop once cancelled m (Suc a))"
      using 1(1) [OF e] True c by simp
    moreover have "dispatch_loop once cancelled m a = dispatch_loop once cancelled m (Suc a)"
      using e True 1(2) by (subst dispatch_loop.simps) simp
    moreover have "max (Suc (Suc a)) m = max (Suc a) m" using True by simp
    ultimately show ?thesis
      using dispatch_spec_step [of once a "max (Suc a) m"] True by simp
  next
    case False
    then show ?thesis
      unfolding dispatch_spec_def
      by (intro exI [of _ "Suc a"])
        (auto simp: retryable_def dispatch_loop.simps [of once cancelled m a] split: sum.splits)
  qed
qed

text \<open>Decoding of percent-escapes, to state that encoding loses nothing.\<close>

definition hex_value :: "char \<Rightarrow> nat" where
  "hex_value c = (if c \<le> CHR ''9'' then of_char c - 48 else of_char c - 55)"

fun url_decode :: "string \<Rightarrow> string" where
  "url_decode (c # a # b # s) =
     (if c = CHR ''%'' then char_of (16 * hex_value a + hex_value b) # url_decode s else c # url_decode (a # b # s))"
| "url_decode s = s"

lemma hex_value_digit: "n < 16 \<Longrightarrow> hex_value (hex_digit n) = n"
proof -
  have "\<forall>n \<in> set [0..<16]. hex_value (hex_digit n) = n" by code_simp
  then show "n < 16 \<Longrightarrow> hex_value (hex_digit n) = n" by simp
qed

lemma url_decode_safe: "c \<noteq> CHR ''%'' \<Longrightarrow> url_decode (c # s) = c # url_decode s"
  by (cases s; cases "tl s") auto

lemma url_decode_char: "url_decode (urlEncode_char c @ s) = c # url_decode s"
proof (cases "url_safe c")
  case True
  then have "c \<noteq> CHR ''%''" by (auto simp: url_safe_def less_eq_char_def)
  with True show ?thesis by (simp add: urlEncode_char_def url_decode_safe)
next
  case False
  have "of_char c div 16 < (16 :: nat)" 
  proof -
    have "of_char c < (256 :: nat)" by (metis nat_of_char_less_256)
    then show ?thesis by (intro less_mult_imp_div_less) simp
  qed
  then show ?thesis using False by (simp add: urlEncode_char_def hex_value_digit)
qed

section \<open>Properties\<close>

text \<open>
  With a context that is never done, \<open>DispatchWithRetries\<close> makes at least one attempt and at most
  \<open>MaxAttempts\<close> (one if that is zero): it returns the response of the first attempt that succeeds, with
  its number; it stops at the first terminal error; and it reports exhaustion only after all
  attempts failed with a retryable error.
\<close>

theorem DispatchWithRetries_outcome:
  assumes "\<forall>k. cancelled k = None"
  shows "dispatch_spec (DispatchOnce json_text client d req) 0 (max 1 (unat maxAttempts))
    (DispatchWithRetries json_text client cancelled d req maxAttempts)"
  using dispatch_loop_spec [OF assms, of _ 0 "unat maxAttempts"] by (simp add: DispatchWithRetries_def)

definition action_1 :: OntologyActionRequest where
  "action_1 = \<lparr>oa_ActionID = ''a/b'', oa_TargetObjectID = None, oa_Parameters = Raw (JObj []),
     oa_Justification = None, oa_AuditCorrelationID = 7\<rparr>"

definition client_1 :: http_client where
  "client_1 url body k = (if k < 3 then Response 503 \<lparr>hb_text = ''busy'', hb_json = None\<rparr>
     else Response 200 \<lparr>hb_text = ''null'', hb_json = Some JNull\<rparr>)"

lemma client_1_run:
  "DispatchWithRetries (\<lambda>_. []) client_1 (\<lambda>_. None) (NewDispatcher ''svc'' ''tok'') action_1 5 = Inr (JNull, 3)"
  by code_simp

theorem DispatchWithRetries_outcome_witness:
  "dispatch_spec (DispatchOnce (\<lambda>_. []) client_1 (NewDispatcher ''svc'' ''tok'') action_1) 0 5 (Inr (JNull, 3))"
  using DispatchWithRetries_outcome [of "\<lambda>_. None" "\<lambda>_. []" client_1 "NewDispatcher ''svc'' ''tok''" action_1 5]
  by (simp add: client_1_run)

text \<open>
  The URL of a call names its action: percent-encoding can be undone, so no two actions share an
  encoded form.
\<close>

theorem urlEncode_roundtrip: "url_decode (urlEncode s) = s"
  by (induction s) (simp_all add: urlEncode_def url_decode_char)

text \<open>
  A trigger payload that has an \<open>ontology_action\<close> object is read from that object alone: members of
  the root, \<open>action_id\<close> included, have no effect.
\<close>

theorem ExtractActionRequest_nested:
  assumes "as_object j = Some root" "gm_get root ''ontology_action'' = Some nested"
    and "as_object nested = Some scope" "gm_get scope ''ontology_action'' = None"
  shows "ExtractActionRequest (Raw j) c = ExtractActionRequest (Raw nested) c"
  using assms by (simp add: ExtractActionRequest_def)

theorem ExtractActionRequest_nested_witness:
  "\<exists>e. ExtractActionRequest (Raw (JObj [(''action_id'', JStr ''root''), (''ontology_action'', JObj [])])) 7 = Inl e"
proof -
  have "ExtractActionRequest (Raw (JObj [(''action_id'', JStr ''root''), (''ontology_action'', JObj [])])) 7
      = ExtractActionRequest (Raw (JObj [])) 7"
    by (rule ExtractActionRequest_nested [where scope = "[]"]) (auto simp: gm_put_def gm_get_Cons)
  then show ?thesis by (simp add: ExtractActionRequest_def readString_def)
qed

end
