(* ===== verification/Condition_Consumer.thy ===== *)
theory Condition_Consumer
  imports Automation_Run Idempotency Outbox Effect_Dispatcher
begin

text \<open>
  The consumer of \<open>automate.condition.v1\<close>
  (\<open>services/workflow-automation-service/internal/domain/conditionconsumer/consumer.go\<close>, with the
  payloads and derived ids of \<open>internal/event/event.go\<close>): it brings together the deduplication store,
  the automation-run store, the effect dispatcher and the outbox. A world holds the three tables, the
  write-ahead log, and what was sent to the outside; an environment says which statements of one
  call fail and how the HTTP client answers. \<open>uuid.NewSHA1\<close>, \<open>uuid.Parse\<close> and \<open>uuid.UUID.String\<close> are
  parameters.
\<close>

section \<open>Payloads and derived ids\<close>

definition WorkflowAutomationNamespace :: uuid where
  "WorkflowAutomationNamespace = 0x4e219b1a579c4b37b6296cfe6e47d140"

record AutomateConditionV1 =
  ac_DefinitionID :: uuid
  ac_TenantID :: string
  ac_CorrelationID :: uuid
  ac_TriggeredBy :: string
  ac_TriggerType :: string
  ac_TriggerPayload :: raw_message

record AutomateOutcomeV1 =
  ao_RunID :: uuid
  ao_DefinitionID :: uuid
  ao_TenantID :: string
  ao_CorrelationID :: uuid
  ao_Status :: string
  ao_EffectResponse :: raw_message
  ao_Error :: "string option"
  ao_Attempts :: u32

definition DeriveRunID :: "uuid_lib \<Rightarrow> uuid \<Rightarrow> uuid \<Rightarrow> uuid" where
  "DeriveRunID ul definitionID correlationID =
     ul_NewSHA1 ul WorkflowAutomationNamespace (uuid_bytes definitionID @ uuid_bytes correlationID)"

definition DeriveConditionEventID :: "uuid_lib \<Rightarrow> uuid \<Rightarrow> uuid \<Rightarrow> uuid" where
  "DeriveConditionEventID ul definitionID correlationID =
     ul_NewSHA1 ul WorkflowAutomationNamespace (uuid_bytes definitionID @ uuid_bytes correlationID @ ''C'')"

definition TenantUUIDFromStr :: "uuid_lib \<Rightarrow> string \<Rightarrow> uuid" where
  "TenantUUIDFromStr ul tenantID =
     (case ul_Parse ul tenantID of Some u \<Rightarrow> u | None \<Rightarrow> ul_NewSHA1 ul WorkflowAutomationNamespace tenantID)"

definition outcome_Marshal :: "AutomateOutcomeV1 \<Rightarrow> string + jobject" where
  "outcome_Marshal x = join_fields
     [Inr [(''run_id'', FUuid (ao_RunID x)), (''definition_id'', FUuid (ao_DefinitionID x)),
           (''tenant_id'', FText (ao_TenantID x)), (''correlation_id'', FUuid (ao_CorrelationID x)),
           (''status'', FText (ao_Status x))],
      put_raw ''effect_response'' (ao_EffectResponse x),
      put_opt ''error'' (Inr \<circ> FText) (ao_Error x),
      Inr [(''attempts'', FNum (uint (ao_Attempts x)))]]"

section \<open>The consumer and its world\<close>

record Consumer =
  co_uuid :: uuid_lib
  co_json_text :: "json \<Rightarrow> string"
  co_Dispatcher :: EffectDispatcher
  co_MaxAttempts :: u32
  co_HasPublisher :: bool
  co_LineageNamespace :: string

record world =
  wo_processed :: seen_map
  wo_runs :: "jobject sm_table"
  wo_outbox :: outbox
  wo_dispatched :: "uuid list"
  wo_published :: "AutomateOutcomeV1 list"

record land_env =
  le_begin :: "string option"
  le_select :: "string option"
  le_update :: "string option"
  le_outbox :: outbox_faults
  le_commit :: "string option"

record process_env =
  pe_idem :: db_fault
  pe_load :: "string option"
  pe_insert :: "string option"
  pe_claim :: "string option"
  pe_http :: http_client
  pe_cancelled :: "nat \<Rightarrow> string option"
  pe_land :: land_env
  pe_publish :: "string option"

datatype process_error =
    StoreFailure sm_error
  | DbFailure string
  | NilMachine

section \<open>The terminal transaction\<close>

definition loadInTx :: "string option \<Rightarrow> jobject sm_table \<Rightarrow> uuid \<Rightarrow> process_error + AutomationRun \<times> int" where
  "loadInTx fault tbl runID =
     (case fault of
        Some e \<Rightarrow> Inl (DbFailure e)
      | None \<Rightarrow>
     (case gm_get tbl runID of
        None \<Rightarrow> Inl (DbFailure ''no rows in result set'')
      | Some row \<Rightarrow>
     (case run_Unmarshal (sr_state_data row) of
        Inl e \<Rightarrow> Inl (DbFailure (''invalid persisted state: '' @ e))
      | Inr machine \<Rightarrow> Inr (machine, sr_version row))))"

definition writeInTx ::
  "string option \<Rightarrow> jobject sm_table \<Rightarrow> int \<Rightarrow> AutomationRun \<Rightarrow> process_error + jobject sm_table" where
  "writeInTx fault tbl prevVersion nxt =
     (case run_Marshal nxt of
        Inl e \<Rightarrow> Inl (DbFailure e)
      | Inr payload \<Rightarrow>
     (case fault of
        Some e \<Rightarrow> Inl (DbFailure e)
      | None \<Rightarrow>
     (case gm_get tbl (ar_ID nxt) of
        None \<Rightarrow> Inl (StoreFailure (StaleError (ar_ID nxt) prevVersion))
      | Some row \<Rightarrow>
        if sr_version row \<noteq> prevVersion then Inl (StoreFailure (StaleError (ar_ID nxt) prevVersion))
        else Inr (gm_put tbl (ar_ID nxt)
          \<lparr>sr_state = ar_State nxt, sr_state_data = payload, sr_version = sr_version row + 1,
           sr_expires_at = ar_ExpiresAt nxt\<rparr>))))"

definition outcome_event_id :: "uuid_lib \<Rightarrow> uuid \<Rightarrow> AutomateConditionV1 \<Rightarrow> string \<Rightarrow> uuid" where
  "outcome_event_id ul runID condition status =
     ul_NewSHA1 ul WorkflowAutomationNamespace
       (uuid_bytes runID @ uuid_bytes (ac_CorrelationID condition) @
        (if status = ''completed'' then ''C'' else if status = ''failed'' then ''F'' else ''X''))"

definition outcome_event ::
  "Consumer \<Rightarrow> uuid \<Rightarrow> AutomateConditionV1 \<Rightarrow> AutomateOutcomeV1 \<Rightarrow> jobject \<Rightarrow> OutboxEvent" where
  "outcome_event co runID condition outcome payload =
     (let ul = co_uuid co
      in WithHeader ''x-audit-correlation-id'' (ul_String ul (ac_CorrelationID condition))
        (WithHeader ''ol-producer'' ''workflow-automation-service''
        (WithHeader ''ol-run-id'' (ul_String ul runID)
        (WithHeader ''ol-job'' (''automation_run/'' @ ac_TenantID condition)
        (WithHeader ''ol-namespace'' (co_LineageNamespace co)
        (NewOutboxEvent (outcome_event_id ul runID condition (ao_Status outcome)) ''automation_run''
           (ul_String ul runID) ''automate.outcome.v1'' (Raw payload)))))))"

definition enqueueOutcome ::
  "Consumer \<Rightarrow> outbox_faults \<Rightarrow> outbox \<Rightarrow> uuid \<Rightarrow> AutomateConditionV1 \<Rightarrow> AutomateOutcomeV1 \<Rightarrow> process_error + outbox" where
  "enqueueOutcome co f ob runID condition outcome =
     (case outcome_Marshal outcome of
        Inl e \<Rightarrow> Inl (DbFailure e)
      | Inr payload \<Rightarrow>
        (case Enqueue f ob (outcome_event co runID condition outcome payload) of
           (Some e, _) \<Rightarrow> Inl (DbFailure e)
         | (None, ob') \<Rightarrow> Inr ob'))"

lemma outcome_event_payload [simp]: "oe_Payload (outcome_event co runID condition outcome payload) = Raw payload"
  by (simp add: outcome_event_def Let_def WithHeader_def NewOutboxEvent_def)

text \<open>
  What both landing functions do after the event is chosen: apply it, raise the attempts, write the
  row, enqueue the outcome, commit. Any error rolls the transaction back.
\<close>

definition outcome_for ::
  "uuid \<Rightarrow> AutomateConditionV1 \<Rightarrow> string \<Rightarrow> raw_message \<Rightarrow> string option \<Rightarrow> u32 \<Rightarrow> AutomateOutcomeV1" where
  "outcome_for runID condition status response err attempts =
     \<lparr>ao_RunID = runID, ao_DefinitionID = ac_DefinitionID condition, ao_TenantID = ac_TenantID condition,
      ao_CorrelationID = ac_CorrelationID condition, ao_Status = status, ao_EffectResponse = response,
      ao_Error = err, ao_Attempts = attempts\<rparr>"

definition raise_attempts :: "u32 \<Rightarrow> AutomationRun \<Rightarrow> AutomationRun" where
  "raise_attempts attempts m = (if attempts > ar_Attempts m then m\<lparr>ar_Attempts := attempts\<rparr> else m)"

definition land_tx ::
  "Consumer \<Rightarrow> land_env \<Rightarrow> jobject sm_table \<times> outbox \<Rightarrow> uuid \<Rightarrow> AutomateConditionV1 \<Rightarrow> (AutomationRun \<Rightarrow> Event) \<Rightarrow>
   AutomateOutcomeV1 \<Rightarrow> process_error + jobject sm_table \<times> outbox" where
  "land_tx co f st runID condition pick outcome =
     (case le_begin f of
        Some e \<Rightarrow> Inl (DbFailure e)
      | None \<Rightarrow>
        let (tbl, ob) = st in
        bindE (loadInTx (le_select f) tbl runID) (\<lambda>(machine, version).
        case run_Apply machine (pick machine) of
          (Some e, _) \<Rightarrow> Inl (StoreFailure (TransitionError e))
        | (None, machine') \<Rightarrow>
          bindE (writeInTx (le_update f) tbl version (raise_attempts (ao_Attempts outcome) machine')) (\<lambda>tbl'.
          bindE (enqueueOutcome co (le_outbox f) ob runID condition outcome) (\<lambda>ob'.
          case le_commit f of
            Some e \<Rightarrow> Inl (DbFailure e)
          | None \<Rightarrow> Inr (tbl', ob')))))"

definition landTerminalCompleted ::
  "Consumer \<Rightarrow> land_env \<Rightarrow> jobject sm_table \<times> outbox \<Rightarrow> uuid \<Rightarrow> AutomateConditionV1 \<Rightarrow> raw_message \<Rightarrow> u32 \<Rightarrow>
   process_error + jobject sm_table \<times> outbox" where
  "landTerminalCompleted co f st runID condition response attempts =
     land_tx co f st runID condition (\<lambda>_. EffectCompletedEvent response)
       (outcome_for runID condition ''completed'' response None attempts)"

definition landTerminalFailed ::
  "Consumer \<Rightarrow> land_env \<Rightarrow> jobject sm_table \<times> outbox \<Rightarrow> uuid \<Rightarrow> AutomateConditionV1 \<Rightarrow> string \<Rightarrow> u32 \<Rightarrow>
   process_error + jobject sm_table \<times> outbox" where
  "landTerminalFailed co f st runID condition errMsg attempts =
     land_tx co f st runID condition
       (\<lambda>machine. if ar_State machine = StateQueued then PreFlightFailedEvent errMsg else EffectFailedEvent errMsg)
       (outcome_for runID condition ''failed'' RawEmpty (Some errMsg) attempts)"

section \<open>Processing one condition\<close>

text \<open>The loaded value, unless the zero value is returned, and the state that stops the dispatch.\<close>

definition claimForDispatch ::
  "string option \<Rightarrow> jobject sm_table \<Rightarrow> AutomationRun Loaded \<Rightarrow> (AutomationRun Loaded option \<times> string) \<times> jobject sm_table" where
  "claimForDispatch fault tbl loaded =
     (let s = ar_State (ld_Machine loaded) in
      if s = StateQueued then
        (case sm_Apply automation fault tbl loaded ClaimEvent of
           (Inl e, tbl', m) \<Rightarrow> ((None, ar_State m), tbl')
         | (Inr nxt, tbl', _) \<Rightarrow> ((Some nxt, []), tbl'))
      else if s = StateRunning then ((Some loaded, []), tbl)
      else ((None, s), tbl))"

definition publishOutcomeViaKafka :: "Consumer \<Rightarrow> string option \<Rightarrow> AutomateOutcomeV1 \<Rightarrow> world \<Rightarrow> world" where
  "publishOutcomeViaKafka co fault outcome w =
     (if \<not> co_HasPublisher co then w
      else case outcome_Marshal outcome of
        Inl _ \<Rightarrow> w
      | Inr _ \<Rightarrow> (case fault of Some _ \<Rightarrow> w | None \<Rightarrow> w\<lparr>wo_published := wo_published w @ [outcome]\<rparr>))"

definition load_or_create ::
  "Consumer \<Rightarrow> process_env \<Rightarrow> jobject sm_table \<Rightarrow> uuid \<Rightarrow> AutomateConditionV1 \<Rightarrow>
   (process_error + AutomationRun Loaded) \<times> jobject sm_table" where
  "load_or_create co env tbl runID condition =
     (case sm_Load automation (pe_load env) tbl runID of
        Inr loaded \<Rightarrow> (Inr loaded, tbl)
      | Inl (NotFoundError _) \<Rightarrow>
        (case sm_Insert automation (pe_insert env) tbl
                (NewRun runID (TenantUUIDFromStr (co_uuid co) (ac_TenantID condition))
                   (ac_DefinitionID condition) (ac_CorrelationID condition) None) of
           (Inl e, tbl') \<Rightarrow> (Inl (StoreFailure e), tbl')
         | (Inr loaded, tbl') \<Rightarrow> (Inr loaded, tbl'))
      | Inl e \<Rightarrow> (Inl (StoreFailure e), tbl))"

definition with_db :: "world \<Rightarrow> jobject sm_table \<times> outbox \<Rightarrow> world" where
  "with_db w st = w\<lparr>wo_runs := fst st, wo_outbox := snd st\<rparr>"

text \<open>The part of \<open>Process\<close> after the claim.\<close>

definition dispatch_claimed ::
  "Consumer \<Rightarrow> process_env \<Rightarrow> world \<Rightarrow> uuid \<Rightarrow> AutomateConditionV1 \<Rightarrow> AutomationRun Loaded option \<Rightarrow>
   (process_error + string) \<times> world" where
  "dispatch_claimed co env w runID condition claimed =
     (let eventID = DeriveConditionEventID (co_uuid co) (ac_DefinitionID condition) (ac_CorrelationID condition);
          st = (wo_runs w, wo_outbox w)
      in case ExtractActionRequest (ac_TriggerPayload condition) (ac_CorrelationID condition) of
        Inl de \<Rightarrow>
          (case claimed of
             None \<Rightarrow> (Inl NilMachine, w)
           | Some l \<Rightarrow>
             (case landTerminalFailed co (pe_land env) st runID condition (DispatchError_Error de) (ar_Attempts (ld_Machine l)) of
                Inl e \<Rightarrow> (Inl e, w)
              | Inr st' \<Rightarrow> (Inr ''invalid_payload'', with_db w st')))
      | Inr action \<Rightarrow>
          let w1 = w\<lparr>wo_dispatched := wo_dispatched w @ [eventID]\<rparr>
          in case DispatchWithRetries (co_json_text co) (pe_http env) (pe_cancelled env) (co_Dispatcher co) action (co_MaxAttempts co) of
            Inr (response, n) \<Rightarrow>
              (case landTerminalCompleted co (pe_land env) st runID condition (Raw response) (of_nat n) of
                 Inl e \<Rightarrow> (Inl e, w1)
               | Inr st' \<Rightarrow> (Inr ''completed'', publishOutcomeViaKafka co (pe_publish env)
                     (outcome_for runID condition ''completed'' (Raw response) None (of_nat n)) (with_db w1 st')))
          | Inl err \<Rightarrow>
              let attempts = (case err of DispatchErr de \<Rightarrow>
                      if de_Kind de = KindExhausted then of_nat (de_Attempts de) else 1 | CtxErr _ \<Rightarrow> 1);
                  errMsg = failure_text err
              in (case landTerminalFailed co (pe_land env) st runID condition errMsg attempts of
                    Inl e \<Rightarrow> (Inl e, w1)
                  | Inr st' \<Rightarrow> (Inr ''failed'', publishOutcomeViaKafka co (pe_publish env)
                        (outcome_for runID condition ''failed'' RawEmpty (Some errMsg) attempts) (with_db w1 st'))))"

definition Process ::
  "Consumer \<Rightarrow> process_env \<Rightarrow> world \<Rightarrow> AutomateConditionV1 \<Rightarrow> (process_error + string) \<times> world" where
  "Process co env w condition =
     (let eventID = DeriveConditionEventID (co_uuid co) (ac_DefinitionID condition) (ac_CorrelationID condition);
          (r, seen) = pg_CheckAndRecord (pe_idem env) (wo_processed w) eventID;
          w1 = w\<lparr>wo_processed := seen\<rparr>
      in case r of
        Inl e \<Rightarrow> (Inl (DbFailure e), w1)
      | Inr outcome \<Rightarrow>
        if IsAlreadyProcessed outcome then (Inr ''deduped'', w1)
        else
          let runID = DeriveRunID (co_uuid co) (ac_DefinitionID condition) (ac_CorrelationID condition)
          in case load_or_create co env (wo_runs w1) runID condition of
            (Inl e, tbl) \<Rightarrow> (Inl e, w1\<lparr>wo_runs := tbl\<rparr>)
          | (Inr loaded, tbl) \<Rightarrow>
            (case claimForDispatch (pe_claim env) tbl loaded of
               ((claimed, terminalState), tbl') \<Rightarrow>
                 let w2 = w1\<lparr>wo_runs := tbl'\<rparr>
                 in if terminalState \<noteq> [] then (Inr ''already_terminal'', w2)
                    else dispatch_claimed co env w2 runID condition claimed))"

section \<open>The consumer loop\<close>

definition DecodeCondition :: "jobject raw \<Rightarrow> string + AutomateConditionV1" where
  "DecodeCondition payload =
     (case payload of
        RawEmpty \<Rightarrow> Inl ''unexpected end of JSON input''
      | RawBad s \<Rightarrow> Inl s
      | Raw ob \<Rightarrow>
        bindE (get_uuid ob ''definition_id'') (\<lambda>definitionID.
        bindE (get_text ob ''tenant_id'') (\<lambda>tenantID.
        bindE (get_uuid ob ''correlation_id'') (\<lambda>correlationID.
        bindE (get_text ob ''triggered_by'') (\<lambda>triggeredBy.
        bindE (get_text ob ''trigger_type'') (\<lambda>triggerType.
        bindE (get_raw ob ''trigger_payload'') (\<lambda>triggerPayload.
          Inr \<lparr>ac_DefinitionID = definitionID, ac_TenantID = tenantID, ac_CorrelationID = correlationID,
               ac_TriggeredBy = triggeredBy, ac_TriggerType = triggerType, ac_TriggerPayload = triggerPayload\<rparr>)))))))"

definition processMessage :: "Consumer \<Rightarrow> process_env \<Rightarrow> world \<Rightarrow> jobject raw \<Rightarrow> (process_error + string) \<times> world" where
  "processMessage co env w msg =
     (case msg of
        RawEmpty \<Rightarrow> (Inr ''empty_payload'', w)
      | _ \<Rightarrow> (case DecodeCondition msg of
            Inl _ \<Rightarrow> (Inr ''decode_error'', w)
          | Inr condition \<Rightarrow> Process co env w condition))"

text \<open>
  One answer of \<open>Poll\<close>: an error, or a message with the environment of its processing, whether the
  context is done during the pause after a failure, and a possible failure of the offset commit. The
  loop's result is the error it returns with, if it does within the given answers, the offsets
  committed, and the world.
\<close>

record polled =
  po_offset :: nat
  po_value :: "jobject raw"
  po_env :: process_env
  po_done :: bool
  po_commit :: "string option"

datatype poll = PollError string | PollMessage polled

fun RunLoop :: "Consumer \<Rightarrow> poll list \<Rightarrow> nat list \<Rightarrow> world \<Rightarrow> string option \<times> nat list \<times> world" where
  "RunLoop co [] commits w = (None, commits, w)"
| "RunLoop co (PollError e # ps) commits w = (Some e, commits, w)"
| "RunLoop co (PollMessage p # ps) commits w =
     (case processMessage co (po_env p) w (po_value p) of
        (Inl e, w') \<Rightarrow> if po_done p then (Some ''context canceled'', commits, w') else RunLoop co ps commits w'
      | (Inr label, w') \<Rightarrow>
        (case po_commit p of
           Some e \<Rightarrow> (Some e, commits, w')
         | None \<Rightarrow> RunLoop co ps (commits @ [po_offset p]) w'))"

end
