(* ===== verification/Consumer_Safety.thy ===== *)
theory Consumer_Safety
  imports Condition_Consumer
begin

text \<open>
  Safety of the condition consumer. The replicas of the service run concurrently, and between two
  statements of one call any other replica may write; so the join of a terminal row and its outcome
  event is shown for every interleaving of the atomic database operations that \<open>Process\<close> consists
  of: insert, load, claim, and the two landing transactions. Then \<open>Process\<close> itself: what one
  delivery does, and what redeliveries do.
\<close>

section \<open>Interleavings\<close>

record consumer_sys =
  cs_runs :: "jobject sm_table"
  cs_outbox :: outbox
  cs_held :: "AutomationRun Loaded set"

inductive consumer_step :: "Consumer \<Rightarrow> consumer_sys \<Rightarrow> consumer_sys \<Rightarrow> bool" for co where
  step_insert: "sm_Insert automation fault (cs_runs s) (NewRun i tn d c ex) = (Inr l, tbl) \<Longrightarrow>
     consumer_step co s (s\<lparr>cs_runs := tbl, cs_held := insert l (cs_held s)\<rparr>)"
| step_load: "sm_Load automation fault (cs_runs s) i = Inr l \<Longrightarrow>
     consumer_step co s (s\<lparr>cs_held := insert l (cs_held s)\<rparr>)"
| step_claim: "l \<in> cs_held s \<Longrightarrow> sm_Apply automation fault (cs_runs s) l ClaimEvent = (Inr l', tbl, m) \<Longrightarrow>
     consumer_step co s (s\<lparr>cs_runs := tbl, cs_held := insert l' (cs_held s - {l})\<rparr>)"
| step_completed: "landTerminalCompleted co f (cs_runs s, cs_outbox s) i cond response attempts = Inr (tbl, ob) \<Longrightarrow>
     consumer_step co s (s\<lparr>cs_runs := tbl, cs_outbox := ob\<rparr>)"
| step_failed: "landTerminalFailed co f (cs_runs s, cs_outbox s) i cond err attempts = Inr (tbl, ob) \<Longrightarrow>
     consumer_step co s (s\<lparr>cs_runs := tbl, cs_outbox := ob\<rparr>)"

definition consumer_init :: consumer_sys where
  "consumer_init = \<lparr>cs_runs = [], cs_outbox = \<lparr>ob_events = [], ob_wal = []\<rparr>, cs_held = {}\<rparr>"

definition about_run :: "uuid \<Rightarrow> OutboxEvent \<Rightarrow> bool" where
  "about_run i e \<longleftrightarrow> (case oe_Payload e of Raw p \<Rightarrow> gm_get p ''run_id'' = Some (FUuid i) | _ \<Rightarrow> False)"

definition outcomes_of :: "OutboxEvent list \<Rightarrow> uuid \<Rightarrow> OutboxEvent list" where
  "outcomes_of wal i = filter (about_run i) wal"

definition has_status :: "OutboxEvent \<Rightarrow> string \<Rightarrow> bool" where
  "has_status e s \<longleftrightarrow> (case oe_Payload e of Raw p \<Rightarrow> gm_get p ''status'' = Some (FText s) | _ \<Rightarrow> False)"

text \<open>A run has one outcome event, of its state, if its row is terminal, and none otherwise.\<close>

definition row_joined :: "OutboxEvent list \<Rightarrow> uuid \<Rightarrow> jobject sm_row \<Rightarrow> bool" where
  "row_joined wal i row \<longleftrightarrow>
     (\<exists>m. run_Unmarshal (sr_state_data row) = Inr m \<and> ar_ID m = i \<and> sr_state row = ar_State m \<and>
        (if State_IsTerminal (ar_State m) then \<exists>e. outcomes_of wal i = [e] \<and> has_status e (ar_State m)
         else outcomes_of wal i = []))"

definition joined_at :: "jobject sm_table \<Rightarrow> OutboxEvent list \<Rightarrow> uuid \<Rightarrow> bool" where
  "joined_at tbl wal i \<longleftrightarrow>
     (case gm_get tbl i of None \<Rightarrow> outcomes_of wal i = [] | Some row \<Rightarrow> row_joined wal i row)"

definition consumer_inv :: "consumer_sys \<Rightarrow> bool" where
  "consumer_inv s \<longleftrightarrow> ob_events (cs_outbox s) = [] \<and>
     (\<forall>i. joined_at (cs_runs s) (ob_wal (cs_outbox s)) i) \<and>
     (\<forall>l \<in> cs_held s. held_ok automation (cs_runs s) l)"

lemma joined_at_put_other:
  "j \<noteq> i \<Longrightarrow> joined_at (gm_put tbl i row) wal j = joined_at tbl wal j"
  by (simp add: joined_at_def)

lemma joined_at_put: "joined_at (gm_put tbl i row) wal i = row_joined wal i row"
  by (simp add: joined_at_def)

lemma joined_at_cong: "outcomes_of wal i = outcomes_of wal' i \<Longrightarrow> joined_at tbl wal i = joined_at tbl wal' i"
  by (simp add: joined_at_def row_joined_def split: option.splits)

lemma outcomes_of_snoc: "outcomes_of (wal @ [e]) i = outcomes_of wal i @ (if about_run i e then [e] else [])"
  by (simp add: outcomes_of_def)

subsection \<open>What the landing transaction does\<close>

lemma outcome_Marshal_get:
  assumes "outcome_Marshal x = Inr p"
  shows "gm_get p ''run_id'' = Some (FUuid (ao_RunID x))" "gm_get p ''status'' = Some (FText (ao_Status x))"
  using assms unfolding outcome_Marshal_def join_fields_Inr by (auto simp: gm_get_Cons)

lemma enqueueOutcome_Inr:
  assumes "enqueueOutcome co f ob i cond x = Inr ob'" "ob_events ob = []"
  obtains e where "ob_events ob' = []" "ob_wal ob' = ob_wal ob @ [e]" "\<forall>j. about_run j e \<longleftrightarrow> j = ao_RunID x"
    "has_status e (ao_Status x)"
proof -
  obtain p where p: "outcome_Marshal x = Inr p" "Enqueue f ob (outcome_event co i cond x p) = (None, ob')"
    using assms(1) by (auto simp: enqueueOutcome_def split: sum.splits prod.splits option.splits)
  from Enqueue_ok [OF p(2) assms(2)] outcome_Marshal_get [OF p(1)]
  show thesis by (intro that [of "outcome_event co i cond x p"]) (auto simp: about_run_def has_status_def)
qed

lemma raise_attempts_same [simp]:
  "ar_ID (raise_attempts a m) = ar_ID m" "ar_State (raise_attempts a m) = ar_State m"
  by (simp_all add: raise_attempts_def)

lemma land_tx_Inr:
  assumes "land_tx co f (tbl, ob) i cond pick x = Inr (tbl', ob')"
  obtains row m m' payload where "gm_get tbl i = Some row" "run_Unmarshal (sr_state_data row) = Inr m"
    "run_Apply m (pick m) = (None, m')" "run_Marshal (raise_attempts (ao_Attempts x) m') = Inr payload"
    "ar_ID m = i \<longrightarrow> tbl' = gm_put tbl i \<lparr>sr_state = ar_State m', sr_state_data = payload,
        sr_version = sr_version row + 1, sr_expires_at = ar_ExpiresAt (raise_attempts (ao_Attempts x) m')\<rparr>"
    "enqueueOutcome co (le_outbox f) ob i cond x = Inr ob'"
proof -
  obtain m v m' where m: "loadInTx (le_select f) tbl i = Inr (m, v)" "run_Apply m (pick m) = (None, m')"
      "writeInTx (le_update f) tbl v (raise_attempts (ao_Attempts x) m') = Inr tbl'"
      "enqueueOutcome co (le_outbox f) ob i cond x = Inr ob'"
  proof -
    have "\<exists>m v. loadInTx (le_select f) tbl i = Inr (m, v) \<and>
       (case run_Apply m (pick m) of (Some e, _) \<Rightarrow> Inl (StoreFailure (TransitionError e))
        | (None, machine') \<Rightarrow>
          bindE (writeInTx (le_update f) tbl v (raise_attempts (ao_Attempts x) machine')) (\<lambda>tbl'.
          bindE (enqueueOutcome co (le_outbox f) ob i cond x) (\<lambda>ob'.
          case le_commit f of Some e \<Rightarrow> Inl (DbFailure e) | None \<Rightarrow> Inr (tbl', ob')))) = Inr (tbl', ob')"
      using assms unfolding land_tx_def by (simp add: bindE_Inr_iff split: option.splits)
    then obtain m v where mv: "loadInTx (le_select f) tbl i = Inr (m, v)"
       "(case run_Apply m (pick m) of (Some e, _) \<Rightarrow> Inl (StoreFailure (TransitionError e))
        | (None, machine') \<Rightarrow>
          bindE (writeInTx (le_update f) tbl v (raise_attempts (ao_Attempts x) machine')) (\<lambda>tbl'.
          bindE (enqueueOutcome co (le_outbox f) ob i cond x) (\<lambda>ob'.
          case le_commit f of Some e \<Rightarrow> Inl (DbFailure e) | None \<Rightarrow> Inr (tbl', ob')))) = Inr (tbl', ob')" by blast
    obtain err m' where a: "run_Apply m (pick m) = (err, m')" by fastforce
    show thesis
      using that [OF mv(1)] mv(2) a by (auto simp: bindE_Inr_iff split: option.splits)
  qed
  obtain row where row: "gm_get tbl i = Some row" "run_Unmarshal (sr_state_data row) = Inr m" "v = sr_version row"
    using m(1) by (auto simp: loadInTx_def split: option.splits sum.splits)
  have "ar_ID m' = ar_ID m" using run_Apply_id [of m "pick m"] m(2) by simp
  with that [OF row(1,2) m(2) _ _ m(4)] m(3) row(1,3) show thesis
    by (auto simp: writeInTx_def split: option.splits sum.splits if_splits)
qed

text \<open>Landing in a terminal state whose name is the status of the outcome.\<close>

lemma land_tx_inv:
  assumes land: "land_tx co f (cs_runs s, cs_outbox s) i cond pick x = Inr (tbl', ob')"
    and inv: "consumer_inv s" and x: "ao_RunID x = i" "State_IsTerminal (ao_Status x)"
    and lands: "\<And>m m'. run_Apply m (pick m) = (None, m') \<Longrightarrow> ar_State m' = ao_Status x"
  shows "consumer_inv (s\<lparr>cs_runs := tbl', cs_outbox := ob'\<rparr>)"
proof -
  let ?tbl = "cs_runs s" and ?wal = "ob_wal (cs_outbox s)"
  obtain row m m' payload where l: "gm_get ?tbl i = Some row" "run_Unmarshal (sr_state_data row) = Inr m"
    "run_Apply m (pick m) = (None, m')" "run_Marshal (raise_attempts (ao_Attempts x) m') = Inr payload"
    "ar_ID m = i \<longrightarrow> tbl' = gm_put ?tbl i \<lparr>sr_state = ar_State m', sr_state_data = payload,
        sr_version = sr_version row + 1, sr_expires_at = ar_ExpiresAt (raise_attempts (ao_Attempts x) m')\<rparr>"
    "enqueueOutcome co (le_outbox f) (cs_outbox s) i cond x = Inr ob'"
    using land by (rule land_tx_Inr)
  have "joined_at ?tbl ?wal i" using inv by (simp add: consumer_inv_def)
  then have m: "ar_ID m = i" "if State_IsTerminal (ar_State m) then True else outcomes_of ?wal i = []"
    using l(1,2) by (auto simp: joined_at_def row_joined_def)
  have "\<not> State_IsTerminal (ar_State m)"
    using l(3) run_table_valid [OF run_arm_table] by (cases rule: run_Apply_cases [of m "pick m"]) auto
  with m(2) have none: "outcomes_of ?wal i = []" by simp
  have m': "ar_ID m' = i" using run_Apply_id [of m "pick m"] l(3) m(1) by simp
  note tbl' = mp [OF l(5) m(1)]
  obtain e where e: "ob_events ob' = []" "ob_wal ob' = ?wal @ [e]" "\<forall>j. about_run j e \<longleftrightarrow> j = i" "has_status e (ao_Status x)"
    using enqueueOutcome_Inr [OF l(6)] inv x(1) unfolding consumer_inv_def by metis
  have "joined_at tbl' (ob_wal ob') j" for j
  proof (cases "j = i")
    case True
    then show ?thesis
      using run_codec [OF l(4)] m' none e lands [OF l(3)] x(2)
      by (simp add: tbl' joined_at_put row_joined_def outcomes_of_snoc)
  next
    case False
    then have "joined_at tbl' (ob_wal ob') j = joined_at tbl' ?wal j"
      using e(2,3) by (intro joined_at_cong) (simp add: outcomes_of_snoc)
    also have "\<dots> = joined_at ?tbl ?wal j" using False by (simp add: tbl' joined_at_put_other)
    finally show ?thesis using inv by (simp add: consumer_inv_def)
  qed
  moreover have "held_ok automation tbl' k" if "k \<in> cs_held s" for k
  proof -
    have "held_ok automation ?tbl k" using inv that by (simp add: consumer_inv_def)
    then show ?thesis using l(1) by (auto simp: held_ok_def tbl')
  qed
  ultimately show ?thesis using e(1) by (simp add: consumer_inv_def)
qed

lemma completed_lands: "run_Apply m (EffectCompletedEvent r) = (None, m') \<Longrightarrow> ar_State m' = StateCompleted"
  by (auto simp: run_Apply_def run_arm_def event_defs split: if_splits)

lemma failed_lands:
  "run_Apply m (if ar_State m = StateQueued then PreFlightFailedEvent e else EffectFailedEvent e) = (None, m') \<Longrightarrow>
   ar_State m' = StateFailed"
  by (auto simp: run_Apply_def run_arm_def event_defs split: if_splits)

subsection \<open>The other operations\<close>

lemma run_insert_inv:
  assumes ok: "sm_Insert automation fault (cs_runs s) (NewRun i tn d c ex) = (Inr l, tbl)" and inv: "consumer_inv s"
  shows "consumer_inv (s\<lparr>cs_runs := tbl, cs_held := insert l (cs_held s)\<rparr>)"
proof -
  let ?m = "NewRun i tn d c ex"
  have m: "ar_ID ?m = i" "ar_State ?m = StateQueued" by (simp_all add: NewRun_def)
  obtain p where p: "run_Marshal ?m = Inr p" "gm_get (cs_runs s) i = None" "l = \<lparr>ld_Machine = ?m, ld_Version = 1\<rparr>"
    "tbl = gm_put (cs_runs s) i \<lparr>sr_state = StateQueued, sr_state_data = p, sr_version = 1, sr_expires_at = ar_ExpiresAt ?m\<rparr>"
    using ok m by (elim sm_Insert_Inr) auto
  have "joined_at (cs_runs s) (ob_wal (cs_outbox s)) i" using inv by (simp add: consumer_inv_def)
  then have "outcomes_of (ob_wal (cs_outbox s)) i = []" using p(2) by (simp add: joined_at_def)
  then have "joined_at tbl (ob_wal (cs_outbox s)) j" for j
    using inv run_codec [OF p(1)] m
    by (cases "j = i") (simp_all add: p(4) joined_at_put_other joined_at_put consumer_inv_def row_joined_def
        State_IsTerminal_def)
  moreover have "held_ok automation tbl l"
    using run_codec [OF p(1)] m by (simp add: held_ok_def p(3,4))
  moreover have "held_ok automation tbl k" if "k \<in> cs_held s" for k
    using inv that p(2) by (auto simp: consumer_inv_def held_ok_def p(4))
  ultimately show ?thesis using inv by (simp add: consumer_inv_def)
qed

lemma run_load_inv:
  assumes ok: "sm_Load automation fault (cs_runs s) i = Inr l" and inv: "consumer_inv s"
  shows "consumer_inv (s\<lparr>cs_held := insert l (cs_held s)\<rparr>)"
proof -
  obtain row where r: "gm_get (cs_runs s) i = Some row" "run_Unmarshal (sr_state_data row) = Inr (ld_Machine l)"
    "ld_Version l = sr_version row"
    using ok by (elim sm_Load_Inr) auto
  have "joined_at (cs_runs s) (ob_wal (cs_outbox s)) i" using inv by (simp add: consumer_inv_def)
  then have "ar_ID (ld_Machine l) = i" using r(1,2) by (simp add: joined_at_def row_joined_def)
  then have "held_ok automation (cs_runs s) l" using r by (simp add: held_ok_def)
  with inv show ?thesis by (simp add: consumer_inv_def)
qed

lemma claim_inv:
  assumes held: "l \<in> cs_held s" and ok: "sm_Apply automation fault (cs_runs s) l ClaimEvent = (Inr l', tbl, m)"
    and inv: "consumer_inv s"
  shows "consumer_inv (s\<lparr>cs_runs := tbl, cs_held := insert l' (cs_held s - {l})\<rparr>)"
proof -
  let ?i = "ar_ID (ld_Machine l)" and ?wal = "ob_wal (cs_outbox s)"
  obtain p row where a: "run_Apply (ld_Machine l) ClaimEvent = (None, m)" "run_Marshal m = Inr p"
    "gm_get (cs_runs s) ?i = Some row" "sr_version row = ld_Version l" "l' = \<lparr>ld_Machine = m, ld_Version = sr_version row + 1\<rparr>"
    "tbl = gm_put (cs_runs s) ?i \<lparr>sr_state = ar_State m, sr_state_data = p, sr_version = sr_version row + 1,
        sr_expires_at = ar_ExpiresAt m\<rparr>"
    using ok by (elim sm_Apply_Inr) auto
  have m: "ar_ID m = ?i" using run_Apply_id [of "ld_Machine l" ClaimEvent] a(1) by simp
  have st: "ar_State (ld_Machine l) = StateQueued" "ar_State m = StateRunning"
    using a(1) by (auto simp: run_Apply_def run_arm_def event_defs split: if_splits)
  have "held_ok automation (cs_runs s) l" "joined_at (cs_runs s) ?wal ?i"
    using inv held by (simp_all add: consumer_inv_def)
  then have none: "outcomes_of ?wal ?i = []"
    using a(3,4) st(1) by (auto simp: held_ok_def joined_at_def row_joined_def State_IsTerminal_def)
  have "joined_at tbl ?wal j" for j
    using inv none run_codec [OF a(2)] m st(2)
    by (cases "j = ?i")
      (simp_all add: a(6) joined_at_put joined_at_put_other row_joined_def State_IsTerminal_def consumer_inv_def)
  moreover have "held_ok automation tbl l'"
    using run_codec [OF a(2)] m by (simp add: held_ok_def a(5,6))
  moreover have "held_ok automation tbl k" if "k \<in> cs_held s" for k
  proof -
    have "held_ok automation (cs_runs s) k" using inv that by (simp add: consumer_inv_def)
    then show ?thesis using a(3) by (auto simp: held_ok_def a(6))
  qed
  ultimately show ?thesis using inv by (simp add: consumer_inv_def)
qed

lemma consumer_step_inv: "consumer_step co s t \<Longrightarrow> consumer_inv s \<Longrightarrow> consumer_inv t"
proof (induction rule: consumer_step.induct)
  case (step_completed f s i cond response attempts tbl ob)
  show ?case
    by (rule land_tx_inv [OF step_completed(1) [unfolded landTerminalCompleted_def] step_completed(2)])
      (auto simp: outcome_for_def State_IsTerminal_def dest: completed_lands)
next
  case (step_failed f s i cond err attempts tbl ob)
  show ?case
    by (rule land_tx_inv [OF step_failed(1) [unfolded landTerminalFailed_def] step_failed(2)])
      (auto simp: outcome_for_def State_IsTerminal_def dest: failed_lands)
qed (auto intro: run_insert_inv run_load_inv claim_inv)

lemma consumer_reach_inv: "(consumer_step co)\<^sup>*\<^sup>* consumer_init s \<Longrightarrow> consumer_inv s"
proof (induction rule: rtranclp_induct)
  case base
  show ?case by (simp add: consumer_inv_def consumer_init_def joined_at_def outcomes_of_def)
next
  case (step s t)
  then show ?case by (blast intro: consumer_step_inv)
qed

section \<open>One delivery\<close>

abbreviation cond_event :: "Consumer \<Rightarrow> AutomateConditionV1 \<Rightarrow> uuid" where
  "cond_event co c \<equiv> DeriveConditionEventID (co_uuid co) (ac_DefinitionID c) (ac_CorrelationID c)"

lemma Process_first:
  assumes "pe_idem env = NoFault" "gm_get (wo_processed w) (cond_event co c) = None"
  shows "Process co env w c =
    (let w1 = w\<lparr>wo_processed := gm_put (wo_processed w) (cond_event co c) ()\<rparr>;
         runID = DeriveRunID (co_uuid co) (ac_DefinitionID c) (ac_CorrelationID c)
     in case load_or_create co env (wo_runs w1) runID c of
          (Inl e, tbl) \<Rightarrow> (Inl e, w1\<lparr>wo_runs := tbl\<rparr>)
        | (Inr loaded, tbl) \<Rightarrow>
          (case claimForDispatch (pe_claim env) tbl loaded of
             ((claimed, terminalState), tbl') \<Rightarrow>
               let w2 = w1\<lparr>wo_runs := tbl'\<rparr>
               in if terminalState \<noteq> [] then (Inr ''already_terminal'', w2)
                  else dispatch_claimed co env w2 runID c claimed))"
  using assms by (simp add: Process_def pg_CheckAndRecord_def insert_returning_def IsAlreadyProcessed_def)

lemma Process_dup:
  assumes "pe_idem env = NoFault" "gm_get (wo_processed w) (cond_event co c) \<noteq> None"
  shows "Process co env w c = (Inr ''deduped'', w)"
  using assms by (auto simp: Process_def pg_CheckAndRecord_def insert_returning_def IsAlreadyProcessed_def)

lemma Process_fault:
  assumes "pg_CheckAndRecord (pe_idem env) (wo_processed w) (cond_event co c) = (Inl x, seen)"
  shows "Process co env w c = (Inl (DbFailure x), w\<lparr>wo_processed := seen\<rparr>)"
  using assms by (simp add: Process_def)

lemma publish_same [simp]:
  "wo_processed (publishOutcomeViaKafka co f x w) = wo_processed w"
  "wo_runs (publishOutcomeViaKafka co f x w) = wo_runs w"
  "wo_outbox (publishOutcomeViaKafka co f x w) = wo_outbox w"
  "wo_dispatched (publishOutcomeViaKafka co f x w) = wo_dispatched w"
  by (simp_all add: publishOutcomeViaKafka_def split: sum.splits option.splits)

lemma with_db_same [simp]:
  "wo_processed (with_db w st) = wo_processed w" "wo_dispatched (with_db w st) = wo_dispatched w"
  "wo_runs (with_db w st) = fst st" "wo_outbox (with_db w st) = snd st"
  by (simp_all add: with_db_def)

lemma dispatch_claimed_log:
  assumes "dispatch_claimed co env w runID c claimed = (r, w')"
  shows "wo_processed w' = wo_processed w \<and> (wo_dispatched w' = wo_dispatched w \<or>
    wo_dispatched w' = wo_dispatched w @ [cond_event co c])"
  using assms unfolding dispatch_claimed_def
  by (auto simp: Let_def split: sum.splits option.splits prod.splits)

text \<open>What a delivery records and dispatches.\<close>

lemma Process_log:
  assumes "Process co env w c = (r, w')"
  defines "e \<equiv> cond_event co c"
  shows "set (gm_keys (wo_processed w)) \<subseteq> set (gm_keys (wo_processed w')) \<and>
    (wo_dispatched w' = wo_dispatched w \<or>
     wo_dispatched w' = wo_dispatched w @ [e] \<and> e \<notin> set (gm_keys (wo_processed w)) \<and> e \<in> set (gm_keys (wo_processed w')))"
proof (cases "pe_idem env = NoFault \<and> gm_get (wo_processed w) e = None")
  case True
  let ?w1 = "w\<lparr>wo_processed := gm_put (wo_processed w) e ()\<rparr>"
  have new: "e \<notin> set (gm_keys (wo_processed w))" using True by (simp add: gm_get_None_iff)
  have "wo_processed w' = wo_processed ?w1 \<and> (wo_dispatched w' = wo_dispatched w \<or> wo_dispatched w' = wo_dispatched w @ [e])"
    using assms(1) Process_first [of env w co c] True unfolding e_def
    by (auto simp: Let_def split: sum.splits prod.splits if_splits dest: dispatch_claimed_log)
  with new show ?thesis by auto
next
  case False
  show ?thesis
  proof (cases "pe_idem env = NoFault")
    case True
    with False Process_dup [of env w co c] assms(1) show ?thesis by (simp add: e_def)
  next
    case fault: False
    then obtain x seen where x: "pg_CheckAndRecord (pe_idem env) (wo_processed w) e = (Inl x, seen)"
      by (cases "pe_idem env") (simp_all add: pg_CheckAndRecord_def)
    from pg.check_err [OF x] Process_fault [OF x [unfolded e_def]] assms(1) show ?thesis by auto
  qed
qed

section \<open>Deliveries as interleavings\<close>

abbreviation sys_of :: "world \<Rightarrow> AutomationRun Loaded set \<Rightarrow> consumer_sys" where
  "sys_of w h \<equiv> \<lparr>cs_runs = wo_runs w, cs_outbox = wo_outbox w, cs_held = h\<rparr>"

lemma load_or_create_steps:
  assumes "load_or_create co env tbl i c = (r, tbl')"
  shows "\<exists>h'. (consumer_step co)\<^sup>*\<^sup>* \<lparr>cs_runs = tbl, cs_outbox = ob, cs_held = h\<rparr>
      \<lparr>cs_runs = tbl', cs_outbox = ob, cs_held = h'\<rparr> \<and> (\<forall>l. r = Inr l \<longrightarrow> l \<in> h')"
proof (cases "sm_Load automation (pe_load env) tbl i")
  case (Inr l)
  then have "consumer_step co \<lparr>cs_runs = tbl, cs_outbox = ob, cs_held = h\<rparr>
      \<lparr>cs_runs = tbl, cs_outbox = ob, cs_held = insert l h\<rparr>"
    using step_load [of "pe_load env" "\<lparr>cs_runs = tbl, cs_outbox = ob, cs_held = h\<rparr>" i l co] by simp
  with Inr assms show ?thesis by (auto simp: load_or_create_def)
next
  case (Inl e)
  let ?new = "NewRun i (TenantUUIDFromStr (co_uuid co) (ac_TenantID c)) (ac_DefinitionID c) (ac_CorrelationID c) None"
  obtain ri ti where ins: "sm_Insert automation (pe_insert env) tbl ?new = (ri, ti)" by fastforce
  show ?thesis
  proof (cases "(\<exists>x. e = NotFoundError x) \<and> (\<exists>l. ri = Inr l)")
    case True
    then obtain l where l: "ri = Inr l" by blast
    then have "consumer_step co \<lparr>cs_runs = tbl, cs_outbox = ob, cs_held = h\<rparr>
        \<lparr>cs_runs = ti, cs_outbox = ob, cs_held = insert l h\<rparr>"
      using step_insert [of "pe_insert env" "\<lparr>cs_runs = tbl, cs_outbox = ob, cs_held = h\<rparr>"] ins by fastforce
    moreover have "tbl' = ti \<and> r = Inr l" using True l Inl ins assms by (auto simp: load_or_create_def)
    ultimately show ?thesis by (intro exI [of _ "insert l h"]) auto
  next
    case False
    then have "tbl' = tbl \<and> (\<exists>x. r = Inl x)"
      using Inl ins assms sm_Insert_Inl [of automation "pe_insert env" tbl ?new] unfolding load_or_create_def
      by (cases e; cases ri) auto
    then show ?thesis by auto
  qed
qed

lemma claim_steps:
  assumes "claimForDispatch f tbl l = ((claimed, ts), tbl')" "l \<in> h"
  shows "\<exists>h'. (consumer_step co)\<^sup>*\<^sup>* \<lparr>cs_runs = tbl, cs_outbox = ob, cs_held = h\<rparr>
      \<lparr>cs_runs = tbl', cs_outbox = ob, cs_held = h'\<rparr>"
proof (cases "ar_State (ld_Machine l) = StateQueued")
  case True
  obtain r t m where a: "sm_Apply automation f tbl l ClaimEvent = (r, t, m)" by (metis prod_cases3)
  show ?thesis
  proof (cases r)
    case (Inl e)
    with a True assms(1) sm_Apply_Inl [of automation f tbl l ClaimEvent e t m] have "tbl' = tbl"
      by (auto simp: claimForDispatch_def)
    then show ?thesis by auto
  next
    case (Inr l')
    with a step_claim [of l "\<lparr>cs_runs = tbl, cs_outbox = ob, cs_held = h\<rparr>" f l' t m co] assms(2)
    have "consumer_step co \<lparr>cs_runs = tbl, cs_outbox = ob, cs_held = h\<rparr>
        \<lparr>cs_runs = t, cs_outbox = ob, cs_held = insert l' (h - {l})\<rparr>" by simp
    with Inr a True assms(1) show ?thesis by (auto simp: claimForDispatch_def)
  qed
next
  case False
  with assms(1) have "tbl' = tbl" by (auto simp: claimForDispatch_def Let_def split: if_splits)
  then show ?thesis by auto
qed

lemma land_steps:
  "landTerminalCompleted co f (tbl, ob) i c r a = Inr (tbl', ob') \<or> landTerminalFailed co f (tbl, ob) i c e a = Inr (tbl', ob') \<Longrightarrow>
   consumer_step co \<lparr>cs_runs = tbl, cs_outbox = ob, cs_held = h\<rparr> \<lparr>cs_runs = tbl', cs_outbox = ob', cs_held = h\<rparr>"
  using step_completed [of co f "\<lparr>cs_runs = tbl, cs_outbox = ob, cs_held = h\<rparr>" i c r a tbl' ob']
    step_failed [of co f "\<lparr>cs_runs = tbl, cs_outbox = ob, cs_held = h\<rparr>" i c e a tbl' ob'] by auto

lemma dispatch_claimed_steps:
  assumes "dispatch_claimed co env w i c claimed = (r, w')"
  shows "(consumer_step co)\<^sup>*\<^sup>* (sys_of w h) (sys_of w' h)"
proof -
  have "wo_runs w' = wo_runs w \<and> wo_outbox w' = wo_outbox w \<or> consumer_step co (sys_of w h) (sys_of w' h)"
    using assms unfolding dispatch_claimed_def
    by (auto simp: Let_def intro: land_steps split: sum.splits option.splits prod.splits)
  then show ?thesis by auto
qed

lemma Process_steps:
  assumes "Process co env w c = (r, w')"
  shows "\<exists>h'. (consumer_step co)\<^sup>*\<^sup>* (sys_of w h) (sys_of w' h')"
proof (cases "pg_CheckAndRecord (pe_idem env) (wo_processed w) (cond_event co c)")
  case (Pair chk seen)
  let ?w1 = "w\<lparr>wo_processed := seen\<rparr>" and ?i = "DeriveRunID (co_uuid co) (ac_DefinitionID c) (ac_CorrelationID c)"
  show ?thesis
  proof (cases "\<exists>outcome. chk = Inr outcome \<and> \<not> IsAlreadyProcessed outcome")
    case False
    then have "wo_runs w' = wo_runs w \<and> wo_outbox w' = wo_outbox w"
      using assms Pair by (cases chk) (auto simp: Process_def)
    then show ?thesis by auto
  next
    case True
    obtain rl tbl where lc: "load_or_create co env (wo_runs w) ?i c = (rl, tbl)" by fastforce
    obtain h1 where h1: "(consumer_step co)\<^sup>*\<^sup>* (sys_of w h) \<lparr>cs_runs = tbl, cs_outbox = wo_outbox w, cs_held = h1\<rparr>"
      "\<forall>l. rl = Inr l \<longrightarrow> l \<in> h1"
      using load_or_create_steps [OF lc] by blast
    show ?thesis
    proof (cases rl)
      case (Inl e)
      with assms Pair True lc have "w' = ?w1\<lparr>wo_runs := tbl\<rparr>" by (auto simp: Process_def Let_def)
      with h1(1) show ?thesis by auto
    next
      case (Inr l)
      obtain claimed ts tbl' where cl: "claimForDispatch (pe_claim env) tbl l = ((claimed, ts), tbl')"
        by (metis prod_cases3 prod.exhaust)
      obtain h2 where h2: "(consumer_step co)\<^sup>*\<^sup>* (sys_of w h) (sys_of (?w1\<lparr>wo_runs := tbl'\<rparr>) h2)"
        using claim_steps [OF cl, of h1 co "wo_outbox w"] h1 Inr by (fastforce intro: rtranclp_trans)
      show ?thesis
      proof (cases "ts = []")
        case False
        with assms Pair True lc Inr cl have "w' = ?w1\<lparr>wo_runs := tbl'\<rparr>" by (auto simp: Process_def Let_def)
        with h2 show ?thesis by auto
      next
        case ts: True
        with assms Pair True lc Inr cl have "dispatch_claimed co env (?w1\<lparr>wo_runs := tbl'\<rparr>) ?i c claimed = (r, w')"
          by (auto simp: Process_def Let_def)
        from dispatch_claimed_steps [OF this] h2 show ?thesis by (meson rtranclp_trans)
      qed
    qed
  qed
qed

lemma processMessage_steps:
  "processMessage co env w msg = (r, w') \<Longrightarrow> \<exists>h'. (consumer_step co)\<^sup>*\<^sup>* (sys_of w h) (sys_of w' h')"
  using Process_steps by (auto simp: processMessage_def split: raw.splits sum.splits)

lemma RunLoop_steps:
  "RunLoop co ps commits w = (e, commits', w') \<Longrightarrow> \<exists>h'. (consumer_step co)\<^sup>*\<^sup>* (sys_of w h) (sys_of w' h')"
proof (induction co ps commits w arbitrary: h rule: RunLoop.induct)
  case (3 co p ps commits w)
  obtain r w1 where pm: "processMessage co (po_env p) w (po_value p) = (r, w1)" by fastforce
  obtain h1 where h1: "(consumer_step co)\<^sup>*\<^sup>* (sys_of w h) (sys_of w1 h1)"
    using processMessage_steps [OF pm] by blast
  consider "w' = w1" | commits1 where "RunLoop co ps commits1 w1 = (e, commits', w')"
    using 3(3) pm by (auto split: sum.splits option.splits if_splits)
  then show ?case
  proof cases
    case 1
    with h1 show ?thesis by blast
  next
    case 2
    then have "\<exists>h'. (consumer_step co)\<^sup>*\<^sup>* (sys_of w1 h1) (sys_of w' h')"
      using 3(3) pm 3(1,2) by (auto split: sum.splits option.splits if_splits)
    with h1 show ?thesis by (meson rtranclp_trans)
  qed
qed auto

section \<open>Landing without faults\<close>

lemma outcome_Marshal_ok: "(\<forall>s. ao_EffectResponse x \<noteq> RawBad s) \<Longrightarrow> \<exists>p. outcome_Marshal x = Inr p"
  unfolding outcome_Marshal_def join_fields_Inr
  by (cases "ao_EffectResponse x"; cases "ao_Error x") (auto simp: put_raw_def put_opt_def)

definition no_land_faults :: land_env where
  "no_land_faults = \<lparr>le_begin = None, le_select = None, le_update = None, le_outbox = no_outbox_faults, le_commit = None\<rparr>"

text \<open>A running (or, for a failure, queued) run lands in the state its event leads to.\<close>

lemma land_tx_ok:
  assumes row: "gm_get tbl i = Some row" "run_Unmarshal (sr_state_data row) = Inr m" "ar_ID m = i"
    and ap: "run_Apply m (pick m) = (None, m')" "run_storable m'" and ob: "ob_events ob = []"
    and x: "\<forall>s. ao_EffectResponse x \<noteq> RawBad s"
  obtains payload out ob' where
    "land_tx co no_land_faults (tbl, ob) i c pick x = Inr (gm_put tbl i \<lparr>sr_state = ar_State m', sr_state_data = payload,
       sr_version = sr_version row + 1, sr_expires_at = ar_ExpiresAt (raise_attempts (ao_Attempts x) m')\<rparr>, ob')"
    "run_Unmarshal payload = Inr (raise_attempts (ao_Attempts x) m')"
    "ob_wal ob' = ob_wal ob @ [out]"
proof -
  have "run_storable (raise_attempts (ao_Attempts x) m')" using ap(2) by (simp add: run_storable_def raise_attempts_def)
  then obtain payload where p: "run_Marshal (raise_attempts (ao_Attempts x) m') = Inr payload"
    using run_Marshal_iff by blast
  obtain q where q: "outcome_Marshal x = Inr q" using outcome_Marshal_ok [OF x] by blast
  let ?ob = "ob\<lparr>ob_wal := ob_wal ob @ [outcome_event co i c x q]\<rparr>"
  have enq: "enqueueOutcome co no_outbox_faults ob i c x = Inr ?ob"
    using q ob by (simp add: enqueueOutcome_def no_outbox_faults_def Enqueue_succeeds)
  have "ar_ID m' = i" using run_Apply_id [of m "pick m"] ap(1) row(3) by simp
  then have "land_tx co no_land_faults (tbl, ob) i c pick x = Inr (gm_put tbl i \<lparr>sr_state = ar_State m', sr_state_data = payload,
       sr_version = sr_version row + 1, sr_expires_at = ar_ExpiresAt (raise_attempts (ao_Attempts x) m')\<rparr>, ?ob)"
    using row ap(1) p enq by (simp add: land_tx_def loadInTx_def writeInTx_def no_land_faults_def)
  then show thesis using run_codec [OF p] by (intro that) auto
qed

definition process_label :: "Consumer \<Rightarrow> process_env \<Rightarrow> AutomateConditionV1 \<Rightarrow> string" where
  "process_label co env c =
     (case ExtractActionRequest (ac_TriggerPayload c) (ac_CorrelationID c) of
        Inl _ \<Rightarrow> ''invalid_payload''
      | Inr action \<Rightarrow>
        (case DispatchWithRetries (co_json_text co) (pe_http env) (pe_cancelled env) (co_Dispatcher co) action (co_MaxAttempts co) of
           Inr _ \<Rightarrow> ''completed'' | Inl _ \<Rightarrow> ''failed''))"

definition landed :: "world \<Rightarrow> OutboxEvent list \<Rightarrow> uuid \<Rightarrow> State \<Rightarrow> bool" where
  "landed w wal i s \<longleftrightarrow> (\<exists>row m out. gm_get (wo_runs w) i = Some row \<and> sr_state row = s \<and>
     run_Unmarshal (sr_state_data row) = Inr m \<and> ar_State m = s \<and> ob_wal (wo_outbox w) = wal @ [out])"

lemma land_completed_ok:
  assumes "gm_get tbl i = Some row" "run_Unmarshal (sr_state_data row) = Inr m" "ar_ID m = i"
    "ar_State m = StateRunning" "run_storable m" "ob_events ob = []"
  obtains st where "landTerminalCompleted co no_land_faults (tbl, ob) i c (Raw r) a = Inr st"
    "landed (with_db w st) (ob_wal ob) i StateCompleted"
proof -
  let ?m = "m\<lparr>ar_EffectResponse := Raw r, ar_ExpiresAt := None, ar_State := StateCompleted\<rparr>"
  have ap: "run_Apply m (EffectCompletedEvent (Raw r)) = (None, ?m)" "run_storable ?m"
    using assms(4,5) by (simp_all add: run_Apply_def run_arm_def event_defs CanTransitionTo_def run_storable_def)
  show thesis
    by (rule land_tx_ok [where pick = "\<lambda>_. EffectCompletedEvent (Raw r)" and co = co and c = c and
          x = "outcome_for i c ''completed'' (Raw r) None a", OF assms(1-3) ap assms(6)])
      (auto simp: outcome_for_def landTerminalCompleted_def landed_def intro!: that)
qed

lemma land_failed_ok:
  assumes "gm_get tbl i = Some row" "run_Unmarshal (sr_state_data row) = Inr m" "ar_ID m = i"
    "ar_State m = StateRunning" "run_storable m" "ob_events ob = []"
  obtains st where "landTerminalFailed co no_land_faults (tbl, ob) i c e a = Inr st"
    "landed (with_db w st) (ob_wal ob) i StateFailed"
proof -
  let ?pick = "\<lambda>m. if ar_State m = StateQueued then PreFlightFailedEvent e else EffectFailedEvent e"
  let ?m = "m\<lparr>ar_LastError := Some e, ar_ExpiresAt := None, ar_State := StateFailed\<rparr>"
  have ap: "run_Apply m (?pick m) = (None, ?m)" "run_storable ?m"
    using assms(4,5) by (simp_all add: run_Apply_def run_arm_def event_defs CanTransitionTo_def run_storable_def)
  show thesis
    by (rule land_tx_ok [where pick = ?pick and co = co and c = c and
          x = "outcome_for i c ''failed'' RawEmpty (Some e) a", OF assms(1-3) ap assms(6)])
      (auto simp: outcome_for_def landTerminalFailed_def landed_def intro!: that)
qed

lemma landed_publish [simp]: "landed (publishOutcomeViaKafka co f x w) wal i s = landed w wal i s"
  by (simp add: landed_def)

lemma dispatch_claimed_ok:
  assumes row: "gm_get (wo_runs w) i = Some row" "run_Unmarshal (sr_state_data row) = Inr m" "ar_ID m = i"
    "ar_State m = StateRunning" "run_storable m" "ob_events (wo_outbox w) = []" and env: "pe_land env = no_land_faults"
  shows "\<exists>w'. dispatch_claimed co env w i c (Some l) = (Inr (process_label co env c), w') \<and>
    landed w' (ob_wal (wo_outbox w)) i (if process_label co env c = ''completed'' then StateCompleted else StateFailed)"
proof (cases "ExtractActionRequest (ac_TriggerPayload c) (ac_CorrelationID c)")
  case (Inl de)
  obtain st where "landTerminalFailed co no_land_faults (wo_runs w, wo_outbox w) i c (DispatchError_Error de) (ar_Attempts (ld_Machine l)) = Inr st"
    "landed (with_db w st) (ob_wal (wo_outbox w)) i StateFailed"
    using row by (rule land_failed_ok)
  with Inl env show ?thesis by (simp add: dispatch_claimed_def process_label_def)
next
  case (Inr action)
  let ?w1 = "w\<lparr>wo_dispatched := wo_dispatched w @ [cond_event co c]\<rparr>"
  show ?thesis
  proof (cases "DispatchWithRetries (co_json_text co) (pe_http env) (pe_cancelled env) (co_Dispatcher co) action (co_MaxAttempts co)")
    case (Inl err)
    define a where "a = (case err of DispatchErr de \<Rightarrow>
        if de_Kind de = KindExhausted then of_nat (de_Attempts de) else 1 | CtxErr _ \<Rightarrow> (1 :: u32))"
    obtain st where "landTerminalFailed co no_land_faults (wo_runs w, wo_outbox w) i c (failure_text err) a = Inr st"
      "landed (with_db ?w1 st) (ob_wal (wo_outbox w)) i StateFailed"
      using row by (rule land_failed_ok)
    with Inl Inr env show ?thesis by (simp add: dispatch_claimed_def process_label_def flip: a_def)
  next
    case ok: (Inr rn)
    obtain r n where rn: "rn = (r, n)" by fastforce
    obtain st where "landTerminalCompleted co no_land_faults (wo_runs w, wo_outbox w) i c (Raw r) (of_nat n) = Inr st"
      "landed (with_db ?w1 st) (ob_wal (wo_outbox w)) i StateCompleted"
      using row by (rule land_completed_ok)
    with ok rn Inr env show ?thesis by (simp add: dispatch_claimed_def process_label_def)
  qed
qed

text \<open>The row a new or queued run has before the claim.\<close>

definition claimable :: "jobject sm_table \<Rightarrow> uuid \<Rightarrow> bool" where
  "claimable tbl i \<longleftrightarrow> (case gm_get tbl i of None \<Rightarrow> True
     | Some row \<Rightarrow> (case run_Unmarshal (sr_state_data row) of Inl _ \<Rightarrow> False
         | Inr m \<Rightarrow> ar_ID m = i \<and> ar_State m = StateQueued \<and> run_storable m))"

lemma load_or_create_ok:
  assumes "pe_load env = None" "pe_insert env = None" "claimable tbl i"
  obtains l tbl' row where "load_or_create co env tbl i c = (Inr l, tbl')" "gm_get tbl' i = Some row"
    "ld_Version l = sr_version row" "ar_ID (ld_Machine l) = i" "ar_State (ld_Machine l) = StateQueued" "run_storable (ld_Machine l)"
proof (cases "gm_get tbl i")
  case (Some row)
  then obtain m where m: "run_Unmarshal (sr_state_data row) = Inr m" "ar_ID m = i" "ar_State m = StateQueued" "run_storable m"
    using assms(3) by (auto simp: claimable_def split: sum.splits)
  have "load_or_create co env tbl i c = (Inr \<lparr>ld_Machine = m, ld_Version = sr_version row\<rparr>, tbl)"
    using Some m(1) assms(1) by (simp add: load_or_create_def sm_Load_def)
  then show thesis using m Some by (intro that) auto
next
  case None
  let ?new = "NewRun i (TenantUUIDFromStr (co_uuid co) (ac_TenantID c)) (ac_DefinitionID c) (ac_CorrelationID c) None"
  have new: "ar_ID ?new = i" "ar_State ?new = StateQueued" "run_storable ?new"
    by (simp_all add: NewRun_def run_storable_def)
  then obtain p where p: "run_Marshal ?new = Inr p" using run_Marshal_iff by blast
  have "load_or_create co env tbl i c = (Inr \<lparr>ld_Machine = ?new, ld_Version = 1\<rparr>,
      gm_put tbl i \<lparr>sr_state = StateQueued, sr_state_data = p, sr_version = 1, sr_expires_at = ar_ExpiresAt ?new\<rparr>)"
    using None p new assms(1,2) by (simp add: load_or_create_def sm_Load_def sm_Insert_def)
  then show thesis using new by (intro that) auto
qed

lemma claim_ok:
  assumes "gm_get tbl i = Some row" "ld_Version l = sr_version row" "ar_ID (ld_Machine l) = i"
    "ar_State (ld_Machine l) = StateQueued" "run_storable (ld_Machine l)"
  obtains l' row' tbl' m where "claimForDispatch None tbl l = ((Some l', []), tbl')" "gm_get tbl' i = Some row'"
    "run_Unmarshal (sr_state_data row') = Inr m" "ar_ID m = i" "ar_State m = StateRunning" "run_storable m"
proof -
  let ?m = "(ld_Machine l)\<lparr>ar_Attempts := saturatingAdd (ar_Attempts (ld_Machine l)) 1, ar_State := StateRunning\<rparr>"
  have ap: "run_Apply (ld_Machine l) ClaimEvent = (None, ?m)" "run_storable ?m"
    using assms(4,5) by (simp_all add: run_Apply_def run_arm_def event_defs CanTransitionTo_def run_storable_def)
  then obtain p where p: "run_Marshal ?m = Inr p" using run_Marshal_iff by blast
  let ?row = "\<lparr>sr_state = StateRunning, sr_state_data = p, sr_version = sr_version row + 1, sr_expires_at = ar_ExpiresAt (ld_Machine l)\<rparr>"
  have "claimForDispatch None tbl l = ((Some \<lparr>ld_Machine = ?m, ld_Version = sr_version row + 1\<rparr>, []), gm_put tbl i ?row)"
    using assms p ap by (simp add: claimForDispatch_def sm_Apply_def)
  then show thesis using run_codec [OF p] ap(2) assms(3) by (intro that) auto
qed

section \<open>Properties\<close>

text \<open>
  C26. In every interleaving of inserts, loads, claims and landing transactions of any number of
  replicas, with failures at any statement, a run is in a terminal state exactly if its outcome event is
  in the log, and then the event is there once and carries that state.
\<close>

theorem outcome_iff_terminal:
  assumes "(consumer_step co)\<^sup>*\<^sup>* consumer_init s"
  shows "joined_at (cs_runs s) (ob_wal (cs_outbox s)) i"
  using consumer_reach_inv [OF assms] by (simp add: consumer_inv_def)

definition uuid_lib_1 :: uuid_lib where
  "uuid_lib_1 = \<lparr>ul_NewSHA1 = (\<lambda>ns bytes. of_nat (length bytes)), ul_Parse = (\<lambda>_. None), ul_String = (\<lambda>_. ''u'')\<rparr>"

definition consumer_1 :: Consumer where
  "consumer_1 = \<lparr>co_uuid = uuid_lib_1, co_json_text = (\<lambda>_. []), co_Dispatcher = NewDispatcher ''svc'' ''tok'',
     co_MaxAttempts = 5, co_HasPublisher = True, co_LineageNamespace = ''openfoundry''\<rparr>"

definition env_1 :: process_env where
  "env_1 = \<lparr>pe_idem = NoFault, pe_load = None, pe_insert = None, pe_claim = None, pe_http = client_1,
     pe_cancelled = (\<lambda>_. None), pe_land = no_land_faults, pe_publish = None\<rparr>"

definition condition_1 :: AutomateConditionV1 where
  "condition_1 = \<lparr>ac_DefinitionID = 1, ac_TenantID = ''acme'', ac_CorrelationID = 2, ac_TriggeredBy = ''u'',
     ac_TriggerType = ''manual'', ac_TriggerPayload = Raw (JObj [(''action_id'', JStr ''a'')])\<rparr>"

definition world_0 :: world where
  "world_0 = \<lparr>wo_processed = [], wo_runs = [], wo_outbox = \<lparr>ob_events = [], ob_wal = []\<rparr>, wo_dispatched = [], wo_published = []\<rparr>"

definition world_1 :: world where
  "world_1 = snd (Process consumer_1 env_1 world_0 condition_1)"

lemma world_1_label: "fst (Process consumer_1 env_1 world_0 condition_1) = Inr ''completed''"
  by code_simp

lemma world_1_row: "map_option sr_state (gm_get (wo_runs world_1) 32) = Some ''completed''"
  by code_simp

lemma world_1_run: "Process consumer_1 env_1 world_0 condition_1 = (Inr ''completed'', world_1)"
  using world_1_label by (simp add: world_1_def prod_eq_iff)

lemma sys_of_world_0: "sys_of world_0 {} = consumer_init"
  by (simp add: world_0_def consumer_init_def)

theorem outcome_iff_terminal_witness:
  "joined_at (wo_runs world_1) (ob_wal (wo_outbox world_1)) 32 \<and>
   map_option sr_state (gm_get (wo_runs world_1) 32) = Some ''completed''"
proof -
  obtain h where "(consumer_step consumer_1)\<^sup>*\<^sup>* consumer_init (sys_of world_1 h)"
    using Process_steps [OF world_1_run, of "{}"] by (auto simp: sys_of_world_0)
  from outcome_iff_terminal [OF this, of 32] world_1_row show ?thesis by simp
qed

lemma Process_once:
  assumes "Process co env w c = (r, w')" "distinct (wo_dispatched w)" "set (wo_dispatched w) \<subseteq> recorded (wo_processed w)"
  shows "distinct (wo_dispatched w') \<and> set (wo_dispatched w') \<subseteq> recorded (wo_processed w')"
  using Process_log [OF assms(1)] assms(2,3) by auto

lemma RunLoop_once:
  assumes "RunLoop co ps commits w = (e, commits', w')" "distinct (wo_dispatched w)"
    "set (wo_dispatched w) \<subseteq> recorded (wo_processed w)"
  shows "distinct (wo_dispatched w') \<and> set (wo_dispatched w') \<subseteq> recorded (wo_processed w')"
  using assms
proof (induction co ps commits w rule: RunLoop.induct)
  case (3 co p ps commits w)
  obtain r w1 where pm: "processMessage co (po_env p) w (po_value p) = (r, w1)" by fastforce
  have once: "distinct (wo_dispatched w1) \<and> set (wo_dispatched w1) \<subseteq> recorded (wo_processed w1)"
    using pm 3(4,5) by (auto simp: processMessage_def split: raw.splits sum.splits dest: Process_once)
  consider (stop) "w' = w1"
    | (again) err where "r = Inl err" "\<not> po_done p" "RunLoop co ps commits w1 = (e, commits', w')"
    | (commit) label where "r = Inr label" "po_commit p = None" "RunLoop co ps (commits @ [po_offset p]) w1 = (e, commits', w')"
    using 3(3) pm by (auto split: sum.splits option.splits if_splits)
  then show ?case
  proof cases
    case stop
    with once show ?thesis by simp
  next
    case again
    with 3(1) once pm show ?thesis by simp
  next
    case commit
    with 3(2) once pm show ?thesis by simp
  qed
qed auto

text \<open>
  C1. The consumer loop is such an interleaving: whatever messages it polls and whatever fails, starting
  from an empty database every run's row and its outcome event agree, and no condition's effect is
  dispatched twice.
\<close>

theorem RunLoop_safe:
  assumes "RunLoop co ps [] world_0 = (e, commits, w)"
  shows "joined_at (wo_runs w) (ob_wal (wo_outbox w)) i \<and> distinct (wo_dispatched w)"
proof -
  obtain h where "(consumer_step co)\<^sup>*\<^sup>* consumer_init (sys_of w h)"
    using RunLoop_steps [OF assms, of "{}"] by (auto simp: sys_of_world_0)
  from consumer_reach_inv [OF this] have "joined_at (wo_runs w) (ob_wal (wo_outbox w)) i"
    by (simp add: consumer_inv_def)
  moreover have "distinct (wo_dispatched w)" using RunLoop_once [OF assms] by (simp add: world_0_def)
  ultimately show ?thesis by simp
qed

definition polls_1 :: "poll list" where
  "polls_1 = (let msg = \<lparr>po_offset = 0, po_value = Raw [(''definition_id'', FUuid 1), (''correlation_id'', FUuid 2)],
       po_env = env_1, po_done = False, po_commit = None\<rparr>
     in [PollMessage msg, PollMessage msg, PollError ''closed''])"

theorem RunLoop_safe_witness:
  "\<exists>e commits w. RunLoop consumer_1 polls_1 [] world_0 = (e, commits, w) \<and>
     joined_at (wo_runs w) (ob_wal (wo_outbox w)) 32 \<and> distinct (wo_dispatched w)"
proof -
  obtain e commits w where w: "RunLoop consumer_1 polls_1 [] world_0 = (e, commits, w)" by (metis prod_cases3)
  from RunLoop_safe [OF w, of 32] w show ?thesis by blast
qed

text \<open>
  C27. A condition that was not seen before, whose run has no row yet or a queued one, and whose processing
  meets no storage failure, ends with its run in a terminal state and an outcome event added to the
  log: completed if the dispatch succeeded, failed if it did not or if the payload names no action.
\<close>

theorem Process_lands:
  assumes "pe_idem env = NoFault" "pe_load env = None" "pe_insert env = None" "pe_claim env = None"
    "pe_land env = no_land_faults" "ob_events (wo_outbox w) = []"
    "gm_get (wo_processed w) (cond_event co c) = None"
    "claimable (wo_runs w) (DeriveRunID (co_uuid co) (ac_DefinitionID c) (ac_CorrelationID c))"
  shows "\<exists>w'. Process co env w c = (Inr (process_label co env c), w') \<and>
    landed w' (ob_wal (wo_outbox w)) (DeriveRunID (co_uuid co) (ac_DefinitionID c) (ac_CorrelationID c))
      (if process_label co env c = ''completed'' then StateCompleted else StateFailed)"
proof -
  let ?i = "DeriveRunID (co_uuid co) (ac_DefinitionID c) (ac_CorrelationID c)"
  let ?w1 = "w\<lparr>wo_processed := gm_put (wo_processed w) (cond_event co c) ()\<rparr>"
  obtain l tbl row where lc: "load_or_create co env (wo_runs w) ?i c = (Inr l, tbl)" "gm_get tbl ?i = Some row"
    "ld_Version l = sr_version row" "ar_ID (ld_Machine l) = ?i" "ar_State (ld_Machine l) = StateQueued" "run_storable (ld_Machine l)"
    using assms(2,3,8) by (rule load_or_create_ok)
  obtain l' row' tbl' m where cl: "claimForDispatch None tbl l = ((Some l', []), tbl')" "gm_get tbl' ?i = Some row'"
    "run_Unmarshal (sr_state_data row') = Inr m" "ar_ID m = ?i" "ar_State m = StateRunning" "run_storable m"
    using lc(2-6) by (rule claim_ok)
  have "Process co env w c = dispatch_claimed co env (?w1\<lparr>wo_runs := tbl'\<rparr>) ?i c (Some l')"
    using Process_first [OF assms(1,7)] lc(1) cl(1) assms(4) by simp
  with dispatch_claimed_ok [of "?w1\<lparr>wo_runs := tbl'\<rparr>" ?i row' m env co c l'] cl(2-6) assms(5,6)
  show ?thesis by simp
qed

lemma ids_1: "DeriveRunID (co_uuid consumer_1) 1 2 = 32" "cond_event consumer_1 condition_1 = 33"
  by (simp_all add: DeriveRunID_def DeriveConditionEventID_def consumer_1_def uuid_lib_1_def uuid_bytes_def condition_1_def)

theorem Process_lands_witness:
  "landed world_1 [] 32 StateCompleted"
proof -
  have "\<exists>w'. Process consumer_1 env_1 world_0 condition_1 = (Inr (process_label consumer_1 env_1 condition_1), w') \<and>
      landed w' (ob_wal (wo_outbox world_0)) (DeriveRunID (co_uuid consumer_1) (ac_DefinitionID condition_1) (ac_CorrelationID condition_1))
      (if process_label consumer_1 env_1 condition_1 = ''completed'' then StateCompleted else StateFailed)"
    by (rule Process_lands) (simp_all add: env_1_def world_0_def claimable_def)
  moreover have "ac_DefinitionID condition_1 = 1" "ac_CorrelationID condition_1 = 2" "ob_wal (wo_outbox world_0) = []"
    by (simp_all add: condition_1_def world_0_def)
  ultimately show ?thesis unfolding world_1_run by (auto simp: ids_1(1) split: if_splits)
qed

text \<open>
  C36. A delivery that was recorded and then failed is never retried: every redelivery of the condition is
  skipped as a duplicate, and the offset is committed, while its run stays where the failure left it.
\<close>

theorem failed_delivery_not_retried:
  assumes "Process co env w c = (Inl e, w')" "pe_idem env = NoFault" "pe_idem env' = NoFault"
  shows "Process co env' w' c = (Inr ''deduped'', w')"
proof -
  have new: "gm_get (wo_processed w) (cond_event co c) = None"
    using Process_dup [OF assms(2), of w co c] assms(1) by (cases "gm_get (wo_processed w) (cond_event co c)") auto
  have "wo_processed w' = gm_put (wo_processed w) (cond_event co c) ()"
    using assms(1) unfolding Process_first [OF assms(2) new]
    by (auto simp: Let_def split: sum.splits prod.splits if_splits dest: dispatch_claimed_log)
  then show ?thesis using Process_dup [OF assms(3), of w' co c] by simp
qed

definition env_load_fails :: process_env where
  "env_load_fails = env_1\<lparr>pe_load := Some ''connection reset''\<rparr>"

theorem failed_delivery_not_retried_witness:
  "\<exists>e w'. Process consumer_1 env_load_fails world_0 condition_1 = (Inl e, w') \<and>
     Process consumer_1 env_1 w' condition_1 = (Inr ''deduped'', w') \<and> gm_get (wo_runs w') 32 = None \<and>
     ob_wal (wo_outbox w') = []"
proof -
  let ?w = "world_0\<lparr>wo_processed := gm_put [] 33 ()\<rparr>"
  have f: "Process consumer_1 env_load_fails world_0 condition_1 = (Inl (StoreFailure (StoreError ''connection reset'')), ?w)"
    using Process_first [of env_load_fails world_0 consumer_1 condition_1] ids_1(2)
    by (simp add: env_load_fails_def env_1_def world_0_def load_or_create_def sm_Load_def)
  from failed_delivery_not_retried [OF f, of env_1] f show ?thesis
    by (simp add: env_load_fails_def env_1_def world_0_def)
qed

text \<open>
  A storage failure while claiming a queued run is reported as success, with the label for a run that is
  already terminal: the row stays queued, the offset is committed, and redeliveries are skipped.
\<close>

theorem failed_claim_hidden:
  assumes "pe_idem env = NoFault" "gm_get (wo_processed w) (cond_event co c) = None"
    "sm_Load automation (pe_load env) (wo_runs w) (DeriveRunID (co_uuid co) (ac_DefinitionID c) (ac_CorrelationID c)) = Inr l"
    "ar_State (ld_Machine l) = StateQueued" "run_storable (ld_Machine l)" "pe_claim env = Some err"
  shows "\<exists>w'. Process co env w c = (Inr ''already_terminal'', w') \<and> wo_runs w' = wo_runs w \<and>
    (\<forall>env'. pe_idem env' = NoFault \<longrightarrow> Process co env' w' c = (Inr ''deduped'', w'))"
proof -
  let ?w1 = "w\<lparr>wo_processed := gm_put (wo_processed w) (cond_event co c) ()\<rparr>"
  let ?m = "(ld_Machine l)\<lparr>ar_Attempts := saturatingAdd (ar_Attempts (ld_Machine l)) 1, ar_State := StateRunning\<rparr>"
  have ap: "run_Apply (ld_Machine l) ClaimEvent = (None, ?m)" "run_storable ?m"
    using assms(4,5) by (simp_all add: run_Apply_def run_arm_def event_defs CanTransitionTo_def run_storable_def)
  then obtain p where "run_Marshal ?m = Inr p" using run_Marshal_iff by blast
  then have cl: "claimForDispatch (pe_claim env) (wo_runs w) l = ((None, StateRunning), wo_runs w)"
    using assms(4,6) ap by (simp add: claimForDispatch_def sm_Apply_def)
  have "Process co env w c = (Inr ''already_terminal'', ?w1\<lparr>wo_runs := wo_runs w\<rparr>)"
    using Process_first [OF assms(1,2)] assms(3) cl by (simp add: load_or_create_def)
  moreover have "Process co env' (?w1\<lparr>wo_runs := wo_runs w\<rparr>) c = (Inr ''deduped'', ?w1\<lparr>wo_runs := wo_runs w\<rparr>)"
    if "pe_idem env' = NoFault" for env'
    using Process_dup [OF that, of "?w1\<lparr>wo_runs := wo_runs w\<rparr>" co c] by simp
  ultimately show ?thesis by auto
qed

definition run_32 :: AutomationRun where
  "run_32 = NewRun 32 9 1 2 None"

definition world_queued :: world where
  "world_queued = world_0\<lparr>wo_runs := snd (sm_Insert automation None [] run_32)\<rparr>"

theorem failed_claim_hidden_witness:
  "\<exists>w'. Process consumer_1 (env_1\<lparr>pe_claim := Some ''timeout''\<rparr>) world_queued condition_1 = (Inr ''already_terminal'', w') \<and>
     map_option sr_state (gm_get (wo_runs w') 32) = Some StateQueued"
proof -
  have load: "sm_Load automation None (wo_runs world_queued) 32 = Inr \<lparr>ld_Machine = run_32, ld_Version = 1\<rparr>"
    "map_option sr_state (gm_get (wo_runs world_queued) 32) = Some StateQueued"
    by (code_simp, code_simp)
  have "\<exists>w'. Process consumer_1 (env_1\<lparr>pe_claim := Some ''timeout''\<rparr>) world_queued condition_1 = (Inr ''already_terminal'', w') \<and>
     wo_runs w' = wo_runs world_queued \<and>
     (\<forall>env'. pe_idem env' = NoFault \<longrightarrow> Process consumer_1 env' w' condition_1 = (Inr ''deduped'', w'))"
  proof (rule failed_claim_hidden)
    show "sm_Load automation (pe_load (env_1\<lparr>pe_claim := Some ''timeout''\<rparr>)) (wo_runs world_queued)
        (DeriveRunID (co_uuid consumer_1) (ac_DefinitionID condition_1) (ac_CorrelationID condition_1))
        = Inr \<lparr>ld_Machine = run_32, ld_Version = 1\<rparr>"
      using load(1) ids_1(1) by (simp add: env_1_def condition_1_def)
  qed (simp_all add: env_1_def world_queued_def world_0_def run_32_def NewRun_def run_storable_def)
  then show ?thesis using load(2) by auto
qed

end
