(* ===== verification/Approvals.thy ===== *)
theory Approvals
  imports Json_Codec Lifecycle State_Store Outbox
begin

text \<open>
  Approval requests (\<open>services/workflow-automation-service/internal/approvals/state_machine.go\<close>,
  \<open>event.go\<close>) and the sweep that expires them
  (\<open>services/workflow-automation-service/cmd/approvals-timeout-sweep/main.go\<close>). The machine is a second
  provider of the contracts \<open>lifecycle\<close> and \<open>aggregate_ok\<close>. \<open>Apply\<close> reads the clock, so an event comes
  with the time of the call. \<open>uuid.NewSHA1\<close> and \<open>uuid.UUID.String\<close> are parameters of the sweep.
\<close>

section \<open>The machine\<close>

type_synonym ApprovalState = string

abbreviation StatePending :: ApprovalState where "StatePending \<equiv> ''pending''"
abbreviation StateApproved :: ApprovalState where "StateApproved \<equiv> ''approved''"
abbreviation StateRejected :: ApprovalState where "StateRejected \<equiv> ''rejected''"
abbreviation StateExpired :: ApprovalState where "StateExpired \<equiv> ''expired''"
abbreviation StateEscalated :: ApprovalState where "StateEscalated \<equiv> ''escalated''"

definition ParseApprovalState :: "string \<Rightarrow> string + ApprovalState" where
  "ParseApprovalState value =
     (if value \<in> {StatePending, StateApproved, StateRejected, StateExpired, StateEscalated}
      then Inr value else Inl (''unknown approval request state '' @ value))"

definition approval_IsTerminal :: "ApprovalState \<Rightarrow> bool" where
  "approval_IsTerminal s \<longleftrightarrow> s = StateApproved \<or> s = StateRejected \<or> s = StateExpired"

definition approval_CanTransitionTo :: "ApprovalState \<Rightarrow> ApprovalState \<Rightarrow> bool" where
  "approval_CanTransitionTo s nxt \<longleftrightarrow> s = nxt \<or>
     s = StatePending \<and> nxt = StateApproved \<or>
     s = StatePending \<and> nxt = StateRejected \<or>
     s = StatePending \<and> nxt = StateExpired \<or>
     s = StatePending \<and> nxt = StateEscalated \<or>
     s = StateEscalated \<and> nxt = StateApproved \<or>
     s = StateEscalated \<and> nxt = StateRejected \<or>
     s = StateEscalated \<and> nxt = StateExpired"

record ApprovalEvent =
  av_Kind :: string
  av_DecidedBy :: string
  av_Comment :: "string option"
  av_ExpiredAt :: instant
  av_EscalatedAt :: instant

record ApprovalRequest =
  aq_ID :: uuid
  aq_TenantID :: string
  aq_Subject :: string
  aq_ApproverSet :: "string list"
  aq_ActionPayload :: raw_message
  aq_CorrelationID :: uuid
  aq_State :: ApprovalState
  aq_ExpiresAt :: "instant option"
  aq_DecidedBy :: "string option"
  aq_DecidedAt :: "instant option"
  aq_Comment :: "string option"

definition NewApproval :: "uuid \<Rightarrow> string \<Rightarrow> string \<Rightarrow> string list \<Rightarrow> raw_message \<Rightarrow> uuid \<Rightarrow> instant option \<Rightarrow> ApprovalRequest" where
  "NewApproval i tenantID subject approverSet actionPayload correlationID expiresAt =
     \<lparr>aq_ID = i, aq_TenantID = tenantID, aq_Subject = subject, aq_ApproverSet = approverSet,
      aq_ActionPayload = actionPayload, aq_CorrelationID = correlationID, aq_State = StatePending,
      aq_ExpiresAt = expiresAt, aq_DecidedBy = None, aq_DecidedAt = None, aq_Comment = None\<rparr>"

definition approval_arm :: "instant \<Rightarrow> ApprovalRequest \<Rightarrow> ApprovalEvent \<Rightarrow> (ApprovalRequest \<times> ApprovalState) option" where
  "approval_arm now r ev =
     (let live = aq_State r = StatePending \<or> aq_State r = StateEscalated in
      if live \<and> av_Kind ev = ''approve''
      then Some (r\<lparr>aq_DecidedBy := Some (av_DecidedBy ev), aq_DecidedAt := Some now, aq_Comment := av_Comment ev,
                   aq_ExpiresAt := None\<rparr>, StateApproved)
      else if live \<and> av_Kind ev = ''reject''
      then Some (r\<lparr>aq_DecidedBy := Some (av_DecidedBy ev), aq_DecidedAt := Some now, aq_Comment := av_Comment ev,
                   aq_ExpiresAt := None\<rparr>, StateRejected)
      else if live \<and> av_Kind ev = ''expire''
      then Some (r\<lparr>aq_DecidedAt := Some (if av_ExpiredAt ev = zero_time then now else av_ExpiredAt ev),
                   aq_ExpiresAt := None\<rparr>, StateExpired)
      else if aq_State r = StatePending \<and> av_Kind ev = ''escalate''
      then Some (r, StateEscalated)
      else None)"

definition approval_Apply :: "ApprovalRequest \<Rightarrow> instant \<times> ApprovalEvent \<Rightarrow> string option \<times> ApprovalRequest" where
  "approval_Apply r nev =
     (let (now, ev) = nev in
      case approval_arm now r ev of
        None \<Rightarrow> (Some (''no ApprovalRequest transition from '' @ aq_State r @ '' for event '' @ av_Kind ev), r)
      | Some (r', nxt) \<Rightarrow>
        if \<not> approval_CanTransitionTo (aq_State r') nxt
        then (Some (''ApprovalRequest produced disallowed transition: '' @ aq_State r' @
                [CHR '' '', CHR 0xE2, CHR 0x86, CHR 0x92, CHR '' ''] @ nxt), r')
        else (None, r'\<lparr>aq_State := nxt\<rparr>))"

subsection \<open>The JSON form\<close>

definition approval_Marshal :: "ApprovalRequest \<Rightarrow> string + jobject" where
  "approval_Marshal r = join_fields
     [Inr [(''id'', FUuid (aq_ID r)), (''tenant_id'', FText (aq_TenantID r)), (''subject'', FText (aq_Subject r)),
           (''approver_set'', FTexts (aq_ApproverSet r))],
      put_raw ''action_payload'' (aq_ActionPayload r),
      Inr [(''correlation_id'', FUuid (aq_CorrelationID r)), (''state'', FText (aq_State r))],
      put_opt ''expires_at'' put_time (aq_ExpiresAt r),
      put_opt ''decided_by'' (Inr \<circ> FText) (aq_DecidedBy r),
      put_opt ''decided_at'' put_time (aq_DecidedAt r),
      put_opt ''comment'' (Inr \<circ> FText) (aq_Comment r)]"

definition approval_Unmarshal :: "jobject \<Rightarrow> string + ApprovalRequest" where
  "approval_Unmarshal ob =
     bindE (get_uuid ob ''id'') (\<lambda>i.
     bindE (get_text ob ''tenant_id'') (\<lambda>tenantID.
     bindE (get_text ob ''subject'') (\<lambda>subject.
     bindE (get_texts ob ''approver_set'') (\<lambda>approverSet.
     bindE (get_raw ob ''action_payload'') (\<lambda>actionPayload.
     bindE (get_uuid ob ''correlation_id'') (\<lambda>correlationID.
     bindE (get_text ob ''state'') (\<lambda>state.
     bindE (get_time_ptr ob ''expires_at'') (\<lambda>expiresAt.
     bindE (get_text_ptr ob ''decided_by'') (\<lambda>decidedBy.
     bindE (get_time_ptr ob ''decided_at'') (\<lambda>decidedAt.
     bindE (get_text_ptr ob ''comment'') (\<lambda>comment.
       Inr \<lparr>aq_ID = i, aq_TenantID = tenantID, aq_Subject = subject, aq_ApproverSet = approverSet,
            aq_ActionPayload = actionPayload, aq_CorrelationID = correlationID, aq_State = state,
            aq_ExpiresAt = expiresAt, aq_DecidedBy = decidedBy, aq_DecidedAt = decidedAt, aq_Comment = comment\<rparr>)))))))))))"

definition approval :: "(ApprovalRequest, instant \<times> ApprovalEvent, jobject) aggregate" where
  "approval = \<lparr>ag_Apply = approval_Apply, ag_CurrentState = aq_State, ag_AggregateID = aq_ID,
     ag_ExpiresAt = aq_ExpiresAt, ag_Marshal = approval_Marshal, ag_Unmarshal = approval_Unmarshal\<rparr>"

section \<open>The timeout sweep\<close>

definition ApprovalsNamespace :: uuid where
  "ApprovalsNamespace = 0xc418735996c74c84a63d42ab916e36a3"

record sweep_deps =
  sd_NewSHA1 :: "uuid \<Rightarrow> string \<Rightarrow> uuid"
  sd_String :: "uuid \<Rightarrow> string"

definition DeriveOutboxEventID :: "sweep_deps \<Rightarrow> uuid \<Rightarrow> string \<Rightarrow> uuid" where
  "DeriveOutboxEventID sd approvalID kind = sd_NewSHA1 sd ApprovalsNamespace (uuid_bytes approvalID @ ''|'' @ kind)"

definition expired_Marshal :: "ApprovalRequest \<Rightarrow> instant \<Rightarrow> instant \<Rightarrow> string + jobject" where
  "expired_Marshal r expiredAt deadline = join_fields
     [Inr [(''approval_id'', FUuid (aq_ID r)), (''tenant_id'', FText (aq_TenantID r)),
           (''correlation_id'', FUuid (aq_CorrelationID r))],
      put_opt ''expired_at'' put_time (Some expiredAt), put_opt ''deadline'' put_time (Some deadline)]"

definition expired_event :: "sweep_deps \<Rightarrow> ApprovalRequest \<Rightarrow> jobject \<Rightarrow> OutboxEvent" where
  "expired_event sd r body =
     WithHeader ''ol-producer'' ''approvals-timeout-sweep''
    (WithHeader ''ol-run-id'' (sd_String sd (aq_ID r))
    (WithHeader ''ol-job'' ''approvals/timeout-sweep''
    (WithHeader ''x-audit-correlation-id'' (sd_String sd (aq_CorrelationID r))
    (NewOutboxEvent (DeriveOutboxEventID sd (aq_ID r) ''expired'') ''approval_request'' (sd_String sd (aq_ID r))
       ''approval.expired.v1'' (Raw body)))))"

definition enqueueExpired ::
  "sweep_deps \<Rightarrow> outbox_faults \<Rightarrow> outbox \<Rightarrow> ApprovalRequest \<Rightarrow> instant \<Rightarrow> instant \<Rightarrow> string option \<times> outbox" where
  "enqueueExpired sd f ob r expiredAt deadline =
     (case expired_Marshal r expiredAt deadline of
        Inl e \<Rightarrow> (Some (''serialize payload: '' @ e), ob)
      | Inr body \<Rightarrow>
        (case Enqueue f ob (expired_event sd r body) of
           (Some e, ob') \<Rightarrow> (Some (''outbox enqueue: '' @ e), ob')
         | (None, ob') \<Rightarrow> (None, ob')))"

text \<open>The statements that may fail for one candidate, and the clock reading of its \<open>Apply\<close>.\<close>

record sweep_env =
  se_apply :: "string option"
  se_clock :: instant
  se_begin :: "string option"
  se_outbox :: outbox_faults
  se_commit :: "string option"

definition expire_event :: "instant \<Rightarrow> ApprovalEvent" where
  "expire_event expiredAt = \<lparr>av_Kind = ''expire'', av_DecidedBy = [], av_Comment = None, av_ExpiredAt = expiredAt,
     av_EscalatedAt = zero_time\<rparr>"

text \<open>
  The payload is built from the machine the store was handed, which \<open>Apply\<close> has updated in place; the
  fields used here are not touched by it.
\<close>

definition transitionAndPublish ::
  "sweep_deps \<Rightarrow> sweep_env \<Rightarrow> jobject sm_table \<times> outbox \<Rightarrow> ApprovalRequest Loaded \<Rightarrow> instant \<Rightarrow> instant \<Rightarrow>
   string option \<times> jobject sm_table \<times> outbox" where
  "transitionAndPublish sd env st loaded expiredAt deadline =
     (let (tbl, ob) = st in
      case sm_Apply approval (se_apply env) tbl loaded (se_clock env, expire_event expiredAt) of
        (Inl e, tbl', _) \<Rightarrow> (Some ''apply Expire failed'', tbl', ob)
      | (Inr _, tbl', _) \<Rightarrow>
        (case se_begin env of
           Some e \<Rightarrow> (Some (''begin tx: '' @ e), tbl', ob)
         | None \<Rightarrow>
           (case enqueueExpired sd (se_outbox env) ob (ld_Machine loaded) expiredAt deadline of
              (Some e, _) \<Rightarrow> (Some e, tbl', ob)
            | (None, ob') \<Rightarrow>
              (case se_commit env of
                 Some e \<Rightarrow> (Some e, tbl', ob)
               | None \<Rightarrow> (None, tbl', ob')))))"

record sweep_counts =
  sc_expired :: nat
  sc_skipped :: nat
  sc_failed :: nat

fun sweep_loop ::
  "sweep_deps \<Rightarrow> (uuid \<Rightarrow> sweep_env) \<Rightarrow> instant \<Rightarrow> ApprovalRequest Loaded list \<Rightarrow> sweep_counts \<times> jobject sm_table \<times> outbox \<Rightarrow>
   sweep_counts \<times> jobject sm_table \<times> outbox" where
  "sweep_loop sd env now [] acc = acc"
| "sweep_loop sd env now (loaded # rest) (n, tbl, ob) =
     (if aq_State (ld_Machine loaded) \<noteq> StatePending
      then sweep_loop sd env now rest (n\<lparr>sc_skipped := sc_skipped n + 1\<rparr>, tbl, ob)
      else
        let deadline = (case aq_ExpiresAt (ld_Machine loaded) of Some t \<Rightarrow> t | None \<Rightarrow> now)
        in case transitionAndPublish sd (env (aq_ID (ld_Machine loaded))) (tbl, ob) loaded now deadline of
             (Some _, tbl', ob') \<Rightarrow> sweep_loop sd env now rest (n\<lparr>sc_failed := sc_failed n + 1\<rparr>, tbl', ob')
           | (None, tbl', ob') \<Rightarrow> sweep_loop sd env now rest (n\<lparr>sc_expired := sc_expired n + 1\<rparr>, tbl', ob'))"

definition sweep_main ::
  "sweep_deps \<Rightarrow> (uuid \<Rightarrow> sweep_env) \<Rightarrow> string option \<Rightarrow> instant \<Rightarrow> jobject sm_table \<times> outbox \<Rightarrow>
   (sm_error + sweep_counts) \<times> jobject sm_table \<times> outbox" where
  "sweep_main sd env fault now st =
     (case sm_TimeoutSweep approval fault (fst st) now of
        Inl e \<Rightarrow> (Inl e, st)
      | Inr candidates \<Rightarrow>
        (case sweep_loop sd env now candidates (\<lparr>sc_expired = 0, sc_skipped = 0, sc_failed = 0\<rparr>, st) of
           (n, st') \<Rightarrow> (Inr n, st')))"

section \<open>Facts\<close>

lemma approval_simps [simp]:
  "ag_Apply approval = approval_Apply" "ag_CurrentState approval = aq_State"
  "ag_AggregateID approval = aq_ID" "ag_ExpiresAt approval = aq_ExpiresAt"
  "ag_Marshal approval = approval_Marshal" "ag_Unmarshal approval = approval_Unmarshal"
  by (simp_all add: approval_def)

lemma approval_codec:
  assumes "approval_Marshal r = Inr ob"
  shows "approval_Unmarshal ob = Inr r"
proof -
  obtain a b c d e where p: "put_raw ''action_payload'' (aq_ActionPayload r) = Inr a"
      "put_opt ''expires_at'' put_time (aq_ExpiresAt r) = Inr b"
      "put_opt ''decided_by'' (Inr \<circ> FText) (aq_DecidedBy r) = Inr c"
      "put_opt ''decided_at'' put_time (aq_DecidedAt r) = Inr d"
      "put_opt ''comment'' (Inr \<circ> FText) (aq_Comment r) = Inr e"
    and ob: "ob = [(''id'', FUuid (aq_ID r)), (''tenant_id'', FText (aq_TenantID r)), (''subject'', FText (aq_Subject r)),
           (''approver_set'', FTexts (aq_ApproverSet r))] @ a @
      [(''correlation_id'', FUuid (aq_CorrelationID r)), (''state'', FText (aq_State r))] @ b @ c @ d @ e"
    using assms unfolding approval_Marshal_def join_fields_Inr by auto
  note look = put_raw_get [OF p(1)] put_opt_get [OF p(2)] put_opt_get [OF p(3)] put_opt_get [OF p(4)]
    put_opt_get [OF p(5)] put_opt_time [OF p(2)] put_opt_time [OF p(4)]
  have reads: "get_uuid ob ''id'' = Inr (aq_ID r)" "get_text ob ''tenant_id'' = Inr (aq_TenantID r)"
    "get_text ob ''subject'' = Inr (aq_Subject r)" "get_texts ob ''approver_set'' = Inr (aq_ApproverSet r)"
    "get_raw ob ''action_payload'' = Inr (aq_ActionPayload r)" "get_uuid ob ''correlation_id'' = Inr (aq_CorrelationID r)"
    "get_text ob ''state'' = Inr (aq_State r)" "get_time_ptr ob ''expires_at'' = Inr (aq_ExpiresAt r)"
    "get_text_ptr ob ''decided_by'' = Inr (aq_DecidedBy r)" "get_time_ptr ob ''decided_at'' = Inr (aq_DecidedAt r)"
    "get_text_ptr ob ''comment'' = Inr (aq_Comment r)"
    using put_raw_good [OF p(1)]
    by (intro codec_reads; simp add: ob look gm_get_append gm_get_Cons option.case_eq_if option.map_comp comp_def)+
  show ?thesis unfolding approval_Unmarshal_def reads by simp
qed

interpretation apv: lifecycle approval_CanTransitionTo approval_IsTerminal
  by unfold_locales (auto simp: approval_CanTransitionTo_def approval_IsTerminal_def)

lemma approval_arm_same:
  "approval_arm now r ev = Some (r', nxt) \<Longrightarrow> aq_ID r' = aq_ID r \<and> aq_State r' = aq_State r"
  by (auto simp: approval_arm_def Let_def split: if_splits)

lemma approval_Apply_id: "aq_ID (snd (approval_Apply r nev)) = aq_ID r"
  by (auto simp: approval_Apply_def dest: approval_arm_same split: option.splits prod.splits)

interpretation apvs: aggregate_ok approval
  by unfold_locales (auto simp: approval_Apply_id approval_codec)

section \<open>Expiring one request\<close>

definition approval_storable :: "ApprovalRequest \<Rightarrow> bool" where
  "approval_storable r \<longleftrightarrow> (\<forall>t. aq_ExpiresAt r = Some t \<longrightarrow> year_0 \<le> t \<and> t < year_10000) \<and>
     (\<forall>t. aq_DecidedAt r = Some t \<longrightarrow> year_0 \<le> t \<and> t < year_10000) \<and> (\<forall>s. aq_ActionPayload r \<noteq> RawBad s)"

lemma approval_Marshal_ok: "approval_storable r \<Longrightarrow> \<exists>ob. approval_Marshal r = Inr ob"
  unfolding approval_Marshal_def join_fields_Inr approval_storable_def
  by (cases "aq_ActionPayload r"; cases "aq_ExpiresAt r"; cases "aq_DecidedAt r"; cases "aq_DecidedBy r"; cases "aq_Comment r")
    (simp_all add: put_opt_def put_raw_def put_time_def)

definition approval_of :: "OutboxEvent \<Rightarrow> jfield option" where
  "approval_of e = (case oe_Payload e of Raw p \<Rightarrow> gm_get p ''approval_id'' | _ \<Rightarrow> None)"

lemma expired_event_of:
  assumes "expired_Marshal r x d = Inr body"
  shows "oe_Payload (expired_event sd r body) = Raw body" "approval_of (expired_event sd r body) = Some (FUuid (aq_ID r))"
proof -
  show 1: "oe_Payload (expired_event sd r body) = Raw body"
    by (simp add: expired_event_def WithHeader_def NewOutboxEvent_def)
  show "approval_of (expired_event sd r body) = Some (FUuid (aq_ID r))"
    using assms unfolding approval_of_def 1 expired_Marshal_def join_fields_Inr by (auto simp: gm_get_Cons)
qed

lemma expired_Marshal_ok:
  "year_0 \<le> x \<Longrightarrow> x < year_10000 \<Longrightarrow> year_0 \<le> d \<Longrightarrow> d < year_10000 \<Longrightarrow> \<exists>body. expired_Marshal r x d = Inr body"
  by (simp add: expired_Marshal_def put_opt_def put_time_def)

definition sweep_ok_env :: "sweep_env \<Rightarrow> bool" where
  "sweep_ok_env env \<longleftrightarrow> se_apply env = None \<and> se_begin env = None \<and> se_outbox env = no_outbox_faults \<and>
     se_commit env = None \<and> year_0 \<le> se_clock env \<and> se_clock env < year_10000"

text \<open>What the store does with the expiry of a pending request.\<close>

lemma expire_applied:
  assumes "gm_get tbl i = Some row" "sr_version row = ld_Version l" "aq_ID (ld_Machine l) = i"
    "aq_State (ld_Machine l) = StatePending" "approval_storable (ld_Machine l)"
    "year_0 \<le> x" "x < year_10000" "year_0 \<le> clock" "clock < year_10000"
  obtains l' row' m where "sm_Apply approval None tbl l (clock, expire_event x) = (Inr l', gm_put tbl i row', m)"
    "sr_state row' = StateExpired" "sr_expires_at row' = None"
proof -
  let ?m = "(ld_Machine l)\<lparr>aq_DecidedAt := Some (if x = zero_time then clock else x), aq_ExpiresAt := None, aq_State := StateExpired\<rparr>"
  have ap: "approval_Apply (ld_Machine l) (clock, expire_event x) = (None, ?m)"
    using assms(4) by (simp add: approval_Apply_def approval_arm_def expire_event_def approval_CanTransitionTo_def)
  have "approval_storable ?m" using assms(5-9) by (simp add: approval_storable_def)
  then obtain p where "approval_Marshal ?m = Inr p" using approval_Marshal_ok by blast
  with ap assms(1-3) have "sm_Apply approval None tbl l (clock, expire_event x) =
      (Inr \<lparr>ld_Machine = ?m, ld_Version = sr_version row + 1\<rparr>,
       gm_put tbl i \<lparr>sr_state = StateExpired, sr_state_data = p, sr_version = sr_version row + 1, sr_expires_at = None\<rparr>, ?m)"
    by (simp add: sm_Apply_def)
  then show thesis by (rule that) simp_all
qed

lemma transition_ok:
  assumes env: "sweep_ok_env env" and ob: "ob_events ob = []"
    and l: "gm_get tbl i = Some row" "sr_version row = ld_Version l" "aq_ID (ld_Machine l) = i"
      "aq_State (ld_Machine l) = StatePending" "approval_storable (ld_Machine l)"
    and x: "year_0 \<le> x" "x < year_10000" "year_0 \<le> d" "d < year_10000"
  obtains row' ob' where "transitionAndPublish sd env (tbl, ob) l x d = (None, gm_put tbl i row', ob')"
    "sr_state row' = StateExpired" "sr_expires_at row' = None" "ob_events ob' = []"
    "map approval_of (ob_wal ob') = map approval_of (ob_wal ob) @ [Some (FUuid i)]"
proof -
  obtain l' row' m where ap: "sm_Apply approval None tbl l (se_clock env, expire_event x) = (Inr l', gm_put tbl i row', m)"
    "sr_state row' = StateExpired" "sr_expires_at row' = None"
  proof -
    have "year_0 \<le> se_clock env" "se_clock env < year_10000" using env by (simp_all add: sweep_ok_env_def)
    from expire_applied [OF l x(1,2) this] that show thesis by blast
  qed
  obtain body where b: "expired_Marshal (ld_Machine l) x d = Inr body" using expired_Marshal_ok [OF x] by blast
  let ?ob = "ob\<lparr>ob_wal := ob_wal ob @ [expired_event sd (ld_Machine l) body]\<rparr>"
  have "Enqueue no_outbox_faults ob (expired_event sd (ld_Machine l) body) = (None, ?ob)"
    using Enqueue_succeeds [of no_outbox_faults _ body ob] ob expired_event_of(1) [OF b]
    by (simp add: no_outbox_faults_def)
  then have "transitionAndPublish sd env (tbl, ob) l x d = (None, gm_put tbl i row', ?ob)"
    using ap(1) b env by (simp add: transitionAndPublish_def enqueueExpired_def sweep_ok_env_def)
  then show thesis using ap(2,3) ob expired_event_of(2) [OF b] l(3) by (intro that [of row' ?ob]) auto
qed

section \<open>The whole sweep\<close>

abbreviation pending_l :: "ApprovalRequest Loaded \<Rightarrow> bool" where
  "pending_l l \<equiv> aq_State (ld_Machine l) = StatePending"

abbreviation id_l :: "ApprovalRequest Loaded \<Rightarrow> uuid" where
  "id_l l \<equiv> aq_ID (ld_Machine l)"

definition fresh :: "jobject sm_table \<Rightarrow> ApprovalRequest Loaded \<Rightarrow> bool" where
  "fresh tbl l \<longleftrightarrow> (\<exists>row. gm_get tbl (id_l l) = Some row \<and> sr_version row = ld_Version l) \<and> approval_storable (ld_Machine l)"

definition swept :: "uuid set \<Rightarrow> jobject sm_table \<Rightarrow> jobject sm_table \<Rightarrow> bool" where
  "swept ids tbl tbl' \<longleftrightarrow> (\<forall>i. if i \<in> ids then \<exists>row. gm_get tbl' i = Some row \<and> sr_state row = StateExpired \<and> sr_expires_at row = None
     else gm_get tbl' i = gm_get tbl i)"

lemma sweep_loop_ok:
  assumes "\<forall>i. sweep_ok_env (env i)" "year_0 \<le> now" "now < year_10000" "ob_events ob = []"
    "distinct (map id_l cs)" "\<forall>l \<in> set cs. fresh tbl l"
  shows "\<exists>n' tbl' ob'. sweep_loop sd env now cs (n, tbl, ob) = (n', tbl', ob') \<and>
    sc_failed n' = sc_failed n \<and> sc_expired n' = sc_expired n + length (filter pending_l cs) \<and>
    swept (id_l ` set (filter pending_l cs)) tbl tbl' \<and>
    map approval_of (ob_wal ob') = map approval_of (ob_wal ob) @ map (\<lambda>l. Some (FUuid (id_l l))) (filter pending_l cs)"
  using assms(4-6)
proof (induction cs arbitrary: n tbl ob)
  case Nil
  then show ?case by (simp add: swept_def)
next
  case (Cons l cs)
  show ?case
  proof (cases "pending_l l")
    case False
    then show ?thesis
      using Cons.IH [of ob tbl "n\<lparr>sc_skipped := sc_skipped n + 1\<rparr>"] Cons.prems by simp
  next
    case True
    obtain row where row: "gm_get tbl (id_l l) = Some row" "sr_version row = ld_Version l" "approval_storable (ld_Machine l)"
      using Cons.prems(3) by (auto simp: fresh_def)
    define d where "d = (case aq_ExpiresAt (ld_Machine l) of Some t \<Rightarrow> t | None \<Rightarrow> now)"
    have d: "year_0 \<le> d" "d < year_10000"
      using row(3) assms(2,3) by (auto simp: d_def approval_storable_def split: option.splits)
    obtain row' ob1 where tp: "transitionAndPublish sd (env (id_l l)) (tbl, ob) l now d = (None, gm_put tbl (id_l l) row', ob1)"
      "sr_state row' = StateExpired" "sr_expires_at row' = None" "ob_events ob1 = []"
      "map approval_of (ob_wal ob1) = map approval_of (ob_wal ob) @ [Some (FUuid (id_l l))]"
      using transition_ok [OF assms(1) [rule_format] Cons.prems(1) row(1,2) refl True row(3) assms(2,3) d] by blast
    have "\<forall>k \<in> set cs. fresh (gm_put tbl (id_l l) row') k"
      using Cons.prems(2,3) by (auto simp: fresh_def image_iff)
    from Cons.IH [OF tp(4) _ this, of "n\<lparr>sc_expired := sc_expired n + 1\<rparr>"] Cons.prems(2)
    obtain n' tbl' ob' where ih: "sweep_loop sd env now cs (n\<lparr>sc_expired := sc_expired n + 1\<rparr>, gm_put tbl (id_l l) row', ob1) = (n', tbl', ob')"
      "sc_failed n' = sc_failed n" "sc_expired n' = sc_expired n + 1 + length (filter pending_l cs)"
      "swept (id_l ` set (filter pending_l cs)) (gm_put tbl (id_l l) row') tbl'"
      "map approval_of (ob_wal ob') = map approval_of (ob_wal ob1) @ map (\<lambda>l. Some (FUuid (id_l l))) (filter pending_l cs)"
      by auto
    have "sweep_loop sd env now (l # cs) (n, tbl, ob) = (n', tbl', ob')"
      using True tp(1) ih(1) by (simp add: d_def Let_def)
    moreover have "swept (id_l ` set (filter pending_l (l # cs))) tbl tbl'"
      using ih(4) tp(2,3) True unfolding swept_def by (auto split: if_splits)
    ultimately show ?thesis using ih(2,3,5) tp(5) True by simp
  qed
qed

text \<open>A table as the store leaves it: distinct ids, every row decodes and agrees with its columns.\<close>

definition approvals_ok :: "jobject sm_table \<Rightarrow> bool" where
  "approvals_ok tbl \<longleftrightarrow> gm_ok tbl \<and> (\<forall>i row. gm_get tbl i = Some row \<longrightarrow>
     (\<exists>m. approval_Unmarshal (sr_state_data row) = Inr m \<and> aq_ID m = i \<and> sr_state row = aq_State m \<and>
        sr_expires_at row = aq_ExpiresAt m \<and> approval_storable m))"

lemma decode_rows_ok:
  assumes "\<forall>(i, row) \<in> set rows. \<exists>m. approval_Unmarshal (sr_state_data row) = Inr m \<and> aq_ID m = i \<and> P row m"
  shows "\<exists>cs. decode_rows approval rows = Inr cs \<and> map id_l cs = map fst rows \<and>
    list_all2 (\<lambda>(i, row) l. ld_Version l = sr_version row \<and> approval_Unmarshal (sr_state_data row) = Inr (ld_Machine l) \<and> P row (ld_Machine l)) rows cs"
  using assms
proof (induction rows)
  case (Cons r rows)
  then obtain cs where cs: "decode_rows approval rows = Inr cs" "map id_l cs = map fst rows"
    "list_all2 (\<lambda>(i, row) l. ld_Version l = sr_version row \<and> approval_Unmarshal (sr_state_data row) = Inr (ld_Machine l) \<and> P row (ld_Machine l)) rows cs"
    by auto
  obtain i row where r: "r = (i, row)" by fastforce
  with Cons.prems obtain m where "approval_Unmarshal (sr_state_data row) = Inr m" "aq_ID m = i" "P row m" by auto
  with cs r show ?case by simp
qed simp

abbreviation is_due :: "instant \<Rightarrow> jobject sm_row \<Rightarrow> bool" where
  "is_due now row \<equiv> (case sr_expires_at row of Some t \<Rightarrow> t \<le> now | None \<Rightarrow> False)"

lemma sweep_due_rows:
  assumes "gm_ok tbl"
  shows "(i, row) \<in> set (sweep_due now tbl) \<longleftrightarrow> gm_get tbl i = Some row \<and> is_due now row"
    "distinct (map fst (sweep_due now tbl))"
proof -
  show "(i, row) \<in> set (sweep_due now tbl) \<longleftrightarrow> gm_get tbl i = Some row \<and> is_due now row"
    using assms by (auto simp: sweep_due_def gm_get_in_set)
  show "distinct (map fst (sweep_due now tbl))"
    using assms unfolding sweep_due_def gm_ok_def distinct_map
    by (auto intro: inj_on_subset)
qed

section \<open>Properties\<close>

text \<open>
  C34. A sweep that meets no failure expires exactly the pending requests whose deadline has passed: each of
  them ends expired and without a deadline, all other rows stay as they are, and the log gets one
  event for each of them and nothing else.
\<close>

theorem sweep_expires_due:
  assumes "\<forall>i. sweep_ok_env (env i)" "year_0 \<le> now" "now < year_10000" "ob_events ob = []" "approvals_ok tbl"
  shows "\<exists>n tbl' ob' ids. sweep_main sd env None now (tbl, ob) = (Inr n, tbl', ob') \<and> sc_failed n = 0 \<and>
    sc_expired n = length ids \<and> distinct ids \<and>
    (\<forall>i. i \<in> set ids \<longleftrightarrow> (\<exists>row. gm_get tbl i = Some row \<and> sr_state row = StatePending \<and> is_due now row)) \<and>
    swept (set ids) tbl tbl' \<and> map approval_of (ob_wal ob') = map approval_of (ob_wal ob) @ map (Some \<circ> FUuid) ids"
proof -
  define P where "P row m \<longleftrightarrow> sr_state row = aq_State m \<and> approval_storable m" for row :: "jobject sm_row" and m
  have ok: "gm_ok tbl" using assms(5) by (simp add: approvals_ok_def)
  have "\<forall>(i, row) \<in> set (sweep_due now tbl). \<exists>m. approval_Unmarshal (sr_state_data row) = Inr m \<and> aq_ID m = i \<and> P row m"
    using assms(5) sweep_due_rows(1) [OF ok] unfolding approvals_ok_def P_def by fast
  from decode_rows_ok [OF this] obtain cs where cs: "decode_rows approval (sweep_due now tbl) = Inr cs"
    "map id_l cs = map fst (sweep_due now tbl)"
    "list_all2 (\<lambda>(i, row) l. ld_Version l = sr_version row \<and> approval_Unmarshal (sr_state_data row) = Inr (ld_Machine l) \<and>
       P row (ld_Machine l)) (sweep_due now tbl) cs" by blast
  have row_of: "\<exists>row. gm_get tbl (id_l l) = Some row \<and> is_due now row \<and> ld_Version l = sr_version row \<and> P row (ld_Machine l)"
    if lcs: "l \<in> set cs" for l
  proof -
    obtain k where k: "k < length cs" "l = cs ! k" using lcs by (auto simp: in_set_conv_nth)
    have len: "length cs = length (sweep_due now tbl)" using cs(2) map_eq_imp_length_eq by blast
    obtain i row where ir: "sweep_due now tbl ! k = (i, row)" by fastforce
    then have "(i, row) \<in> set (sweep_due now tbl)" using k(1) len by (metis nth_mem)
    moreover have "id_l l = i" using arg_cong [OF cs(2), of "\<lambda>xs. xs ! k"] k len ir by simp
    ultimately show ?thesis
      using list_all2_nthD2 [OF cs(3) k(1)] ir k(2) sweep_due_rows(1) [OF ok, of i row now] by auto
  qed
  have l_of: "\<exists>l \<in> set cs. id_l l = i" if "gm_get tbl i = Some row" "is_due now row" for i row
    using that sweep_due_rows(1) [OF ok, of i row now] cs(2) by (metis (no_types, lifting) image_iff fst_conv list.set_map)
  have fr: "\<forall>l \<in> set cs. fresh tbl l" using row_of by (fastforce simp: fresh_def P_def)
  have "distinct (map id_l cs)" using cs(2) sweep_due_rows(2) [OF ok] by simp
  from sweep_loop_ok [OF assms(1-4) this fr, of sd "\<lparr>sc_expired = 0, sc_skipped = 0, sc_failed = 0\<rparr>"]
  obtain n tbl' ob' where r: "sweep_loop sd env now cs (\<lparr>sc_expired = 0, sc_skipped = 0, sc_failed = 0\<rparr>, tbl, ob) = (n, tbl', ob')"
    "sc_failed n = 0" "sc_expired n = length (filter pending_l cs)" "swept (id_l ` set (filter pending_l cs)) tbl tbl'"
    "map approval_of (ob_wal ob') = map approval_of (ob_wal ob) @ map (\<lambda>l. Some (FUuid (id_l l))) (filter pending_l cs)"
    by auto
  let ?ids = "map id_l (filter pending_l cs)"
  have "distinct ?ids" using \<open>distinct (map id_l cs)\<close> by (simp add: distinct_map_filter)
  moreover have "i \<in> set ?ids \<longleftrightarrow> (\<exists>row. gm_get tbl i = Some row \<and> sr_state row = StatePending \<and> is_due now row)" for i
    using row_of l_of unfolding P_def by (fastforce simp: image_iff)
  moreover have "sweep_main sd env None now (tbl, ob) = (Inr n, tbl', ob')"
    using cs(1) r(1) by (simp add: sweep_main_def sm_TimeoutSweep_def)
  ultimately show ?thesis using r by (intro exI [of _ n] exI [of _ tbl'] exI [of _ ob'] exI [of _ ?ids]) (auto simp: comp_def)
qed

definition sweep_deps_1 :: sweep_deps where
  "sweep_deps_1 = \<lparr>sd_NewSHA1 = (\<lambda>_ bytes. of_nat (length bytes)), sd_String = (\<lambda>_. ''u'')\<rparr>"

definition sweep_env_1 :: sweep_env where
  "sweep_env_1 = \<lparr>se_apply = None, se_clock = 60, se_begin = None, se_outbox = no_outbox_faults, se_commit = None\<rparr>"

definition approval_1 :: ApprovalRequest where
  "approval_1 = NewApproval 1 ''acme'' ''deploy'' [''bob''] RawEmpty 1 (Some 50)"

definition approvals_tbl :: "jobject sm_table" where
  "approvals_tbl = snd (sm_Insert approval None [] approval_1)"

lemma approvals_tbl_eq:
  "\<exists>p. approvals_tbl = [(1, \<lparr>sr_state = StatePending, sr_state_data = p, sr_version = 1, sr_expires_at = Some 50\<rparr>)] \<and>
     approval_Unmarshal p = Inr approval_1"
proof -
  have "approval_storable approval_1" by (simp add: approval_storable_def approval_1_def NewApproval_def year_0_def year_10000_def)
  then obtain p where "approval_Marshal approval_1 = Inr p" using approval_Marshal_ok by blast
  with approval_codec [OF this] show ?thesis
    by (simp add: approvals_tbl_def sm_Insert_def approval_1_def NewApproval_def gm_put_def)
qed

lemma approvals_tbl_ok: "approvals_ok approvals_tbl"
proof -
  obtain p where p: "approvals_tbl = [(1, \<lparr>sr_state = StatePending, sr_state_data = p, sr_version = 1, sr_expires_at = Some 50\<rparr>)]"
    "approval_Unmarshal p = Inr approval_1"
    using approvals_tbl_eq by blast
  then show ?thesis
    unfolding approvals_ok_def gm_ok_def p(1)
    by (auto simp: gm_get_Cons approval_1_def NewApproval_def approval_storable_def year_0_def year_10000_def
        split: if_splits)
qed

theorem sweep_expires_due_witness:
  "\<exists>n tbl' ob'. sweep_main sweep_deps_1 (\<lambda>_. sweep_env_1) None 60 (approvals_tbl, \<lparr>ob_events = [], ob_wal = []\<rparr>) = (Inr n, tbl', ob') \<and>
     sc_failed n = 0 \<and> sc_expired n = 1 \<and> map approval_of (ob_wal ob') = [Some (FUuid 1)]"
proof -
  have env: "sweep_ok_env sweep_env_1" by (simp add: sweep_ok_env_def sweep_env_1_def year_0_def year_10000_def)
  obtain n tbl' ob' ids where r: "sweep_main sweep_deps_1 (\<lambda>_. sweep_env_1) None 60 (approvals_tbl, \<lparr>ob_events = [], ob_wal = []\<rparr>) = (Inr n, tbl', ob')"
    "sc_failed n = 0" "sc_expired n = length ids" "distinct ids"
    "\<forall>i. i \<in> set ids \<longleftrightarrow> (\<exists>row. gm_get approvals_tbl i = Some row \<and> sr_state row = StatePending \<and> is_due 60 row)"
    "map approval_of (ob_wal ob') = map approval_of [] @ map (Some \<circ> FUuid) ids"
    using sweep_expires_due [of "\<lambda>_. sweep_env_1" 60 "\<lparr>ob_events = [], ob_wal = []\<rparr>" approvals_tbl sweep_deps_1]
      env approvals_tbl_ok by (auto simp: year_0_def year_10000_def)
  obtain p where p: "approvals_tbl = [(1, \<lparr>sr_state = StatePending, sr_state_data = p, sr_version = 1, sr_expires_at = Some 50\<rparr>)]"
    using approvals_tbl_eq by blast
  have "set ids = {1}" using r(5) unfolding p by (auto simp: gm_get_Cons split: if_splits)
  then have "ids = [1]" using r(4) by (cases ids) (auto dest: subset_singletonD)
  with r show ?thesis by auto
qed

text \<open>
  C37. Expiring a request and publishing its event are two transactions: if the second one fails, the row is
  expired and without a deadline, no event is in the log, and no later sweep returns the row, so the
  event is never published.
\<close>

theorem expired_event_lost:
  assumes "sm_Apply approval (se_apply env) tbl l (se_clock env, expire_event x) = (Inr l', tbl', m)"
    and "transitionAndPublish sd env (tbl, ob) l x d = (Some err, st)"
  shows "st = (tbl', ob) \<and> (\<exists>row. gm_get tbl' (id_l l) = Some row \<and> sr_state row = StateExpired) \<and>
    (\<forall>now row. gm_ok tbl' \<longrightarrow> (id_l l, row) \<notin> set (sweep_due now tbl'))"
proof -
  have st: "st = (tbl', ob)"
    using assms(2) unfolding transitionAndPublish_def
    by (simp add: assms(1) split: option.splits prod.splits)
  obtain p where a: "approval_Apply (ld_Machine l) (se_clock env, expire_event x) = (None, m)"
    "tbl' = gm_put tbl (id_l l) \<lparr>sr_state = aq_State m, sr_state_data = p, sr_version = ld_Version l + 1,
        sr_expires_at = aq_ExpiresAt m\<rparr>"
    using assms(1) by (elim sm_Apply_Inr) auto
  have m: "aq_State m = StateExpired" "aq_ExpiresAt m = None"
    using a(1) by (auto simp: approval_Apply_def approval_arm_def expire_event_def Let_def split: if_splits)
  show ?thesis using st a(2) m sweep_due_rows(1) by auto
qed

theorem expired_event_lost_witness:
  "\<exists>err tbl'. transitionAndPublish sweep_deps_1 (sweep_env_1\<lparr>se_commit := Some ''reset''\<rparr>)
      (approvals_tbl, \<lparr>ob_events = [], ob_wal = []\<rparr>) \<lparr>ld_Machine = approval_1, ld_Version = 1\<rparr> 60 50
      = (Some err, tbl', \<lparr>ob_events = [], ob_wal = []\<rparr>) \<and>
    (\<exists>row. gm_get tbl' 1 = Some row \<and> sr_state row = StateExpired)"
proof -
  let ?env = "sweep_env_1\<lparr>se_commit := Some ''reset''\<rparr>" and ?l = "\<lparr>ld_Machine = approval_1, ld_Version = 1\<rparr>"
  obtain p where p: "approvals_tbl = [(1, \<lparr>sr_state = StatePending, sr_state_data = p, sr_version = 1, sr_expires_at = Some 50\<rparr>)]"
    using approvals_tbl_eq by blast
  obtain l' row' m where ap: "sm_Apply approval None approvals_tbl ?l (60, expire_event 60) = (Inr l', gm_put approvals_tbl 1 row', m)"
    by (rule expire_applied [where tbl = approvals_tbl and i = 1 and l = ?l and x = 60 and clock = 60])
      (auto simp: p gm_get_Cons approval_1_def NewApproval_def approval_storable_def year_0_def year_10000_def)
  have "transitionAndPublish sweep_deps_1 ?env (approvals_tbl, \<lparr>ob_events = [], ob_wal = []\<rparr>) ?l 60 50
      = (Some ''reset'', gm_put approvals_tbl 1 row', \<lparr>ob_events = [], ob_wal = []\<rparr>)"
    using ap by (simp add: transitionAndPublish_def sweep_env_1_def enqueueExpired_def expired_Marshal_def put_opt_def
        put_time_def year_0_def year_10000_def Enqueue_succeeds expired_event_def WithHeader_def NewOutboxEvent_def no_outbox_faults_def)
  from expired_event_lost [OF _ this, of l' "gm_put approvals_tbl 1 row'" m] ap this show ?thesis
    by (auto simp: sweep_env_1_def approval_1_def NewApproval_def)
qed

text \<open>
  A request is decided once: \<open>Apply\<close> succeeds only on a pending or escalated request and moves along
  \<open>CanTransitionTo\<close>, to the escalated state or to a terminal one with its decision time set and its
  deadline cleared; a terminal request rejects every event and stays as it is.
\<close>

theorem approval_decided_once:
  "case approval_Apply r (now, ev) of
     (None, r') \<Rightarrow> aq_State r \<in> {StatePending, StateEscalated} \<and> approval_CanTransitionTo (aq_State r) (aq_State r') \<and>
        aq_State r' \<noteq> aq_State r \<and> aq_ID r' = aq_ID r \<and> (aq_State r' = StateEscalated \<or>
          approval_IsTerminal (aq_State r') \<and> aq_ExpiresAt r' = None \<and> (\<exists>t. aq_DecidedAt r' = Some t))
   | (Some e, r') \<Rightarrow> r' = r"
  by (auto simp: approval_Apply_def approval_arm_def Let_def approval_CanTransitionTo_def approval_IsTerminal_def
      split: option.splits if_splits)

end
