(* ===== verification/Executor_Node.thy ===== *)
theory Executor_Node
  imports Graph_Search Lifecycle
begin

text \<open>
  The part of the DAG executor
  (\<open>services/pipeline-build-service/internal/domain/executor/executor.go\<close>) that drives one node:
  \<open>driveNode\<close> with its attempts, \<open>commitAllOutputs\<close> and \<open>abortOutputs\<close>. The runner, the committer and
  the transaction manager are interfaces; an environment gives their answers, and whether the
  context is done at each point where the code asks. The audit sink and the transaction calls are
  recorded in a trace.
\<close>

section \<open>Data\<close>

datatype NodeState = NodeWaiting | NodeRunPending | NodeRunning | NodeAbortPending
  | NodeAborted | NodeFailed | NodeCompleted

fun node_state_string :: "NodeState \<Rightarrow> string" where
  "node_state_string NodeWaiting = ''WAITING''"
| "node_state_string NodeRunPending = ''RUN_PENDING''"
| "node_state_string NodeRunning = ''RUNNING''"
| "node_state_string NodeAbortPending = ''ABORT_PENDING''"
| "node_state_string NodeAborted = ''ABORTED''"
| "node_state_string NodeFailed = ''FAILED''"
| "node_state_string NodeCompleted = ''COMPLETED''"

definition terminal :: "NodeState \<Rightarrow> bool" where
  "terminal s \<longleftrightarrow> s = NodeAborted \<or> s = NodeFailed \<or> s = NodeCompleted"

text \<open>Of an output transaction the executor itself reads the dataset only.\<close>

record OutputTransaction =
  ot_DatasetRID :: string
  ot_TransactionRID :: string

text \<open>Metadata values are kept as the text \<open>fmt.Sprint\<close> gives.\<close>

record Node =
  nd_ID :: string
  nd_JobID :: uuid
  nd_DependsOn :: "string list"
  nd_Outputs :: "OutputTransaction list"
  nd_MaxAttempts :: int
  nd_StaleSkipped :: bool
  nd_Metadata :: "(string, string) gomap"

record NodeResult =
  nr_OutputContentHash :: string
  nr_Metadata :: "(string, string) gomap"

definition zero_result :: NodeResult where
  "zero_result = \<lparr>nr_OutputContentHash = [], nr_Metadata = []\<rparr>"

text \<open>A state is empty in events that are not transitions.\<close>

record AuditEvent =
  ae_BuildID :: uuid
  ae_JobID :: uuid
  ae_NodeID :: string
  ae_From :: string
  ae_To :: string
  ae_Attempt :: nat
  ae_Reason :: string
  ae_DatasetRID :: string

text \<open>
  What the executor does to its collaborators. A commit has a result; \<open>AbortCalled\<close> is the call of \<open>Abort\<close>, whose
  error the executor drops (in \<open>abortOutputs\<close>) or only quotes (in the rollback of \<open>commitAllOutputs\<close>).
\<close>

datatype effect =
    Record AuditEvent
  | Committed OutputTransaction
  | CommitFailed OutputTransaction
  | AbortCalled OutputTransaction

record nodeRunResult =
  rr_nodeID :: string
  rr_state :: NodeState
  rr_attempts :: nat
  rr_reason :: string
  rr_result :: NodeResult

section \<open>Driving a node\<close>

definition transition_event :: "uuid \<Rightarrow> Node \<Rightarrow> NodeState \<Rightarrow> NodeState \<Rightarrow> nat \<Rightarrow> string \<Rightarrow> effect" where
  "transition_event bid node from to attempt reason =
     Record \<lparr>ae_BuildID = bid, ae_JobID = nd_JobID node, ae_NodeID = nd_ID node,
       ae_From = node_state_string from, ae_To = node_state_string to, ae_Attempt = attempt, ae_Reason = reason,
       ae_DatasetRID = []\<rparr>"

definition note_event :: "uuid \<Rightarrow> Node \<Rightarrow> nat \<Rightarrow> string \<Rightarrow> string \<Rightarrow> effect" where
  "note_event bid node attempt reason dataset =
     Record \<lparr>ae_BuildID = bid, ae_JobID = nd_JobID node, ae_NodeID = nd_ID node, ae_From = [], ae_To = [],
       ae_Attempt = attempt, ae_Reason = reason, ae_DatasetRID = dataset\<rparr>"

definition abortOutputs :: "uuid \<Rightarrow> Node \<Rightarrow> string \<Rightarrow> effect list" where
  "abortOutputs bid node reason =
     concat (map (\<lambda>out. [AbortCalled out, note_event bid node 0 (''output aborted: '' @ reason) (ot_DatasetRID out)]) (nd_Outputs node))"

definition joinStrings :: "string list \<Rightarrow> string \<Rightarrow> string" where
  "joinStrings items sep = (case items of [] \<Rightarrow> [] | x # xs \<Rightarrow> fold (\<lambda>item acc. acc @ sep @ item) xs x)"

text \<open>
  The commit loop stops at the first error. The arguments: the answers of the committer, the outputs
  left with the index of the first, the datasets committed so far.
\<close>

fun commit_loop ::
  "uuid \<Rightarrow> Node \<Rightarrow> (nat \<Rightarrow> string option) \<Rightarrow> nat \<Rightarrow> OutputTransaction list \<Rightarrow> string list \<Rightarrow>
   string option \<times> string list \<times> effect list" where
  "commit_loop bid node commit k [] committed = (None, committed, [])"
| "commit_loop bid node commit k (out # outs) committed =
     (case commit k of
        Some e \<Rightarrow> (Some (ot_DatasetRID out @ '': '' @ e), committed, [CommitFailed out])
      | None \<Rightarrow>
        (case commit_loop bid node commit (Suc k) outs (ot_DatasetRID out # committed) of
           (r, committed', tr) \<Rightarrow>
             (r, committed', Committed out # note_event bid node 0 ''output committed'' (ot_DatasetRID out) # tr)))"

fun rollback_loop ::
  "uuid \<Rightarrow> Node \<Rightarrow> (nat \<Rightarrow> string option) \<Rightarrow> nat \<Rightarrow> OutputTransaction list \<Rightarrow> string list \<Rightarrow> string list \<times> effect list" where
  "rollback_loop bid node abort k [] committed = ([], [])"
| "rollback_loop bid node abort k (out # outs) committed =
     (let reason = (if ot_DatasetRID out \<in> set committed then ''output rolled back'' else ''output aborted'');
          (errs, tr) = rollback_loop bid node abort (Suc k) outs committed
      in ((case abort k of Some e \<Rightarrow> [ot_DatasetRID out @ '': '' @ e] | None \<Rightarrow> []) @ errs,
          AbortCalled out # note_event bid node 0 reason (ot_DatasetRID out) # tr))"

definition commitAllOutputs ::
  "uuid \<Rightarrow> Node \<Rightarrow> (nat \<Rightarrow> string option) \<Rightarrow> (nat \<Rightarrow> string option) \<Rightarrow> string option \<times> effect list" where
  "commitAllOutputs bid node commit abort =
     (case commit_loop bid node commit 0 (nd_Outputs node) [] of
        (None, _, tr) \<Rightarrow> (None, tr)
      | (Some commitError, committed, tr) \<Rightarrow>
        (case rollback_loop bid node abort 0 (nd_Outputs node) committed of
           (rollbackErrors, tr') \<Rightarrow>
             (Some (if rollbackErrors \<noteq> []
                    then ''multi-output commit failed: '' @ joinStrings [commitError] ''; '' @ ''; rollback failed: '' @
                         joinStrings rollbackErrors ''; ''
                    else ''multi-output commit failed: '' @ joinStrings [commitError] ''; ''),
              tr @ tr')))"

text \<open>
  The answers during one run of \<open>driveNode\<close>: for every attempt whether the context is done at its
  start and when a retry is considered, what the runner returns, and how commits and aborts of the
  outputs end; and whether the context is done after the loop.
\<close>

record drive_env =
  dv_ctx :: "nat \<Rightarrow> string option"
  dv_run :: "nat \<Rightarrow> string + NodeResult"
  dv_ctx_retry :: "nat \<Rightarrow> bool"
  dv_commit :: "nat \<Rightarrow> string option"
  dv_abort :: "nat \<Rightarrow> string option"
  dv_ctx_end :: bool

definition run_result :: "Node \<Rightarrow> NodeState \<Rightarrow> nat \<Rightarrow> string \<Rightarrow> NodeResult \<Rightarrow> nodeRunResult" where
  "run_result node st attempts reason result =
     \<lparr>rr_nodeID = nd_ID node, rr_state = st, rr_attempts = attempts, rr_reason = reason, rr_result = result\<rparr>"

text \<open>The attempts from \<open>attempt\<close> on, with \<open>left\<close> of them left; \<open>Inr\<close> is the last error when all failed.\<close>

fun attempt_loop ::
  "uuid \<Rightarrow> Node \<Rightarrow> drive_env \<Rightarrow> nat \<Rightarrow> nat \<Rightarrow> string option \<Rightarrow> (nodeRunResult + string option) \<times> effect list" where
  "attempt_loop bid node env attempt 0 lastErr = (Inr lastErr, [])"
| "attempt_loop bid node env attempt (Suc left) lastErr =
     (case dv_ctx env attempt of
        Some err \<Rightarrow>
          (Inl (run_result node NodeAborted attempt err zero_result),
           abortOutputs bid node ''build cancelled'' @
           [transition_event bid node NodeRunning NodeAbortPending attempt ''build cancelled'',
            transition_event bid node NodeAbortPending NodeAborted attempt ''build cancelled''])
      | None \<Rightarrow>
        (case dv_run env attempt of
           Inr result \<Rightarrow>
             (case commitAllOutputs bid node (dv_commit env) (dv_abort env) of
                (Some err, tr) \<Rightarrow>
                  (Inl (run_result node NodeFailed attempt err zero_result),
                   tr @ [transition_event bid node NodeRunning NodeFailed attempt err])
              | (None, tr) \<Rightarrow>
                  (Inl (run_result node NodeCompleted attempt [] result),
                   tr @ [transition_event bid node NodeRunning NodeCompleted attempt ''all outputs committed'']))
         | Inl err \<Rightarrow>
             (case attempt_loop bid node env (Suc attempt) left (Some err) of
                (r, tr) \<Rightarrow>
                  (r, (if 0 < left \<and> \<not> dv_ctx_retry env attempt
                       then [note_event bid node attempt (''retry: '' @ err) []] else []) @ tr))))"

definition is_ws :: "char \<Rightarrow> bool" where
  "is_ws c \<longleftrightarrow> c \<in> {CHR '' '', CHR 0x09, CHR 0x0A, CHR 0x0B, CHR 0x0C, CHR 0x0D}"

definition metadataString :: "(string, string) gomap \<Rightarrow> string \<Rightarrow> string" where
  "metadataString metadata key = (case gm_get metadata key of None \<Rightarrow> []
     | Some v \<Rightarrow> rev (dropWhile is_ws (rev (dropWhile is_ws v))))"

definition max_attempts :: "int \<Rightarrow> int \<Rightarrow> nat" where
  "max_attempts own dflt =
     (let m = (if own < 1 then dflt else own) in nat (if m < 1 then 1 else m))"

definition driveNode :: "uuid \<Rightarrow> Node \<Rightarrow> int \<Rightarrow> drive_env \<Rightarrow> nodeRunResult \<times> effect list" where
  "driveNode bid node defaultMaxAttempts env =
     (if nd_StaleSkipped node then
        let reason = ''ignored because fresh'';
            signature = metadataString (nd_Metadata node) ''staleness_signature'';
            metadata = [(''ignored_reason'', reason)] @
              (if signature \<noteq> [] then [(''staleness_signature'', signature)] else [])
        in (run_result node NodeCompleted 0 reason (zero_result\<lparr>nr_Metadata := metadata\<rparr>),
            abortOutputs bid node reason @ [transition_event bid node NodeWaiting NodeCompleted 0 reason])
      else
        let start = [transition_event bid node NodeWaiting NodeRunPending 0 ''dispatching'',
                     transition_event bid node NodeRunPending NodeRunning 0 ''running''];
            maxAttempts = max_attempts (nd_MaxAttempts node) defaultMaxAttempts
        in (case attempt_loop bid node env 1 maxAttempts None of
              (Inl r, tr) \<Rightarrow> (r, start @ tr)
            | (Inr lastErr, tr) \<Rightarrow>
              let reason = (case lastErr of Some e \<Rightarrow> e | None \<Rightarrow> ''job failed'')
              in if dv_ctx_end env
                 then (run_result node NodeAborted maxAttempts ''build cancelled'' zero_result,
                       start @ tr @ abortOutputs bid node ''build cancelled'' @
                       [transition_event bid node NodeRunning NodeAbortPending maxAttempts ''build cancelled'',
                        transition_event bid node NodeAbortPending NodeAborted maxAttempts ''build cancelled''])
                 else (run_result node NodeFailed maxAttempts reason zero_result,
                       start @ tr @ abortOutputs bid node reason @
                       [transition_event bid node NodeRunning NodeFailed maxAttempts reason])))"

section \<open>Reading a trace\<close>

text \<open>The recorded transitions, as pairs of job states.\<close>

definition moves :: "effect list \<Rightarrow> (JobState \<times> JobState) list" where
  "moves tr = concat (map (\<lambda>e. case e of
      Record a \<Rightarrow> (case (ParseJobState (ae_From a), ParseJobState (ae_To a)) of (Inr s, Inr t) \<Rightarrow> [(s, t)] | _ \<Rightarrow> [])
    | _ \<Rightarrow> []) tr)"

fun job_state_of :: "NodeState \<Rightarrow> JobState" where
  "job_state_of NodeWaiting = JobWaiting"
| "job_state_of NodeRunPending = JobRunPending"
| "job_state_of NodeRunning = JobRunning"
| "job_state_of NodeAbortPending = JobAbortPending"
| "job_state_of NodeAborted = JobAborted"
| "job_state_of NodeFailed = JobFailed"
| "job_state_of NodeCompleted = JobCompleted"

text \<open>What became of an output: the last call on its transaction.\<close>

definition tx_calls :: "effect list \<Rightarrow> effect list" where
  "tx_calls tr = filter (\<lambda>e. case e of Record _ \<Rightarrow> False | _ \<Rightarrow> True) tr"

lemma moves_simps [simp]:
  "moves [] = []" "moves (a @ b) = moves a @ moves b"
  "moves (Committed x # tr) = moves tr" "moves (CommitFailed x # tr) = moves tr" "moves (AbortCalled x # tr) = moves tr"
  by (simp_all add: moves_def)

lemma parse_node_state: "ParseJobState (node_state_string s) = Inr (job_state_of s)"
  by (cases s) (simp_all add: ParseJobState_def AllJobStates_def)

lemma moves_transition [simp]:
  "moves (transition_event b n s t k r # tr) = (job_state_of s, job_state_of t) # moves tr"
  by (simp add: moves_def transition_event_def parse_node_state)

lemma parse_empty: "\<exists>e. ParseJobState [] = Inl e"
  by (simp add: ParseJobState_def AllJobStates_def)

lemma moves_note [simp]: "moves (note_event b n k r d # tr) = moves tr"
  using parse_empty by (auto simp: moves_def note_event_def)

lemma tx_calls_simps [simp]:
  "tx_calls [] = []" "tx_calls (a @ b) = tx_calls a @ tx_calls b"
  "tx_calls (Committed x # tr) = Committed x # tx_calls tr" "tx_calls (CommitFailed x # tr) = CommitFailed x # tx_calls tr"
  "tx_calls (AbortCalled x # tr) = AbortCalled x # tx_calls tr" "tx_calls (Record ev # tr) = tx_calls tr"
  by (simp_all add: tx_calls_def)

lemma tx_calls_events [simp]:
  "tx_calls (transition_event b n s t k r # tr) = tx_calls tr" "tx_calls (note_event b n k r' d # tr) = tx_calls tr"
  by (simp_all add: transition_event_def note_event_def)

lemma abortOutputs_trace [simp]:
  "moves (abortOutputs b n r) = []" "tx_calls (abortOutputs b n r) = map AbortCalled (nd_Outputs n)"
proof -
  have "moves (concat (map (\<lambda>out. [AbortCalled out, note_event b n 0 (''output aborted: '' @ r) (ot_DatasetRID out)]) outs)) = [] \<and>
      tx_calls (concat (map (\<lambda>out. [AbortCalled out, note_event b n 0 (''output aborted: '' @ r) (ot_DatasetRID out)]) outs)) = map AbortCalled outs" for outs
    by (induction outs) simp_all
  then show "moves (abortOutputs b n r) = []" "tx_calls (abortOutputs b n r) = map AbortCalled (nd_Outputs n)"
    by (simp_all add: abortOutputs_def)
qed

lemma commit_loop_trace:
  assumes "commit_loop b n commit k outs committed = (r, committed', tr)"
  shows "moves tr = []" and "r = None \<Longrightarrow> tx_calls tr = map Committed outs"
    and "r = None \<longleftrightarrow> (\<forall>j < length outs. commit (k + j) = None)"
    and "r \<noteq> None \<Longrightarrow> \<exists>j < length outs. tx_calls tr = map Committed (take j outs) @ [CommitFailed (outs ! j)]"
proof -
  have "moves tr = [] \<and> (r = None \<longrightarrow> tx_calls tr = map Committed outs) \<and>
      (r = None \<longleftrightarrow> (\<forall>j < length outs. commit (k + j) = None)) \<and>
      (r \<noteq> None \<longrightarrow> (\<exists>j < length outs. tx_calls tr = map Committed (take j outs) @ [CommitFailed (outs ! j)]))"
    using assms
  proof (induction outs arbitrary: k committed r committed' tr)
    case (Cons out outs)
    show ?case
    proof (cases "commit k")
      case (Some e)
      with Cons.prems show ?thesis by (auto intro!: exI [of _ 0])
    next
      case None
      obtain r' c' tr' where ih: "commit_loop b n commit (Suc k) outs (ot_DatasetRID out # committed) = (r', c', tr')"
        by (metis prod_cases3)
      with None Cons.prems have r: "r = r'" "tr = Committed out # note_event b n 0 ''output committed'' (ot_DatasetRID out) # tr'"
        by auto
      have all: "(\<forall>j < length (out # outs). commit (k + j) = None) \<longleftrightarrow> (\<forall>j < length outs. commit (Suc k + j) = None)"
        using None by (auto simp: less_Suc_eq_0_disj)
      note IH = Cons.IH [OF ih]
      have "\<exists>j < length (out # outs). tx_calls tr = map Committed (take j (out # outs)) @ [CommitFailed ((out # outs) ! j)]"
        if some: "r \<noteq> None"
      proof -
        obtain j where "j < length outs" "tx_calls tr' = map Committed (take j outs) @ [CommitFailed (outs ! j)]"
          using IH some r(1) by blast
        then show ?thesis using r(2) by (intro exI [of _ "Suc j"]) simp
      qed
      with IH r show ?thesis unfolding all by simp
    qed
  qed simp
  then show "moves tr = []" and "r = None \<Longrightarrow> tx_calls tr = map Committed outs"
    and "r = None \<longleftrightarrow> (\<forall>j < length outs. commit (k + j) = None)"
    and "r \<noteq> None \<Longrightarrow> \<exists>j < length outs. tx_calls tr = map Committed (take j outs) @ [CommitFailed (outs ! j)]"
    by blast+
qed

lemma rollback_loop_trace:
  "rollback_loop b n abort k outs committed = (errs, tr) \<Longrightarrow> moves tr = [] \<and> tx_calls tr = map AbortCalled outs"
  by (induction outs arbitrary: k errs tr) (auto simp: Let_def split: prod.splits)

lemma commitAllOutputs_None:
  assumes "commitAllOutputs b n commit abort = (None, tr)"
  shows "moves tr = [] \<and> tx_calls tr = map Committed (nd_Outputs n) \<and> (\<forall>j < length (nd_Outputs n). commit j = None)"
  using assms commit_loop_trace [of b n commit 0 "nd_Outputs n" "[]"]
  unfolding commitAllOutputs_def by (auto split: option.splits prod.splits)

lemma commitAllOutputs_Some:
  assumes "commitAllOutputs b n commit abort = (Some e, tr)"
  shows "moves tr = [] \<and> (\<exists>tr1. tx_calls tr = tr1 @ map AbortCalled (nd_Outputs n)) \<and> (\<exists>j < length (nd_Outputs n). commit j \<noteq> None)"
proof -
  obtain ce c tr1 errs tr2 where t: "commit_loop b n commit 0 (nd_Outputs n) [] = (Some ce, c, tr1)"
    "rollback_loop b n abort 0 (nd_Outputs n) c = (errs, tr2)" "tr = tr1 @ tr2"
    using assms unfolding commitAllOutputs_def by (auto split: option.splits prod.splits)
  from commit_loop_trace [OF t(1)] rollback_loop_trace [OF t(2)] t(3) show ?thesis by auto
qed

text \<open>A run that completes had every commit answered without error.\<close>

lemma attempt_loop_commits:
  "attempt_loop b node env k left lerr = (Inl r, tr) \<Longrightarrow> rr_state r = NodeCompleted \<Longrightarrow> j < length (nd_Outputs node) \<Longrightarrow> dv_commit env j = None"
proof (induction left arbitrary: k lerr tr)
  case (Suc left)
  obtain ce tr1 where c: "commitAllOutputs b node (dv_commit env) (dv_abort env) = (ce, tr1)" by fastforce
  from Suc.prems show ?case
    using commitAllOutputs_None [of b node "dv_commit env" "dv_abort env" tr1] c Suc.IH
    by (auto simp: run_result_def split: option.splits sum.splits prod.splits)
qed simp

lemma driveNode_commits:
  assumes "\<not> nd_StaleSkipped node" "driveNode bid node dflt env = (r, tr)" "rr_state r = NodeCompleted" "j < length (nd_Outputs node)"
  shows "dv_commit env j = None"
  using assms attempt_loop_commits [of bid node env 1 "max_attempts (nd_MaxAttempts node) dflt" None]
  by (auto simp: driveNode_def Let_def run_result_def split: sum.splits prod.splits if_splits)

text \<open>What a node's run ends with: its moves after the start, its transaction calls, its state.\<close>

definition drive_ok :: "Node \<Rightarrow> NodeState \<Rightarrow> effect list \<Rightarrow> bool" where
  "drive_ok node st tr \<longleftrightarrow> trail_ok IsValidTransition JobRunning (moves tr) (job_state_of st) \<and> terminal st \<and>
     (if st = NodeCompleted then tx_calls tr = map Committed (nd_Outputs node)
      else \<exists>pre. tx_calls tr = pre @ map AbortCalled (nd_Outputs node))"

lemma attempt_loop_Inl:
  assumes "attempt_loop b node env k left lerr = (Inl r, tr)"
  shows "drive_ok node (rr_state r) tr \<and> rr_nodeID r = nd_ID node \<and> k \<le> rr_attempts r \<and> rr_attempts r < k + left"
  using assms
proof (induction left arbitrary: k lerr tr)
  case (Suc left)
  show ?case
  proof (cases "dv_ctx env k")
    case (Some e)
    with Suc.prems show ?thesis
      by (auto simp: run_result_def drive_ok_def terminal_def IsValidTransition_def)
  next
    case None
    show ?thesis
    proof (cases "dv_run env k")
      case (Inr result)
      obtain ce tr1 where c: "commitAllOutputs b node (dv_commit env) (dv_abort env) = (ce, tr1)" by fastforce
      then show ?thesis
      proof (cases ce)
        case (Some e)
        with commitAllOutputs_Some c have "moves tr1 = []" "\<exists>pre. tx_calls tr1 = pre @ map AbortCalled (nd_Outputs node)" by blast+
        with Suc.prems None Inr c Some show ?thesis
          by (auto simp: run_result_def drive_ok_def terminal_def IsValidTransition_def)
      next
        case ok: None
        with commitAllOutputs_None c have "moves tr1 = []" "tx_calls tr1 = map Committed (nd_Outputs node)" by blast+
        with Suc.prems None Inr c ok show ?thesis
          by (auto simp: run_result_def drive_ok_def terminal_def IsValidTransition_def)
      qed
    next
      case (Inl e)
      obtain r' tr' where ih: "attempt_loop b node env (Suc k) left (Some e) = (r', tr')" by fastforce
      with Suc.prems None Inl have "r' = Inl r"
        "tr = (if 0 < left \<and> \<not> dv_ctx_retry env k then [note_event b node k (''retry: '' @ e) []] else []) @ tr'" by auto
      with Suc.IH [of "Suc k" "Some e" tr'] ih show ?thesis by (auto simp: drive_ok_def)
    qed
  qed
qed simp

lemma attempt_loop_Inr:
  assumes "attempt_loop b node env k left lerr = (Inr e, tr)"
  shows "moves tr = [] \<and> tx_calls tr = []"
  using assms
proof (induction left arbitrary: k lerr tr)
  case (Suc left)
  obtain r' tr' where ih: "attempt_loop b node env (Suc k) left (Some (projl (dv_run env k))) = (r', tr')" by fastforce
  show ?case
    using Suc.prems Suc.IH [of "Suc k" _ tr'] ih
    by (auto split: option.splits sum.splits prod.splits if_splits)
qed simp

lemma driveNode_trace:
  assumes "\<not> nd_StaleSkipped node" "driveNode bid node dflt env = (r, tr)"
  shows "trail_ok IsValidTransition JobWaiting (moves tr) (job_state_of (rr_state r)) \<and> terminal (rr_state r) \<and>
    rr_nodeID r = nd_ID node \<and> 1 \<le> rr_attempts r \<and> rr_attempts r \<le> max_attempts (nd_MaxAttempts node) dflt \<and>
    (if rr_state r = NodeCompleted then tx_calls tr = map Committed (nd_Outputs node)
     else \<exists>pre. tx_calls tr = pre @ map AbortCalled (nd_Outputs node))"
proof -
  let ?m = "max_attempts (nd_MaxAttempts node) dflt"
  have pos: "1 \<le> ?m" by (auto simp: max_attempts_def Let_def)
  obtain x tr1 where a: "attempt_loop bid node env 1 ?m None = (x, tr1)" by fastforce
  show ?thesis
  proof (cases x)
    case (Inl r1)
    with assms a have r: "r = r1" "moves tr = [(JobWaiting, JobRunPending), (JobRunPending, JobRunning)] @ moves tr1"
      "tx_calls tr = tx_calls tr1"
      by (auto simp: driveNode_def Let_def)
    from attempt_loop_Inl [of bid node env 1 ?m None r1 tr1] a Inl pos show ?thesis
      unfolding r drive_ok_def by (auto simp: IsValidTransition_def)
  next
    case (Inr e)
    with attempt_loop_Inr [of bid node env 1 ?m None e tr1] a have t: "moves tr1 = []" "tx_calls tr1 = []" by auto
    show ?thesis
      using assms a Inr t pos
      by (cases "dv_ctx_end env")
        (auto simp: driveNode_def Let_def run_result_def terminal_def IsValidTransition_def intro: exI [of _ "[]"])
  qed
qed

lemma driveNode_state: "rr_nodeID (fst (driveNode bid node dflt env)) = nd_ID node" "terminal (rr_state (fst (driveNode bid node dflt env)))"
proof -
  obtain r tr where d: "driveNode bid node dflt env = (r, tr)" by fastforce
  show "rr_nodeID (fst (driveNode bid node dflt env)) = nd_ID node" "terminal (rr_state (fst (driveNode bid node dflt env)))"
    using driveNode_trace [OF _ d] d
    by (cases "nd_StaleSkipped node"; auto simp: driveNode_def Let_def run_result_def terminal_def)+
qed

section \<open>Properties\<close>

text \<open>
  C23. However the runner, the committer and the transaction manager answer and whenever the context is
  cancelled, a node that is not skipped as fresh goes through the lifecycle diagram from WAITING to the
  terminal state it reports, within its number of attempts. If it reports COMPLETED, its transaction calls are
  one successful commit of each output, in order, and no call of \<open>Abort\<close>; otherwise they end with a call of \<open>Abort\<close>
  on every output, also on those that had been committed (what \<open>Abort\<close> answers does not change the result).
\<close>

theorem driveNode_outputs:
  assumes "\<not> nd_StaleSkipped node" "driveNode bid node dflt env = (r, tr)"
  shows "trail_ok IsValidTransition JobWaiting (moves tr) (job_state_of (rr_state r)) \<and> terminal (rr_state r) \<and>
    rr_nodeID r = nd_ID node \<and> 1 \<le> rr_attempts r \<and> rr_attempts r \<le> max_attempts (nd_MaxAttempts node) dflt \<and>
    (if rr_state r = NodeCompleted then tx_calls tr = map Committed (nd_Outputs node)
     else \<exists>pre. tx_calls tr = pre @ map AbortCalled (nd_Outputs node))"
  using assms by (rule driveNode_trace)

definition node_1 :: Node where
  "node_1 = \<lparr>nd_ID = ''a'', nd_JobID = 1, nd_DependsOn = [], nd_Outputs = [\<lparr>ot_DatasetRID = ''d1'', ot_TransactionRID = ''t1''\<rparr>,
     \<lparr>ot_DatasetRID = ''d2'', ot_TransactionRID = ''t2''\<rparr>], nd_MaxAttempts = 2, nd_StaleSkipped = False, nd_Metadata = []\<rparr>"

definition drive_env_1 :: drive_env where
  "drive_env_1 = \<lparr>dv_ctx = (\<lambda>_. None), dv_run = (\<lambda>k. if k = 1 then Inl ''flaky'' else Inr zero_result),
     dv_ctx_retry = (\<lambda>_. False), dv_commit = (\<lambda>k. if k = 1 then Some ''disk full'' else None), dv_abort = (\<lambda>_. None),
     dv_ctx_end = False\<rparr>"

theorem driveNode_outputs_witness:
  "\<exists>r tr pre. driveNode 9 node_1 1 drive_env_1 = (r, tr) \<and> rr_state r = NodeFailed \<and> rr_attempts r \<le> 2 \<and>
     trail_ok IsValidTransition JobWaiting (moves tr) JobFailed \<and> tx_calls tr = pre @ map AbortCalled (nd_Outputs node_1)"
proof -
  obtain r tr where d: "driveNode 9 node_1 1 drive_env_1 = (r, tr)" by fastforce
  moreover have "rr_state (fst (driveNode 9 node_1 1 drive_env_1)) = NodeFailed" by code_simp
  moreover have "max_attempts (nd_MaxAttempts node_1) 1 = 2" by (simp add: max_attempts_def node_1_def)
  ultimately show ?thesis using driveNode_outputs [OF _ d] by (auto simp: node_1_def)
qed

text \<open>
  A node that is skipped because its output is fresh is recorded with a transition from WAITING to
  COMPLETED, which the lifecycle diagram does not have; its outputs are aborted.
\<close>

theorem stale_skip_leaves_diagram:
  assumes "nd_StaleSkipped node" "driveNode bid node dflt env = (r, tr)"
  shows "rr_state r = NodeCompleted \<and> moves tr = [(JobWaiting, JobCompleted)] \<and> \<not> IsValidTransition JobWaiting JobCompleted \<and>
    tx_calls tr = map AbortCalled (nd_Outputs node)"
  using assms by (auto simp: driveNode_def Let_def run_result_def IsValidTransition_def)

theorem stale_skip_leaves_diagram_witness:
  "\<exists>r tr. driveNode 9 (node_1\<lparr>nd_StaleSkipped := True\<rparr>) 1 drive_env_1 = (r, tr) \<and> moves tr = [(JobWaiting, JobCompleted)]"
proof -
  obtain r tr where d: "driveNode 9 (node_1\<lparr>nd_StaleSkipped := True\<rparr>) 1 drive_env_1 = (r, tr)" by fastforce
  from stale_skip_leaves_diagram [OF _ d] d show ?thesis by auto
qed

end
