(* ===== verification/Executor.thy ===== *)
theory Executor
  imports Executor_Node
begin

text \<open>
  The scheduler of the DAG executor
  (\<open>services/pipeline-build-service/internal/domain/executor/executor.go\<close>): the construction of the
  execution graph, the ready set, the failure cascade and the main loop of \<open>Execute\<close>. Node runs happen
  in goroutines; an iteration of the loop receives the result of one run in flight, whichever the
  environment picks, so every order of arrival is covered. The trace lists the effects of a run at
  the point its result arrives. Go maps that only serve as sets are lists without repetitions.
\<close>

section \<open>The execution graph\<close>

datatype AbortPolicy = AbortDependentOnly | AbortAllNonDependent

record Plan =
  pl_BuildID :: uuid
  pl_AbortPolicy :: "AbortPolicy option"
  pl_Parallelism :: int
  pl_MaxAttempts :: int
  pl_Nodes :: "Node list"

datatype executor_error =
    EmptyNodeID
  | DuplicateNodeError string
  | MissingDependencyError string string
  | CycleDetectedError "string list"

record executionGraph =
  eg_nodes :: "Node list"
  eg_byID :: "(string, Node) gomap"
  eg_dependsOn :: "string adjacency"
  eg_dependents :: "string adjacency"

fun add_nodes :: "Node list \<Rightarrow> executionGraph \<Rightarrow> executor_error + executionGraph" where
  "add_nodes [] g = Inr g"
| "add_nodes (node # nodes) g =
     (if nd_ID node = [] then Inl EmptyNodeID
      else if gm_get (eg_byID g) (nd_ID node) \<noteq> None then Inl (DuplicateNodeError (nd_ID node))
      else
        let node' = node\<lparr>nd_DependsOn := sort (nd_DependsOn node)\<rparr>
        in add_nodes nodes (g\<lparr>eg_nodes := eg_nodes g @ [node'], eg_byID := gm_put (eg_byID g) (nd_ID node) node',
             eg_dependsOn := gm_put (eg_dependsOn g) (nd_ID node) (nd_DependsOn node')\<rparr>))"

fun link_deps :: "(string, Node) gomap \<Rightarrow> string \<Rightarrow> string list \<Rightarrow> string adjacency \<Rightarrow> executor_error + string adjacency" where
  "link_deps byID nid [] dependents = Inr dependents"
| "link_deps byID nid (dep # deps) dependents =
     (if gm_get byID dep = None then Inl (MissingDependencyError nid dep)
      else link_deps byID nid deps (add_edge dependents dep nid))"

fun link_nodes :: "(string, Node) gomap \<Rightarrow> Node list \<Rightarrow> string adjacency \<Rightarrow> executor_error + string adjacency" where
  "link_nodes byID [] dependents = Inr dependents"
| "link_nodes byID (node # nodes) dependents =
     bindE (link_deps byID (nd_ID node) (nd_DependsOn node) dependents) (link_nodes byID nodes)"

definition detectCycle :: "executionGraph \<Rightarrow> string list option" where
  "detectCycle g = (case dfs_cycle (eg_dependsOn g) [] [] (map nd_ID (eg_nodes g)) of Inl c \<Rightarrow> Some c | Inr _ \<Rightarrow> None)"

definition newExecutionGraph :: "Plan \<Rightarrow> executor_error + executionGraph" where
  "newExecutionGraph plan =
     bindE (add_nodes (pl_Nodes plan) \<lparr>eg_nodes = [], eg_byID = [], eg_dependsOn = [], eg_dependents = []\<rparr>) (\<lambda>g.
       let g1 = g\<lparr>eg_nodes := sort_key nd_ID (eg_nodes g)\<rparr>
       in bindE (link_nodes (eg_byID g1) (eg_nodes g1) []) (\<lambda>dependents.
          let g2 = g1\<lparr>eg_dependents := map (\<lambda>(i, ds). (i, sort ds)) dependents\<rparr>
          in case detectCycle g2 of Some cycle \<Rightarrow> Inl (CycleDetectedError cycle) | None \<Rightarrow> Inr g2))"

section \<open>The state of a build\<close>

record exec_state =
  xs_state :: "(string, NodeState) gomap"
  xs_attempts :: "(string, nat) gomap"
  xs_remaining :: "string list"
  xs_completed :: "string list"
  xs_failed :: "string list"
  xs_aborted :: "string list"
  xs_reasons :: "(string, string) gomap"
  xs_inFlight :: "string list"
  xs_collected :: "nodeRunResult list"
  xs_trace :: "effect list"

definition add_to :: "'a \<Rightarrow> 'a list \<Rightarrow> 'a list" where
  "add_to x xs = (if x \<in> set xs then xs else xs @ [x])"

definition node_of :: "executionGraph \<Rightarrow> string \<Rightarrow> Node" where
  "node_of g i = (case gm_get (eg_byID g) i of Some n \<Rightarrow> n | None \<Rightarrow>
     \<lparr>nd_ID = [], nd_JobID = 0, nd_DependsOn = [], nd_Outputs = [], nd_MaxAttempts = 0, nd_StaleSkipped = False, nd_Metadata = []\<rparr>)"

text \<open>Every node has an entry in the state map from the start.\<close>

definition state_of :: "exec_state \<Rightarrow> string \<Rightarrow> NodeState" where
  "state_of s i = (case gm_get (xs_state s) i of Some st \<Rightarrow> st | None \<Rightarrow> NodeWaiting)"

definition abortNode :: "uuid \<Rightarrow> Node \<Rightarrow> string \<Rightarrow> exec_state \<Rightarrow> exec_state" where
  "abortNode bid node reason s =
     (let from = state_of s (nd_ID node)
      in if terminal from then s
         else s\<lparr>xs_trace := xs_trace s @
                  (if from = NodeWaiting
                   then [transition_event bid node NodeWaiting NodeAborted 0 reason]
                   else [transition_event bid node from NodeAbortPending 0 reason,
                         transition_event bid node NodeAbortPending NodeAborted 0 reason]) @
                  abortOutputs bid node reason,
                xs_state := gm_put (xs_state s) (nd_ID node) NodeAborted,
                xs_aborted := add_to (nd_ID node) (xs_aborted s)\<rparr>)"

text \<open>\<open>abortNode\<close> followed by \<open>delete(remaining, id)\<close>, for each id of a list.\<close>

fun abort_ids :: "uuid \<Rightarrow> executionGraph \<Rightarrow> string \<Rightarrow> string list \<Rightarrow> exec_state \<Rightarrow> exec_state" where
  "abort_ids bid g reason [] s = s"
| "abort_ids bid g reason (i # ids) s =
     (let s1 = abortNode bid (node_of g i) reason s
      in abort_ids bid g reason ids (s1\<lparr>xs_remaining := removeAll i (xs_remaining s1)\<rparr>))"

definition abort_remaining :: "uuid \<Rightarrow> executionGraph \<Rightarrow> string \<Rightarrow> string list \<Rightarrow> exec_state \<Rightarrow> exec_state" where
  "abort_remaining bid g reason ids s = abort_ids bid g reason (filter (\<lambda>i. i \<in> set (xs_remaining s)) ids) s"

record cascadePlan =
  cp_dependents :: "string list"
  cp_independents :: "string list"

definition computeCascade :: "executionGraph \<Rightarrow> string \<Rightarrow> AbortPolicy \<Rightarrow> string list \<Rightarrow> cascadePlan" where
  "computeCascade g failed policy completed =
     (let dependents = sort (cascade_search (eg_dependents g) [failed] [])
      in \<lparr>cp_dependents = dependents,
          cp_independents = (if policy = AbortAllNonDependent
            then filter (\<lambda>i. i \<noteq> failed \<and> i \<notin> set dependents \<and> i \<notin> set completed) (map nd_ID (eg_nodes g)) else [])\<rparr>)"

definition readyNodes :: "string list \<Rightarrow> string list \<Rightarrow> executionGraph \<Rightarrow> string list" where
  "readyNodes remaining completed g =
     sort (filter (\<lambda>i. \<forall>dep \<in> set (succs (eg_dependsOn g) i). dep \<in> set completed) remaining)"

section \<open>The main loop\<close>

text \<open>
  What an iteration meets: whether the context is done at its top, after how many launches it is seen
  to be done, which run in flight delivers its result, and the environment of that run.
\<close>

record iter_env =
  it_cancelled :: bool
  it_cancel_after :: "nat option"
  it_pick :: nat
  it_drive :: "string \<Rightarrow> drive_env"

record exec_config =
  ec_build :: uuid
  ec_parallelism :: nat
  ec_maxAttempts :: int
  ec_policy :: AbortPolicy

definition config_of :: "Plan \<Rightarrow> exec_config" where
  "config_of plan = \<lparr>ec_build = pl_BuildID plan,
     ec_parallelism = nat (if pl_Parallelism plan < 1 then 4 else pl_Parallelism plan),
     ec_maxAttempts = (if pl_MaxAttempts plan < 1 then 1 else pl_MaxAttempts plan),
     ec_policy = (case pl_AbortPolicy plan of None \<Rightarrow> AbortDependentOnly | Some p \<Rightarrow> p)\<rparr>"

definition init_state :: "executionGraph \<Rightarrow> exec_state" where
  "init_state g = \<lparr>xs_state = map (\<lambda>n. (nd_ID n, NodeWaiting)) (eg_nodes g), xs_attempts = [],
     xs_remaining = map nd_ID (eg_nodes g), xs_completed = [], xs_failed = [], xs_aborted = [], xs_reasons = [],
     xs_inFlight = [], xs_collected = [], xs_trace = []\<rparr>"

fun mark_pending :: "string list \<Rightarrow> (string, NodeState) gomap \<Rightarrow> (string, NodeState) gomap" where
  "mark_pending [] m = m"
| "mark_pending (i # ids) m = mark_pending ids (gm_put m i NodeAbortPending)"

definition cancel_build :: "exec_config \<Rightarrow> executionGraph \<Rightarrow> exec_state \<Rightarrow> exec_state" where
  "cancel_build cfg g s =
     (let s1 = abort_ids (ec_build cfg) g ''build cancelled'' (xs_remaining s) s
      in s1\<lparr>xs_state := mark_pending (xs_inFlight s1) (xs_state s1)\<rparr>)"

definition launch :: "string \<Rightarrow> exec_state \<Rightarrow> exec_state" where
  "launch i s = s\<lparr>xs_remaining := removeAll i (xs_remaining s), xs_inFlight := add_to i (xs_inFlight s)\<rparr>"

text \<open>The launch loop; the number counts the checks of the context made so far.\<close>

fun launch_ready :: "exec_config \<Rightarrow> nat option \<Rightarrow> nat \<Rightarrow> string list \<Rightarrow> exec_state \<Rightarrow> exec_state" where
  "launch_ready cfg cancel k [] s = s"
| "launch_ready cfg cancel k (i # ids) s =
     (if (case cancel of Some c \<Rightarrow> c \<le> k | None \<Rightarrow> False) \<or> ec_parallelism cfg \<le> length (xs_inFlight s) then s
      else launch_ready cfg cancel (Suc k) ids (launch i s))"

definition settle :: "exec_config \<Rightarrow> executionGraph \<Rightarrow> nodeRunResult \<Rightarrow> exec_state \<Rightarrow> exec_state" where
  "settle cfg g result s =
     (let i = rr_nodeID result;
          s1 = s\<lparr>xs_collected := xs_collected s @ [result],
                 xs_inFlight := removeAll i (xs_inFlight s),
                 xs_attempts := gm_put (xs_attempts s) i (rr_attempts result),
                 xs_reasons := (if rr_reason result \<noteq> [] then gm_put (xs_reasons s) i (rr_reason result) else xs_reasons s),
                 xs_state := gm_put (xs_state s) i (rr_state result)\<rparr>
      in case rr_state result of
           NodeCompleted \<Rightarrow> s1\<lparr>xs_completed := add_to i (xs_completed s1)\<rparr>
         | NodeFailed \<Rightarrow>
           let s2 = s1\<lparr>xs_failed := add_to i (xs_failed s1)\<rparr>;
               cascade = computeCascade g i (ec_policy cfg) (xs_completed s2);
               s3 = abort_remaining (ec_build cfg) g ''dependency failed'' (cp_dependents cascade) s2
           in abort_remaining (ec_build cfg) g ''abort_policy=ALL_NON_DEPENDENT triggered by upstream failure''
                (cp_independents cascade) s3
         | NodeAborted \<Rightarrow> s1\<lparr>xs_aborted := add_to i (xs_aborted s1)\<rparr>
         | _ \<Rightarrow> s1)"

definition receive :: "exec_config \<Rightarrow> executionGraph \<Rightarrow> iter_env \<Rightarrow> exec_state \<Rightarrow> exec_state" where
  "receive cfg g env s =
     (let i = xs_inFlight s ! (it_pick env mod length (xs_inFlight s));
          (result, tr) = driveNode (ec_build cfg) (node_of g i) (ec_maxAttempts cfg) (it_drive env i)
      in settle cfg g result (s\<lparr>xs_trace := xs_trace s @ tr\<rparr>))"

text \<open>The launching half of an iteration, and one iteration; the flag says whether the loop goes on.\<close>

definition exec_launch :: "exec_config \<Rightarrow> executionGraph \<Rightarrow> iter_env \<Rightarrow> exec_state \<Rightarrow> exec_state" where
  "exec_launch cfg g env s =
     (let s0 = (if it_cancelled env then cancel_build cfg g s else s)
      in launch_ready cfg (if it_cancelled env then Some 0 else it_cancel_after env) 0
           (readyNodes (xs_remaining s0) (xs_completed s0) g) s0)"

definition exec_iter :: "exec_config \<Rightarrow> executionGraph \<Rightarrow> iter_env \<Rightarrow> exec_state \<Rightarrow> exec_state \<times> bool" where
  "exec_iter cfg g env s =
     (let s0 = (if it_cancelled env then cancel_build cfg g s else s);
          ready = readyNodes (xs_remaining s0) (xs_completed s0) g
      in if ready = [] \<and> xs_inFlight s0 = []
         then (abort_ids (ec_build cfg) g ''dependency failed'' (sort (xs_remaining s0)) s0, False)
         else
           let s1 = exec_launch cfg g env s
           in if xs_inFlight s1 = [] then (s1, True) else (receive cfg g env s1, True))"

fun exec_loop :: "exec_config \<Rightarrow> executionGraph \<Rightarrow> (nat \<Rightarrow> iter_env) \<Rightarrow> nat \<Rightarrow> nat \<Rightarrow> exec_state \<Rightarrow> exec_state option" where
  "exec_loop cfg g envs 0 k s = None"
| "exec_loop cfg g envs (Suc fuel) k s =
     (if xs_remaining s = [] \<and> xs_inFlight s = [] then Some s
      else case exec_iter cfg g (envs k) s of
        (s', True) \<Rightarrow> exec_loop cfg g envs fuel (Suc k) s'
      | (s', False) \<Rightarrow> Some s')"

section \<open>The outcome\<close>

datatype BuildState = BuildResolution | BuildQueued | BuildRunning | BuildAborting | BuildFailed | BuildAborted | BuildCompleted

fun build_state_string :: "BuildState \<Rightarrow> string" where
  "build_state_string BuildResolution = ''BUILD_RESOLUTION''"
| "build_state_string BuildQueued = ''BUILD_QUEUED''"
| "build_state_string BuildRunning = ''BUILD_RUNNING''"
| "build_state_string BuildAborting = ''BUILD_ABORTING''"
| "build_state_string BuildFailed = ''BUILD_FAILED''"
| "build_state_string BuildAborted = ''BUILD_ABORTED''"
| "build_state_string BuildCompleted = ''BUILD_COMPLETED''"

record Outcome =
  oc_FinalState :: BuildState
  oc_Completed :: nat
  oc_Ignored :: nat
  oc_Failed :: nat
  oc_Aborted :: nat
  oc_Attempts :: "(string, nat) gomap"
  oc_Nodes :: "(string, NodeState) gomap"
  oc_Reasons :: "(string, string) gomap"
  oc_Results :: "(string, NodeResult) gomap"

definition outcome_of :: "executionGraph \<Rightarrow> exec_state \<Rightarrow> Outcome" where
  "outcome_of g s =
     (let states = map snd (xs_state s);
          failed = length (filter (\<lambda>st. st = NodeFailed) states);
          aborted = length (filter (\<lambda>st. st = NodeAborted \<or> st = NodeAbortPending) states);
          done_ids = map fst (filter (\<lambda>(i, st). st = NodeCompleted) (xs_state s));
          ignored = length (filter (\<lambda>i. nd_StaleSkipped (node_of g i)) done_ids)
      in \<lparr>oc_FinalState = (if failed > 0 then BuildFailed else if aborted > 0 then BuildAborted else BuildCompleted),
          oc_Completed = length done_ids - ignored, oc_Ignored = ignored, oc_Failed = failed, oc_Aborted = aborted,
          oc_Attempts = xs_attempts s, oc_Nodes = xs_state s, oc_Reasons = xs_reasons s,
          oc_Results = fold (\<lambda>r m. gm_put m (rr_nodeID r) (rr_result r)) (xs_collected s) []\<rparr>)"

text \<open>The audit record of the end of the build names no job (\<open>uuid.Nil\<close>) and no node.\<close>

definition terminal_event :: "uuid \<Rightarrow> BuildState \<Rightarrow> effect" where
  "terminal_event bid final =
     Record \<lparr>ae_BuildID = bid, ae_JobID = 0, ae_NodeID = [], ae_From = [], ae_To = build_state_string final, ae_Attempt = 0,
       ae_Reason = ''build terminal'', ae_DatasetRID = []\<rparr>"

text \<open>
  \<open>Execute\<close> with a bound on the number of iterations: \<open>None\<close> means that the bound was reached. The
  result is the outcome with the effects of the build. The check for a missing runner and the no-op
  stand-ins for missing collaborators concern nil interfaces, which the environment does not have.
\<close>

definition Execute :: "nat \<Rightarrow> (nat \<Rightarrow> iter_env) \<Rightarrow> Plan \<Rightarrow> (executor_error + Outcome \<times> effect list) option" where
  "Execute fuel envs plan =
     (case newExecutionGraph plan of
        Inl e \<Rightarrow> Some (Inl e)
      | Inr g \<Rightarrow> map_option (\<lambda>s. let out = outcome_of g s
            in Inr (out, xs_trace s @ [terminal_event (pl_BuildID plan) (oc_FinalState out)]))
          (exec_loop (config_of plan) g envs fuel 0 (init_state g)))"

end
