(* ===== verification/Executor_Safety.thy ===== *)
theory Executor_Safety
  imports Executor
begin

text \<open>
  Correctness of the scheduler: the graph construction, the invariant of the main loop for every
  order in which results arrive and every moment of cancellation, termination, and what the outcome
  says of the nodes.
\<close>

section \<open>The graph\<close>

abbreviation ids_of :: "executionGraph \<Rightarrow> string list" where
  "ids_of g \<equiv> map nd_ID (eg_nodes g)"

abbreviation deps :: "executionGraph \<Rightarrow> string \<Rightarrow> string set" where
  "deps g i \<equiv> set (succs (eg_dependsOn g) i)"

definition graph_ok :: "executionGraph \<Rightarrow> bool" where
  "graph_ok g \<longleftrightarrow> distinct (ids_of g) \<and>
     (\<forall>n \<in> set (eg_nodes g). gm_get (eg_byID g) (nd_ID n) = Some n \<and> succs (eg_dependsOn g) (nd_ID n) = nd_DependsOn n) \<and>
     set (gm_keys (eg_dependsOn g)) = set (ids_of g) \<and> (\<forall>i. deps g i \<subseteq> set (ids_of g)) \<and>
     edges (eg_dependents g) = (edges (eg_dependsOn g))\<inverse> \<and> acyclic (edges (eg_dependsOn g))"

definition pre_ok :: "executionGraph \<Rightarrow> bool" where
  "pre_ok g \<longleftrightarrow> distinct (ids_of g) \<and> set (gm_keys (eg_byID g)) = set (ids_of g) \<and> set (gm_keys (eg_dependsOn g)) = set (ids_of g) \<and>
     (\<forall>n \<in> set (eg_nodes g). gm_get (eg_byID g) (nd_ID n) = Some n \<and> succs (eg_dependsOn g) (nd_ID n) = nd_DependsOn n)"

definition sorted_node :: "Node \<Rightarrow> Node" where
  "sorted_node n = n\<lparr>nd_DependsOn := sort (nd_DependsOn n)\<rparr>"

lemma add_nodes_ok:
  assumes "add_nodes nodes g = Inr g'" "pre_ok g"
  shows "pre_ok g' \<and> eg_nodes g' = eg_nodes g @ map sorted_node nodes"
  using assms
proof (induction nodes arbitrary: g)
  case (Cons n nodes)
  let ?n = "sorted_node n"
  let ?g = "g\<lparr>eg_nodes := eg_nodes g @ [?n], eg_byID := gm_put (eg_byID g) (nd_ID n) ?n,
             eg_dependsOn := gm_put (eg_dependsOn g) (nd_ID n) (nd_DependsOn ?n)\<rparr>"
  have new: "gm_get (eg_byID g) (nd_ID n) = None" and rec: "add_nodes nodes ?g = Inr g'"
    using Cons.prems(1) by (auto simp: Let_def sorted_node_def split: if_splits)
  then have "nd_ID n \<notin> set (ids_of g)" using Cons.prems(2) by (metis gm_get_None_iff pre_ok_def)
  then have "pre_ok ?g"
    using Cons.prems(2) by (auto simp: pre_ok_def sorted_node_def succs_def image_iff)
  from Cons.IH [OF rec this] show ?case by simp
qed simp

lemma link_deps_ok:
  assumes "link_deps byID nid ds dependents = Inr d'"
  shows "set ds \<subseteq> set (gm_keys byID) \<and> (\<forall>x. set (succs d' x) = set (succs dependents x) \<union> (if x \<in> set ds then {nid} else {}))"
  using assms
proof (induction ds arbitrary: dependents)
  case (Cons d ds)
  then have "d \<in> set (gm_keys byID)" and rec: "link_deps byID nid ds (add_edge dependents d nid) = Inr d'"
    by (auto simp: gm_keys_get split: if_splits)
  with Cons.IH [OF rec] show ?case by auto
qed simp

lemma link_nodes_ok:
  assumes "link_nodes byID nodes dependents = Inr d'"
  shows "(\<forall>n \<in> set nodes. set (nd_DependsOn n) \<subseteq> set (gm_keys byID)) \<and>
    (\<forall>x. set (succs d' x) = set (succs dependents x) \<union> nd_ID ` {n \<in> set nodes. x \<in> set (nd_DependsOn n)})"
  using assms
proof (induction nodes arbitrary: dependents)
  case (Cons n nodes)
  then obtain d1 where d: "link_deps byID (nd_ID n) (nd_DependsOn n) dependents = Inr d1" "link_nodes byID nodes d1 = Inr d'"
    by (auto simp: bindE_Inr_iff)
  from link_deps_ok [OF d(1)] Cons.IH [OF d(2)] show ?case by auto
qed simp

lemma succs_map_sort: "set (succs (map (\<lambda>(i, ds). (i, sort ds)) m) x) = set (succs m x)"
proof -
  have "gm_get (map (\<lambda>(i, ds). (i, sort ds)) m) x = map_option sort (gm_get m x)"
    by (simp add: gm_get_def map_of_map)
  then show ?thesis by (cases "gm_get m x") (simp_all add: succs_def)
qed

lemma newExecutionGraph_ok:
  assumes "newExecutionGraph plan = Inr g"
  shows "graph_ok g \<and> set (eg_nodes g) = sorted_node ` set (pl_Nodes plan)"
proof -
  let ?g0 = "\<lparr>eg_nodes = [], eg_byID = [], eg_dependsOn = [], eg_dependents = []\<rparr>"
  obtain g1 dependents where g1: "add_nodes (pl_Nodes plan) ?g0 = Inr g1"
    and link: "link_nodes (eg_byID g1) (sort_key nd_ID (eg_nodes g1)) [] = Inr dependents"
    and g: "g = g1\<lparr>eg_nodes := sort_key nd_ID (eg_nodes g1), eg_dependents := map (\<lambda>(i, ds). (i, sort ds)) dependents\<rparr>"
    and cyc: "detectCycle g = None"
    using assms unfolding newExecutionGraph_def
    by (auto simp: bindE_Inr_iff Let_def split: option.splits)
  have pre: "pre_ok g1" "eg_nodes g1 = map sorted_node (pl_Nodes plan)"
  proof -
    have "pre_ok ?g0" by (simp add: pre_ok_def)
    from add_nodes_ok [OF g1 this] show "pre_ok g1" "eg_nodes g1 = map sorted_node (pl_Nodes plan)" by simp_all
  qed
  have same: "set (eg_nodes g) = set (eg_nodes g1)" "eg_byID g = eg_byID g1" "eg_dependsOn g = eg_dependsOn g1"
    by (simp_all add: g)
  have dist: "distinct (ids_of g)"
    using pre(1) by (simp add: g pre_ok_def distinct_map)
  have nodes: "\<forall>n \<in> set (eg_nodes g). gm_get (eg_byID g) (nd_ID n) = Some n \<and> succs (eg_dependsOn g) (nd_ID n) = nd_DependsOn n"
    and keys: "set (gm_keys (eg_dependsOn g)) = set (ids_of g)" "set (gm_keys (eg_byID g)) = set (ids_of g)"
    using pre(1) same by (simp_all add: pre_ok_def)
  note L = link_nodes_ok [OF link]
  have sub: "deps g i \<subseteq> set (ids_of g)" for i
  proof (cases "i \<in> set (ids_of g)")
    case True
    then obtain n where "n \<in> set (eg_nodes g)" "i = nd_ID n" by auto
    then show ?thesis using nodes L keys(2) same by (auto simp: g)
  next
    case False
    then show ?thesis using keys(1) by (simp add: succs_no_key)
  qed
  have "(x, y) \<in> edges (eg_dependents g) \<longleftrightarrow> (y, x) \<in> edges (eg_dependsOn g)" for x y
  proof -
    have "(x, y) \<in> edges (eg_dependents g) \<longleftrightarrow> (\<exists>n \<in> set (eg_nodes g). y = nd_ID n \<and> x \<in> set (nd_DependsOn n))"
      using L by (auto simp: g succs_map_sort)
    also have "\<dots> \<longleftrightarrow> (\<exists>n \<in> set (eg_nodes g). y = nd_ID n \<and> x \<in> deps g y)" using nodes by auto
    also have "\<dots> \<longleftrightarrow> x \<in> deps g y"
      using keys(1) succs_no_key [of y "eg_dependsOn g"] by force
    finally show ?thesis by simp
  qed
  then have conv: "edges (eg_dependents g) = (edges (eg_dependsOn g))\<inverse>" by auto
  obtain visited where "dfs_cycle (eg_dependsOn g) [] [] (ids_of g) = Inr visited"
    using cyc by (auto simp: detectCycle_def split: sum.splits)
  then have "acyclic (edges (eg_dependsOn g))" by (rule dfs_cycle_acyclic) (simp add: keys)
  then show ?thesis using dist nodes keys(1) sub conv pre(2) same by (simp add: graph_ok_def)
qed

section \<open>The invariant of the main loop\<close>

definition descendants :: "executionGraph \<Rightarrow> string set \<Rightarrow> string set" where
  "descendants g X = (edges (eg_dependents g))\<^sup>+ `` X"

definition states_ok :: "exec_state \<Rightarrow> bool" where
  "states_ok s \<longleftrightarrow> gm_ok (xs_state s) \<and>
     (\<forall>i \<in> set (xs_remaining s). state_of s i = NodeWaiting) \<and>
     (\<forall>i \<in> set (xs_inFlight s). state_of s i = NodeWaiting \<or> state_of s i = NodeAbortPending) \<and>
     (\<forall>i \<in> set (xs_completed s). state_of s i = NodeCompleted) \<and>
     (\<forall>i \<in> set (xs_failed s). state_of s i = NodeFailed) \<and>
     (\<forall>i \<in> set (xs_aborted s). state_of s i = NodeAborted)"

definition sched_base :: "exec_config \<Rightarrow> executionGraph \<Rightarrow> exec_state \<Rightarrow> bool" where
  "sched_base cfg g s \<longleftrightarrow> distinct (xs_remaining s) \<and> distinct (xs_inFlight s) \<and>
     set (xs_remaining s) \<inter> set (xs_inFlight s) = {} \<and>
     set (xs_remaining s) \<union> set (xs_inFlight s) \<union> set (xs_completed s) \<union> set (xs_failed s) \<union> set (xs_aborted s) = set (ids_of g) \<and>
     set (gm_keys (xs_state s)) = set (ids_of g) \<and> states_ok s \<and>
     length (xs_inFlight s) \<le> ec_parallelism cfg \<and>
     (\<forall>i \<in> set (xs_inFlight s) \<union> set (xs_completed s) \<union> set (xs_failed s). deps g i \<subseteq> set (xs_completed s))"

text \<open>Between iterations, no node that depends on a failed one is left to run.\<close>

definition sched_inv :: "exec_config \<Rightarrow> executionGraph \<Rightarrow> exec_state \<Rightarrow> bool" where
  "sched_inv cfg g s \<longleftrightarrow> sched_base cfg g s \<and> set (xs_remaining s) \<inter> descendants g (set (xs_failed s)) = {}"

lemma set_add_to [simp]: "set (add_to x xs) = insert x (set xs)"
  by (auto simp: add_to_def)

lemma node_of_id: "graph_ok g \<Longrightarrow> i \<in> set (ids_of g) \<Longrightarrow> nd_ID (node_of g i) = i"
  by (auto simp: graph_ok_def node_of_def)

lemma state_of_put [simp]:
  "state_of (s\<lparr>xs_state := gm_put m i st\<rparr>) j = (if j = i then st else (case gm_get m j of Some x \<Rightarrow> x | None \<Rightarrow> NodeWaiting))"
  by (simp add: state_of_def)

lemma state_of_cong: "xs_state s = xs_state t \<Longrightarrow> state_of s = state_of t"
  by (simp add: state_of_def fun_eq_iff)

lemma init_inv: "graph_ok g \<Longrightarrow> sched_inv cfg g (init_state g)"
proof -
  assume ok: "graph_ok g"
  have "map_of (map (\<lambda>n. (nd_ID n, NodeWaiting)) ns) i = (if i \<in> nd_ID ` set ns then Some NodeWaiting else None)" for ns i
    by (induction ns) auto
  note states = this [of "eg_nodes g"]
  have "state_of (init_state g) i = NodeWaiting" for i
    using states [of i] by (simp add: state_of_def init_state_def gm_get_def split: option.splits)
  with ok show ?thesis
    by (simp add: sched_inv_def sched_base_def states_ok_def init_state_def graph_ok_def gm_ok_def gm_keys_def comp_def descendants_def)
qed

text \<open>Aborting a waiting node moves it from the remaining to the aborted ones.\<close>

definition abort_one :: "uuid \<Rightarrow> executionGraph \<Rightarrow> string \<Rightarrow> string \<Rightarrow> exec_state \<Rightarrow> exec_state" where
  "abort_one bid g reason i s =
     (let s1 = abortNode bid (node_of g i) reason s in s1\<lparr>xs_remaining := removeAll i (xs_remaining s1)\<rparr>)"

lemma abort_one_eq:
  assumes "graph_ok g" "sched_base cfg g s" "i \<in> set (xs_remaining s)"
  obtains tr where "abort_one bid g reason i s = s\<lparr>xs_trace := xs_trace s @ tr, xs_state := gm_put (xs_state s) i NodeAborted,
     xs_aborted := add_to i (xs_aborted s), xs_remaining := removeAll i (xs_remaining s)\<rparr>"
proof -
  have "i \<in> set (ids_of g)" using assms(2,3) by (auto simp: sched_base_def)
  moreover have "state_of s i = NodeWaiting" using assms(2,3) by (simp add: sched_base_def states_ok_def)
  ultimately show thesis
    using node_of_id [OF assms(1)] that
    by (simp add: abort_one_def abortNode_def Let_def terminal_def)
qed

lemma abort_one_inv:
  fixes bid :: uuid and reason :: string
  assumes ok: "graph_ok g" and inv: "sched_base cfg g s" and i: "i \<in> set (xs_remaining s)"
  defines "t \<equiv> abort_one bid g reason i s"
  shows "sched_base cfg g t" "set (xs_remaining t) = set (xs_remaining s) - {i}" "set (xs_aborted t) = insert i (set (xs_aborted s))"
    "xs_inFlight t = xs_inFlight s" "xs_completed t = xs_completed s" "xs_failed t = xs_failed s"
proof -
  obtain tr where t: "t = s\<lparr>xs_trace := xs_trace s @ tr, xs_state := gm_put (xs_state s) i NodeAborted,
     xs_aborted := add_to i (xs_aborted s), xs_remaining := removeAll i (xs_remaining s)\<rparr>"
    using abort_one_eq [OF ok inv i] unfolding t_def by blast
  show "set (xs_remaining t) = set (xs_remaining s) - {i}" "set (xs_aborted t) = insert i (set (xs_aborted s))"
    "xs_inFlight t = xs_inFlight s" "xs_completed t = xs_completed s" "xs_failed t = xs_failed s"
    by (simp_all add: t)
  have st: "state_of t j = (if j = i then NodeAborted else state_of s j)" for j
    by (simp add: t state_of_def)
  have w: "state_of s i = NodeWaiting" "i \<notin> set (xs_inFlight s)" "i \<in> set (ids_of g)"
    using inv i by (auto simp: sched_base_def states_ok_def)
  then have "i \<notin> set (xs_completed s)" "i \<notin> set (xs_failed s)"
    using inv by (auto simp: sched_base_def states_ok_def)
  then have "states_ok t"
    using inv w unfolding states_ok_def st by (auto simp: t sched_base_def states_ok_def)
  then show "sched_base cfg g t"
    using inv w i unfolding sched_base_def by (auto simp: t distinct_removeAll)
qed

lemma abort_ids_inv:
  fixes bid :: uuid and reason :: string
  assumes "graph_ok g" "sched_base cfg g s" "set ids \<subseteq> set (xs_remaining s)" "distinct ids"
  defines "t \<equiv> abort_ids bid g reason ids s"
  shows "sched_base cfg g t \<and> set (xs_remaining t) = set (xs_remaining s) - set ids \<and>
    set (xs_aborted t) = set (xs_aborted s) \<union> set ids \<and> xs_inFlight t = xs_inFlight s \<and>
    xs_completed t = xs_completed s \<and> xs_failed t = xs_failed s"
  using assms(2-4) unfolding t_def
proof (induction ids arbitrary: s)
  case (Cons i ids)
  have i: "i \<in> set (xs_remaining s)" using Cons.prems(2) by simp
  note one = abort_one_inv [OF assms(1) Cons.prems(1) i, of bid reason]
  have "abort_ids bid g reason (i # ids) s = abort_ids bid g reason ids (abort_one bid g reason i s)"
    by (simp add: abort_one_def Let_def)
  moreover have "set ids \<subseteq> set (xs_remaining (abort_one bid g reason i s))" using Cons.prems(2,3) one(2) by auto
  ultimately show ?case using Cons.IH [OF one(1)] one(2-6) Cons.prems(3) by auto
qed simp

lemma abort_remaining_inv:
  fixes bid :: uuid and reason :: string
  assumes "graph_ok g" "sched_base cfg g s" "distinct ids"
  defines "t \<equiv> abort_remaining bid g reason ids s"
  shows "sched_base cfg g t \<and> set (xs_remaining t) = set (xs_remaining s) - set ids \<and>
    set (xs_aborted t) = set (xs_aborted s) \<union> (set ids \<inter> set (xs_remaining s)) \<and> xs_inFlight t = xs_inFlight s \<and>
    xs_completed t = xs_completed s \<and> xs_failed t = xs_failed s"
  using abort_ids_inv [OF assms(1,2), of "filter (\<lambda>i. i \<in> set (xs_remaining s)) ids" bid reason] assms(3)
  by (auto simp: t_def abort_remaining_def)

lemma mark_pending_get:
  "gm_get (mark_pending ids m) i = (if i \<in> set ids then Some NodeAbortPending else gm_get m i)"
  by (induction ids arbitrary: m) auto

lemma mark_pending_ok: "gm_ok m \<Longrightarrow> gm_ok (mark_pending ids m)"
  by (induction ids arbitrary: m) auto

lemma mark_pending_keys: "set (gm_keys (mark_pending ids m)) = set (gm_keys m) \<union> set ids"
  by (induction ids arbitrary: m) auto

lemma cancel_build_inv:
  assumes "graph_ok g" "sched_inv cfg g s"
  defines "t \<equiv> cancel_build cfg g s"
  shows "sched_inv cfg g t \<and> xs_remaining t = [] \<and> set (xs_aborted t) = set (xs_aborted s) \<union> set (xs_remaining s) \<and>
    xs_inFlight t = xs_inFlight s \<and> xs_completed t = xs_completed s \<and> xs_failed t = xs_failed s"
proof -
  let ?s1 = "abort_ids (ec_build cfg) g ''build cancelled'' (xs_remaining s) s"
  have base: "sched_base cfg g s" using assms(2) by (simp add: sched_inv_def)
  have s1: "sched_base cfg g ?s1" "set (xs_remaining ?s1) = {}" "set (xs_aborted ?s1) = set (xs_aborted s) \<union> set (xs_remaining s)"
    "xs_inFlight ?s1 = xs_inFlight s" "xs_completed ?s1 = xs_completed s" "xs_failed ?s1 = xs_failed s"
    using abort_ids_inv [OF assms(1) base, of "xs_remaining s" "ec_build cfg" "''build cancelled''"] base
    by (auto simp: sched_base_def)
  have t: "t = ?s1\<lparr>xs_state := mark_pending (xs_inFlight s) (xs_state ?s1)\<rparr>"
    using s1(4) by (simp add: t_def cancel_build_def Let_def)
  have st: "state_of t i = (if i \<in> set (xs_inFlight s) then NodeAbortPending else state_of ?s1 i)" for i
    by (simp add: t state_of_def mark_pending_get)
  have dis: "i \<notin> set (xs_inFlight s)" if "i \<in> set (xs_completed ?s1) \<union> set (xs_failed ?s1) \<union> set (xs_aborted ?s1)" for i
    using s1(1,4) that by (fastforce simp: sched_base_def states_ok_def)
  have "states_ok t"
    using s1(1,2) dis unfolding states_ok_def st by (auto simp: t sched_base_def states_ok_def mark_pending_ok)
  then have "sched_inv cfg g t"
    using s1(1,2,4) unfolding sched_inv_def sched_base_def by (auto simp: t mark_pending_keys)
  then show ?thesis using s1 by (simp add: t)
qed

subsection \<open>Launching\<close>

lemma launch_inv:
  assumes "sched_inv cfg g s" "i \<in> set (xs_remaining s)" "deps g i \<subseteq> set (xs_completed s)"
    "length (xs_inFlight s) < ec_parallelism cfg"
  shows "sched_inv cfg g (launch i s)" "length (xs_inFlight (launch i s)) = Suc (length (xs_inFlight s))"
    "length (xs_remaining (launch i s)) + 1 = length (xs_remaining s)"
proof -
  have i: "i \<notin> set (xs_inFlight s)" "distinct (xs_remaining s)" using assms(1,2) by (auto simp: sched_inv_def sched_base_def)
  show len: "length (xs_inFlight (launch i s)) = Suc (length (xs_inFlight s))" using i by (simp add: launch_def add_to_def)
  show "length (xs_remaining (launch i s)) + 1 = length (xs_remaining s)"
    using i(2) assms(2) length_pos_if_in_set [OF assms(2)]
    by (simp add: launch_def distinct_remove1_removeAll [symmetric] length_remove1)
  have "states_ok (launch i s)"
    using assms(1,2) by (auto simp: sched_inv_def sched_base_def states_ok_def launch_def state_of_def)
  then show "sched_inv cfg g (launch i s)"
    using assms i(1) unfolding sched_inv_def sched_base_def by (auto simp: launch_def distinct_removeAll add_to_def)
qed

definition weight :: "exec_state \<Rightarrow> nat" where
  "weight s = 2 * length (xs_remaining s) + length (xs_inFlight s)"

lemma launch_ready_inv:
  assumes "sched_inv cfg g s" "set ids \<subseteq> set (xs_remaining s)" "distinct ids" "\<forall>i \<in> set ids. deps g i \<subseteq> set (xs_completed s)"
  defines "t \<equiv> \<lambda>cancel k. launch_ready cfg cancel k ids s"
  shows "sched_inv cfg g (t cancel k) \<and> weight (t cancel k) \<le> weight s \<and> set (xs_aborted (t cancel k)) = set (xs_aborted s) \<and>
    set (xs_failed (t cancel k)) = set (xs_failed s) \<and> set (xs_inFlight s) \<subseteq> set (xs_inFlight (t cancel k))"
  using assms(1-4) unfolding t_def
proof (induction ids arbitrary: s k)
  case (Cons i ids)
  show ?case
  proof (cases "(case cancel of Some c \<Rightarrow> c \<le> k | None \<Rightarrow> False) \<or> ec_parallelism cfg \<le> length (xs_inFlight s)")
    case True
    then show ?thesis using Cons.prems by simp
  next
    case False
    then have l: "sched_inv cfg g (launch i s)" "length (xs_inFlight (launch i s)) = Suc (length (xs_inFlight s))"
      "length (xs_remaining (launch i s)) + 1 = length (xs_remaining s)"
      using launch_inv [of cfg g s i] Cons.prems by auto
    have "set ids \<subseteq> set (xs_remaining (launch i s))" "\<forall>j \<in> set ids. deps g j \<subseteq> set (xs_completed (launch i s))"
      using Cons.prems by (auto simp: launch_def)
    from Cons.IH [OF l(1) this(1) _ this(2), of "Suc k"] Cons.prems(3) False l(2,3)
    show ?thesis by (auto simp: weight_def launch_def)
  qed
qed simp

text \<open>If something is ready and the context is not seen to be done, something is in flight afterwards.\<close>

lemma launch_ready_progress:
  assumes "sched_inv cfg g s" "set (i # ids) \<subseteq> set (xs_remaining s)" "distinct (i # ids)"
    "\<forall>j \<in> set (i # ids). deps g j \<subseteq> set (xs_completed s)" "xs_inFlight s = []" "0 < ec_parallelism cfg" "cancel \<noteq> Some 0"
  shows "xs_inFlight (launch_ready cfg cancel 0 (i # ids) s) \<noteq> []"
proof -
  have "launch_ready cfg cancel 0 (i # ids) s = launch_ready cfg cancel 1 ids (launch i s)"
    using assms(5-7) by (auto split: option.splits)
  moreover have "sched_inv cfg g (launch i s)" using launch_inv [of cfg g s i] assms by simp
  moreover have "set ids \<subseteq> set (xs_remaining (launch i s))" "\<forall>j \<in> set ids. deps g j \<subseteq> set (xs_completed (launch i s))"
    using assms(2-4) by (auto simp: launch_def)
  ultimately have "set (xs_inFlight (launch i s)) \<subseteq> set (xs_inFlight (launch_ready cfg cancel 0 (i # ids) s))"
    using launch_ready_inv [of cfg g "launch i s" ids cancel 1] assms(3) by simp
  then show ?thesis by (auto simp: launch_def)
qed

lemma readyNodes_facts:
  "sched_inv cfg g s \<Longrightarrow> set (readyNodes (xs_remaining s) (xs_completed s) g) \<subseteq> set (xs_remaining s) \<and>
   distinct (readyNodes (xs_remaining s) (xs_completed s) g) \<and>
   (\<forall>i \<in> set (readyNodes (xs_remaining s) (xs_completed s) g). deps g i \<subseteq> set (xs_completed s))"
  by (auto simp: readyNodes_def sched_inv_def sched_base_def)

subsection \<open>Settling a result\<close>

lemma descendants_mono: "X \<subseteq> Y \<Longrightarrow> descendants g X \<subseteq> descendants g Y"
  by (auto simp: descendants_def)

lemma cascade_dependents:
  "set (cp_dependents (computeCascade g i policy c)) = descendants g {i}" "distinct (cp_dependents (computeCascade g i policy c))"
  by (simp_all add: computeCascade_def Let_def cascade_descendants descendants_def cascade_distinct del: cascade_search.simps)

lemma cascade_independents:
  "graph_ok g \<Longrightarrow> distinct (cp_independents (computeCascade g i policy c))"
  "policy = AbortDependentOnly \<Longrightarrow> cp_independents (computeCascade g i policy c) = []"
  by (simp_all add: computeCascade_def Let_def graph_ok_def)

text \<open>The bookkeeping common to all results: the node leaves the set of runs in flight.\<close>

definition note_result :: "nodeRunResult \<Rightarrow> exec_state \<Rightarrow> exec_state" where
  "note_result result s =
     (let i = rr_nodeID result
      in s\<lparr>xs_collected := xs_collected s @ [result], xs_inFlight := removeAll i (xs_inFlight s),
           xs_attempts := gm_put (xs_attempts s) i (rr_attempts result),
           xs_reasons := (if rr_reason result \<noteq> [] then gm_put (xs_reasons s) i (rr_reason result) else xs_reasons s),
           xs_state := gm_put (xs_state s) i (rr_state result)\<rparr>)"

definition add_class :: "string \<Rightarrow> NodeState \<Rightarrow> exec_state \<Rightarrow> exec_state" where
  "add_class i st s = (case st of
      NodeCompleted \<Rightarrow> s\<lparr>xs_completed := add_to i (xs_completed s)\<rparr>
    | NodeFailed \<Rightarrow> s\<lparr>xs_failed := add_to i (xs_failed s)\<rparr>
    | NodeAborted \<Rightarrow> s\<lparr>xs_aborted := add_to i (xs_aborted s)\<rparr> | _ \<Rightarrow> s)"

lemma settle_eq:
  "settle cfg g result s =
     (let s1 = add_class (rr_nodeID result) (rr_state result) (note_result result s)
      in if rr_state result = NodeFailed
         then (let cascade = computeCascade g (rr_nodeID result) (ec_policy cfg) (xs_completed s1)
               in abort_remaining (ec_build cfg) g ''abort_policy=ALL_NON_DEPENDENT triggered by upstream failure''
                    (cp_independents cascade)
                    (abort_remaining (ec_build cfg) g ''dependency failed'' (cp_dependents cascade) s1))
         else s1)"
  by (cases "rr_state result") (simp_all add: settle_def note_result_def add_class_def Let_def)

lemma note_result_base:
  assumes base: "sched_base cfg g s" and i: "rr_nodeID result \<in> set (xs_inFlight s)" and st: "terminal (rr_state result)"
  defines "t \<equiv> add_class (rr_nodeID result) (rr_state result) (note_result result s)"
  shows "sched_base cfg g t" "xs_remaining t = xs_remaining s" "length (xs_inFlight t) + 1 = length (xs_inFlight s)"
    "set (xs_failed t) = set (xs_failed s) \<union> (if rr_state result = NodeFailed then {rr_nodeID result} else {})"
    "set (xs_aborted t) = set (xs_aborted s) \<union> (if rr_state result = NodeAborted then {rr_nodeID result} else {})"
    "set (xs_completed t) = set (xs_completed s) \<union> (if rr_state result = NodeCompleted then {rr_nodeID result} else {})"
proof -
  let ?i = "rr_nodeID result"
  have cls: "xs_remaining t = xs_remaining s" "xs_inFlight t = removeAll ?i (xs_inFlight s)"
    "xs_state t = gm_put (xs_state s) ?i (rr_state result)"
    "set (xs_failed t) = set (xs_failed s) \<union> (if rr_state result = NodeFailed then {?i} else {})"
    "set (xs_aborted t) = set (xs_aborted s) \<union> (if rr_state result = NodeAborted then {?i} else {})"
    "set (xs_completed t) = set (xs_completed s) \<union> (if rr_state result = NodeCompleted then {?i} else {})"
    unfolding t_def by (cases "rr_state result"; simp add: add_class_def note_result_def Let_def)+
  then show "xs_remaining t = xs_remaining s"
    "set (xs_failed t) = set (xs_failed s) \<union> (if rr_state result = NodeFailed then {?i} else {})"
    "set (xs_aborted t) = set (xs_aborted s) \<union> (if rr_state result = NodeAborted then {?i} else {})"
    "set (xs_completed t) = set (xs_completed s) \<union> (if rr_state result = NodeCompleted then {?i} else {})" by simp_all
  have d: "distinct (xs_inFlight s)" using base by (simp add: sched_base_def)
  then show len: "length (xs_inFlight t) + 1 = length (xs_inFlight s)"
    using i length_pos_if_in_set [OF i] by (simp add: cls(2) distinct_remove1_removeAll [symmetric] length_remove1)
  have sof: "state_of t j = (if j = ?i then rr_state result else state_of s j)" for j
    by (simp add: state_of_def cls(3))
  have ids: "?i \<in> set (ids_of g)" "?i \<notin> set (xs_remaining s)" using base i by (auto simp: sched_base_def)
  have "state_of s ?i = NodeWaiting \<or> state_of s ?i = NodeAbortPending" using base i by (simp add: sched_base_def states_ok_def)
  then have out: "?i \<notin> set (xs_completed s)" "?i \<notin> set (xs_failed s)" "?i \<notin> set (xs_aborted s)"
    using base by (auto simp: sched_base_def states_ok_def)
  have a1: "states_ok t"
    using base ids out unfolding states_ok_def sof cls
    by (auto simp: sched_base_def states_ok_def split: if_splits)
  have a2: "set (xs_remaining t) \<union> set (xs_inFlight t) \<union> set (xs_completed t) \<union> set (xs_failed t) \<union> set (xs_aborted t) = set (ids_of g)"
    using base ids st unfolding cls sched_base_def terminal_def by auto
  have a3: "\<forall>j \<in> set (xs_inFlight t) \<union> set (xs_completed t) \<union> set (xs_failed t). deps g j \<subseteq> set (xs_completed t)"
    using base i unfolding cls sched_base_def by (auto split: if_splits)
  have a4: "distinct (xs_remaining t)" "distinct (xs_inFlight t)" "set (xs_remaining t) \<inter> set (xs_inFlight t) = {}"
    using base unfolding cls sched_base_def by (auto simp: distinct_removeAll)
  have a5: "set (gm_keys (xs_state t)) = set (ids_of g)"
    using base ids(1) unfolding cls sched_base_def by (simp add: insert_absorb)
  have a6: "length (xs_inFlight t) \<le> ec_parallelism cfg" using base len by (simp add: sched_base_def)
  show "sched_base cfg g t"
    unfolding sched_base_def by (intro conjI a1 a2 a3 a4 a5 a6)
qed

lemma settle_inv:
  assumes ok: "graph_ok g" and inv: "sched_inv cfg g s" and i: "rr_nodeID result \<in> set (xs_inFlight s)" and st: "terminal (rr_state result)"
  defines "t \<equiv> settle cfg g result s"
  shows "sched_inv cfg g t" "weight t < weight s"
    "set (xs_failed t) = set (xs_failed s) \<union> (if rr_state result = NodeFailed then {rr_nodeID result} else {})"
    "ec_policy cfg = AbortDependentOnly \<or> rr_state result \<noteq> NodeFailed \<Longrightarrow> rr_state result \<noteq> NodeAborted \<Longrightarrow>
     set (xs_aborted t) \<subseteq> set (xs_aborted s) \<union> descendants g (set (xs_failed t))"
proof -
  let ?i = "rr_nodeID result"
  define u where "u = add_class ?i (rr_state result) (note_result result s)"
  have base: "sched_base cfg g s" using inv by (simp add: sched_inv_def)
  note u = note_result_base [OF base i st, folded u_def]
  have all: "sched_inv cfg g t \<and> weight t < weight s \<and>
      set (xs_failed t) = set (xs_failed s) \<union> (if rr_state result = NodeFailed then {?i} else {}) \<and>
      (ec_policy cfg = AbortDependentOnly \<or> rr_state result \<noteq> NodeFailed \<longrightarrow> rr_state result \<noteq> NodeAborted \<longrightarrow>
       set (xs_aborted t) \<subseteq> set (xs_aborted s) \<union> descendants g (set (xs_failed t)))"
  proof (cases "rr_state result = NodeFailed")
    case False
    then have t: "t = u" by (simp add: t_def settle_eq u_def)
    have "weight t < weight s" using u(2,3) by (simp add: t weight_def)
    moreover have "sched_inv cfg g t" using inv u False by (simp add: t sched_inv_def)
    ultimately show ?thesis
      using u(4,5) False by (simp add: t)
  next
    case True
    define cascade where "cascade = computeCascade g ?i (ec_policy cfg) (xs_completed u)"
    define v where "v = abort_remaining (ec_build cfg) g ''dependency failed'' (cp_dependents cascade) u"
    have t: "t = abort_remaining (ec_build cfg) g ''abort_policy=ALL_NON_DEPENDENT triggered by upstream failure'' (cp_independents cascade) v"
      using True by (simp add: t_def settle_eq u_def cascade_def v_def Let_def)
    have v: "sched_base cfg g v" "set (xs_remaining v) = set (xs_remaining u) - descendants g {?i}"
      "set (xs_aborted v) = set (xs_aborted u) \<union> (descendants g {?i} \<inter> set (xs_remaining u))"
      "xs_inFlight v = xs_inFlight u" "xs_failed v = xs_failed u"
      using abort_remaining_inv [OF ok u(1) cascade_dependents(2), of "ec_build cfg" "''dependency failed''" g ?i "ec_policy cfg" "xs_completed u"]
        cascade_dependents(1) by (auto simp: v_def cascade_def)
    note w = abort_remaining_inv [OF ok v(1) cascade_independents(1) [OF ok], of "ec_build cfg"
        "''abort_policy=ALL_NON_DEPENDENT triggered by upstream failure''" ?i "ec_policy cfg" "xs_completed u", folded cascade_def, folded t]
    have desc: "descendants g (set (xs_failed s) \<union> {?i}) = descendants g (set (xs_failed s)) \<union> descendants g {?i}"
      by (auto simp: descendants_def)
    have "length (xs_remaining t) \<le> length (xs_remaining s)"
    proof -
      have "card (set (xs_remaining t)) \<le> card (set (xs_remaining s))"
        using w v(2) u(2) by (intro card_mono) auto
      moreover have "distinct (xs_remaining t)" "distinct (xs_remaining s)" using w base by (simp_all add: sched_base_def)
      ultimately show ?thesis by (simp only: distinct_card)
    qed
    then have "weight t < weight s" using w v(4) u(3) by (simp add: weight_def)
    moreover have "sched_inv cfg g t"
      using w v u True inv desc by (auto simp: sched_inv_def)
    moreover have "set (xs_aborted t) \<subseteq> set (xs_aborted s) \<union> descendants g (set (xs_failed t))" if "ec_policy cfg = AbortDependentOnly"
      using w v u True desc cascade_independents(2) [OF that] by (auto simp: cascade_def)
    ultimately show ?thesis
      using w v(5) u(4) True by simp
  qed
  then show "sched_inv cfg g t" "weight t < weight s"
    "set (xs_failed t) = set (xs_failed s) \<union> (if rr_state result = NodeFailed then {?i} else {})"
    "ec_policy cfg = AbortDependentOnly \<or> rr_state result \<noteq> NodeFailed \<Longrightarrow> rr_state result \<noteq> NodeAborted \<Longrightarrow>
     set (xs_aborted t) \<subseteq> set (xs_aborted s) \<union> descendants g (set (xs_failed t))"
    by blast+
qed

lemma receive_inv:
  fixes env :: iter_env
  assumes ok: "graph_ok g" and inv: "sched_inv cfg g s" and ne: "xs_inFlight s \<noteq> []"
  defines "t \<equiv> receive cfg g env s"
  shows "sched_inv cfg g t" "weight t < weight s"
    "ec_policy cfg = AbortDependentOnly \<or>
       (\<forall>i. rr_state (fst (driveNode (ec_build cfg) (node_of g i) (ec_maxAttempts cfg) (it_drive env i))) \<noteq> NodeFailed) \<Longrightarrow>
     \<forall>i. rr_state (fst (driveNode (ec_build cfg) (node_of g i) (ec_maxAttempts cfg) (it_drive env i))) \<noteq> NodeAborted \<Longrightarrow>
     set (xs_aborted s) \<subseteq> descendants g (set (xs_failed s)) \<Longrightarrow> set (xs_aborted t) \<subseteq> descendants g (set (xs_failed t))"
    "\<forall>i. rr_state (fst (driveNode (ec_build cfg) (node_of g i) (ec_maxAttempts cfg) (it_drive env i))) = NodeCompleted \<Longrightarrow>
     set (xs_failed t) = set (xs_failed s)"
proof -
  define i where "i = xs_inFlight s ! (it_pick env mod length (xs_inFlight s))"
  have i: "i \<in> set (xs_inFlight s)" using ne by (simp add: i_def)
  then have ids: "i \<in> set (ids_of g)" using inv by (auto simp: sched_inv_def sched_base_def)
  obtain r tr where d: "driveNode (ec_build cfg) (node_of g i) (ec_maxAttempts cfg) (it_drive env i) = (r, tr)" by fastforce
  have r: "rr_nodeID r = i" "terminal (rr_state r)"
    using driveNode_state [of "ec_build cfg" "node_of g i" "ec_maxAttempts cfg" "it_drive env i"] d node_of_id [OF ok ids] by simp_all
  let ?s = "s\<lparr>xs_trace := xs_trace s @ tr\<rparr>"
  have t: "t = settle cfg g r ?s" using d by (simp add: t_def receive_def Let_def flip: i_def)
  have inv': "sched_inv cfg g ?s" using inv by (simp add: sched_inv_def sched_base_def states_ok_def state_of_def)
  have "rr_nodeID r \<in> set (xs_inFlight ?s)" using r(1) i by simp
  note S = settle_inv [OF ok inv' this r(2), folded t]
  show "sched_inv cfg g t" "weight t < weight s" using S(1,2) by (simp_all add: weight_def)
  show "set (xs_aborted t) \<subseteq> descendants g (set (xs_failed t))"
    if "ec_policy cfg = AbortDependentOnly \<or>
       (\<forall>i. rr_state (fst (driveNode (ec_build cfg) (node_of g i) (ec_maxAttempts cfg) (it_drive env i))) \<noteq> NodeFailed)"
      "\<forall>i. rr_state (fst (driveNode (ec_build cfg) (node_of g i) (ec_maxAttempts cfg) (it_drive env i))) \<noteq> NodeAborted"
      "set (xs_aborted s) \<subseteq> descendants g (set (xs_failed s))"
  proof -
    have "rr_state r \<noteq> NodeAborted" "ec_policy cfg = AbortDependentOnly \<or> rr_state r \<noteq> NodeFailed"
      using that(1,2) d by (metis fst_conv)+
    moreover have "descendants g (set (xs_failed s)) \<subseteq> descendants g (set (xs_failed t))"
      using S(3) by (intro descendants_mono) auto
    ultimately show ?thesis using S(4) that(3) by auto
  qed
  show "set (xs_failed t) = set (xs_failed s)"
    if "\<forall>i. rr_state (fst (driveNode (ec_build cfg) (node_of g i) (ec_maxAttempts cfg) (it_drive env i))) = NodeCompleted"
  proof -
    have "rr_state r = NodeCompleted" using that d by (metis fst_conv)
    then show ?thesis using S(3) by simp
  qed
qed

section \<open>Iterations\<close>

lemma exec_iter_cases:
  assumes ok: "graph_ok g" and inv: "sched_inv cfg g s" and par: "0 < ec_parallelism cfg"
  obtains (stop) t where "exec_iter cfg g env s = (t, False)" "sched_inv cfg g t" "xs_remaining t = []" "xs_inFlight t = []"
  | (idle) t where "exec_iter cfg g env s = (t, True)" "sched_inv cfg g t" "xs_inFlight t = []" "weight t \<le> weight s"
      "it_cancel_after env = Some 0"
  | (move) t where "exec_iter cfg g env s = (t, True)" "sched_inv cfg g t" "weight t < weight s"
proof -
  define s0 where "s0 = (if it_cancelled env then cancel_build cfg g s else s)"
  have s0: "sched_inv cfg g s0" "weight s0 \<le> weight s"
    using cancel_build_inv [OF ok inv] inv by (auto simp: s0_def weight_def)
  define ready where "ready = readyNodes (xs_remaining s0) (xs_completed s0) g"
  define cancel where "cancel = (if it_cancelled env then Some 0 else it_cancel_after env)"
  define s1 where "s1 = launch_ready cfg cancel 0 ready s0"
  have it: "exec_iter cfg g env s =
      (if ready = [] \<and> xs_inFlight s0 = [] then (abort_ids (ec_build cfg) g ''dependency failed'' (sort (xs_remaining s0)) s0, False)
       else if xs_inFlight s1 = [] then (s1, True) else (receive cfg g env s1, True))"
    by (simp add: exec_iter_def exec_launch_def Let_def s0_def ready_def cancel_def s1_def)
  note rd = readyNodes_facts [OF s0(1), folded ready_def]
  have s1: "sched_inv cfg g s1" "weight s1 \<le> weight s0" "set (xs_inFlight s0) \<subseteq> set (xs_inFlight s1)"
    using launch_ready_inv [OF s0(1), of ready cancel 0] rd by (auto simp: s1_def)
  consider "ready = []" "xs_inFlight s0 = []" | "\<not> (ready = [] \<and> xs_inFlight s0 = [])" "xs_inFlight s1 = []"
    | "\<not> (ready = [] \<and> xs_inFlight s0 = [])" "xs_inFlight s1 \<noteq> []" by blast
  then show thesis
  proof cases
    case 1
    have "sched_base cfg g s0" "distinct (xs_remaining s0)" using s0(1) by (simp_all add: sched_inv_def sched_base_def)
    with abort_ids_inv [OF ok, of cfg s0 "sort (xs_remaining s0)" "ec_build cfg" "''dependency failed''"]
    have "sched_inv cfg g (abort_ids (ec_build cfg) g ''dependency failed'' (sort (xs_remaining s0)) s0)"
      "xs_remaining (abort_ids (ec_build cfg) g ''dependency failed'' (sort (xs_remaining s0)) s0) = []"
      "xs_inFlight (abort_ids (ec_build cfg) g ''dependency failed'' (sort (xs_remaining s0)) s0) = []"
      using 1(2) by (auto simp: sched_inv_def)
    then show thesis using it 1 by (intro stop) auto
  next
    case 2
    then have "xs_inFlight s0 = []" "ready \<noteq> []" using s1(3) by auto
    moreover have "\<not> it_cancelled env"
      using \<open>ready \<noteq> []\<close> rd cancel_build_inv [OF ok inv] by (auto simp: s0_def)
    moreover have "cancel = Some 0"
    proof (rule ccontr)
      assume "cancel \<noteq> Some 0"
      obtain i ids where r: "ready = i # ids" using \<open>ready \<noteq> []\<close> by (cases ready) auto
      from launch_ready_progress [OF s0(1), of i ids cancel] rd \<open>xs_inFlight s0 = []\<close> par \<open>cancel \<noteq> Some 0\<close> 2(2)
      show False by (simp add: s1_def r)
    qed
    ultimately show thesis using it 2 s1 s0 by (intro idle [of s1]) (auto simp: cancel_def)
  next
    case 3
    from receive_inv(1,2) [OF ok s1(1) 3(2), of env] show thesis
      using it 3 s1(2) s0(2) by (intro move) auto
  qed
qed

lemma exec_iter_cancelled:
  assumes "graph_ok g" "sched_inv cfg g s" "it_cancelled env" "xs_inFlight s = []"
  shows "\<exists>t. exec_iter cfg g env s = (t, False)"
  using cancel_build_inv [OF assms(1,2)] assms(3,4) by (auto simp: exec_iter_def exec_launch_def Let_def readyNodes_def)

text \<open>A cancelled context stays cancelled.\<close>

definition ctx_sticky :: "(nat \<Rightarrow> iter_env) \<Rightarrow> bool" where
  "ctx_sticky envs \<longleftrightarrow> (\<forall>k. it_cancelled (envs k) \<or> it_cancel_after (envs k) \<noteq> None \<longrightarrow> it_cancelled (envs (Suc k)))"

lemma exec_loop_terminates:
  assumes "graph_ok g" "0 < ec_parallelism cfg" "ctx_sticky envs" "sched_inv cfg g s" "weight s + 2 \<le> fuel"
  shows "\<exists>t. exec_loop cfg g envs fuel k s = Some t"
  using assms(4,5)
proof (induction fuel arbitrary: k s)
  case (Suc fuel)
  show ?case
  proof (cases "xs_remaining s = [] \<and> xs_inFlight s = []")
    case False
    from assms(1) Suc.prems(1) assms(2) show ?thesis
    proof (cases rule: exec_iter_cases [where env = "envs k"])
      case (stop t)
      with False show ?thesis by simp
    next
      case (idle t)
      have "it_cancelled (envs (Suc k))" using assms(3) idle(5) unfolding ctx_sticky_def by (metis option.distinct(1))
      then obtain u where "exec_iter cfg g (envs (Suc k)) t = (u, False)"
        using exec_iter_cancelled [OF assms(1) idle(2)] idle(3) by blast
      moreover obtain fuel' where "fuel = Suc fuel'" using Suc.prems(2) by (cases fuel) auto
      ultimately show ?thesis using False idle(1) by simp
    next
      case (move t)
      with False Suc.IH [of t "Suc k"] Suc.prems(2) show ?thesis by simp
    qed
  qed auto
qed simp

text \<open>The end of a build: nothing left and nothing in flight.\<close>

lemma exec_loop_final:
  assumes "graph_ok g" "0 < ec_parallelism cfg" "sched_inv cfg g s" "exec_loop cfg g envs fuel k s = Some t"
  shows "sched_inv cfg g t \<and> xs_remaining t = [] \<and> xs_inFlight t = []"
  using assms(3,4)
proof (induction fuel arbitrary: k s)
  case (Suc fuel)
  show ?case
  proof (cases "xs_remaining s = [] \<and> xs_inFlight s = []")
    case False
    from assms(1) Suc.prems(1) assms(2) show ?thesis
    proof (cases rule: exec_iter_cases [where env = "envs k"])
      case (stop u)
      with False Suc.prems(2) show ?thesis by (auto split: if_splits)
    next
      case (idle u)
      with False Suc.IH [of u "Suc k"] Suc.prems(2) show ?thesis by (auto split: if_splits)
    next
      case (move u)
      with False Suc.IH [of u "Suc k"] Suc.prems(2) show ?thesis by (auto split: if_splits)
    qed
  qed (use Suc.prems in auto)
qed simp

section \<open>Without cancellation\<close>

lemma no_deadlock:
  assumes ok: "graph_ok g" and inv: "sched_inv cfg g s" and ab: "set (xs_aborted s) \<subseteq> descendants g (set (xs_failed s))"
    and stuck: "readyNodes (xs_remaining s) (xs_completed s) g = []" "xs_inFlight s = []"
  shows "xs_remaining s = []"
proof (rule ccontr)
  assume "xs_remaining s \<noteq> []"
  then obtain x where x: "x \<in> set (xs_remaining s)" by (cases "xs_remaining s") auto
  have "edges (eg_dependsOn g) \<subseteq> set (ids_of g) \<times> set (ids_of g)"
    using ok succs_no_key [of _ "eg_dependsOn g"] unfolding graph_ok_def edges_def by fastforce
  then have "finite (edges (eg_dependsOn g))" by (rule finite_subset) simp
  then have "wf ((edges (eg_dependsOn g))\<inverse>)" using ok by (intro finite_acyclic_wf_converse) (simp_all add: graph_ok_def)
  then obtain z where z: "z \<in> set (xs_remaining s)" "\<And>y. (y, z) \<in> (edges (eg_dependsOn g))\<inverse> \<Longrightarrow> y \<notin> set (xs_remaining s)"
    using wfE_min [of "(edges (eg_dependsOn g))\<inverse>" x "set (xs_remaining s)"] x by blast
  have "\<not> deps g z \<subseteq> set (xs_completed s)" 
  proof
    assume "deps g z \<subseteq> set (xs_completed s)"
    then have "z \<in> set (readyNodes (xs_remaining s) (xs_completed s) g)" using z(1) by (auto simp: readyNodes_def)
    then show False using stuck(1) by simp
  qed
  then obtain d where d: "d \<in> deps g z" "d \<notin> set (xs_completed s)" by blast
  have "d \<in> set (ids_of g)" "d \<notin> set (xs_remaining s)" using ok d(1) z(2) [of d] by (auto simp: graph_ok_def)
  then have "d \<in> set (xs_failed s) \<or> d \<in> set (xs_aborted s)"
    using inv stuck(2) d(2) by (auto simp: sched_inv_def sched_base_def)
  moreover have "(d, z) \<in> edges (eg_dependents g)" using ok d(1) by (simp add: graph_ok_def)
  ultimately have "z \<in> descendants g (set (xs_failed s))"
    using ab unfolding descendants_def by (blast intro: r_into_trancl trancl_into_trancl)
  then show False using inv z(1) by (auto simp: sched_inv_def)
qed

definition quiet :: "exec_config \<Rightarrow> executionGraph \<Rightarrow> iter_env \<Rightarrow> bool" where
  "quiet cfg g env \<longleftrightarrow> \<not> it_cancelled env \<and> it_cancel_after env = None \<and>
     (ec_policy cfg = AbortDependentOnly \<or>
      (\<forall>i. rr_state (fst (driveNode (ec_build cfg) (node_of g i) (ec_maxAttempts cfg) (it_drive env i))) \<noteq> NodeFailed)) \<and>
     (\<forall>i. rr_state (fst (driveNode (ec_build cfg) (node_of g i) (ec_maxAttempts cfg) (it_drive env i))) \<noteq> NodeAborted)"

lemma exec_iter_quiet:
  assumes ok: "graph_ok g" and inv: "sched_inv cfg g s" and q: "quiet cfg g env"
    and ab: "set (xs_aborted s) \<subseteq> descendants g (set (xs_failed s))" and it: "exec_iter cfg g env s = (t, again)"
  shows "set (xs_aborted t) \<subseteq> descendants g (set (xs_failed t)) \<and>
    ((\<forall>i. rr_state (fst (driveNode (ec_build cfg) (node_of g i) (ec_maxAttempts cfg) (it_drive env i))) = NodeCompleted) \<longrightarrow>
      set (xs_failed t) = set (xs_failed s))"
proof -
  define ready where "ready = readyNodes (xs_remaining s) (xs_completed s) g"
  define s1 where "s1 = launch_ready cfg None 0 ready s"
  have it': "exec_iter cfg g env s =
      (if ready = [] \<and> xs_inFlight s = [] then (abort_ids (ec_build cfg) g ''dependency failed'' (sort (xs_remaining s)) s, False)
       else if xs_inFlight s1 = [] then (s1, True) else (receive cfg g env s1, True))"
    using q by (simp add: quiet_def exec_iter_def exec_launch_def Let_def ready_def s1_def)
  have s1: "sched_inv cfg g s1" "set (xs_aborted s1) = set (xs_aborted s)" "set (xs_failed s1) = set (xs_failed s)"
    using launch_ready_inv [OF inv, of ready None 0] readyNodes_facts [OF inv, folded ready_def] by (auto simp: s1_def)
  consider "ready = []" "xs_inFlight s = []" | "t = s1" | "t = receive cfg g env s1" "xs_inFlight s1 \<noteq> []"
    using it it' by (auto split: if_splits)
  then show ?thesis
  proof cases
    case 1
    then have "xs_remaining s = []" using no_deadlock [OF ok inv ab] by (simp add: ready_def)
    then have "t = s" using it it' 1 by simp
    then show ?thesis using ab by simp
  next
    case 2
    then show ?thesis using s1 ab by simp
  next
    case 3
    have "set (xs_aborted s1) \<subseteq> descendants g (set (xs_failed s1))" using s1(2,3) ab by simp
    moreover have "\<forall>i. rr_state (fst (driveNode (ec_build cfg) (node_of g i) (ec_maxAttempts cfg) (it_drive env i))) \<noteq> NodeAborted"
      using q by (simp add: quiet_def)
    moreover have "ec_policy cfg = AbortDependentOnly \<or>
        (\<forall>i. rr_state (fst (driveNode (ec_build cfg) (node_of g i) (ec_maxAttempts cfg) (it_drive env i))) \<noteq> NodeFailed)"
      using q by (simp add: quiet_def)
    ultimately show ?thesis
      using receive_inv(3,4) [OF ok s1(1) 3(2), of env] s1(3) 3(1) by simp
  qed
qed

lemma exec_loop_quiet:
  assumes "graph_ok g" "0 < ec_parallelism cfg" "\<forall>k. quiet cfg g (envs k)"
    and "sched_inv cfg g s" "set (xs_aborted s) \<subseteq> descendants g (set (xs_failed s))" "exec_loop cfg g envs fuel k s = Some t"
  shows "set (xs_aborted t) \<subseteq> descendants g (set (xs_failed t)) \<and>
    ((\<forall>k i. rr_state (fst (driveNode (ec_build cfg) (node_of g i) (ec_maxAttempts cfg) (it_drive (envs k) i))) = NodeCompleted) \<longrightarrow>
      set (xs_failed t) = set (xs_failed s))"
  using assms(4-6)
proof (induction fuel arbitrary: k s)
  case (Suc fuel)
  show ?case
  proof (cases "xs_remaining s = [] \<and> xs_inFlight s = []")
    case True
    then show ?thesis using Suc.prems by simp
  next
    case False
    obtain u again where it: "exec_iter cfg g (envs k) s = (u, again)" by fastforce
    note q = exec_iter_quiet [OF assms(1) Suc.prems(1) assms(3) [rule_format] Suc.prems(2) it]
    have "sched_inv cfg g u"
      using assms(1) Suc.prems(1) assms(2) it by (cases rule: exec_iter_cases [where env = "envs k"]) auto
    then show ?thesis
      using q Suc.IH [of u "Suc k"] Suc.prems(3) False it by (cases again) (auto split: if_splits)
  qed
qed simp

section \<open>The outcome\<close>

lemma outcome_nodes [simp]: "oc_Nodes (outcome_of g s) = xs_state s"
  by (simp add: outcome_of_def Let_def)

lemma final_state:
  assumes "sched_inv cfg g s" "xs_remaining s = []" "xs_inFlight s = []" "i \<in> set (ids_of g)"
  shows "gm_get (xs_state s) i = Some (state_of s i) \<and>
    (state_of s i = NodeCompleted \<and> i \<in> set (xs_completed s) \<or> state_of s i = NodeFailed \<and> i \<in> set (xs_failed s) \<or>
     state_of s i = NodeAborted \<and> i \<in> set (xs_aborted s))"
proof -
  have "i \<in> set (gm_keys (xs_state s))" using assms(1,4) by (simp add: sched_inv_def sched_base_def)
  then have "gm_get (xs_state s) i = Some (state_of s i)" by (auto simp: gm_keys_get state_of_def)
  moreover have "i \<in> set (xs_completed s) \<union> set (xs_failed s) \<union> set (xs_aborted s)"
    using assms by (auto simp: sched_inv_def sched_base_def)
  ultimately show ?thesis using assms(1) by (auto simp: sched_inv_def sched_base_def states_ok_def)
qed

lemma config_pos: "0 < ec_parallelism (config_of plan)"
  by (simp add: config_of_def)

lemma Execute_Inr:
  assumes "Execute fuel envs plan = Some (Inr (out, tr))"
  obtains g s where "newExecutionGraph plan = Inr g" "graph_ok g" "out = outcome_of g s"
    "exec_loop (config_of plan) g envs fuel 0 (init_state g) = Some s"
    "sched_inv (config_of plan) g s" "xs_remaining s = []" "xs_inFlight s = []"
proof -
  obtain g s where g: "newExecutionGraph plan = Inr g" "exec_loop (config_of plan) g envs fuel 0 (init_state g) = Some s"
    "out = outcome_of g s"
    using assms by (auto simp: Execute_def Let_def split: sum.splits)
  have ok: "graph_ok g" using newExecutionGraph_ok [OF g(1)] by simp
  from exec_loop_final [OF ok config_pos init_inv [OF ok] g(2)] that [OF g(1) ok g(3,2)] show thesis by simp
qed

end
