(* ===== verification/Executor_Outcome.thy ===== *)
theory Executor_Outcome
  imports Executor_Safety
begin

text \<open>
  What \<open>Execute\<close> promises of a build: it ends, it runs no node before its dependencies, a failure stops
  exactly what depends on it, and a build without failures completes every node.
\<close>

section \<open>The plan's dependencies\<close>

definition plan_depends :: "Plan \<Rightarrow> (string \<times> string) set" where
  "plan_depends plan = {(nd_ID n, d) | n d. n \<in> set (pl_Nodes plan) \<and> d \<in> set (nd_DependsOn n)}"

lemma sorted_node_same [simp]:
  "nd_ID (sorted_node n) = nd_ID n" "set (nd_DependsOn (sorted_node n)) = set (nd_DependsOn n)"
  by (simp_all add: sorted_node_def)

lemma edges_of_nodes:
  assumes "\<forall>n \<in> set (eg_nodes g). succs (eg_dependsOn g) (nd_ID n) = nd_DependsOn n"
    "set (gm_keys (eg_dependsOn g)) = set (ids_of g)" "set (eg_nodes g) = sorted_node ` set (pl_Nodes plan)"
  shows "edges (eg_dependsOn g) = plan_depends plan"
proof -
  have "(i, d) \<in> edges (eg_dependsOn g) \<longleftrightarrow> (i, d) \<in> plan_depends plan" for i d
  proof (cases "i \<in> set (ids_of g)")
    case True
    then obtain n where n: "n \<in> set (eg_nodes g)" "nd_ID n = i" by auto
    have "(i, d) \<in> edges (eg_dependsOn g) \<longleftrightarrow> (\<exists>n \<in> set (eg_nodes g). nd_ID n = i \<and> d \<in> set (nd_DependsOn n))"
      using assms(1) n by auto
    then show ?thesis using assms(3) by (auto simp: plan_depends_def)
  next
    case False
    then have "(i, d) \<notin> edges (eg_dependsOn g)" using assms(2) by (simp add: succs_no_key)
    moreover have "(i, d) \<notin> plan_depends plan" using False assms(3) by (auto simp: plan_depends_def image_iff)
    ultimately show ?thesis by simp
  qed
  then show ?thesis by auto
qed

lemma plan_edges:
  assumes "newExecutionGraph plan = Inr g"
  shows "edges (eg_dependsOn g) = plan_depends plan"
  using newExecutionGraph_ok [OF assms] by (intro edges_of_nodes) (auto simp: graph_ok_def)

lemma ids_of_plan: "newExecutionGraph plan = Inr g \<Longrightarrow> set (ids_of g) = nd_ID ` set (pl_Nodes plan)"
  using newExecutionGraph_ok [of plan g] by (force simp: image_iff)

lemma nodes_le: "newExecutionGraph plan = Inr g \<Longrightarrow> length (eg_nodes g) \<le> length (pl_Nodes plan)"
proof -
  assume g: "newExecutionGraph plan = Inr g"
  have "length (eg_nodes g) = card (set (ids_of g))"
    using newExecutionGraph_ok [OF g] by (metis distinct_card graph_ok_def length_map)
  also have "\<dots> \<le> length (pl_Nodes plan)"
    unfolding ids_of_plan [OF g] by (metis card_length length_map list.set_map)
  finally show ?thesis .
qed

lemma descendants_depends:
  assumes "newExecutionGraph plan = Inr g" "i \<in> descendants g X"
  obtains f where "f \<in> X" "(i, f) \<in> (plan_depends plan)\<^sup>+"
proof -
  obtain f where "f \<in> X" "(f, i) \<in> (edges (eg_dependents g))\<^sup>+" using assms(2) by (auto simp: descendants_def)
  moreover have "edges (eg_dependents g) = (plan_depends plan)\<inverse>"
    using newExecutionGraph_ok [OF assms(1)] plan_edges [OF assms(1)] by (simp add: graph_ok_def)
  ultimately show thesis using that by (simp add: trancl_converse)
qed

section \<open>Which plans are accepted\<close>

lemma add_nodes_nonempty: "add_nodes nodes g = Inr g' \<Longrightarrow> \<forall>n \<in> set nodes. nd_ID n \<noteq> []"
  by (induction nodes arbitrary: g) (auto simp: Let_def split: if_splits)

lemma add_nodes_accepts:
  assumes "\<forall>n \<in> set nodes. nd_ID n \<noteq> []" "distinct (map nd_ID nodes)" "nd_ID ` set nodes \<inter> set (gm_keys (eg_byID g)) = {}"
  shows "\<exists>g'. add_nodes nodes g = Inr g'"
  using assms
proof (induction nodes arbitrary: g)
  case (Cons n nodes)
  then have "gm_get (eg_byID g) (nd_ID n) = None" by (simp add: gm_get_None_iff)
  with Cons show ?case by (auto simp: Let_def)
qed simp

lemma link_deps_accepts: "set ds \<subseteq> set (gm_keys byID) \<Longrightarrow> \<exists>d'. link_deps byID nid ds dependents = Inr d'"
  by (induction ds arbitrary: dependents) (auto simp: gm_get_None_iff)

lemma link_nodes_accepts:
  "\<forall>n \<in> set nodes. set (nd_DependsOn n) \<subseteq> set (gm_keys byID) \<Longrightarrow> \<exists>d'. link_nodes byID nodes dependents = Inr d'"
proof (induction nodes arbitrary: dependents)
  case (Cons n nodes)
  then obtain d1 where "link_deps byID (nd_ID n) (nd_DependsOn n) dependents = Inr d1"
    using link_deps_accepts [of "nd_DependsOn n"] by fastforce
  with Cons show ?case by (simp add: bindE_def)
qed simp

definition plan_ok :: "Plan \<Rightarrow> bool" where
  "plan_ok plan \<longleftrightarrow> (\<forall>n \<in> set (pl_Nodes plan). nd_ID n \<noteq> [] \<and> set (nd_DependsOn n) \<subseteq> nd_ID ` set (pl_Nodes plan)) \<and>
     distinct (map nd_ID (pl_Nodes plan)) \<and> acyclic (plan_depends plan)"

abbreviation empty_graph :: executionGraph where
  "empty_graph \<equiv> \<lparr>eg_nodes = [], eg_byID = [], eg_dependsOn = [], eg_dependents = []\<rparr>"

lemma added_nodes:
  assumes "add_nodes (pl_Nodes plan) empty_graph = Inr g1"
  shows "pre_ok g1" "eg_nodes g1 = map sorted_node (pl_Nodes plan)" "edges (eg_dependsOn g1) = plan_depends plan"
proof -
  have "pre_ok empty_graph" by (simp add: pre_ok_def)
  from add_nodes_ok [OF assms this] show a: "pre_ok g1" "eg_nodes g1 = map sorted_node (pl_Nodes plan)" by simp_all
  then show "edges (eg_dependsOn g1) = plan_depends plan" by (intro edges_of_nodes) (auto simp: pre_ok_def)
qed

lemma newExecutionGraph_rejects:
  assumes "newExecutionGraph plan = Inl e"
  shows "\<not> plan_ok plan"
proof
  assume ok: "plan_ok plan"
  obtain g1 where g1: "add_nodes (pl_Nodes plan) empty_graph = Inr g1"
    using add_nodes_accepts [of "pl_Nodes plan" empty_graph] ok by (auto simp: plan_ok_def)
  note a = added_nodes [OF g1]
  have "set (gm_keys (eg_byID g1)) = nd_ID ` set (pl_Nodes plan)"
    using a(1,2) by (simp add: pre_ok_def image_image)
  then obtain d where d: "link_nodes (eg_byID g1) (sort_key nd_ID (eg_nodes g1)) [] = Inr d"
    using link_nodes_accepts [of "sort_key nd_ID (eg_nodes g1)" "eg_byID g1" "[]"] ok a(2) by (auto simp: plan_ok_def)
  obtain c where "dfs_cycle (eg_dependsOn g1) [] [] (map nd_ID (sort_key nd_ID (eg_nodes g1))) = Inl c"
    using assms g1 d by (auto simp: newExecutionGraph_def bindE_def Let_def detectCycle_def split: option.splits sum.splits)
  then have "\<not> acyclic (plan_depends plan)"
    using cycle_path_not_acyclic [OF dfs_cycle_cycle] a(3) by metis
  with ok show False by (simp add: plan_ok_def)
qed

lemma newExecutionGraph_accepts:
  assumes "newExecutionGraph plan = Inr g"
  shows "plan_ok plan"
proof -
  obtain g1 where g1: "add_nodes (pl_Nodes plan) empty_graph = Inr g1"
    using assms by (auto simp: newExecutionGraph_def bindE_Inr_iff)
  note a = added_nodes [OF g1] and b = newExecutionGraph_ok [OF assms]
  have "acyclic (plan_depends plan)" using b plan_edges [OF assms] by (simp add: graph_ok_def)
  moreover have "distinct (map nd_ID (pl_Nodes plan))" using a(1,2) by (simp add: pre_ok_def comp_def)
  moreover have "d \<in> nd_ID ` set (pl_Nodes plan)" if "n \<in> set (pl_Nodes plan)" "d \<in> set (nd_DependsOn n)" for n d
  proof -
    have "d \<in> deps g (nd_ID n)" using that plan_edges [OF assms] by (auto simp: plan_depends_def set_eq_iff)
    moreover have "deps g (nd_ID n) \<subseteq> set (ids_of g)" using b [THEN conjunct1] unfolding graph_ok_def by blast
    ultimately show ?thesis using ids_of_plan [OF assms] by blast
  qed
  ultimately show ?thesis using add_nodes_nonempty [OF g1] by (auto simp: plan_ok_def)
qed

section \<open>A build of three nodes\<close>

lemma commit_all_succeeds: "(\<forall>k. commit k = None) \<Longrightarrow> fst (commit_loop bid node commit k outs done) = None"
  by (induction outs arbitrary: k "done") (auto split: prod.splits simp: prod_eq_iff)

lemma drive_calm:
  assumes "\<forall>k. dv_ctx env k = None" "\<not> dv_ctx_end env"
  shows "rr_state (fst (driveNode bid node dflt env)) \<noteq> NodeAborted"
proof -
  have "attempt_loop bid node env k m e = (Inl r, tr) \<Longrightarrow> rr_state r \<noteq> NodeAborted" for k m e r tr
    using assms(1)
    by (induction m arbitrary: k e r tr) (auto simp: run_result_def split: sum.splits prod.splits option.splits)
  then show ?thesis using assms(2)
    by (auto simp: driveNode_def Let_def run_result_def split: sum.splits prod.splits)
qed

lemma drive_succeeds:
  assumes "\<forall>k. dv_ctx env k = None" "\<forall>k. dv_run env k = Inr r" "\<forall>k. dv_commit env k = None"
  shows "rr_state (fst (driveNode bid node dflt env)) = NodeCompleted"
proof -
  have "fst (commitAllOutputs bid node (dv_commit env) (dv_abort env)) = None"
    using commit_all_succeeds [OF assms(3), of bid node 0 "nd_Outputs node" "[]"]
    by (auto simp: commitAllOutputs_def split: prod.splits option.splits)
  moreover obtain m where "max_attempts (nd_MaxAttempts node) dflt = Suc m"
    by (cases "max_attempts (nd_MaxAttempts node) dflt") (auto simp: max_attempts_def Let_def split: if_splits)
  ultimately show ?thesis using assms(1,2)
    by (auto simp: driveNode_def Let_def run_result_def split: prod.splits option.splits)
qed

text \<open>Nodes \<open>b\<close> and \<open>c\<close>, of which \<open>b\<close> depends on \<open>a\<close>; two may run at once.\<close>

definition plan_3 :: Plan where
  "plan_3 = \<lparr>pl_BuildID = 9, pl_AbortPolicy = None, pl_Parallelism = 2, pl_MaxAttempts = 1,
     pl_Nodes = [node_1\<lparr>nd_ID := ''b'', nd_DependsOn := [''a'']\<rparr>, node_1, node_1\<lparr>nd_ID := ''c''\<rparr>]\<rparr>"

definition env_3 :: "string list \<Rightarrow> nat \<Rightarrow> iter_env" where
  "env_3 failing k = \<lparr>it_cancelled = False, it_cancel_after = None, it_pick = k,
     it_drive = (\<lambda>i. \<lparr>dv_ctx = (\<lambda>_. None), dv_run = (\<lambda>_. if i \<in> set failing then Inl ''boom'' else Inr zero_result),
       dv_ctx_retry = (\<lambda>_. False), dv_commit = (\<lambda>_. None), dv_abort = (\<lambda>_. None), dv_ctx_end = False\<rparr>)\<rparr>"

definition graph_3 :: executionGraph where
  "graph_3 = (case newExecutionGraph plan_3 of Inr g \<Rightarrow> g | Inl _ \<Rightarrow> \<lparr>eg_nodes = [], eg_byID = [], eg_dependsOn = [], eg_dependents = []\<rparr>)"

lemma graph_3_ok: "newExecutionGraph plan_3 = Inr graph_3"
proof -
  have "\<not> Sum_Type.isl (newExecutionGraph plan_3)" by code_simp
  then show ?thesis by (auto simp: graph_3_def split: sum.splits)
qed

lemma env_3_quiet: "\<forall>k. quiet (config_of plan_3) graph_3 (env_3 failing k)"
proof -
  have "ec_policy (config_of plan_3) = AbortDependentOnly" by (simp add: config_of_def plan_3_def)
  then show ?thesis by (simp add: quiet_def env_3_def drive_calm)
qed

lemma env_3_sticky: "ctx_sticky (env_3 failing)" by (simp add: ctx_sticky_def env_3_def)

section \<open>Properties\<close>

text \<open>
  C8. \<open>Execute\<close> ends: whatever the runner answers, in whatever order results arrive and whenever the
  context is cancelled, the loop is over after at most twice as many iterations as there are nodes,
  plus two.
\<close>

theorem Execute_terminates:
  assumes "newExecutionGraph plan = Inr g" "ctx_sticky envs"
  shows "\<exists>out tr. Execute (2 * length (pl_Nodes plan) + 2) envs plan = Some (Inr (out, tr))"
proof -
  have ok: "graph_ok g" using newExecutionGraph_ok [OF assms(1)] by simp
  have "weight (init_state g) = 2 * length (eg_nodes g)" by (simp add: weight_def init_state_def)
  then have "weight (init_state g) + 2 \<le> 2 * length (pl_Nodes plan) + 2" using nodes_le [OF assms(1)] by simp
  from exec_loop_terminates [OF ok config_pos assms(2) init_inv [OF ok] this, of plan 0] assms(1)
  show ?thesis by (auto simp: Execute_def Let_def)
qed

theorem Execute_terminates_witness: "\<exists>out tr. Execute 8 (env_3 [''a'']) plan_3 = Some (Inr (out, tr))"
  using Execute_terminates [OF graph_3_ok env_3_sticky [of "[''a'']"]] by (simp add: plan_3_def)

text \<open>
  C6. Every node ends in a terminal state, and a node that ran, with success or not, ran after all of
  its dependencies had completed; so everything downstream of a node that failed or was aborted is
  aborted.
\<close>

theorem Execute_dependencies_first:
  assumes "Execute fuel envs plan = Some (Inr (out, tr))" "n \<in> set (pl_Nodes plan)"
  shows "\<exists>st. gm_get (oc_Nodes out) (nd_ID n) = Some st \<and> terminal st \<and>
    (st = NodeAborted \<or> (\<forall>d \<in> set (nd_DependsOn n). gm_get (oc_Nodes out) d = Some NodeCompleted))"
proof -
  obtain g s where g: "newExecutionGraph plan = Inr g" "graph_ok g" "out = outcome_of g s"
    "sched_inv (config_of plan) g s" "xs_remaining s = []" "xs_inFlight s = []"
    using assms(1) by (rule Execute_Inr)
  have i: "nd_ID n \<in> set (ids_of g)" using ids_of_plan [OF g(1)] assms(2) by simp
  have dn: "deps g (nd_ID n) \<supseteq> set (nd_DependsOn n)"
    using plan_edges [OF g(1)] assms(2) unfolding plan_depends_def by (auto simp: set_eq_iff)
  note f = final_state [OF g(4-6)]
  have "gm_get (xs_state s) d = Some NodeCompleted" if "d \<in> set (nd_DependsOn n)" "state_of s (nd_ID n) \<noteq> NodeAborted" for d
  proof -
    have "nd_ID n \<in> set (xs_completed s) \<union> set (xs_failed s)" using f [OF i] that(2) by auto
    moreover have "\<forall>i \<in> set (xs_inFlight s) \<union> set (xs_completed s) \<union> set (xs_failed s). deps g i \<subseteq> set (xs_completed s)"
      using g(4) by (simp add: sched_inv_def sched_base_def)
    ultimately have "d \<in> set (xs_completed s)" using dn that(1) by blast
    moreover have "d \<in> set (ids_of g)" using g(4) calculation by (auto simp: sched_inv_def sched_base_def)
    ultimately show ?thesis using f [of d] g(4) by (auto simp: sched_inv_def sched_base_def states_ok_def)
  qed
  then show ?thesis using f [OF i] by (auto simp: g(3) terminal_def)
qed

theorem Execute_dependencies_first_witness:
  "\<exists>out tr. Execute 8 (env_3 []) plan_3 = Some (Inr (out, tr)) \<and> gm_get (oc_Nodes out) ''a'' = Some NodeCompleted"
proof -
  have "(case Execute 8 (env_3 []) plan_3 of Some (Inr (out, tr)) \<Rightarrow> gm_get (oc_Nodes out) ''b'' = Some NodeCompleted | _ \<Rightarrow> False)"
    by code_simp
  then obtain out tr where out: "Execute 8 (env_3 []) plan_3 = Some (Inr (out, tr))" "gm_get (oc_Nodes out) ''b'' = Some NodeCompleted"
    by (auto split: option.splits sum.splits prod.splits)
  show ?thesis using Execute_dependencies_first [OF out(1), of "hd (pl_Nodes plan_3)"] out by (simp add: plan_3_def)
qed

text \<open>
  C7. With the default abort policy, and without cancellation, a node is aborted only because something it
  depends on, directly or not, failed: independent branches of the build run to their end.
\<close>

theorem Execute_isolates_failures:
  assumes "newExecutionGraph plan = Inr g" "\<forall>k. quiet (config_of plan) g (envs k)"
    "Execute fuel envs plan = Some (Inr (out, tr))" "gm_get (oc_Nodes out) i = Some NodeAborted"
  shows "\<exists>f. (i, f) \<in> (plan_depends plan)\<^sup>+ \<and> gm_get (oc_Nodes out) f = Some NodeFailed"
proof -
  obtain g' s where g': "newExecutionGraph plan = Inr g'" "graph_ok g'" "out = outcome_of g' s"
    "exec_loop (config_of plan) g' envs fuel 0 (init_state g') = Some s"
    "sched_inv (config_of plan) g' s" "xs_remaining s = []" "xs_inFlight s = []"
    using assms(3) by (rule Execute_Inr)
  have gg: "g' = g" using assms(1) g'(1) by simp
  note g = g' [unfolded gg]
  have ab: "set (xs_aborted s) \<subseteq> descendants g (set (xs_failed s))"
    using exec_loop_quiet [OF g(2) config_pos assms(2) init_inv [OF g(2)] _ g(4)] by (simp add: init_state_def)
  have "i \<in> set (gm_keys (xs_state s))" using assms(4) g(3) by (auto intro: gm_get_Some_key)
  then have "i \<in> set (ids_of g)" using g(5) by (simp add: sched_inv_def sched_base_def)
  with final_state [OF g(5-7), of i] assms(4) g(3) have "i \<in> set (xs_aborted s)" by auto
  then obtain f where f: "f \<in> set (xs_failed s)" "(i, f) \<in> (plan_depends plan)\<^sup>+"
    using ab descendants_depends [OF g(1)] by blast
  have "f \<in> set (ids_of g)" "state_of s f = NodeFailed"
    using g(5) f(1) by (auto simp: sched_inv_def sched_base_def states_ok_def)
  then have "gm_get (oc_Nodes out) f = Some NodeFailed" using final_state [OF g(5-7), of f] g(3) by simp
  with f(2) show ?thesis by blast
qed

theorem Execute_isolates_failures_witness:
  "\<exists>out tr f. Execute 8 (env_3 [''a'']) plan_3 = Some (Inr (out, tr)) \<and> gm_get (oc_Nodes out) ''c'' = Some NodeCompleted \<and>
     (''b'', f) \<in> (plan_depends plan_3)\<^sup>+ \<and> gm_get (oc_Nodes out) f = Some NodeFailed"
proof -
  have "(case Execute 8 (env_3 [''a'']) plan_3 of Some (Inr (out, tr)) \<Rightarrow>
      gm_get (oc_Nodes out) ''b'' = Some NodeAborted \<and> gm_get (oc_Nodes out) ''c'' = Some NodeCompleted | _ \<Rightarrow> False)"
    by code_simp
  then obtain out tr where out: "Execute 8 (env_3 [''a'']) plan_3 = Some (Inr (out, tr))" "gm_get (oc_Nodes out) ''b'' = Some NodeAborted"
    "gm_get (oc_Nodes out) ''c'' = Some NodeCompleted"
    by (auto split: option.splits sum.splits prod.splits)
  show ?thesis using Execute_isolates_failures [OF graph_3_ok env_3_quiet out(1,2)] out by blast
qed

lemma all_completed_final:
  assumes "\<forall>(i, st) \<in> set (xs_state s). st = NodeCompleted"
  shows "oc_FinalState (outcome_of g s) = BuildCompleted"
proof -
  have "filter (\<lambda>st. st = NodeFailed) (map snd (xs_state s)) = []"
    "filter (\<lambda>st. st = NodeAborted \<or> st = NodeAbortPending) (map snd (xs_state s)) = []"
    using assms by (auto simp: filter_empty_conv)
  then show ?thesis by (simp add: outcome_of_def Let_def)
qed

text \<open>
  If no run fails and nothing is cancelled, every node completes and the build does.
\<close>

theorem Execute_all_complete:
  assumes "newExecutionGraph plan = Inr g" "\<forall>k. \<not> it_cancelled (envs k) \<and> it_cancel_after (envs k) = None"
    "\<forall>k i. rr_state (fst (driveNode (pl_BuildID plan) (node_of g i) (ec_maxAttempts (config_of plan)) (it_drive (envs k) i))) = NodeCompleted"
    "Execute fuel envs plan = Some (Inr (out, tr))"
  shows "oc_FinalState out = BuildCompleted \<and> (\<forall>n \<in> set (pl_Nodes plan). gm_get (oc_Nodes out) (nd_ID n) = Some NodeCompleted)"
proof -
  obtain g' s where g': "newExecutionGraph plan = Inr g'" "graph_ok g'" "out = outcome_of g' s"
    "exec_loop (config_of plan) g' envs fuel 0 (init_state g') = Some s"
    "sched_inv (config_of plan) g' s" "xs_remaining s = []" "xs_inFlight s = []"
    using assms(4) by (rule Execute_Inr)
  have gg: "g' = g" using assms(1) g'(1) by simp
  note g = g' [unfolded gg]
  have bid: "ec_build (config_of plan) = pl_BuildID plan" by (simp add: config_of_def)
  have q: "\<forall>k. quiet (config_of plan) g (envs k)" using assms(2,3) by (simp add: quiet_def bid)
  have st: "set (xs_aborted (init_state g)) \<subseteq> descendants g (set (xs_failed (init_state g)))" by (simp add: init_state_def)
  have "set (xs_aborted s) \<subseteq> descendants g (set (xs_failed s)) \<and> set (xs_failed s) = set (xs_failed (init_state g))"
    using exec_loop_quiet [OF g(2) config_pos q init_inv [OF g(2)] st g(4)] assms(3) bid by metis
  then have none: "set (xs_aborted s) = {}" "set (xs_failed s) = {}" by (auto simp: descendants_def init_state_def)
  have all: "gm_get (xs_state s) i = Some NodeCompleted" if "i \<in> set (ids_of g)" for i
    using final_state [OF g(5-7) that] none by auto
  have "\<forall>(i, st) \<in> set (xs_state s). st = NodeCompleted"
  proof clarify
    fix i st assume "(i, st) \<in> set (xs_state s)"
    moreover have "gm_ok (xs_state s)" "set (gm_keys (xs_state s)) = set (ids_of g)"
      using g(5) by (simp_all add: sched_inv_def sched_base_def states_ok_def)
    ultimately have "gm_get (xs_state s) i = Some st" "i \<in> set (ids_of g)"
      using gm_get_in_set gm_get_Some_key by metis+
    with all show "st = NodeCompleted" by simp
  qed
  then show ?thesis using all ids_of_plan [OF g(1)] by (auto simp: g(3) all_completed_final)
qed

theorem Execute_all_complete_witness:
  "\<exists>out tr. Execute 8 (env_3 []) plan_3 = Some (Inr (out, tr)) \<and> oc_FinalState out = BuildCompleted"
proof -
  have "(case Execute 8 (env_3 []) plan_3 of Some (Inr (out, tr)) \<Rightarrow> True | _ \<Rightarrow> False)" by code_simp
  then obtain out tr where out: "Execute 8 (env_3 []) plan_3 = Some (Inr (out, tr))" by (auto split: option.splits sum.splits prod.splits)
  have "oc_FinalState out = BuildCompleted"
    using Execute_all_complete [OF graph_3_ok _ _ out] by (simp add: env_3_def drive_succeeds [of _ zero_result])
  with out show ?thesis by blast
qed

text \<open>
  The states a build goes through: at the top of the loop, and, before a result is taken from the nodes in
  flight, right after the launches, when the most nodes run.
\<close>

inductive exec_reach :: "exec_config \<Rightarrow> executionGraph \<Rightarrow> exec_state \<Rightarrow> bool" for cfg g where
  reach_init: "exec_reach cfg g (init_state g)"
| reach_iter: "exec_reach cfg g s \<Longrightarrow> exec_iter cfg g env s = (t, again) \<Longrightarrow> exec_reach cfg g t"

inductive exec_point :: "exec_config \<Rightarrow> executionGraph \<Rightarrow> exec_state \<Rightarrow> bool" for cfg g where
  point_top: "exec_reach cfg g s \<Longrightarrow> exec_point cfg g s"
| point_launched: "exec_reach cfg g s \<Longrightarrow> exec_point cfg g (exec_launch cfg g env s)"

lemma exec_reach_inv: "exec_reach cfg g s \<Longrightarrow> graph_ok g \<Longrightarrow> 0 < ec_parallelism cfg \<Longrightarrow> sched_inv cfg g s"
proof (induction rule: exec_reach.induct)
  case reach_init
  then show ?case by (simp add: init_inv)
next
  case (reach_iter s env t again)
  then have "graph_ok g" "sched_inv cfg g s" "0 < ec_parallelism cfg" by auto
  then obtain u c where "exec_iter cfg g env s = (u, c)" "sched_inv cfg g u"
    by (rule exec_iter_cases [where env = env])
  then show ?case using reach_iter(2) by simp
qed

lemma exec_launch_inv:
  assumes "graph_ok g" "sched_inv cfg g s"
  shows "sched_inv cfg g (exec_launch cfg g env s)"
proof -
  define s0 where "s0 = (if it_cancelled env then cancel_build cfg g s else s)"
  have s0: "sched_inv cfg g s0" using cancel_build_inv [OF assms] assms(2) by (simp add: s0_def)
  from launch_ready_inv [OF s0] readyNodes_facts [OF s0] show ?thesis
    unfolding exec_launch_def Let_def s0_def [symmetric] by blast
qed

lemma exec_point_inv: "exec_point cfg g s \<Longrightarrow> graph_ok g \<Longrightarrow> 0 < ec_parallelism cfg \<Longrightarrow> sched_inv cfg g s"
  by (induction rule: exec_point.induct) (auto intro: exec_reach_inv exec_launch_inv)

text \<open>
  C30. At any point of a build, also between the launches of an iteration and its next result, at most \<open>Parallelism\<close>
  nodes (four by default) are running, and the dependencies of every running node have completed.
\<close>

theorem running_nodes_bounded:
  assumes "newExecutionGraph plan = Inr g" "exec_point (config_of plan) g s"
  shows "length (xs_inFlight s) \<le> nat (if pl_Parallelism plan < 1 then 4 else pl_Parallelism plan) \<and> distinct (xs_inFlight s) \<and>
    (\<forall>i \<in> set (xs_inFlight s). \<forall>d. (i, d) \<in> plan_depends plan \<longrightarrow> d \<in> set (xs_completed s))"
proof -
  have "sched_inv (config_of plan) g s"
    using exec_point_inv [OF assms(2)] newExecutionGraph_ok [OF assms(1)] config_pos by simp
  then have b: "length (xs_inFlight s) \<le> ec_parallelism (config_of plan)" "distinct (xs_inFlight s)"
    "\<forall>i \<in> set (xs_inFlight s). deps g i \<subseteq> set (xs_completed s)"
    by (auto simp: sched_inv_def sched_base_def)
  have "d \<in> deps g i" if "(i, d) \<in> plan_depends plan" for i d
    using that plan_edges [OF assms(1)] by (metis edges_iff)
  with b show ?thesis by (auto simp: config_of_def split: if_splits)
qed

text \<open>Two of the three nodes run at once; the third waits for the first.\<close>

theorem running_nodes_bounded_witness:
  "\<exists>s. exec_point (config_of plan_3) graph_3 s \<and> xs_inFlight s = [''a'', ''c''] \<and> length (xs_inFlight s) \<le> 2"
proof -
  let ?s = "exec_launch (config_of plan_3) graph_3 (env_3 [] 0) (init_state graph_3)"
  have c: "xs_inFlight ?s = [''a'', ''c'']" by code_simp
  have r: "exec_point (config_of plan_3) graph_3 ?s" by (rule point_launched [OF reach_init])
  from running_nodes_bounded [OF graph_3_ok r] have "length (xs_inFlight ?s) \<le> 2" by (simp add: plan_3_def)
  with r c show ?thesis by blast
qed

text \<open>
  C29. A plan is accepted exactly if its node ids are non-empty and distinct, its dependencies are nodes
  of the plan and no node depends on itself, directly or through others; a rejected plan runs no node.
\<close>

theorem Execute_accepts:
  "(\<exists>g. newExecutionGraph plan = Inr g) = plan_ok plan \<and>
   (newExecutionGraph plan = Inl e) = (Execute fuel envs plan = Some (Inl e))"
proof -
  have "(\<exists>g. newExecutionGraph plan = Inr g) = plan_ok plan"
    using newExecutionGraph_accepts newExecutionGraph_rejects by (cases "newExecutionGraph plan") auto
  then show ?thesis by (auto simp: Execute_def Let_def split: sum.splits)
qed

end
