(* ===== verification/Saga.thy ===== *)
theory Saga
  imports Outbox
begin

text \<open>
  The saga runner \<open>libs/saga/saga.go\<close>: steps that are executed once, their outputs cached in the row of
  the saga, and undone in reverse order when a later one fails. The runner owns a transaction; a
  statement that fails aborts it, as Postgres does, and every later statement of it fails too. The
  steps act on a world of their own. \<open>json.Marshal\<close> and \<open>json.Unmarshal\<close> on a step's output belong to
  the step, because they depend on its output type.
\<close>

section \<open>Errors, events and status\<close>

datatype SagaError =
    ErrStepFailure string string
  | ErrCompensationFailure string string
  | ErrDB string
  | ErrOutbox string
  | ErrSerialize string
  | ErrTerminal string
  | ErrOther string

fun SagaError_Error :: "SagaError \<Rightarrow> string" where
  "SagaError_Error (ErrStepFailure step msg) = ''step `'' @ step @ ''` failed: '' @ msg"
| "SagaError_Error (ErrCompensationFailure step msg) = ''compensate `'' @ step @ ''` failed: '' @ msg"
| "SagaError_Error (ErrDB msg) = ''database error: '' @ msg"
| "SagaError_Error (ErrOutbox msg) = ''outbox: '' @ msg"
| "SagaError_Error (ErrSerialize msg) = ''serialize: '' @ msg"
| "SagaError_Error (ErrTerminal msg) = ''saga is in terminal state `'' @ msg @ ''`''"
| "SagaError_Error (ErrOther msg) = msg"

datatype SagaEventKind = EventStepCompleted | EventStepFailed | EventStepCompensated | EventSagaCompleted | EventSagaAborted

fun Topic :: "SagaEventKind \<Rightarrow> string" where
  "Topic EventStepCompleted = ''saga.step.completed.v1''"
| "Topic EventStepFailed = ''saga.step.failed.v1''"
| "Topic EventStepCompensated = ''saga.step.compensated.v1''"
| "Topic EventSagaCompleted = ''saga.completed.v1''"
| "Topic EventSagaAborted = ''saga.aborted.v1''"

fun discriminator :: "SagaEventKind \<Rightarrow> string" where
  "discriminator EventStepCompleted = ''step.completed''"
| "discriminator EventStepFailed = ''step.failed''"
| "discriminator EventStepCompensated = ''step.compensated''"
| "discriminator EventSagaCompleted = ''saga.completed''"
| "discriminator EventSagaAborted = ''saga.aborted''"

record SagaEvent =
  sv_Kind :: SagaEventKind
  sv_StepName :: string
  sv_EventID :: uuid

datatype SagaStatus = StatusRunning | StatusCompleted | StatusFailed | StatusCompensated | StatusAborted

fun status_string :: "SagaStatus \<Rightarrow> string" where
  "status_string StatusRunning = ''running''"
| "status_string StatusCompleted = ''completed''"
| "status_string StatusFailed = ''failed''"
| "status_string StatusCompensated = ''compensated''"
| "status_string StatusAborted = ''aborted''"

definition ParseSagaStatus :: "string \<Rightarrow> SagaStatus" where
  "ParseSagaStatus s =
     (if s = ''completed'' then StatusCompleted
      else if s = ''failed'' then StatusFailed
      else if s = ''compensated'' then StatusCompensated
      else if s = ''aborted'' then StatusAborted
      else StatusRunning)"

definition status_IsTerminal :: "SagaStatus \<Rightarrow> bool" where
  "status_IsTerminal s \<longleftrightarrow> s \<noteq> StatusRunning"

section \<open>The transaction\<close>

text \<open>A row of \<open>saga.state\<close>; the step outputs are a \<open>jsonb\<close> object.\<close>

record saga_row =
  sg_name :: string
  sg_status :: string
  sg_completed_steps :: "string list"
  sg_step_outputs :: "(string, jobject) gomap"
  sg_current_step :: "string option"
  sg_failed_step :: "string option"

text \<open>\<open>tx_faults\<close> says, statement by statement, which fail; after its end none does.\<close>

record saga_tx =
  tx_rows :: "(uuid, saga_row) gomap"
  tx_outbox :: outbox
  tx_faults :: "string option list"
  tx_aborted :: bool

definition tx_stmt :: "saga_tx \<Rightarrow> string option \<times> saga_tx" where
  "tx_stmt tx =
     (if tx_aborted tx then (Some ''current transaction is aborted'', tx)
      else case tx_faults tx of
        [] \<Rightarrow> (None, tx)
      | f # fs \<Rightarrow> (f, tx\<lparr>tx_faults := fs, tx_aborted := f \<noteq> None\<rparr>))"

definition tx_update :: "saga_tx \<Rightarrow> uuid \<Rightarrow> (saga_row \<Rightarrow> saga_row) \<Rightarrow> string option \<times> saga_tx" where
  "tx_update tx i upd =
     (case tx_stmt tx of
        (Some e, tx') \<Rightarrow> (Some e, tx')
      | (None, tx') \<Rightarrow> (None, tx'\<lparr>tx_rows := (case gm_get (tx_rows tx') i of
            None \<Rightarrow> tx_rows tx' | Some row \<Rightarrow> gm_put (tx_rows tx') i (upd row))\<rparr>))"

text \<open>\<open>outbox.Enqueue\<close> issues one statement, and a second one unless the event is there already.\<close>

definition tx_enqueue :: "saga_tx \<Rightarrow> OutboxEvent \<Rightarrow> string option \<times> saga_tx" where
  "tx_enqueue tx ev =
     (let (fi, tx1) = tx_stmt tx;
          (fd, tx2) = (if fi = None \<and> gm_get (ob_events (tx_outbox tx)) (oe_EventID ev) = None then tx_stmt tx1 else (None, tx1));
          (err, ob) = Enqueue \<lparr>of_insert = fi, of_delete = fd\<rparr> (tx_outbox tx2) ev
      in (err, tx2\<lparr>tx_outbox := ob\<rparr>))"

section \<open>The runner\<close>

record ('i, 'o, 'w) SagaStep =
  ss_StepName :: string
  ss_Execute :: "'i \<Rightarrow> 'w \<Rightarrow> (SagaError + 'o) \<times> 'w"
  ss_Compensate :: "'i \<Rightarrow> 'w \<Rightarrow> SagaError option \<times> 'w"
  ss_Marshal :: "'o \<Rightarrow> string + jobject"
  ss_Unmarshal :: "jobject \<Rightarrow> string + 'o"

record 'w compensation =
  cn_stepName :: string
  cn_invoke :: "'w \<Rightarrow> SagaError option \<times> 'w"

record 'w SagaRunner =
  ru_tx :: saga_tx
  ru_sagaID :: uuid
  ru_name :: string
  ru_status :: SagaStatus
  ru_completedSteps :: "string list"
  ru_completedSet :: "(string, unit) gomap"
  ru_stepOutputs :: "(string, jobject) gomap"
  ru_compensations :: "'w compensation list"
  ru_events :: "SagaEvent list"

definition new_row :: "string \<Rightarrow> saga_row" where
  "new_row name = \<lparr>sg_name = name, sg_status = ''running'', sg_completed_steps = [], sg_step_outputs = [],
     sg_current_step = None, sg_failed_step = None\<rparr>"

definition Start :: "saga_tx \<Rightarrow> uuid \<Rightarrow> string \<Rightarrow> (SagaError + 'w SagaRunner) \<times> saga_tx" where
  "Start tx sagaID name =
     (case tx_stmt tx of
        (Some e, tx1) \<Rightarrow> (Inl (ErrDB e), tx1)
      | (None, tx1) \<Rightarrow>
        let tx2 = (if gm_get (tx_rows tx1) sagaID = None
                   then tx1\<lparr>tx_rows := gm_put (tx_rows tx1) sagaID (new_row name)\<rparr> else tx1)
        in case tx_stmt tx2 of
          (Some e, tx3) \<Rightarrow> (Inl (ErrDB e), tx3)
        | (None, tx3) \<Rightarrow>
          (case gm_get (tx_rows tx3) sagaID of
             None \<Rightarrow> (Inl (ErrDB ''no rows in result set''), tx3)
           | Some row \<Rightarrow>
             if status_IsTerminal (ParseSagaStatus (sg_status row)) then (Inl (ErrTerminal (sg_status row)), tx3)
             else (Inr \<lparr>ru_tx = tx3, ru_sagaID = sagaID, ru_name = name, ru_status = StatusRunning,
                       ru_completedSteps = sg_completed_steps row,
                       ru_completedSet = fold (\<lambda>s m. gm_put m s ()) (sg_completed_steps row) [],
                       ru_stepOutputs = sg_step_outputs row, ru_compensations = [], ru_events = []\<rparr>, tx3)))"

definition emit ::
  "uuid_lib \<Rightarrow> SagaEventKind \<Rightarrow> string \<Rightarrow> jobject \<Rightarrow> 'w SagaRunner \<Rightarrow> (SagaError + uuid) \<times> 'w SagaRunner" where
  "emit ul kind step payload r =
     (let idInput = ul_String ul (ru_sagaID r) @ '':'' @ step @ '':'' @ discriminator kind;
          eventID = ul_NewSHA1 ul NameSpaceOID idInput
      in case tx_enqueue (ru_tx r) (NewOutboxEvent eventID ''saga'' (ul_String ul (ru_sagaID r)) (Topic kind) (Raw payload)) of
           (Some e, tx) \<Rightarrow> (Inl (ErrOutbox e), r\<lparr>ru_tx := tx\<rparr>)
         | (None, tx) \<Rightarrow> (Inr eventID, r\<lparr>ru_tx := tx,
             ru_events := ru_events r @ [\<lparr>sv_Kind = kind, sv_StepName = step, sv_EventID = eventID\<rparr>]\<rparr>))"

definition setStatus :: "SagaStatus \<Rightarrow> string \<Rightarrow> 'w SagaRunner \<Rightarrow> SagaError option \<times> 'w SagaRunner" where
  "setStatus status failedStep r =
     (case tx_update (ru_tx r) (ru_sagaID r) (\<lambda>row. row\<lparr>sg_status := status_string status,
             sg_failed_step := (if failedStep \<noteq> [] then Some failedStep else sg_failed_step row), sg_current_step := None\<rparr>) of
        (Some e, tx) \<Rightarrow> (Some (ErrDB e), r\<lparr>ru_tx := tx\<rparr>)
      | (None, tx) \<Rightarrow> (None, r\<lparr>ru_tx := tx, ru_status := status\<rparr>))"

text \<open>The payloads of the events; each is a struct of text and ids, which always encodes.\<close>

definition saga_fields :: "'w SagaRunner \<Rightarrow> jobject" where
  "saga_fields r = [(''saga_id'', FUuid (ru_sagaID r)), (''saga'', FText (ru_name r))]"

definition completed_payload :: "'w SagaRunner \<Rightarrow> string \<Rightarrow> jobject \<Rightarrow> jobject" where
  "completed_payload r step output = saga_fields r @ [(''step'', FText step), (''output'', FObj output)]"

definition failed_payload :: "'w SagaRunner \<Rightarrow> string \<Rightarrow> string \<Rightarrow> jobject" where
  "failed_payload r step err = saga_fields r @ [(''step'', FText step), (''error'', FText err)]"

definition compensated_payload :: "'w SagaRunner \<Rightarrow> string \<Rightarrow> jobject" where
  "compensated_payload r step = saga_fields r @ [(''step'', FText step)]"

text \<open>The chain is given in the order in which it is undone.\<close>

fun comp_loop ::
  "uuid_lib \<Rightarrow> 'w compensation list \<Rightarrow> 'w SagaRunner \<Rightarrow> 'w \<Rightarrow> bool \<Rightarrow> (bool \<times> SagaError option) \<times> 'w SagaRunner \<times> 'w" where
  "comp_loop ul [] r w ranAny = ((ranAny, None), r, w)"
| "comp_loop ul (c # chain) r w ranAny =
     (case cn_invoke c w of
        (Some _, w') \<Rightarrow> comp_loop ul chain r w' ranAny
      | (None, w') \<Rightarrow>
        (case emit ul EventStepCompensated (cn_stepName c) (compensated_payload r (cn_stepName c)) r of
           (Inl e, r') \<Rightarrow> ((ranAny, Some e), r', w')
         | (Inr _, r') \<Rightarrow> comp_loop ul chain r' w' True))"

definition runCompensations :: "uuid_lib \<Rightarrow> 'w SagaRunner \<Rightarrow> 'w \<Rightarrow> (bool \<times> SagaError option) \<times> 'w SagaRunner \<times> 'w" where
  "runCompensations ul r w = comp_loop ul (rev (ru_compensations r)) (r\<lparr>ru_compensations := []\<rparr>) w False"

definition step_done :: "uuid_lib \<Rightarrow> ('i, 'o, 'w) SagaStep \<Rightarrow> 'i \<Rightarrow> 'o \<Rightarrow> 'w SagaRunner \<Rightarrow> (SagaError + 'o) \<times> 'w SagaRunner" where
  "step_done ul step input output r =
     (let stepName = ss_StepName step
      in case ss_Marshal step output of
           Inl e \<Rightarrow> (Inl (ErrSerialize e), r)
         | Inr outputJSON \<Rightarrow>
           (case emit ul EventStepCompleted stepName (completed_payload r stepName outputJSON) r of
              (Inl e, r1) \<Rightarrow> (Inl e, r1)
            | (Inr _, r1) \<Rightarrow>
              (case tx_update (ru_tx r1) (ru_sagaID r1) (\<lambda>row. row\<lparr>sg_completed_steps := sg_completed_steps row @ [stepName],
                      sg_step_outputs := gm_put (sg_step_outputs row) stepName outputJSON, sg_current_step := None\<rparr>) of
                 (Some e, tx) \<Rightarrow> (Inl (ErrDB e), r1\<lparr>ru_tx := tx\<rparr>)
               | (None, tx) \<Rightarrow>
                 (Inr output, r1\<lparr>ru_tx := tx, ru_completedSteps := ru_completedSteps r1 @ [stepName],
                    ru_completedSet := gm_put (ru_completedSet r1) stepName (),
                    ru_stepOutputs := gm_put (ru_stepOutputs r1) stepName outputJSON,
                    ru_compensations := ru_compensations r1 @ [\<lparr>cn_stepName = stepName, cn_invoke = ss_Compensate step input\<rparr>]\<rparr>))))"

definition step_failed :: "uuid_lib \<Rightarrow> string \<Rightarrow> SagaError \<Rightarrow> 'w SagaRunner \<Rightarrow> 'w \<Rightarrow> (SagaError + 'o) \<times> 'w SagaRunner \<times> 'w" where
  "step_failed ul stepName execErr r w =
     (case emit ul EventStepFailed stepName (failed_payload r stepName (SagaError_Error execErr)) r of
        (Inl e, r1) \<Rightarrow> (Inl e, r1, w)
      | (Inr _, r1) \<Rightarrow>
        (case runCompensations ul r1 w of
           ((_, Some e), r2, w') \<Rightarrow> (Inl e, r2, w')
         | ((ranAny, None), r2, w') \<Rightarrow>
           (case setStatus (if ranAny then StatusCompensated else StatusFailed) stepName r2 of
              (Some e, r3) \<Rightarrow> (Inl e, r3, w')
            | (None, r3) \<Rightarrow> (Inl execErr, r3, w'))))"

definition ExecuteStep ::
  "uuid_lib \<Rightarrow> ('i, 'o, 'w) SagaStep \<Rightarrow> 'i \<Rightarrow> 'w SagaRunner \<Rightarrow> 'w \<Rightarrow> (SagaError + 'o) \<times> 'w SagaRunner \<times> 'w" where
  "ExecuteStep ul step input r w =
     (let stepName = ss_StepName step
      in if status_IsTerminal (ru_status r) then (Inl (ErrTerminal (status_string (ru_status r))), r, w)
         else if gm_get (ru_completedSet r) stepName \<noteq> None
         then (case gm_get (ru_stepOutputs r) stepName of
                 None \<Rightarrow> (Inl (ErrStepFailure stepName ''step marked complete but no cached output''), r, w)
               | Some cached \<Rightarrow>
                 (case ss_Unmarshal step cached of
                    Inl e \<Rightarrow> (Inl (ErrSerialize e), r, w)
                  | Inr out \<Rightarrow> (Inr out, r, w)))
         else case tx_update (ru_tx r) (ru_sagaID r) (\<lambda>row. row\<lparr>sg_current_step := Some stepName\<rparr>) of
           (Some e, tx) \<Rightarrow> (Inl (ErrDB e), r\<lparr>ru_tx := tx\<rparr>, w)
         | (None, tx) \<Rightarrow>
           let r1 = r\<lparr>ru_tx := tx\<rparr>
           in case ss_Execute step input w of
             (Inr output, w1) \<Rightarrow> (case step_done ul step input output r1 of (res, r2) \<Rightarrow> (res, r2, w1))
           | (Inl execErr, w1) \<Rightarrow> step_failed ul stepName execErr r1 w1)"

definition Finish :: "uuid_lib \<Rightarrow> 'w SagaRunner \<Rightarrow> SagaError option \<times> 'w SagaRunner" where
  "Finish ul r =
     (if status_IsTerminal (ru_status r) then (Some (ErrTerminal (status_string (ru_status r))), r)
      else case emit ul EventSagaCompleted [] (saga_fields r @ [(''completed_steps'', FTexts (ru_completedSteps r))]) r of
        (Inl e, r1) \<Rightarrow> (Some e, r1)
      | (Inr _, r1) \<Rightarrow> setStatus StatusCompleted [] r1)"

definition Abort :: "uuid_lib \<Rightarrow> 'w SagaRunner \<Rightarrow> 'w \<Rightarrow> SagaError option \<times> 'w SagaRunner \<times> 'w" where
  "Abort ul r w =
     (if status_IsTerminal (ru_status r) then (Some (ErrTerminal (status_string (ru_status r))), r, w)
      else case runCompensations ul r w of
        ((_, Some e), r1, w') \<Rightarrow> (Some e, r1, w')
      | ((_, None), r1, w') \<Rightarrow>
        (case emit ul EventSagaAborted [] (saga_fields r1) r1 of
           (Inl e, r2) \<Rightarrow> (Some e, r2, w')
         | (Inr _, r2) \<Rightarrow> (case setStatus StatusAborted [] r2 of (res, r3) \<Rightarrow> (res, r3, w'))))"

section \<open>What the runner should do\<close>

text \<open>Steps with their inputs, executed one after the other, as the dispatchers of the services do.\<close>

type_synonym ('i, 'o, 'w) step_list = "(('i, 'o, 'w) SagaStep \<times> 'i) list"

fun run_steps ::
  "uuid_lib \<Rightarrow> ('i, 'o, 'w) step_list \<Rightarrow> 'w SagaRunner \<Rightarrow> 'w \<Rightarrow> (SagaError + 'o list) \<times> 'w SagaRunner \<times> 'w" where
  "run_steps ul [] r w = (Inr [], r, w)"
| "run_steps ul ((s, i) # ss) r w =
     (case ExecuteStep ul s i r w of
        (Inl e, r', w') \<Rightarrow> (Inl e, r', w')
      | (Inr out, r', w') \<Rightarrow>
        (case run_steps ul ss r' w' of
           (Inl e, r'', w'') \<Rightarrow> (Inl e, r'', w'')
         | (Inr outs, r'', w'') \<Rightarrow> (Inr (out # outs), r'', w'')))"

text \<open>
  The same without a runner: the outputs of the steps that succeed, the first failure, and the world;
  and the compensations of a list of steps, in the order of the list, with the names of those that
  succeed.
\<close>

fun forward :: "('i, 'o, 'w) step_list \<Rightarrow> 'w \<Rightarrow> 'o list \<times> (string \<times> SagaError) option \<times> 'w" where
  "forward [] w = ([], None, w)"
| "forward ((s, i) # ss) w =
     (case ss_Execute s i w of
        (Inl e, w') \<Rightarrow> ([], Some (ss_StepName s, e), w')
      | (Inr out, w') \<Rightarrow> (case forward ss w' of (outs, f, w'') \<Rightarrow> (out # outs, f, w'')))"

fun undo :: "'w compensation list \<Rightarrow> 'w \<Rightarrow> string list \<times> 'w" where
  "undo [] w = ([], w)"
| "undo (c # cs) w =
     (case cn_invoke c w of
        (Some _, w') \<Rightarrow> undo cs w'
      | (None, w') \<Rightarrow> (case undo cs w' of (names, w'') \<Rightarrow> (cn_stepName c # names, w'')))"

definition comp_of :: "('i, 'o, 'w) SagaStep \<times> 'i \<Rightarrow> 'w compensation" where
  "comp_of si = \<lparr>cn_stepName = ss_StepName (fst si), cn_invoke = ss_Compensate (fst si) (snd si)\<rparr>"

abbreviation step_names :: "('i, 'o, 'w) step_list \<Rightarrow> string list" where
  "step_names \<equiv> map (\<lambda>si. ss_StepName (fst si))"

text \<open>A transaction in which no statement fails, between two calls that use the outbox.\<close>

definition calm :: "saga_tx \<Rightarrow> bool" where
  "calm tx \<longleftrightarrow> tx_faults tx = [] \<and> \<not> tx_aborted tx \<and> ob_events (tx_outbox tx) = []"

definition history :: "'w SagaRunner \<Rightarrow> (SagaEventKind \<times> string) list" where
  "history r = map (\<lambda>e. (sv_Kind e, sv_StepName e)) (ru_events r)"

text \<open>The events of the runner are what its transaction added to the outbox log \<open>base\<close>.\<close>

definition logged :: "OutboxEvent list \<Rightarrow> 'w SagaRunner \<Rightarrow> bool" where
  "logged base r \<longleftrightarrow> (\<exists>evs. ob_wal (tx_outbox (ru_tx r)) = base @ evs \<and>
     map (\<lambda>e. (oe_EventID e, oe_Topic e)) evs = map (\<lambda>e. (sv_EventID e, Topic (sv_Kind e))) (ru_events r))"

definition row_of :: "'w SagaRunner \<Rightarrow> saga_row option" where
  "row_of r = gm_get (tx_rows (ru_tx r)) (ru_sagaID r)"

definition runner_ok :: "OutboxEvent list \<Rightarrow> 'w SagaRunner \<Rightarrow> bool" where
  "runner_ok base r \<longleftrightarrow> calm (ru_tx r) \<and> logged base r \<and> ru_status r = StatusRunning \<and>
     set (gm_keys (ru_completedSet r)) = set (ru_completedSteps r) \<and>
     (\<exists>row. row_of r = Some row \<and> sg_status row = ''running'' \<and>
        sg_completed_steps row = ru_completedSteps r \<and> sg_step_outputs row = ru_stepOutputs r)"

section \<open>Statements that do not fail\<close>

lemma calm_stmt [simp]: "calm tx \<Longrightarrow> tx_stmt tx = (None, tx)"
  by (simp add: calm_def tx_stmt_def)

lemma calm_rows [simp]: "calm (tx\<lparr>tx_rows := rows\<rparr>) = calm tx"
  by (simp add: calm_def)

lemma calm_update:
  "calm tx \<Longrightarrow> tx_update tx i upd = (None, tx\<lparr>tx_rows := (case gm_get (tx_rows tx) i of
      None \<Rightarrow> tx_rows tx | Some row \<Rightarrow> gm_put (tx_rows tx) i (upd row))\<rparr>)"
  by (simp add: tx_update_def)

lemma calm_enqueue:
  assumes "calm tx" "oe_Payload ev = Raw p"
  shows "tx_enqueue tx ev = (None, tx\<lparr>tx_outbox := (tx_outbox tx)\<lparr>ob_wal := ob_wal (tx_outbox tx) @ [ev]\<rparr>\<rparr>)"
proof -
  have "ob_events (tx_outbox tx) = []" using assms(1) by (simp add: calm_def)
  then show ?thesis using assms Enqueue_succeeds [of "\<lparr>of_insert = None, of_delete = None\<rparr>" ev p "tx_outbox tx"]
    by (simp add: tx_enqueue_def)
qed

text \<open>What an emitted event leaves as it was.\<close>

lemma emit_calm:
  assumes "calm (ru_tx r)" "logged base r"
  obtains i tx where "emit ul kind step payload r = (Inr i, r\<lparr>ru_tx := tx,
      ru_events := ru_events r @ [\<lparr>sv_Kind = kind, sv_StepName = step, sv_EventID = i\<rparr>]\<rparr>)"
    "calm tx" "tx_rows tx = tx_rows (ru_tx r)"
    "logged base (r\<lparr>ru_tx := tx, ru_events := ru_events r @ [\<lparr>sv_Kind = kind, sv_StepName = step, sv_EventID = i\<rparr>]\<rparr>)"
proof -
  define i where "i = ul_NewSHA1 ul NameSpaceOID (ul_String ul (ru_sagaID r) @ '':'' @ step @ '':'' @ discriminator kind)"
  define ev where "ev = NewOutboxEvent i ''saga'' (ul_String ul (ru_sagaID r)) (Topic kind) (Raw payload)"
  define tx where "tx = (ru_tx r)\<lparr>tx_outbox := (tx_outbox (ru_tx r))\<lparr>ob_wal := ob_wal (tx_outbox (ru_tx r)) @ [ev]\<rparr>\<rparr>"
  have "tx_enqueue (ru_tx r) ev = (None, tx)"
    unfolding tx_def by (rule calm_enqueue [OF assms(1)]) (simp add: ev_def NewOutboxEvent_def)
  then have 1: "emit ul kind step payload r = (Inr i, r\<lparr>ru_tx := tx,
      ru_events := ru_events r @ [\<lparr>sv_Kind = kind, sv_StepName = step, sv_EventID = i\<rparr>]\<rparr>)"
    unfolding emit_def Let_def i_def [symmetric] ev_def [symmetric] by simp
  obtain evs where "ob_wal (tx_outbox (ru_tx r)) = base @ evs"
    "map (\<lambda>e. (oe_EventID e, oe_Topic e)) evs = map (\<lambda>e. (sv_EventID e, Topic (sv_Kind e))) (ru_events r)"
    using assms(2) by (auto simp: logged_def)
  then have "logged base (r\<lparr>ru_tx := tx, ru_events := ru_events r @ [\<lparr>sv_Kind = kind, sv_StepName = step, sv_EventID = i\<rparr>]\<rparr>)"
    by (auto simp: logged_def tx_def ev_def NewOutboxEvent_def intro!: exI [of _ "evs @ [ev]"])
  moreover have "calm tx" "tx_rows tx = tx_rows (ru_tx r)" using assms(1) by (simp_all add: tx_def calm_def)
  ultimately show thesis using 1 that by blast
qed

lemma comp_loop_calm:
  assumes "calm (ru_tx r)" "logged base r"
  shows "\<exists>r'. comp_loop ul cs r w b = ((b \<or> fst (undo cs w) \<noteq> [], None), r', snd (undo cs w)) \<and>
     r' = r\<lparr>ru_tx := ru_tx r', ru_events := ru_events r'\<rparr> \<and> calm (ru_tx r') \<and> logged base r' \<and>
     tx_rows (ru_tx r') = tx_rows (ru_tx r) \<and> history r' = history r @ map (Pair EventStepCompensated) (fst (undo cs w))"
  using assms
proof (induction cs arbitrary: r w b)
  case (Cons c cs)
  obtain e w' where inv: "cn_invoke c w = (e, w')" by fastforce
  show ?case
  proof (cases e)
    case None
    obtain i tx where em: "emit ul EventStepCompensated (cn_stepName c) (compensated_payload r (cn_stepName c)) r = (Inr i, r\<lparr>ru_tx := tx,
        ru_events := ru_events r @ [\<lparr>sv_Kind = EventStepCompensated, sv_StepName = cn_stepName c, sv_EventID = i\<rparr>]\<rparr>)"
      and tx: "calm tx" "tx_rows tx = tx_rows (ru_tx r)"
      and lg: "logged base (r\<lparr>ru_tx := tx, ru_events := ru_events r @ [\<lparr>sv_Kind = EventStepCompensated, sv_StepName = cn_stepName c, sv_EventID = i\<rparr>]\<rparr>)"
      by (rule emit_calm [OF Cons.prems])
    let ?r = "r\<lparr>ru_tx := tx, ru_events := ru_events r @ [\<lparr>sv_Kind = EventStepCompensated, sv_StepName = cn_stepName c, sv_EventID = i\<rparr>]\<rparr>"
    have "calm (ru_tx ?r)" using tx(1) by simp
    from Cons.IH [OF this lg, of w' True] obtain r' where r': "comp_loop ul cs ?r w' True = ((True, None), r', snd (undo cs w'))"
      "r' = ?r\<lparr>ru_tx := ru_tx r', ru_events := ru_events r'\<rparr>" "calm (ru_tx r')" "logged base r'"
      "tx_rows (ru_tx r') = tx_rows (ru_tx ?r)"
      "history r' = history ?r @ map (Pair EventStepCompensated) (fst (undo cs w'))" by auto
    have "r' = r\<lparr>ru_tx := ru_tx r', ru_events := ru_events r'\<rparr>" using r'(2) by simp
    with r' None inv em tx show ?thesis by (auto simp: history_def split: prod.splits)
  next
    case (Some x)
    with inv Cons.IH [OF Cons.prems, of w' b] show ?thesis by simp
  qed
qed (auto simp: history_def)

lemma setStatus_calm:
  assumes "calm (ru_tx r)" "row_of r = Some row"
  obtains r' row' where "setStatus st f r = (None, r')" "r' = r\<lparr>ru_tx := ru_tx r', ru_status := st\<rparr>" "calm (ru_tx r')"
    "tx_outbox (ru_tx r') = tx_outbox (ru_tx r)" "row_of r' = Some row'" "sg_status row' = status_string st"
    "sg_completed_steps row' = sg_completed_steps row"
  using assms that by (fastforce simp: setStatus_def calm_update row_of_def)

text \<open>How a saga that failed at a step looks: \<open>names\<close> are the steps that were undone.\<close>

definition failed_after :: "OutboxEvent list \<Rightarrow> string list \<Rightarrow> 'w SagaRunner \<Rightarrow> bool" where
  "failed_after base names r \<longleftrightarrow> calm (ru_tx r) \<and> logged base r \<and>
     ru_status r = (if names = [] then StatusFailed else StatusCompensated) \<and>
     (\<exists>row. row_of r = Some row \<and> sg_status row = status_string (ru_status r) \<and> sg_completed_steps row = ru_completedSteps r)"

lemma step_failed_calm:
  fixes r :: "'w SagaRunner" and w :: 'w
  assumes "runner_ok base r"
  defines "names \<equiv> fst (undo (rev (ru_compensations r)) w)"
  shows "\<exists>r'. step_failed ul f e r w = (Inl e, r', snd (undo (rev (ru_compensations r)) w)) \<and> failed_after base names r' \<and>
     ru_completedSteps r' = ru_completedSteps r \<and> ru_sagaID r' = ru_sagaID r \<and>
     history r' = history r @ (EventStepFailed, f) # map (Pair EventStepCompensated) names"
proof -
  obtain row where row: "row_of r = Some row" "sg_completed_steps row = ru_completedSteps r"
    and c: "calm (ru_tx r)" "logged base r"
    using assms(1) by (auto simp: runner_ok_def)
  obtain i tx where em: "emit ul EventStepFailed f (failed_payload r f (SagaError_Error e)) r = (Inr i, r\<lparr>ru_tx := tx,
        ru_events := ru_events r @ [\<lparr>sv_Kind = EventStepFailed, sv_StepName = f, sv_EventID = i\<rparr>]\<rparr>)"
      and tx: "calm tx" "tx_rows tx = tx_rows (ru_tx r)"
      and lg: "logged base (r\<lparr>ru_tx := tx, ru_events := ru_events r @ [\<lparr>sv_Kind = EventStepFailed, sv_StepName = f, sv_EventID = i\<rparr>]\<rparr>)"
    by (rule emit_calm [OF c])
  define r1 where "r1 = r\<lparr>ru_tx := tx, ru_events := ru_events r @ [\<lparr>sv_Kind = EventStepFailed, sv_StepName = f, sv_EventID = i\<rparr>]\<rparr>"
  have "calm (ru_tx (r1\<lparr>ru_compensations := []\<rparr>))" "logged base (r1\<lparr>ru_compensations := []\<rparr>)"
    using tx(1) lg by (simp_all add: r1_def logged_def)
  from comp_loop_calm [OF this, of ul "rev (ru_compensations r)" w False]
  obtain r2 where r2: "runCompensations ul r1 w = ((names \<noteq> [], None), r2, snd (undo (rev (ru_compensations r)) w))"
    "r2 = r1\<lparr>ru_compensations := [], ru_tx := ru_tx r2, ru_events := ru_events r2\<rparr>" "calm (ru_tx r2)" "logged base r2"
    "tx_rows (ru_tx r2) = tx_rows (ru_tx r1)" "history r2 = history r1 @ map (Pair EventStepCompensated) names"
    by (auto simp: runCompensations_def r1_def names_def history_def)
  have same: "ru_sagaID r2 = ru_sagaID r" "ru_completedSteps r2 = ru_completedSteps r"
    by (subst r2(2), simp add: r1_def)+
  then have "row_of r2 = Some row" using row(1) r2(5) tx(2) by (simp add: row_of_def r1_def)
  then obtain r3 row' where r3: "setStatus (if names \<noteq> [] then StatusCompensated else StatusFailed) f r2 = (None, r3)"
    "r3 = r2\<lparr>ru_tx := ru_tx r3, ru_status := if names \<noteq> [] then StatusCompensated else StatusFailed\<rparr>" "calm (ru_tx r3)"
    "tx_outbox (ru_tx r3) = tx_outbox (ru_tx r2)" "row_of r3 = Some row'"
    "sg_status row' = status_string (if names \<noteq> [] then StatusCompensated else StatusFailed)"
    "sg_completed_steps row' = sg_completed_steps row"
    using setStatus_calm [OF r2(3)] by metis
  have eq: "ru_events r3 = ru_events r2" "ru_completedSteps r3 = ru_completedSteps r" "ru_sagaID r3 = ru_sagaID r"
    "ru_status r3 = (if names \<noteq> [] then StatusCompensated else StatusFailed)"
    by (subst r3(2), simp add: same)+
  have "step_failed ul f e r w = (Inl e, r3, snd (undo (rev (ru_compensations r)) w))"
    using em r2(1) r3(1) by (simp add: step_failed_def r1_def)
  moreover have "failed_after base names r3"
    using r3(3-7) r2(4) eq row(2) by (auto simp: failed_after_def logged_def)
  moreover have "history r3 = history r @ (EventStepFailed, f) # map (Pair EventStepCompensated) names"
    using r2(6) eq(1) by (simp add: history_def r1_def)
  ultimately show ?thesis using eq(2,3) by blast
qed

lemma step_done_calm:
  assumes "runner_ok base r" "ss_Marshal step out = Inr j"
  shows "\<exists>r'. step_done ul step input out r = (Inr out, r') \<and> runner_ok base r' \<and>
     ru_completedSteps r' = ru_completedSteps r @ [ss_StepName step] \<and>
     ru_stepOutputs r' = gm_put (ru_stepOutputs r) (ss_StepName step) j \<and>
     ru_compensations r' = ru_compensations r @ [comp_of (step, input)] \<and>
     history r' = history r @ [(EventStepCompleted, ss_StepName step)] \<and> ru_sagaID r' = ru_sagaID r"
proof -
  obtain row where row: "row_of r = Some row" "sg_status row = ''running''" "sg_completed_steps row = ru_completedSteps r"
      "sg_step_outputs row = ru_stepOutputs r"
    and c: "calm (ru_tx r)" "logged base r" "ru_status r = StatusRunning"
      "set (gm_keys (ru_completedSet r)) = set (ru_completedSteps r)"
    using assms(1) by (auto simp: runner_ok_def)
  obtain i tx where em: "emit ul EventStepCompleted (ss_StepName step) (completed_payload r (ss_StepName step) j) r = (Inr i, r\<lparr>ru_tx := tx,
        ru_events := ru_events r @ [\<lparr>sv_Kind = EventStepCompleted, sv_StepName = ss_StepName step, sv_EventID = i\<rparr>]\<rparr>)"
      and tx: "calm tx" "tx_rows tx = tx_rows (ru_tx r)"
      and lg: "logged base (r\<lparr>ru_tx := tx, ru_events := ru_events r @ [\<lparr>sv_Kind = EventStepCompleted, sv_StepName = ss_StepName step, sv_EventID = i\<rparr>]\<rparr>)"
    by (rule emit_calm [OF c(1,2)])
  have get: "gm_get (tx_rows tx) (ru_sagaID r) = Some row" using row(1) tx(2) by (simp add: row_of_def)
  let ?row = "row\<lparr>sg_completed_steps := sg_completed_steps row @ [ss_StepName step],
      sg_step_outputs := gm_put (sg_step_outputs row) (ss_StepName step) j, sg_current_step := None\<rparr>"
  define r' where "r' = r\<lparr>ru_tx := tx\<lparr>tx_rows := gm_put (tx_rows tx) (ru_sagaID r) ?row\<rparr>,
      ru_events := ru_events r @ [\<lparr>sv_Kind = EventStepCompleted, sv_StepName = ss_StepName step, sv_EventID = i\<rparr>],
      ru_completedSteps := ru_completedSteps r @ [ss_StepName step], ru_completedSet := gm_put (ru_completedSet r) (ss_StepName step) (),
      ru_stepOutputs := gm_put (ru_stepOutputs r) (ss_StepName step) j, ru_compensations := ru_compensations r @ [comp_of (step, input)]\<rparr>"
  have "step_done ul step input out r = (Inr out, r')"
    using em assms(2) tx(1) get by (simp add: step_done_def Let_def calm_update r'_def comp_of_def)
  moreover have "runner_ok base r'"
    using tx(1) lg row(2-4) c(3,4) by (simp add: runner_ok_def row_of_def logged_def r'_def)
  ultimately show ?thesis by (simp add: r'_def history_def)
qed

text \<open>One call on a step that is not recorded yet.\<close>

lemma ExecuteStep_new:
  assumes "runner_ok base r" "ss_StepName step \<notin> set (ru_completedSteps r)"
  obtains r1 where "runner_ok base r1" "history r1 = history r" "ru_compensations r1 = ru_compensations r" "ru_sagaID r1 = ru_sagaID r"
    "ru_completedSteps r1 = ru_completedSteps r" "ru_stepOutputs r1 = ru_stepOutputs r"
    "ExecuteStep ul step input r w = (case ss_Execute step input w of
       (Inr out, w1) \<Rightarrow> (case step_done ul step input out r1 of (res, r2) \<Rightarrow> (res, r2, w1))
     | (Inl e, w1) \<Rightarrow> step_failed ul (ss_StepName step) e r1 w1)"
proof -
  obtain row where row: "row_of r = Some row" and c: "calm (ru_tx r)" "ru_status r = StatusRunning"
      "set (gm_keys (ru_completedSet r)) = set (ru_completedSteps r)"
    using assms(1) by (auto simp: runner_ok_def)
  define r1 where "r1 = r\<lparr>ru_tx := (ru_tx r)\<lparr>tx_rows :=
      gm_put (tx_rows (ru_tx r)) (ru_sagaID r) (row\<lparr>sg_current_step := Some (ss_StepName step)\<rparr>)\<rparr>\<rparr>"
  have "gm_get (ru_completedSet r) (ss_StepName step) = None" using assms(2) c(3) by (simp add: gm_get_None_iff)
  then have "ExecuteStep ul step input r w = (case ss_Execute step input w of
       (Inr out, w1) \<Rightarrow> (case step_done ul step input out r1 of (res, r2) \<Rightarrow> (res, r2, w1))
     | (Inl e, w1) \<Rightarrow> step_failed ul (ss_StepName step) e r1 w1)"
    unfolding r1_def using c row by (simp add: ExecuteStep_def Let_def calm_update row_of_def status_IsTerminal_def)
  moreover have "runner_ok base r1" using assms(1) row by (auto simp: runner_ok_def row_of_def r1_def logged_def)
  moreover have "history r1 = history r" "ru_compensations r1 = ru_compensations r" "ru_sagaID r1 = ru_sagaID r"
    "ru_completedSteps r1 = ru_completedSteps r" "ru_stepOutputs r1 = ru_stepOutputs r"
    by (simp_all add: r1_def history_def)
  ultimately show thesis using that by blast
qed

text \<open>All outputs that the steps of a list can give can be encoded.\<close>

definition encodable :: "('i, 'o, 'w) step_list \<Rightarrow> bool" where
  "encodable steps \<longleftrightarrow> (\<forall>(s, i) \<in> set steps. \<forall>w out w'. ss_Execute s i w = (Inr out, w') \<longrightarrow> (\<exists>j. ss_Marshal s out = Inr j))"

lemma run_steps_spec:
  assumes "runner_ok base r" "distinct (step_names steps)" "set (step_names steps) \<inter> set (ru_completedSteps r) = {}" "encodable steps"
    and "forward steps w = (outs, f, w1)"
  defines "done \<equiv> take (length outs) steps"
  shows "case f of
      None \<Rightarrow> \<exists>r'. run_steps ul steps r w = (Inr outs, r', w1) \<and> runner_ok base r' \<and> ru_sagaID r' = ru_sagaID r \<and>
        ru_completedSteps r' = ru_completedSteps r @ step_names steps \<and>
        history r' = history r @ map (Pair EventStepCompleted) (step_names steps) \<and>
        (\<forall>n. n \<notin> set (step_names steps) \<longrightarrow> gm_get (ru_stepOutputs r') n = gm_get (ru_stepOutputs r) n) \<and>
        list_all2 (\<lambda>(s, i) out. \<exists>j. ss_Marshal s out = Inr j \<and> gm_get (ru_stepOutputs r') (ss_StepName s) = Some j) steps outs
    | Some (n, e) \<Rightarrow> \<exists>r' names w2. undo (rev (ru_compensations r @ map comp_of done)) w1 = (names, w2) \<and>
        run_steps ul steps r w = (Inl e, r', w2) \<and> failed_after base names r' \<and> ru_sagaID r' = ru_sagaID r \<and> ru_completedSteps r' = ru_completedSteps r @ step_names done \<and>
        history r' = history r @ map (Pair EventStepCompleted) (step_names done) @ (EventStepFailed, n) # map (Pair EventStepCompensated) names"
  using assms(1-5) unfolding done_def
proof (induction steps arbitrary: r w outs)
  case Nil
  then show ?case by auto
next
  case (Cons si steps)
  obtain s i where si: "si = (s, i)" by fastforce
  obtain r1 where r1: "runner_ok base r1" "history r1 = history r" "ru_compensations r1 = ru_compensations r" "ru_sagaID r1 = ru_sagaID r"
    "ru_completedSteps r1 = ru_completedSteps r" "ru_stepOutputs r1 = ru_stepOutputs r"
    "ExecuteStep ul s i r w = (case ss_Execute s i w of
       (Inr out, w1) \<Rightarrow> (case step_done ul s i out r1 of (res, r2) \<Rightarrow> (res, r2, w1))
     | (Inl e, w1) \<Rightarrow> step_failed ul (ss_StepName s) e r1 w1)"
    by (rule ExecuteStep_new [of base r s ul i w]) (use Cons.prems(1,3) si in auto)
  obtain ex w' where ex: "ss_Execute s i w = (ex, w')" by fastforce
  show ?case
  proof (cases ex)
    case (Inl e)
    obtain names w2 where u: "undo (rev (ru_compensations r)) w' = (names, w2)" by fastforce
    have "outs = []" "f = Some (ss_StepName s, e)" "w1 = w'" using Cons.prems(5) ex Inl si by auto
    moreover obtain r' where "ExecuteStep ul s i r w = (Inl e, r', w2)" "failed_after base names r'"
      "ru_completedSteps r' = ru_completedSteps r1" "ru_sagaID r' = ru_sagaID r1"
      "history r' = history r1 @ (EventStepFailed, ss_StepName s) # map (Pair EventStepCompensated) names"
      using step_failed_calm [OF r1(1), where w = w' and ul = ul and f = "ss_StepName s" and e = e] u r1(3,7) ex Inl by auto
    ultimately show ?thesis using u si ex Inl r1 by simp
  next
    case (Inr out)
    obtain outs' where fw: "forward steps w' = (outs', f, w1)" "outs = out # outs'"
      using Cons.prems(5) ex Inr si by (auto split: prod.splits)
    obtain j where j: "ss_Marshal s out = Inr j" using Cons.prems(4) ex Inr unfolding encodable_def si by (simp, blast)
    obtain r2 where r2: "step_done ul s i out r1 = (Inr out, r2)" "runner_ok base r2"
     "ru_completedSteps r2 = ru_completedSteps r @ [ss_StepName s]" "ru_stepOutputs r2 = gm_put (ru_stepOutputs r) (ss_StepName s) j"
     "ru_compensations r2 = ru_compensations r @ [comp_of (s, i)]"
     "history r2 = history r @ [(EventStepCompleted, ss_StepName s)]" "ru_sagaID r2 = ru_sagaID r"
      using step_done_calm [OF r1(1) j, of ul i] r1(2-6) by auto
    have "ExecuteStep ul s i r w = (Inr out, r2, w')" using r1(7) ex Inr r2(1) by simp
    moreover have "set (step_names steps) \<inter> set (ru_completedSteps r2) = {}" "encodable steps"
      using Cons.prems(2-4) r2(3) si by (auto simp: encodable_def)
    note IH = Cons.IH [OF r2(2) _ this fw(1)]
    have n: "ss_StepName s \<notin> set (step_names steps)" using Cons.prems(2) si by simp
    ultimately show ?thesis using IH Cons.prems(2) si fw(2) r2(3-7) j by (cases f) auto
  qed
qed

lemma Start_new:
  assumes "calm tx" "gm_get (tx_rows tx) sid = None"
  obtains r where "Start tx sid name = (Inr r, ru_tx r)" "runner_ok (ob_wal (tx_outbox tx)) r" "ru_sagaID r = sid"
    "ru_completedSteps r = []" "ru_compensations r = []" "history r = []"
    "ru_tx r = tx\<lparr>tx_rows := gm_put (tx_rows tx) sid (new_row name)\<rparr>"
  using assms that
  by (fastforce simp: Start_def Let_def new_row_def ParseSagaStatus_def status_IsTerminal_def runner_ok_def logged_def row_of_def history_def)

lemma completed_set_keys: "set (gm_keys (fold (\<lambda>s m. gm_put m s ()) steps m)) = set steps \<union> set (gm_keys m)"
  by (induction steps arbitrary: m) auto

lemma Start_again:
  assumes "calm tx" "gm_get (tx_rows tx) sid = Some row" "sg_status row = ''running''"
  obtains r where "Start tx sid name = (Inr r, tx)" "ru_tx r = tx" "ru_status r = StatusRunning"
    "set (gm_keys (ru_completedSet r)) = set (sg_completed_steps row)" "ru_stepOutputs r = sg_step_outputs row" "ru_events r = []"
proof -
  have "Start tx sid name = (Inr \<lparr>ru_tx = tx, ru_sagaID = sid, ru_name = name, ru_status = StatusRunning,
      ru_completedSteps = sg_completed_steps row, ru_completedSet = fold (\<lambda>s m. gm_put m s ()) (sg_completed_steps row) [],
      ru_stepOutputs = sg_step_outputs row, ru_compensations = [], ru_events = []\<rparr>, tx)"
    using assms by (simp add: Start_def ParseSagaStatus_def status_IsTerminal_def)
  then show thesis by (rule that) (simp_all add: completed_set_keys)
qed

lemma run_steps_cached:
  assumes "ru_status r = StatusRunning" "set (step_names steps) \<subseteq> set (gm_keys (ru_completedSet r))"
    "list_all2 (\<lambda>(s, i) out. \<exists>j. ss_Unmarshal s j = Inr out \<and> gm_get (ru_stepOutputs r) (ss_StepName s) = Some j) steps outs"
  shows "run_steps ul steps r w = (Inr outs, r, w)"
  using assms(2,3)
proof (induction steps arbitrary: outs)
  case (Cons si steps)
  obtain s i where si: "si = (s, i)" by fastforce
  obtain out outs' j where o: "outs = out # outs'" "ss_Unmarshal s j = Inr out" "gm_get (ru_stepOutputs r) (ss_StepName s) = Some j"
    "list_all2 (\<lambda>(s, i) out. \<exists>j. ss_Unmarshal s j = Inr out \<and> gm_get (ru_stepOutputs r) (ss_StepName s) = Some j) steps outs'"
    using Cons.prems(2) si by (auto simp: list_all2_Cons1)
  have "gm_get (ru_completedSet r) (ss_StepName s) \<noteq> None" using Cons.prems(1) si by (simp add: gm_get_None_iff)
  then have "ExecuteStep ul s i r w = (Inr out, r, w)"
    using assms(1) o(2,3) by (simp add: ExecuteStep_def Let_def status_IsTerminal_def)
  with Cons.IH [OF _ o(4)] Cons.prems(1) si o(1) show ?case by simp
qed simp

section \<open>Properties\<close>

text \<open>
  C11. A saga that starts without a row of its own, whose steps have different names and outputs that can be encoded, run
  without storage faults: when a step fails, the steps that had succeeded are undone in the reverse order, each
  exactly once. The world is what the compensations leave, those that succeed are recorded, the row
  ends as compensated if there is one and as failed otherwise, the error of the step is returned, and
  the outbox log gets one event for each step that completed, one for the failure and one for each
  compensation, in this order. (A saga resumed from its row is another matter: a step that is replayed registers no
  compensation, and an event that cannot be stored stops the compensations.)
\<close>

theorem saga_compensates_lifo:
  fixes r :: "'w SagaRunner"
  assumes "calm tx" "gm_get (tx_rows tx) sid = None" "Start tx sid name = (Inr r, tx1)"
    "distinct (step_names steps)" "encodable steps" "forward steps w = (outs, Some (n, e), w1)"
    "undo (rev (map comp_of (take (length outs) steps))) w1 = (names, w2)"
  shows "\<exists>r' row. run_steps ul steps r w = (Inl e, r', w2) \<and> row_of r' = Some row \<and>
     sg_status row = (if names = [] then ''failed'' else ''compensated'') \<and> sg_completed_steps row = take (length outs) (step_names steps) \<and>
     history r' = map (Pair EventStepCompleted) (take (length outs) (step_names steps)) @ (EventStepFailed, n) # map (Pair EventStepCompensated) names \<and>
     logged (ob_wal (tx_outbox tx)) r'"
proof -
  obtain r0 :: "'w SagaRunner" where r0: "Start tx sid name = (Inr r0, ru_tx r0)" "runner_ok (ob_wal (tx_outbox tx)) r0"
    "ru_completedSteps r0 = []" "ru_compensations r0 = []" "history r0 = []"
    using Start_new [OF assms(1,2)] by metis
  then have "r0 = r" using assms(3) by simp
  with run_steps_spec [OF _ assms(4) _ assms(5,6), of "ob_wal (tx_outbox tx)" r ul] r0 assms(7)
  show ?thesis by (auto simp: failed_after_def take_map split: if_splits)
qed

text \<open>
  C12. A saga whose steps all succeeded can be started again from its row: every step then returns its
  earlier output without being executed, and neither the row nor the outbox log changes.
\<close>

theorem saga_replay:
  fixes r :: "'w SagaRunner"
  assumes "calm tx" "gm_get (tx_rows tx) sid = None" "Start tx sid name = (Inr r, tx1)"
    "distinct (step_names steps)" "encodable steps" "forward steps w = (outs, None, w1)"
    "\<forall>(s, i) \<in> set steps. \<forall>out j. ss_Marshal s out = Inr j \<longrightarrow> ss_Unmarshal s j = Inr out"
  shows "\<exists>r1 r2. run_steps ul steps r w = (Inr outs, r1, w1) \<and> Start (ru_tx r1) sid name = (Inr r2, ru_tx r1) \<and>
     ru_tx r2 = ru_tx r1 \<and> run_steps ul steps r2 w2 = (Inr outs, r2, w2)"
proof -
  obtain r0 :: "'w SagaRunner" where r0: "Start tx sid name = (Inr r0, ru_tx r0)" "runner_ok (ob_wal (tx_outbox tx)) r0" "ru_sagaID r0 = sid"
    "ru_completedSteps r0 = []" "ru_compensations r0 = []" "history r0 = []"
    using Start_new [OF assms(1,2)] by metis
  then have "r0 = r" using assms(3) by simp
  with run_steps_spec [OF _ assms(4) _ assms(5,6), of "ob_wal (tx_outbox tx)" r ul] r0
  obtain r1 where r1: "run_steps ul steps r w = (Inr outs, r1, w1)" "runner_ok (ob_wal (tx_outbox tx)) r1" "ru_sagaID r1 = sid"
    "ru_completedSteps r1 = step_names steps"
    "list_all2 (\<lambda>(s, i) out. \<exists>j. ss_Marshal s out = Inr j \<and> gm_get (ru_stepOutputs r1) (ss_StepName s) = Some j) steps outs"
    by auto
  obtain row where row: "gm_get (tx_rows (ru_tx r1)) sid = Some row" "sg_status row = ''running''"
    "sg_completed_steps row = step_names steps" "sg_step_outputs row = ru_stepOutputs r1" "calm (ru_tx r1)"
    using r1(2-4) by (auto simp: runner_ok_def row_of_def)
  obtain r2 :: "'w SagaRunner" where r2: "Start (ru_tx r1) sid name = (Inr r2, ru_tx r1)" "ru_tx r2 = ru_tx r1" "ru_status r2 = StatusRunning"
    "set (gm_keys (ru_completedSet r2)) = set (step_names steps)" "ru_stepOutputs r2 = ru_stepOutputs r1"
    using Start_again [OF row(5,1,2)] row(3,4) by metis
  have "list_all2 (\<lambda>(s, i) out. \<exists>j. ss_Unmarshal s j = Inr out \<and> gm_get (ru_stepOutputs r2) (ss_StepName s) = Some j) steps outs"
    unfolding r2(5) using r1(5) by (rule list.rel_mono_strong) (use assms(7) in fastforce)
  from run_steps_cached [OF r2(3) _ this] r2 r1(1) show ?thesis by blast
qed

text \<open>A step that appends its name to the world, and its undoing; it fails if it is named in the input.\<close>

definition trace_step :: "string \<Rightarrow> (string, nat, string list) SagaStep" where
  "trace_step n = \<lparr>ss_StepName = n,
     ss_Execute = (\<lambda>bad w. if bad = n then (Inl (ErrStepFailure n ''forced''), w) else (Inr (length w), w @ [n])),
     ss_Compensate = (\<lambda>_ w. (None, w @ [''undo '' @ n])),
     ss_Marshal = (\<lambda>k. Inr [(''n'', FNum (int k))]),
     ss_Unmarshal = (\<lambda>ob. case gm_get ob ''n'' of Some (FNum k) \<Rightarrow> Inr (nat k) | _ \<Rightarrow> Inl ''bad'')\<rparr>"

definition trace_steps :: "string \<Rightarrow> (string, nat, string list) step_list" where
  "trace_steps bad = map (\<lambda>n. (trace_step n, bad)) [''a'', ''b'', ''c'']"

definition saga_lib :: uuid_lib where
  "saga_lib = \<lparr>ul_NewSHA1 = (\<lambda>_ s. of_nat (length s)), ul_Parse = (\<lambda>_. None), ul_String = (\<lambda>_. [])\<rparr>"

definition saga_tx_0 :: saga_tx where
  "saga_tx_0 = \<lparr>tx_rows = [], tx_outbox = \<lparr>ob_events = [], ob_wal = []\<rparr>, tx_faults = [], tx_aborted = False\<rparr>"

lemma saga_tx_0_calm: "calm saga_tx_0" "gm_get (tx_rows saga_tx_0) 1 = None"
  by (simp_all add: saga_tx_0_def calm_def)

lemma trace_steps_ok: "distinct (step_names (trace_steps bad))" "encodable (trace_steps bad)"
  by (simp_all add: trace_steps_def trace_step_def encodable_def)

theorem saga_compensates_lifo_witness:
  "\<exists>(r :: string list SagaRunner) tx1 r'. Start saga_tx_0 1 ''s'' = (Inr r, tx1) \<and>
     run_steps saga_lib (trace_steps ''c'') r [] = (Inl (ErrStepFailure ''c'' ''forced''), r', [''a'', ''b'', ''undo b'', ''undo a''])"
proof -
  obtain r :: "string list SagaRunner" and tx1 where st: "Start saga_tx_0 1 ''s'' = (Inr r, tx1)" using Start_new [OF saga_tx_0_calm] by metis
  have f: "forward (trace_steps ''c'') [] = ([0, 1], Some (''c'', ErrStepFailure ''c'' ''forced''), [''a'', ''b''])"
    by (simp add: trace_steps_def trace_step_def)
  have "undo (rev (map comp_of (take (length [0, 1 :: nat]) (trace_steps ''c'')))) [''a'', ''b''] =
      ([''b'', ''a''], [''a'', ''b'', ''undo b'', ''undo a''])"
    by (simp add: trace_steps_def trace_step_def comp_of_def)
  from saga_compensates_lifo [OF saga_tx_0_calm st trace_steps_ok f this] st show ?thesis by blast
qed

theorem saga_replay_witness:
  "\<exists>(r :: string list SagaRunner) tx1 r1 r2. Start saga_tx_0 1 ''s'' = (Inr r, tx1) \<and> run_steps saga_lib (trace_steps []) r [] = (Inr [0, 1, 2], r1, [''a'', ''b'', ''c'']) \<and>
     run_steps saga_lib (trace_steps []) r2 [''x''] = (Inr [0, 1, 2], r2, [''x''])"
proof -
  obtain r :: "string list SagaRunner" and tx1 where st: "Start saga_tx_0 1 ''s'' = (Inr r, tx1)" using Start_new [OF saga_tx_0_calm] by metis
  have f: "forward (trace_steps []) [] = ([0, 1, 2], None, [''a'', ''b'', ''c''])"
    by (simp add: trace_steps_def trace_step_def)
  have "\<forall>(s, i) \<in> set (trace_steps []). \<forall>out j. ss_Marshal s out = Inr j \<longrightarrow> ss_Unmarshal s j = Inr out"
    by (auto simp: trace_steps_def trace_step_def gm_get_def)
  from saga_replay [OF saga_tx_0_calm st trace_steps_ok f this] st show ?thesis by blast
qed

end
