(* ===== verification/Saga_Consumer.thy ===== *)
theory Saga_Consumer
  imports Saga Idempotency Effect_Dispatcher
begin

text \<open>
  The saga runtime of the workflow service
  (\<open>services/workflow-automation-service/internal/automationoperations\<close>): the step graphs of
  \<open>steps/\<close>, their dispatch (\<open>dispatcher.go\<close>) and the consumer of saga requests (\<open>saga_consumer.go\<close>).
  The client of the audit service is an interface and answers through an environment; clock readings
  come from there too.
\<close>

section \<open>The step graphs\<close>

record RetentionSweepInput =
  rs_TenantID :: string
  rs_OlderThanDays :: u32
  rs_DryRun :: bool

record RetentionSweepOutput =
  ro_Evicted :: "64 word"
  ro_OlderThanDays :: u32
  ro_DryRun :: bool

definition sweep_UnmarshalJSON :: "jobject \<Rightarrow> string + RetentionSweepInput" where
  "sweep_UnmarshalJSON ob =
     bindE (get_text ob ''tenant_id'') (\<lambda>tenant.
     bindE (get_u32 ob ''older_than_days'') (\<lambda>days.
     bindE (get_bool ob ''dry_run'') (\<lambda>dry.
       Inr \<lparr>rs_TenantID = tenant, rs_OlderThanDays = (if days = 0 then 90 else days), rs_DryRun = dry\<rparr>)))"

text \<open>How \<open>Sweep\<close> of the client may end; the context is consulted only after an error.\<close>

datatype sweep_answer =
    SweepOK RetentionSweepOutput
  | SweepCancelled string
  | SweepStatus nat string
  | SweepError string

definition AuditComplianceError_Error :: "nat \<Rightarrow> string \<Rightarrow> string" where
  "AuditComplianceError_Error status body =
     (if body = [] then ''audit-compliance returned HTTP '' @ digits status
      else ''audit-compliance returned HTTP '' @ digits status @ '': '' @ body)"

text \<open>The steps' effects: the requests sent to the audit service.\<close>

record ops_world =
  ow_sweeps :: "RetentionSweepInput list"

type_synonym sweep_client = "(nat \<Rightarrow> RetentionSweepInput \<Rightarrow> sweep_answer) option"

abbreviation evict_failed :: "string \<Rightarrow> SagaError" where
  "evict_failed \<equiv> ErrStepFailure ''evict_retention_eligible''"

definition evict_Execute :: "sweep_client \<Rightarrow> RetentionSweepInput \<Rightarrow> ops_world \<Rightarrow> (SagaError + RetentionSweepOutput) \<times> ops_world" where
  "evict_Execute client inp w =
     (if trim_space (rs_TenantID inp) = [] then (Inl (evict_failed ''invalid input: tenant_id is required''), w)
      else if rs_OlderThanDays inp = 0
      then (Inl (evict_failed ''invalid input: older_than_days must be greater than 0''), w)
      else case client of
        None \<Rightarrow> (Inl (evict_failed ''retention sweep client is not configured''), w)
      | Some sweep \<Rightarrow>
        let w' = w\<lparr>ow_sweeps := ow_sweeps w @ [inp]\<rparr>
        in case sweep (length (ow_sweeps w)) inp of
          SweepOK out \<Rightarrow> (Inr out, w')
        | SweepCancelled e \<Rightarrow> (Inl (evict_failed (''retention sweep request canceled: '' @ e)), w')
        | SweepStatus status body \<Rightarrow>
          (if status \<ge> 500
           then (Inl (evict_failed (''audit-compliance retention sweep unavailable: '' @ AuditComplianceError_Error status body)), w')
           else (Inl (evict_failed (''audit-compliance retention sweep rejected request: '' @ AuditComplianceError_Error status body)), w'))
        | SweepError e \<Rightarrow> (Inl (evict_failed (''audit-compliance retention sweep failed: '' @ e)), w'))"

definition EvictRetentionEligible :: "sweep_client \<Rightarrow> (RetentionSweepInput, RetentionSweepOutput, ops_world) SagaStep" where
  "EvictRetentionEligible client = \<lparr>ss_StepName = ''evict_retention_eligible'', ss_Execute = evict_Execute client,
     ss_Compensate = (\<lambda>_ w. (None, w)),
     ss_Marshal = (\<lambda>out. Inr [(''evicted'', FNum (uint (ro_Evicted out))), (''older_than_days'', FNum (uint (ro_OlderThanDays out))),
        (''dry_run'', FBool (ro_DryRun out))]),
     ss_Unmarshal = (\<lambda>ob. bindE (get_u64 ob ''evicted'') (\<lambda>n. bindE (get_u32 ob ''older_than_days'') (\<lambda>d.
        bindE (get_bool ob ''dry_run'') (\<lambda>b. Inr \<lparr>ro_Evicted = n, ro_OlderThanDays = d, ro_DryRun = b\<rparr>))))\<rparr>"

record CleanupWorkspaceInput =
  cw_TenantID :: string
  cw_WorkspaceID :: uuid
  cw_ForceFailureAt :: "string option"

definition cleanup_Unmarshal :: "jobject \<Rightarrow> string + CleanupWorkspaceInput" where
  "cleanup_Unmarshal ob =
     bindE (get_text ob ''tenant_id'') (\<lambda>tenant.
     bindE (get_uuid ob ''workspace_id'') (\<lambda>workspace.
     bindE (get_text_ptr ob ''force_failure_at'') (\<lambda>force.
       Inr \<lparr>cw_TenantID = tenant, cw_WorkspaceID = workspace, cw_ForceFailureAt = force\<rparr>)))"

definition mustFailHere :: "CleanupWorkspaceInput \<Rightarrow> string \<Rightarrow> bool" where
  "mustFailHere inp step \<longleftrightarrow> cw_ForceFailureAt inp = Some step"

text \<open>The output structs of the three steps.\<close>

datatype CleanupOutput =
    MarkForDeletionOutput uuid instant
  | DropBlobsOutput uuid "64 word"
  | FinalizeOutput uuid instant

fun cleanup_Marshal :: "CleanupOutput \<Rightarrow> string + jobject" where
  "cleanup_Marshal (MarkForDeletionOutput i t) = join_fields [Inr [(''workspace_id'', FUuid i)], put_opt ''tombstoned_at'' put_time (Some t)]"
| "cleanup_Marshal (DropBlobsOutput i n) = Inr [(''workspace_id'', FUuid i), (''blob_count'', FNum (uint n))]"
| "cleanup_Marshal (FinalizeOutput i t) = join_fields [Inr [(''workspace_id'', FUuid i)], put_opt ''finalized_at'' put_time (Some t)]"

definition cleanup_step :: "string \<Rightarrow> (CleanupWorkspaceInput \<Rightarrow> CleanupOutput) \<Rightarrow> (jobject \<Rightarrow> string + CleanupOutput) \<Rightarrow>
    (CleanupWorkspaceInput, CleanupOutput, ops_world) SagaStep" where
  "cleanup_step name out unmarshal = \<lparr>ss_StepName = name,
     ss_Execute = (\<lambda>inp w. if mustFailHere inp name then (Inl (ErrStepFailure name ''forced failure (chaos test)''), w) else (Inr (out inp), w)),
     ss_Compensate = (\<lambda>_ w. (None, w)), ss_Marshal = cleanup_Marshal, ss_Unmarshal = unmarshal\<rparr>"

definition MarkForDeletion :: "instant \<Rightarrow> (CleanupWorkspaceInput, CleanupOutput, ops_world) SagaStep" where
  "MarkForDeletion now = cleanup_step ''mark_for_deletion'' (\<lambda>inp. MarkForDeletionOutput (cw_WorkspaceID inp) now)
     (\<lambda>ob. bindE (get_uuid ob ''workspace_id'') (\<lambda>i. bindE (get_time ob ''tombstoned_at'') (\<lambda>t. Inr (MarkForDeletionOutput i t))))"

definition DropWorkspaceBlobs :: "(CleanupWorkspaceInput, CleanupOutput, ops_world) SagaStep" where
  "DropWorkspaceBlobs = cleanup_step ''drop_workspace_blobs'' (\<lambda>inp. DropBlobsOutput (cw_WorkspaceID inp) 0)
     (\<lambda>ob. bindE (get_uuid ob ''workspace_id'') (\<lambda>i. bindE (get_u64 ob ''blob_count'') (\<lambda>n. Inr (DropBlobsOutput i n))))"

definition FinalizeWorkspaceDeletion :: "instant \<Rightarrow> (CleanupWorkspaceInput, CleanupOutput, ops_world) SagaStep" where
  "FinalizeWorkspaceDeletion now = cleanup_step ''finalize_workspace_deletion'' (\<lambda>inp. FinalizeOutput (cw_WorkspaceID inp) now)
     (\<lambda>ob. bindE (get_uuid ob ''workspace_id'') (\<lambda>i. bindE (get_time ob ''finalized_at'') (\<lambda>t. Inr (FinalizeOutput i t))))"

section \<open>Dispatch\<close>

record ops_env =
  op_client :: sweep_client
  op_mark_now :: instant
  op_finalize_now :: instant

definition rawOrNullObject :: "jobject raw \<Rightarrow> jobject raw" where
  "rawOrNullObject raw = (case raw of RawEmpty \<Rightarrow> Raw [] | _ \<Rightarrow> raw)"

definition decode_object :: "(jobject \<Rightarrow> string + 'a) \<Rightarrow> jobject raw \<Rightarrow> string + 'a" where
  "decode_object dec raw = (case raw of RawEmpty \<Rightarrow> Inl ''unexpected end of JSON input'' | RawBad e \<Rightarrow> Inl e | Raw ob \<Rightarrow> dec ob)"

definition finish_after ::
  "uuid_lib \<Rightarrow> (SagaError + 'o) \<times> 'w SagaRunner \<times> 'w \<Rightarrow> SagaError option \<times> 'w SagaRunner \<times> 'w" where
  "finish_after ul st = (case st of (Inl e, r, w) \<Rightarrow> (Some e, r, w) | (Inr _, r, w) \<Rightarrow> (case Finish ul r of (e, r') \<Rightarrow> (e, r', w)))"

definition dispatchRetentionSweep ::
  "uuid_lib \<Rightarrow> ops_env \<Rightarrow> jobject raw \<Rightarrow> ops_world SagaRunner \<Rightarrow> ops_world \<Rightarrow> SagaError option \<times> ops_world SagaRunner \<times> ops_world" where
  "dispatchRetentionSweep ul env raw r w =
     (case decode_object sweep_UnmarshalJSON (rawOrNullObject raw) of
        Inl e \<Rightarrow> (Some (ErrStepFailure ''retention.sweep'' (''invalid input: '' @ e)), r, w)
      | Inr inp \<Rightarrow> finish_after ul (ExecuteStep ul (EvictRetentionEligible (op_client env)) inp r w))"

definition dispatchCleanupWorkspace ::
  "uuid_lib \<Rightarrow> ops_env \<Rightarrow> jobject raw \<Rightarrow> ops_world SagaRunner \<Rightarrow> ops_world \<Rightarrow> SagaError option \<times> ops_world SagaRunner \<times> ops_world" where
  "dispatchCleanupWorkspace ul env raw r w =
     (case decode_object cleanup_Unmarshal (rawOrNullObject raw) of
        Inl e \<Rightarrow> (Some (ErrStepFailure ''cleanup.workspace'' (''invalid input: '' @ e)), r, w)
      | Inr inp \<Rightarrow> finish_after ul (run_steps ul
          [(MarkForDeletion (op_mark_now env), inp), (DropWorkspaceBlobs, inp), (FinalizeWorkspaceDeletion (op_finalize_now env), inp)] r w))"

definition KnownSagaTypes :: "string list" where
  "KnownSagaTypes = [''retention.sweep'', ''cleanup.workspace'']"

definition IsKnown :: "string \<Rightarrow> bool" where
  "IsKnown taskType \<longleftrightarrow> taskType \<in> set KnownSagaTypes"

definition DispatchSaga ::
  "uuid_lib \<Rightarrow> ops_env \<Rightarrow> string \<Rightarrow> jobject raw \<Rightarrow> ops_world SagaRunner \<Rightarrow> ops_world \<Rightarrow> SagaError option \<times> ops_world SagaRunner \<times> ops_world" where
  "DispatchSaga ul env taskType input r w =
     (if taskType = ''retention.sweep'' then dispatchRetentionSweep ul env input r w
      else if taskType = ''cleanup.workspace'' then dispatchCleanupWorkspace ul env input r w
      else (Some (ErrStepFailure ''dispatch'' (''unknown saga type '' @ quote taskType @ ''; known: [retention.sweep cleanup.workspace]'')), r, w))"

section \<open>The consumer\<close>

definition AutomationOpsNamespace :: uuid where
  "AutomationOpsNamespace = 0x83a1712c4f9d49469bc4b16e6e572c18"

definition DeriveSagaID :: "uuid_lib \<Rightarrow> string \<Rightarrow> uuid \<Rightarrow> uuid" where
  "DeriveSagaID ul taskType correlationID = ul_NewSHA1 ul AutomationOpsNamespace (taskType @ ''|'' @ uuid_bytes correlationID)"

definition DeriveRequestEventID :: "uuid_lib \<Rightarrow> string \<Rightarrow> uuid \<Rightarrow> uuid" where
  "DeriveRequestEventID ul taskType correlationID =
     ul_NewSHA1 ul AutomationOpsNamespace (taskType @ ''|'' @ uuid_bytes correlationID @ ''R'')"

record SagaStepRequestedV1Payload =
  sq_SagaID :: uuid
  sq_Saga :: string
  sq_TenantID :: string
  sq_CorrelationID :: uuid
  sq_TriggeredBy :: string
  sq_Input :: "jobject raw"

definition DecodeRequest :: "jobject raw \<Rightarrow> string + SagaStepRequestedV1Payload" where
  "DecodeRequest payload = decode_object (\<lambda>ob.
     bindE (get_uuid ob ''saga_id'') (\<lambda>sagaID.
     bindE (get_text ob ''saga'') (\<lambda>sg.
     bindE (get_text ob ''tenant_id'') (\<lambda>tenant.
     bindE (get_uuid ob ''correlation_id'') (\<lambda>correlation.
     bindE (get_text ob ''triggered_by'') (\<lambda>triggered.
       Inr \<lparr>sq_SagaID = sagaID, sq_Saga = sg, sq_TenantID = tenant, sq_CorrelationID = correlation, sq_TriggeredBy = triggered,
            sq_Input = get_obj ob ''input''\<rparr>)))))) payload"

text \<open>The database and the effects of the steps; what fails while one request is processed.\<close>

record saga_sys =
  sy_processed :: seen_map
  sy_rows :: "(uuid, saga_row) gomap"
  sy_outbox :: outbox
  sy_ops :: ops_world

record saga_env =
  se_idem :: db_fault
  se_begin :: "string option"
  se_stmts :: "string option list"
  se_commit :: "string option"
  se_ops :: ops_env

text \<open>
  Committing a transaction that a failed statement has aborted rolls it back and reports that. The
  effects of the steps are outside of the transaction and stay.
\<close>

definition runSaga :: "uuid_lib \<Rightarrow> saga_env \<Rightarrow> saga_sys \<Rightarrow> SagaStepRequestedV1Payload \<Rightarrow> (SagaError + string) \<times> saga_sys" where
  "runSaga ul env sys request =
     (case se_begin env of
        Some e \<Rightarrow> (Inl (ErrOther e), sys)
      | None \<Rightarrow>
        (case Start \<lparr>tx_rows = sy_rows sys, tx_outbox = sy_outbox sys, tx_faults = se_stmts env, tx_aborted = False\<rparr>
                (sq_SagaID request) (sq_Saga request) of
           (Inl e, _) \<Rightarrow> (Inl e, sys)
         | (Inr runner, _) \<Rightarrow>
           (case DispatchSaga ul (se_ops env) (sq_Saga request) (sq_Input request) runner (sy_ops sys) of
              (dispatchErr, r, w) \<Rightarrow>
                if tx_aborted (ru_tx r) then (Inl (ErrOther ''commit unexpectedly resulted in rollback''), sys\<lparr>sy_ops := w\<rparr>)
                else case se_commit env of
                  Some e \<Rightarrow> (Inl (ErrOther e), sys\<lparr>sy_ops := w\<rparr>)
                | None \<Rightarrow>
                  (Inr (if dispatchErr \<noteq> None then ''failed_or_compensated'' else ''completed''),
                   sys\<lparr>sy_rows := tx_rows (ru_tx r), sy_outbox := tx_outbox (ru_tx r), sy_ops := w\<rparr>))))"

definition saga_Process :: "uuid_lib \<Rightarrow> saga_env \<Rightarrow> saga_sys \<Rightarrow> SagaStepRequestedV1Payload \<Rightarrow> (SagaError + string) \<times> saga_sys" where
  "saga_Process ul env sys request =
     (let eventID = DeriveRequestEventID ul (sq_Saga request) (sq_CorrelationID request);
          (r, seen) = pg_CheckAndRecord (se_idem env) (sy_processed sys) eventID;
          sys1 = sys\<lparr>sy_processed := seen\<rparr>
      in case r of
           Inl e \<Rightarrow> (Inl (ErrOther e), sys1)
         | Inr outcome \<Rightarrow> if IsAlreadyProcessed outcome then (Inr ''deduped'', sys1) else runSaga ul env sys1 request)"

definition saga_processMessage :: "uuid_lib \<Rightarrow> saga_env \<Rightarrow> saga_sys \<Rightarrow> jobject raw \<Rightarrow> (SagaError + string) \<times> saga_sys" where
  "saga_processMessage ul env sys msg =
     (case msg of
        RawEmpty \<Rightarrow> (Inr ''empty_payload'', sys)
      | _ \<Rightarrow> (case DecodeRequest msg of
            Inl _ \<Rightarrow> (Inr ''decode_error'', sys)
          | Inr req \<Rightarrow> saga_Process ul env sys req))"

text \<open>
  One answer of \<open>Poll\<close>, as for the condition consumer; the loop returns its error, if it ends within
  the given answers, and the offsets it committed.
\<close>

record saga_polled =
  sp_offset :: nat
  sp_value :: "jobject raw"
  sp_env :: saga_env
  sp_done :: bool
  sp_commit :: "string option"

datatype saga_poll = SagaPollError string | SagaPollMessage saga_polled

fun saga_Run :: "uuid_lib \<Rightarrow> saga_poll list \<Rightarrow> nat list \<Rightarrow> saga_sys \<Rightarrow> string option \<times> nat list \<times> saga_sys" where
  "saga_Run ul [] commits sys = (None, commits, sys)"
| "saga_Run ul (SagaPollError e # ps) commits sys = (Some e, commits, sys)"
| "saga_Run ul (SagaPollMessage p # ps) commits sys =
     (case saga_processMessage ul (sp_env p) sys (sp_value p) of
        (Inl e, sys') \<Rightarrow> if sp_done p then (Some ''context canceled'', commits, sys') else saga_Run ul ps commits sys'
      | (Inr label, sys') \<Rightarrow>
        (case sp_commit p of
           Some e \<Rightarrow> (Some e, commits, sys')
         | None \<Rightarrow> saga_Run ul ps (commits @ [sp_offset p]) sys'))"

section \<open>Requests that can be run\<close>

lemma Finish_calm:
  assumes "runner_ok base r"
  obtains r' row where "Finish ul r = (None, r')" "calm (ru_tx r')" "row_of r' = Some row" "sg_status row = ''completed''" "ru_sagaID r' = ru_sagaID r"
proof -
  obtain row where row: "row_of r = Some row" and c: "calm (ru_tx r)" "logged base r" "ru_status r = StatusRunning"
    using assms by (auto simp: runner_ok_def)
  let ?p = "saga_fields r @ [(''completed_steps'', FTexts (ru_completedSteps r))]"
  obtain i tx where em: "emit ul EventSagaCompleted [] ?p r = (Inr i, r\<lparr>ru_tx := tx,
      ru_events := ru_events r @ [\<lparr>sv_Kind = EventSagaCompleted, sv_StepName = [], sv_EventID = i\<rparr>]\<rparr>)"
    and tx: "calm tx" "tx_rows tx = tx_rows (ru_tx r)"
    by (rule emit_calm [OF c(1,2)])
  define r1 where "r1 = r\<lparr>ru_tx := tx, ru_events := ru_events r @ [\<lparr>sv_Kind = EventSagaCompleted, sv_StepName = [], sv_EventID = i\<rparr>]\<rparr>"
  have "calm (ru_tx r1)" "row_of r1 = Some row" using tx row by (simp_all add: r1_def row_of_def)
  then obtain r' row' where r': "setStatus StatusCompleted [] r1 = (None, r')" "r' = r1\<lparr>ru_tx := ru_tx r', ru_status := StatusCompleted\<rparr>"
    "calm (ru_tx r')" "row_of r' = Some row'" "sg_status row' = status_string StatusCompleted"
    by (rule setStatus_calm)
  have "Finish ul r = (None, r')" using em r'(1) c(3) by (simp add: Finish_def status_IsTerminal_def r1_def)
  moreover have "ru_sagaID r' = ru_sagaID r" by (subst r'(2)) (simp add: r1_def)
  ultimately show thesis using that r'(3-5) by simp
qed

lemma finish_after_steps:
  assumes "runner_ok base r" "ru_completedSteps r = []" "ru_compensations r = []" "distinct (step_names steps)" "encodable steps"
  obtains err r' w' row where "finish_after ul (run_steps ul steps r w) = (err, r', w')" "calm (ru_tx r')" "ru_sagaID r' = ru_sagaID r"
    "row_of r' = Some row" "sg_status row \<in> {''completed'', ''failed'', ''compensated''}" "err = None \<longleftrightarrow> sg_status row = ''completed''"
proof -
  obtain outs f w1 where fw: "forward steps w = (outs, f, w1)" by (metis prod_cases3)
  note spec = run_steps_spec [OF assms(1,4) _ assms(5) fw, of ul]
  show thesis
  proof (cases f)
    case None
    then obtain r1 where r1: "run_steps ul steps r w = (Inr outs, r1, w1)" "runner_ok base r1" "ru_sagaID r1 = ru_sagaID r"
      using spec assms(2) by auto
    obtain r' row where "Finish ul r1 = (None, r')" "calm (ru_tx r')" "row_of r' = Some row" "sg_status row = ''completed''" "ru_sagaID r' = ru_sagaID r1"
      using r1(2) by (rule Finish_calm)
    with r1 show thesis by (intro that) (auto simp: finish_after_def)
  next
    case (Some ne)
    then obtain r1 e names w2 where r1: "run_steps ul steps r w = (Inl e, r1, w2)" "failed_after base names r1" "ru_sagaID r1 = ru_sagaID r"
      using spec assms(2) by (cases ne) fastforce
    then obtain row where "row_of r1 = Some row" "sg_status row = (if names = [] then ''failed'' else ''compensated'')" "calm (ru_tx r1)"
      by (auto simp: failed_after_def)
    with r1 show thesis by (intro that [of "Some e" r1 w2 row]) (auto simp: finish_after_def)
  qed
qed

lemma encodable_sweep: "encodable [(EvictRetentionEligible client, inp)]"
  by (simp add: encodable_def EvictRetentionEligible_def)

definition clock_ok :: "ops_env \<Rightarrow> bool" where
  "clock_ok env \<longleftrightarrow> {op_mark_now env, op_finalize_now env} \<subseteq> {year_0..<year_10000}"

abbreviation cleanup_steps :: "ops_env \<Rightarrow> CleanupWorkspaceInput \<Rightarrow> (CleanupWorkspaceInput, CleanupOutput, ops_world) step_list" where
  "cleanup_steps env inp \<equiv>
     [(MarkForDeletion (op_mark_now env), inp), (DropWorkspaceBlobs, inp), (FinalizeWorkspaceDeletion (op_finalize_now env), inp)]"

lemma cleanup_steps_ok: "distinct (step_names (cleanup_steps env inp))"
  "clock_ok env \<Longrightarrow> encodable (cleanup_steps env inp)"
  by (auto simp: encodable_def MarkForDeletion_def DropWorkspaceBlobs_def FinalizeWorkspaceDeletion_def cleanup_step_def
        clock_ok_def put_opt_def put_time_def)

text \<open>A request that the dispatcher can run: its type is known and its input decodes.\<close>

definition runnable :: "SagaStepRequestedV1Payload \<Rightarrow> bool" where
  "runnable q \<longleftrightarrow> (sq_Saga q = ''retention.sweep'' \<and> (\<exists>inp. decode_object sweep_UnmarshalJSON (rawOrNullObject (sq_Input q)) = Inr inp)) \<or>
     (sq_Saga q = ''cleanup.workspace'' \<and> (\<exists>inp. decode_object cleanup_Unmarshal (rawOrNullObject (sq_Input q)) = Inr inp))"

lemma finish_after_one: "finish_after ul (ExecuteStep ul s i r w) = finish_after ul (run_steps ul [(s, i)] r w)"
  by (auto simp: finish_after_def split: prod.splits sum.splits)

lemma DispatchSaga_runnable:
  assumes "runnable q" "clock_ok env" "runner_ok base r" "ru_completedSteps r = []" "ru_compensations r = []"
  obtains err r' w' row where "DispatchSaga ul env (sq_Saga q) (sq_Input q) r w = (err, r', w')" "calm (ru_tx r')" "ru_sagaID r' = ru_sagaID r"
    "row_of r' = Some row" "sg_status row \<in> {''completed'', ''failed'', ''compensated''}" "err = None \<longleftrightarrow> sg_status row = ''completed''"
proof -
  from assms(1) consider
      (sweep) inp where "sq_Saga q = ''retention.sweep''" "decode_object sweep_UnmarshalJSON (rawOrNullObject (sq_Input q)) = Inr inp"
    | (cleanup) inp where "sq_Saga q = ''cleanup.workspace''" "decode_object cleanup_Unmarshal (rawOrNullObject (sq_Input q)) = Inr inp"
    by (auto simp: runnable_def)
  then show thesis
  proof cases
    case sweep
    then have "DispatchSaga ul env (sq_Saga q) (sq_Input q) r w = finish_after ul (run_steps ul [(EvictRetentionEligible (op_client env), inp)] r w)"
      by (simp add: DispatchSaga_def dispatchRetentionSweep_def finish_after_one del: run_steps.simps)
    moreover have "distinct (step_names [(EvictRetentionEligible (op_client env), inp)])" by simp
    ultimately show thesis using finish_after_steps [OF assms(3-5) _ encodable_sweep [of "op_client env" inp], of ul w] that by metis
  next
    case cleanup
    then have "DispatchSaga ul env (sq_Saga q) (sq_Input q) r w = finish_after ul (run_steps ul (cleanup_steps env inp) r w)"
      by (simp add: DispatchSaga_def dispatchCleanupWorkspace_def del: run_steps.simps)
    then show thesis using finish_after_steps [OF assms(3-5) cleanup_steps_ok(1) cleanup_steps_ok(2) [OF assms(2)], of ul inp w] that by metis
  qed
qed

section \<open>Properties\<close>

text \<open>The environment of a request during which no statement fails.\<close>

definition no_saga_faults :: "saga_env \<Rightarrow> bool" where
  "no_saga_faults env \<longleftrightarrow> se_idem env = NoFault \<and> se_begin env = None \<and> se_stmts env = [] \<and> se_commit env = None"

abbreviation request_id :: "uuid_lib \<Rightarrow> SagaStepRequestedV1Payload \<Rightarrow> uuid" where
  "request_id ul q \<equiv> DeriveRequestEventID ul (sq_Saga q) (sq_CorrelationID q)"

lemma saga_Process_new:
  assumes "no_saga_faults env" "gm_get (sy_processed sys) (request_id ul q) = None"
  shows "saga_Process ul env sys q = runSaga ul env (sys\<lparr>sy_processed := gm_put (sy_processed sys) (request_id ul q) ()\<rparr>) q"
  using assms by (simp add: saga_Process_def no_saga_faults_def pg_CheckAndRecord_def insert_returning_def IsAlreadyProcessed_def)

lemma saga_Process_seen:
  assumes "se_idem env = NoFault" "gm_get (sy_processed sys) (request_id ul q) = Some ()"
  shows "saga_Process ul env sys q = (Inr ''deduped'', sys)"
  using assms by (simp add: saga_Process_def pg_CheckAndRecord_def insert_returning_def IsAlreadyProcessed_def)

text \<open>
  C38. A new request of a known saga type whose input decodes, processed without a storage failure, ends
  with its row in a terminal state; the label says completed exactly if the row does.
\<close>

theorem saga_request_lands:
  assumes "no_saga_faults env" "gm_get (sy_processed sys) (request_id ul q) = None" "gm_get (sy_rows sys) (sq_SagaID q) = None"
    "ob_events (sy_outbox sys) = []" "runnable q" "clock_ok (se_ops env)"
  shows "\<exists>label sys' row. saga_Process ul env sys q = (Inr label, sys') \<and> gm_get (sy_rows sys') (sq_SagaID q) = Some row \<and>
     sg_status row \<in> {''completed'', ''failed'', ''compensated''} \<and> (label = ''completed'') = (sg_status row = ''completed'') \<and>
     gm_get (sy_processed sys') (request_id ul q) = Some ()"
proof -
  let ?tx = "\<lparr>tx_rows = sy_rows sys, tx_outbox = sy_outbox sys, tx_faults = [], tx_aborted = False\<rparr>"
  have c: "calm ?tx" "gm_get (tx_rows ?tx) (sq_SagaID q) = None" using assms(3,4) by (simp_all add: calm_def)
  obtain r :: "ops_world SagaRunner" where r: "Start ?tx (sq_SagaID q) (sq_Saga q) = (Inr r, ru_tx r)"
    "runner_ok (ob_wal (sy_outbox sys)) r" "ru_sagaID r = sq_SagaID q" "ru_completedSteps r = []" "ru_compensations r = []"
    using Start_new [OF c] by (metis saga_tx.select_convs(2))
  obtain err r' w' row where d: "DispatchSaga ul (se_ops env) (sq_Saga q) (sq_Input q) r (sy_ops sys) = (err, r', w')" "calm (ru_tx r')"
    "ru_sagaID r' = ru_sagaID r" "row_of r' = Some row" "sg_status row \<in> {''completed'', ''failed'', ''compensated''}"
    "err = None \<longleftrightarrow> sg_status row = ''completed''"
    using DispatchSaga_runnable [OF assms(5,6) r(2,4,5)] by metis
  show ?thesis
    using assms(1) r(1,3) d by (auto simp: saga_Process_new [OF assms(1,2)] runSaga_def no_saga_faults_def calm_def row_of_def)
qed

text \<open>
  A request of an unknown type, or whose input does not decode, is committed with its row still
  running and no event in the outbox, although the label says that the saga failed or was
  compensated; and every redelivery is skipped, so the row stays running.
\<close>

theorem saga_bad_request_stuck:
  assumes "no_saga_faults env" "gm_get (sy_processed sys) (request_id ul q) = None" "gm_get (sy_rows sys) (sq_SagaID q) = None"
    "ob_events (sy_outbox sys) = []" "\<not> runnable q" "se_idem env' = NoFault"
  shows "\<exists>sys'. saga_Process ul env sys q = (Inr ''failed_or_compensated'', sys') \<and>
     gm_get (sy_rows sys') (sq_SagaID q) = Some (new_row (sq_Saga q)) \<and> sy_outbox sys' = sy_outbox sys \<and> sy_ops sys' = sy_ops sys \<and>
     saga_Process ul env' sys' q = (Inr ''deduped'', sys')"
proof -
  let ?tx = "\<lparr>tx_rows = sy_rows sys, tx_outbox = sy_outbox sys, tx_faults = [], tx_aborted = False\<rparr>"
  let ?tx' = "?tx\<lparr>tx_rows := gm_put (sy_rows sys) (sq_SagaID q) (new_row (sq_Saga q))\<rparr>"
  have c: "calm ?tx" using assms(4) by (simp add: calm_def)
  obtain r :: "ops_world SagaRunner" where r: "Start ?tx (sq_SagaID q) (sq_Saga q) = (Inr r, ?tx')" "ru_tx r = ?tx'"
    using Start_new [OF c, of "sq_SagaID q" "sq_Saga q"] assms(3) by (metis saga_tx.select_convs(1))
  have "\<exists>e. DispatchSaga ul (se_ops env) (sq_Saga q) (sq_Input q) r (sy_ops sys) = (Some e, r, sy_ops sys)"
    using assms(5) by (auto simp: runnable_def DispatchSaga_def dispatchRetentionSweep_def dispatchCleanupWorkspace_def split: sum.splits)
  then have "saga_Process ul env sys q = (Inr ''failed_or_compensated'', sys\<lparr>sy_processed := gm_put (sy_processed sys) (request_id ul q) (),
      sy_rows := tx_rows ?tx'\<rparr>)"
    using assms(1) r by (auto simp: saga_Process_new [OF assms(1,2)] runSaga_def no_saga_faults_def)
  then show ?thesis by (simp add: saga_Process_seen [OF assms(6)])
qed

definition saga_sys_0 :: saga_sys where
  "saga_sys_0 = \<lparr>sy_processed = [], sy_rows = [], sy_outbox = \<lparr>ob_events = [], ob_wal = []\<rparr>, sy_ops = \<lparr>ow_sweeps = []\<rparr>\<rparr>"

definition saga_env_0 :: saga_env where
  "saga_env_0 = \<lparr>se_idem = NoFault, se_begin = None, se_stmts = [], se_commit = None,
     se_ops = \<lparr>op_client = None, op_mark_now = 5, op_finalize_now = 7\<rparr>\<rparr>"

definition saga_request_0 :: "string \<Rightarrow> SagaStepRequestedV1Payload" where
  "saga_request_0 ty = \<lparr>sq_SagaID = 1, sq_Saga = ty, sq_TenantID = ''t'', sq_CorrelationID = 2, sq_TriggeredBy = ''u'',
     sq_Input = Raw [(''workspace_id'', FUuid 3), (''force_failure_at'', FText ''drop_workspace_blobs'')]\<rparr>"

lemma saga_0_ok: "no_saga_faults saga_env_0" "gm_get (sy_processed saga_sys_0) k = None" "gm_get (sy_rows saga_sys_0) k = None"
  "ob_events (sy_outbox saga_sys_0) = []" "clock_ok (se_ops saga_env_0)"
  by (simp_all add: saga_env_0_def saga_sys_0_def no_saga_faults_def clock_ok_def year_0_def year_10000_def)

theorem saga_request_lands_witness:
  "\<exists>label sys' row. saga_Process saga_lib saga_env_0 saga_sys_0 (saga_request_0 ''cleanup.workspace'') = (Inr label, sys') \<and>
     gm_get (sy_rows sys') 1 = Some row \<and> sg_status row \<in> {''completed'', ''failed'', ''compensated''}"
proof -
  have "runnable (saga_request_0 ''cleanup.workspace'')"
    by (simp add: runnable_def saga_request_0_def decode_object_def rawOrNullObject_def cleanup_Unmarshal_def get_text_def get_uuid_def
          get_text_ptr_def gm_get_def)
  from saga_request_lands [OF saga_0_ok(1-4) this saga_0_ok(5), of saga_lib]
  show ?thesis by (auto simp: saga_request_0_def)
qed

theorem saga_bad_request_stuck_witness:
  "\<exists>sys'. saga_Process saga_lib saga_env_0 saga_sys_0 (saga_request_0 ''cleanup'') = (Inr ''failed_or_compensated'', sys') \<and>
     gm_get (sy_rows sys') 1 = Some (new_row ''cleanup'')"
proof -
  have "\<not> runnable (saga_request_0 ''cleanup'')" "se_idem saga_env_0 = NoFault"
    by (simp_all add: runnable_def saga_request_0_def saga_env_0_def)
  from saga_bad_request_stuck [OF saga_0_ok(1-4) this, of saga_lib] show ?thesis by (auto simp: saga_request_0_def)
qed

end
