(* ===== verification/Cron.thy ===== *)
theory Cron
  imports Go_Strings
begin

text \<open>
  Cron expressions: the schedule (\<open>libs/scheduling-cron/schedule.go\<close>) and its parser
  (\<open>libs/scheduling-cron/parser.go\<close>). A \<open>*time.Location\<close> is what its lookup answers for an instant in
  seconds: the offset from UTC, and the period in which it holds.
\<close>

section \<open>Schedules\<close>

datatype CronFlavor = Unix5 | Quartz6

record ValueSet =
  vs_values :: "u32 list"
  vs_star :: bool

definition Star :: ValueSet where
  "Star = \<lparr>vs_values = [], vs_star = True\<rparr>"

fun dedup_from :: "u32 list \<Rightarrow> u32 list \<Rightarrow> u32 list" where
  "dedup_from out [] = out"
| "dedup_from out (v # vs) = (if v \<noteq> last out then dedup_from (out @ [v]) vs else dedup_from out vs)"

definition dedupSorted :: "u32 list \<Rightarrow> u32 list" where
  "dedupSorted values = (if length values \<le> 1 then values else dedup_from (take 1 values) (drop 1 values))"

definition FromValues :: "u32 list \<Rightarrow> ValueSet" where
  "FromValues values = \<lparr>vs_values = dedupSorted (sort values), vs_star = False\<rparr>"

definition vs_Contains :: "ValueSet \<Rightarrow> u32 \<Rightarrow> bool" where
  "vs_Contains v value =
     (if vs_star v then True
      else let idx = sort_search (\<lambda>i. vs_values v ! i \<ge> value) 0 (length (vs_values v))
           in idx < length (vs_values v) \<and> vs_values v ! idx = value)"

definition NextAtOrAfter :: "ValueSet \<Rightarrow> u32 \<Rightarrow> u32 \<Rightarrow> u32 option" where
  "NextAtOrAfter v value maxInclusive =
     (if vs_star v then (if value \<le> maxInclusive then Some value else None)
      else find (\<lambda>candidate. candidate \<ge> value \<and> candidate \<le> maxInclusive) (vs_values v))"

definition vs_First :: "ValueSet \<Rightarrow> u32 \<Rightarrow> u32 \<Rightarrow> u32 option" where
  "vs_First v minInclusive maxInclusive =
     (if vs_star v then Some minInclusive
      else find (\<lambda>candidate. candidate \<ge> minInclusive \<and> candidate \<le> maxInclusive) (vs_values v))"

datatype DayOfMonth = DOMStar | DOMSet ValueSet | DOMLast

datatype DayOfWeek = DOWStar | DOWSet ValueSet | DOWLastWeekdayOfMonth u32 | DOWNthWeekdayOfMonth u32 u32

record zone_period =
  zp_offset :: int
  zp_start :: int
  zp_end :: int

type_synonym location = "int \<Rightarrow> zone_period"

definition utc_loc :: location where
  "utc_loc = (\<lambda>_. \<lparr>zp_offset = 0, zp_start = - (2 ^ 63), zp_end = 2 ^ 63 - 1\<rparr>)"

record CronSchedule =
  cs_Flavor :: CronFlavor
  cs_Seconds :: ValueSet
  cs_Minutes :: ValueSet
  cs_Hours :: ValueSet
  cs_DayOfMonth :: DayOfMonth
  cs_Months :: ValueSet
  cs_DayOfWeek :: DayOfWeek
  cs_TimeZone :: location

section \<open>The parser\<close>

datatype CronError =
    ErrWrongFieldCount nat nat
  | ErrInvalidValue string string string
  | ErrOutOfRange string u32 u32 u32
  | ErrInvalidStep string
  | ErrDisallowedSpecial string char

fun CronError_Error :: "CronError \<Rightarrow> string" where
  "CronError_Error (ErrWrongFieldCount expected found) = ''cron expression must have '' @ digits expected @ '' fields, found '' @ digits found"
| "CronError_Error (ErrInvalidValue field value reason) = ''invalid value '' @ [CHR 0x27] @ value @ [CHR 0x27] @ '' in '' @ field @ '' field: '' @ reason"
| "CronError_Error (ErrOutOfRange field v lo hi) =
     ''value '' @ digits (unat v) @ '' is out of range '' @ digits (unat lo) @ ''..='' @ digits (unat hi) @ '' for '' @ field"
| "CronError_Error (ErrInvalidStep field) = ''step value must be greater than zero in '' @ field"
| "CronError_Error (ErrDisallowedSpecial field c) = [CHR 0x27, c, CHR 0x27] @ '' is not allowed in the '' @ field @ '' field''"

definition monthAliases :: "(string \<times> u32) list" where
  "monthAliases = [(''JAN'', 1), (''FEB'', 2), (''MAR'', 3), (''APR'', 4), (''MAY'', 5), (''JUN'', 6),
     (''JUL'', 7), (''AUG'', 8), (''SEP'', 9), (''OCT'', 10), (''NOV'', 11), (''DEC'', 12)]"

definition dayOfWeekAliases :: "(string \<times> u32) list" where
  "dayOfWeekAliases = [(''SUN'', 0), (''MON'', 1), (''TUE'', 2), (''WED'', 3), (''THU'', 4), (''FRI'', 5), (''SAT'', 6)]"

definition parseIntOrAlias :: "string \<Rightarrow> string \<Rightarrow> u32 \<Rightarrow> u32 \<Rightarrow> (string \<times> u32) list \<Rightarrow> CronError + u32" where
  "parseIntOrAlias raw field lo hi aliases =
     (let rawTrim = trim_space raw in
      if rawTrim = [] then Inl (ErrInvalidValue field raw ''empty integer'')
      else case find (\<lambda>(name, _). equal_fold name rawTrim) aliases of
        Some (_, v) \<Rightarrow> Inr v
      | None \<Rightarrow>
        (case ParseUint32 rawTrim of
           None \<Rightarrow> Inl (ErrInvalidValue field raw ''not a valid integer or alias'')
         | Some v \<Rightarrow> if v < lo \<or> v > hi then Inl (ErrOutOfRange field v lo hi) else Inr v))"

text \<open>The step of a component, with the part before it.\<close>

definition split_step :: "string \<Rightarrow> string \<Rightarrow> CronError + string \<times> u32" where
  "split_step component field =
     (case cut_at CHR ''/'' component of
        None \<Rightarrow> Inr (component, 1)
      | Some (rangePart, stepRaw) \<Rightarrow>
        (case ParseUint32 stepRaw of
           None \<Rightarrow> Inl (ErrInvalidValue field stepRaw ''step must be a non-negative integer'')
         | Some stepParsed \<Rightarrow> if stepParsed = 0 then Inl (ErrInvalidStep field) else Inr (rangePart, stepParsed)))"

definition range_bounds :: "string \<Rightarrow> string \<Rightarrow> u32 \<Rightarrow> u32 \<Rightarrow> (string \<times> u32) list \<Rightarrow> u32 \<Rightarrow> CronError + u32 \<times> u32" where
  "range_bounds rangePart field lo hi aliases step =
     (if rangePart = ''*'' then Inr (lo, hi)
      else case cut_at CHR ''-'' rangePart of
        Some (from, to) \<Rightarrow>
          bindE (parseIntOrAlias from field lo hi aliases) (\<lambda>fv.
          bindE (parseIntOrAlias to field lo hi aliases) (\<lambda>tv. Inr (fv, tv)))
      | None \<Rightarrow>
          bindE (parseIntOrAlias rangePart field lo hi aliases) (\<lambda>v.
          Inr (if step \<noteq> 1 then (v, hi) else (v, v))))"

text \<open>
  The values \<open>start, start + step, ...\<close> up to \<open>end\<close>. The step is not zero, so \<open>end - start + 1\<close>
  iterations are enough.
\<close>

fun step_values :: "nat \<Rightarrow> u32 \<Rightarrow> u32 \<Rightarrow> u32 \<Rightarrow> u32 list" where
  "step_values 0 v e step = []"
| "step_values (Suc fuel) v e step =
     (if v \<le> e then v # (if v + step < v then [] else step_values fuel (v + step) e step) else [])"

definition expandComponent :: "string \<Rightarrow> string \<Rightarrow> u32 \<Rightarrow> u32 \<Rightarrow> (string \<times> u32) list \<Rightarrow> CronError + u32 list" where
  "expandComponent component field lo hi aliases =
     (if component = [] then Inl (ErrInvalidValue field component ''empty component'')
      else
        bindE (split_step component field) (\<lambda>(rangePart, step).
        bindE (range_bounds rangePart field lo hi aliases step) (\<lambda>(s, e).
          if s > e then Inl (ErrInvalidValue field component ''range start is greater than range end'')
          else if s < lo \<or> e > hi then Inl (ErrOutOfRange field (if s \<ge> lo then e else s) lo hi)
          else Inr (step_values (unat (e - s) + 1) s e step))))"

fun expand_all :: "string list \<Rightarrow> string \<Rightarrow> u32 \<Rightarrow> u32 \<Rightarrow> (string \<times> u32) list \<Rightarrow> CronError + u32 list" where
  "expand_all [] field lo hi aliases = Inr []"
| "expand_all (c # cs) field lo hi aliases =
     bindE (expandComponent c field lo hi aliases) (\<lambda>expanded.
     bindE (expand_all cs field lo hi aliases) (\<lambda>rest. Inr (expanded @ rest)))"

definition parseValueSet :: "string \<Rightarrow> string \<Rightarrow> u32 \<Rightarrow> u32 \<Rightarrow> (string \<times> u32) list \<Rightarrow> CronError + ValueSet" where
  "parseValueSet raw field lo hi aliases =
     (if raw = ''*'' then Inr Star
      else bindE (expand_all (split_on CHR '','' raw) field lo hi aliases) (\<lambda>values. Inr (FromValues values)))"

definition parseMonthField :: "string \<Rightarrow> CronError + ValueSet" where
  "parseMonthField raw = parseValueSet raw ''month'' 1 12 monthAliases"

definition parseDayOfMonth :: "string \<Rightarrow> CronError + DayOfMonth" where
  "parseDayOfMonth raw =
     (if raw = ''*'' then Inr DOMStar
      else if equal_fold raw ''L'' then Inr DOMLast
      else if CHR ''#'' \<in> set raw \<or> CHR ''L'' \<in> set (map to_upper_char raw)
      then Inl (ErrDisallowedSpecial ''day-of-month'' CHR ''#'')
      else bindE (parseValueSet raw ''day-of-month'' 1 31 []) (\<lambda>s. Inr (DOMSet s)))"

definition normaliseWeekday :: "u32 \<Rightarrow> u32" where
  "normaliseWeekday v = (if v = 7 then 0 else v)"

definition normaliseWeekdaySet :: "ValueSet \<Rightarrow> ValueSet" where
  "normaliseWeekdaySet s = (if vs_star s then s else FromValues (map normaliseWeekday (vs_values s)))"

definition parseDayOfWeek :: "string \<Rightarrow> CronError + DayOfWeek" where
  "parseDayOfWeek raw =
     (if raw = ''*'' then Inr DOWStar
      else if equal_fold raw ''L'' then Inr (DOWSet (FromValues [6]))
      else if raw \<noteq> [] \<and> to_upper_char (last raw) = CHR ''L''
      then bindE (parseIntOrAlias (butlast raw) ''day-of-week'' 0 7 dayOfWeekAliases) (\<lambda>v.
           Inr (DOWLastWeekdayOfMonth (normaliseWeekday v)))
      else case cut_at CHR ''#'' raw of
        Some (weekdayRaw, occurrenceRaw) \<Rightarrow>
          bindE (parseIntOrAlias weekdayRaw ''day-of-week'' 0 7 dayOfWeekAliases) (\<lambda>weekday.
          case ParseUint32 (trim_space occurrenceRaw) of
            None \<Rightarrow> Inl (ErrInvalidValue ''day-of-week'' occurrenceRaw ''occurrence after '#' must be an integer'')
          | Some occurrence \<Rightarrow>
            if occurrence < 1 \<or> occurrence > 5
            then Inl (ErrOutOfRange ''day-of-week-occurrence'' occurrence 1 5)
            else Inr (DOWNthWeekdayOfMonth (normaliseWeekday weekday) occurrence))
      | None \<Rightarrow> bindE (parseValueSet raw ''day-of-week'' 0 7 dayOfWeekAliases) (\<lambda>s. Inr (DOWSet (normaliseWeekdaySet s))))"

definition ParseCron :: "string \<Rightarrow> CronFlavor \<Rightarrow> location option \<Rightarrow> CronError + CronSchedule" where
  "ParseCron expr flavor tz =
     (let parts = fields_of (trim_space expr);
          expected = (if flavor = Quartz6 then 6 else 5)
      in if length parts \<noteq> expected then Inl (ErrWrongFieldCount expected (length parts))
         else
           bindE (if flavor = Quartz6 then bindE (parseValueSet (parts ! 0) ''seconds'' 0 59 []) (\<lambda>s. Inr (s, 1))
                  else Inr (FromValues [0], 0)) (\<lambda>(seconds, idx).
           bindE (parseValueSet (parts ! idx) ''minutes'' 0 59 []) (\<lambda>minutes.
           bindE (parseValueSet (parts ! (idx + 1)) ''hours'' 0 23 []) (\<lambda>hours.
           bindE (parseDayOfMonth (parts ! (idx + 2))) (\<lambda>dom.
           bindE (parseMonthField (parts ! (idx + 3))) (\<lambda>months.
           bindE (parseDayOfWeek (parts ! (idx + 4))) (\<lambda>dow.
             Inr \<lparr>cs_Flavor = flavor, cs_Seconds = seconds, cs_Minutes = minutes, cs_Hours = hours, cs_DayOfMonth = dom,
                  cs_Months = months, cs_DayOfWeek = dow, cs_TimeZone = (case tz of None \<Rightarrow> utc_loc | Some l \<Rightarrow> l)\<rparr>)))))))"

section \<open>Value sets\<close>

lemma dedup_from_spec:
  assumes "out \<noteq> []" "sorted (out @ vs)" "distinct out"
  shows "sorted (dedup_from out vs) \<and> distinct (dedup_from out vs) \<and> set (dedup_from out vs) = set out \<union> set vs"
  using assms
proof (induction vs arbitrary: out)
  case (Cons v vs)
  show ?case
  proof (cases "v = last out")
    case True
    with Cons show ?thesis by (auto simp: sorted_append)
  next
    case False
    have le: "x \<le> last out" if "x \<in> set out" for x
      using that Cons.prems(1,2) by (metis append_butlast_last_id in_set_conv_nth length_append_singleton nth_append_length
          order_refl sorted_append sorted_iff_nth_mono less_Suc_eq_le lessI)
    have "v \<notin> set out" using le False Cons.prems(1,2) by (auto simp: sorted_append) (metis False last_in_set order_antisym)
    with Cons.IH [of "out @ [v]"] Cons.prems False show ?thesis by simp
  qed
qed simp

lemma FromValues_spec:
  "sorted (vs_values (FromValues vs))" "distinct (vs_values (FromValues vs))"
  "set (vs_values (FromValues vs)) = set vs" "vs_star (FromValues vs) = False"
proof -
  have "sorted (dedupSorted (sort vs)) \<and> distinct (dedupSorted (sort vs)) \<and> set (dedupSorted (sort vs)) = set vs"
  proof (cases "length vs \<le> 1")
    case True
    then show ?thesis by (cases vs) (auto simp: dedupSorted_def)
  next
    case False
    then obtain x xs where xs: "sort vs = x # xs" "length vs > 1" by (cases "sort vs") (auto dest: arg_cong [of _ _ length])
    have "set vs = set (x # xs)" "sorted (x # xs)" "length (x # xs) > 1" using xs by (metis set_sort, metis sorted_sort, metis length_sort)
    with xs dedup_from_spec [of "[x]" xs] show ?thesis by (simp add: dedupSorted_def)
  qed
  then show "sorted (vs_values (FromValues vs))" "distinct (vs_values (FromValues vs))"
    "set (vs_values (FromValues vs)) = set vs" "vs_star (FromValues vs) = False" by (simp_all add: FromValues_def)
qed

lemma vs_Contains_iff:
  assumes "sorted (vs_values v)"
  shows "vs_Contains v x \<longleftrightarrow> vs_star v \<or> x \<in> set (vs_values v)"
proof -
  let ?xs = "vs_values v"
  let ?n = "length ?xs"
  define f where "f i = (if i < ?n then ?xs ! i \<ge> x else True)" for i
  have mono: "f b" if "a \<le> b" "f a" for a b
    using that sorted_nth_mono [OF assms, of a b] by (auto simp: f_def split: if_splits)
  have same: "sort_search (\<lambda>i. ?xs ! i \<ge> x) 0 ?n = sort_search f 0 ?n"
    by (rule sort_search_cong) (simp add: f_def)
  define k where "k = sort_search f 0 ?n"
  have k: "k \<le> ?n" "\<forall>i < k. \<not> f i" "k < ?n \<longrightarrow> f k"
    using sort_search_spec [of f 0 ?n] mono by (auto simp: k_def)
  have "k < ?n \<and> ?xs ! k = x \<longleftrightarrow> x \<in> set ?xs"
  proof
    assume "x \<in> set ?xs"
    then obtain i where i: "i < ?n" "?xs ! i = x" by (auto simp: in_set_conv_nth)
    then have "\<not> i < k" using k(2) by (auto simp: f_def)
    then have "k < ?n" "?xs ! k \<le> x" using i sorted_nth_mono [OF assms, of k i] by auto
    then show "k < ?n \<and> ?xs ! k = x" using k(3) by (auto simp: f_def)
  qed auto
  then show ?thesis using same by (simp add: vs_Contains_def Let_def flip: k_def)
qed

section \<open>Components\<close>

lemma uint_step_overflow: "(v :: u32) + st < v \<longleftrightarrow> uint v + uint st \<ge> 2 ^ 32"
proof -
  have r: "0 \<le> uint v" "uint v < 2 ^ 32" "0 \<le> uint st" "uint st < 2 ^ 32" using unsigned_less [of v] unsigned_less [of st] by simp_all
  have m: "uint (v + st) = (uint v + uint st) mod 2 ^ 32" by (simp add: uint_word_ariths)
  show ?thesis
  proof (cases "uint v + uint st < 2 ^ 32")
    case True
    then have "uint (v + st) = uint v + uint st" unfolding m using r by (intro mod_pos_pos_trivial) simp_all
    with True r show ?thesis unfolding word_less_def by simp
  next
    case False
    have "(uint v + uint st) mod 2 ^ 32 = (uint v + uint st - 2 ^ 32) mod 2 ^ 32" by (rule minus_mod_self2 [symmetric])
    also have "\<dots> = uint v + uint st - 2 ^ 32" using r False by (intro mod_pos_pos_trivial) simp_all
    finally show ?thesis using r False unfolding word_less_def m by simp
  qed
qed

lemma uint_step_add: "\<not> (v :: u32) + st < v \<Longrightarrow> uint (v + st) = uint v + uint st"
  by (simp add: uint_step_overflow uint_word_ariths)

lemma no_step: "uint e < uint v \<Longrightarrow> \<not> (\<exists>k. 0 \<le> k \<and> uint (x :: u32) = uint (v :: u32) + k * uint (st :: u32) \<and> uint x \<le> uint (e :: u32))"
proof clarify
  fix k assume "uint e < uint v" "0 \<le> k" "uint x = uint v + k * uint st" "uint x \<le> uint e"
  moreover have "0 \<le> k * uint st" using \<open>0 \<le> k\<close> by simp
  ultimately show False by linarith
qed

lemma step_values_spec:
  assumes "st \<noteq> 0" "uint e - uint v < int fuel"
  shows "x \<in> set (step_values fuel v e st) \<longleftrightarrow> (\<exists>k. 0 \<le> k \<and> uint x = uint v + k * uint st \<and> uint x \<le> uint e)"
  using assms(2)
proof (induction fuel arbitrary: v)
  case 0
  then have "uint e < uint v" by simp
  from no_step [OF this] show ?case by simp
next
  case (Suc fuel)
  have st: "0 < uint st" using assms(1) by (metis uint_0_iff uint_ge_0 order_le_less)
  have split: "(\<exists>k. 0 \<le> k \<and> uint x = uint v + k * uint st \<and> uint x \<le> uint e) \<longleftrightarrow>
      (uint x = uint v \<and> uint v \<le> uint e) \<or> (\<exists>k. 0 \<le> k \<and> uint x = (uint v + uint st) + k * uint st \<and> uint x \<le> uint e)" (is "?L \<longleftrightarrow> ?R")
  proof
    assume ?L
    then obtain k where k: "0 \<le> k" "uint x = uint v + k * uint st" "uint x \<le> uint e" by blast
    show ?R
    proof (cases "k = 0")
      case False
      then have "0 \<le> k - 1" "uint x = uint v + uint st + (k - 1) * uint st" using k by (simp_all add: algebra_simps)
      with k(3) show ?thesis by blast
    qed (use k in simp)
  next
    assume ?R
    then consider "uint x = uint v" "uint v \<le> uint e" | k where "0 \<le> k" "uint x = uint v + uint st + k * uint st" "uint x \<le> uint e" by blast
    then show ?L
    proof cases
      case 1
      then show ?thesis by (intro exI [of _ 0]) simp
    next
      case (2 k)
      then show ?thesis by (intro exI [of _ "k + 1"]) (simp add: algebra_simps)
    qed
  qed
  show ?case
  proof (cases "v \<le> e")
    case True
    show ?thesis
    proof (cases "v + st < v")
      case True
      have "uint e < 2 ^ 32" using unsigned_less [of e] by simp
      with True have "uint e < uint v + uint st" by (simp add: uint_step_overflow)
      then have "\<not> (\<exists>k. 0 \<le> k \<and> uint x = (uint v + uint st) + k * uint st \<and> uint x \<le> uint e)"
        using st by (metis (no_types, opaque_lifting) add_increasing2 leD mult_nonneg_nonneg order_less_imp_le order_le_less_trans order_refl)
      with split \<open>v \<le> e\<close> True show ?thesis by (auto simp: word_le_def word_uint_eq_iff)
    next
      case False
      then have "uint e - uint (v + st) < int fuel" using Suc.prems st by (simp add: uint_step_add)
      from Suc.IH [OF this] split \<open>v \<le> e\<close> False show ?thesis by (auto simp: word_le_def word_uint_eq_iff uint_step_add)
    qed
  next
    case False
    then have "uint e < uint v" by (simp add: word_le_def)
    from no_step [OF this] False show ?thesis by simp
  qed
qed

lemma find_in_set: "find P xs = Some y \<Longrightarrow> y \<in> set xs"
  by (metis find_Some_iff nth_mem)

lemma parse_range:
  assumes "parseIntOrAlias r field lo hi aliases = Inr v" "\<forall>(n, v) \<in> set aliases. lo \<le> v \<and> v \<le> hi"
  shows "lo \<le> v \<and> v \<le> hi"
proof (cases "find (\<lambda>(name, _). equal_fold name (trim_space r)) aliases")
  case None
  with assms(1) show ?thesis by (auto simp: parseIntOrAlias_def Let_def not_less split: if_splits option.splits)
next
  case (Some nv)
  then have "nv \<in> set aliases" by (rule find_in_set)
  moreover have "snd nv = v" using assms(1) Some by (auto simp: parseIntOrAlias_def Let_def split: if_splits prod.splits)
  ultimately show ?thesis using assms(2) by auto
qed

lemma range_bounds_range:
  assumes "range_bounds p field lo hi aliases step = Inr (s, e)" "\<forall>(n, v) \<in> set aliases. lo \<le> v \<and> v \<le> hi" "lo \<le> hi"
  shows "lo \<le> s \<and> s \<le> hi \<and> lo \<le> e \<and> e \<le> hi"
  using assms(1,3) parse_range [OF _ assms(2)]
  by (auto simp: range_bounds_def bindE_Inr_iff split: if_splits option.splits prod.splits)

lemma split_step_positive: "split_step c field = Inr (p, step) \<Longrightarrow> step \<noteq> 0"
  by (auto simp: split_step_def split: option.splits if_splits prod.splits)

lemma expandComponent_range:
  assumes "expandComponent c field lo hi aliases = Inr vs"
  obtains p step s e where "split_step c field = Inr (p, step)" "step \<noteq> 0" "range_bounds p field lo hi aliases step = Inr (s, e)"
    "lo \<le> s" "s \<le> e" "e \<le> hi"
    "\<forall>x. x \<in> set vs \<longleftrightarrow> (\<exists>k. 0 \<le> k \<and> uint x = uint s + k * uint step \<and> uint x \<le> uint e)"
proof -
  obtain p step s e where c: "split_step c field = Inr (p, step)" "range_bounds p field lo hi aliases step = Inr (s, e)"
    "\<not> s > e" "\<not> (s < lo \<or> e > hi)" "vs = step_values (unat (e - s) + 1) s e step"
    using assms by (auto simp: expandComponent_def bindE_Inr_iff split: if_splits prod.splits)
  have st: "step \<noteq> 0" using c(1) by (rule split_step_positive)
  have "uint e - uint s < int (unat (e - s) + 1)"
    using c(3) uint_sub_lem [of s e] by (simp add: not_less word_le_def)
  from step_values_spec [OF st this] c st that show thesis by (auto simp: not_less)
qed

lemma expandComponent_values:
  assumes "expandComponent c field lo hi aliases = Inr vs"
  shows "vs \<noteq> [] \<and> (\<forall>v \<in> set vs. lo \<le> v \<and> v \<le> hi)"
  using assms
proof (rule expandComponent_range)
  fix p step s e
  assume a: "lo \<le> s" "s \<le> e" "e \<le> hi" and x: "\<forall>x. x \<in> set vs \<longleftrightarrow> (\<exists>k. 0 \<le> k \<and> uint x = uint s + k * uint step \<and> uint x \<le> uint e)"
  have "s \<in> set vs" using x a(2) by (auto simp: word_le_def intro: exI [of _ 0])
  moreover have "lo \<le> v \<and> v \<le> hi" if v: "v \<in> set vs" for v
  proof -
    obtain k where k: "0 \<le> k" "uint v = uint s + k * uint step" "uint v \<le> uint e" using x v by blast
    have "0 \<le> k * uint step" using k(1) by simp
    then have "s \<le> v" "v \<le> e" using k(2,3) unfolding word_le_def by linarith+
    with a show ?thesis by (metis order_trans)
  qed
  ultimately show ?thesis by auto
qed

text \<open>A set of a parsed field: a wildcard, or values in range, in increasing order.\<close>

definition vs_ok :: "ValueSet \<Rightarrow> u32 \<Rightarrow> u32 \<Rightarrow> bool" where
  "vs_ok v lo hi \<longleftrightarrow> vs_star v \<or> (vs_values v \<noteq> [] \<and> sorted (vs_values v) \<and> distinct (vs_values v) \<and> (\<forall>x \<in> set (vs_values v). lo \<le> x \<and> x \<le> hi))"

lemma expand_all_values:
  "expand_all cs field lo hi aliases = Inr vs \<Longrightarrow> (cs \<noteq> [] \<longrightarrow> vs \<noteq> []) \<and> (\<forall>v \<in> set vs. lo \<le> v \<and> v \<le> hi)"
proof (induction cs arbitrary: vs)
  case (Cons c cs)
  then obtain v1 v2 where "expandComponent c field lo hi aliases = Inr v1" "expand_all cs field lo hi aliases = Inr v2" "vs = v1 @ v2"
    by (auto simp: bindE_Inr_iff)
  with Cons.IH [of v2] expandComponent_values [of c field lo hi aliases v1] show ?case by auto
qed simp

lemma FromValues_ok: "vs \<noteq> [] \<Longrightarrow> \<forall>x \<in> set vs. lo \<le> x \<and> x \<le> hi \<Longrightarrow> vs_ok (FromValues vs) lo hi"
  using FromValues_spec [of vs] by (auto simp: vs_ok_def)

lemma parseValueSet_ok:
  assumes "parseValueSet raw field lo hi aliases = Inr v"
  shows "vs_ok v lo hi"
proof (cases "raw = ''*''")
  case False
  then obtain vs where "expand_all (split_on CHR '','' raw) field lo hi aliases = Inr vs" "v = FromValues vs"
    using assms by (auto simp: parseValueSet_def bindE_Inr_iff)
  with expand_all_values [of "split_on CHR '','' raw" field lo hi aliases vs] show ?thesis by (simp add: FromValues_ok)
qed (use assms in \<open>auto simp: parseValueSet_def vs_ok_def Star_def\<close>)

fun dom_ok :: "DayOfMonth \<Rightarrow> bool" where
  "dom_ok (DOMSet s) = (vs_ok s 1 31 \<and> \<not> vs_star s)"
| "dom_ok d = True"

fun dow_ok :: "DayOfWeek \<Rightarrow> bool" where
  "dow_ok (DOWSet s) = (vs_ok s 0 6 \<and> \<not> vs_star s)"
| "dow_ok (DOWLastWeekdayOfMonth w) = (w \<le> 6)"
| "dow_ok (DOWNthWeekdayOfMonth w n) = (w \<le> 6 \<and> 1 \<le> n \<and> n \<le> 5)"
| "dow_ok DOWStar = True"

definition cron_ok :: "CronSchedule \<Rightarrow> bool" where
  "cron_ok s \<longleftrightarrow> vs_ok (cs_Seconds s) 0 59 \<and> vs_ok (cs_Minutes s) 0 59 \<and> vs_ok (cs_Hours s) 0 23 \<and>
     dom_ok (cs_DayOfMonth s) \<and> vs_ok (cs_Months s) 1 12 \<and> dow_ok (cs_DayOfWeek s)"

lemma parse_star: "parseValueSet raw field lo hi aliases = Inr v \<Longrightarrow> vs_star v \<longleftrightarrow> raw = ''*''"
  by (auto simp: parseValueSet_def bindE_Inr_iff Star_def FromValues_def split: if_splits)

lemma parseDayOfMonth_ok: "parseDayOfMonth raw = Inr d \<Longrightarrow> dom_ok d"
  by (auto simp: parseDayOfMonth_def bindE_Inr_iff parse_star dest: parseValueSet_ok split: if_splits)

lemma normalise_le: "v \<le> 7 \<Longrightarrow> normaliseWeekday v \<le> 6"
proof -
  assume "v \<le> 7"
  then have "v = 7 \<or> v \<le> 6" unfolding word_le_def word_uint_eq_iff by auto
  then show ?thesis by (auto simp: normaliseWeekday_def)
qed

lemma aliases_range: "\<forall>(n, v) \<in> set dayOfWeekAliases. 0 \<le> v \<and> v \<le> 7"
  by (simp add: dayOfWeekAliases_def)

lemma normaliseWeekdaySet_ok: "vs_ok v 0 7 \<Longrightarrow> \<not> vs_star v \<Longrightarrow> vs_ok (normaliseWeekdaySet v) 0 6 \<and> \<not> vs_star (normaliseWeekdaySet v)"
  by (auto simp: normaliseWeekdaySet_def vs_ok_def FromValues_spec normalise_le intro!: FromValues_ok)
    (metis FromValues_spec(3) list.set_map set_empty image_is_empty)+

lemma parseDayOfWeek_ok:
  assumes "parseDayOfWeek raw = Inr d"
  shows "dow_ok d"
proof -
  have wd: "normaliseWeekday v \<le> 6" if "parseIntOrAlias r f 0 7 dayOfWeekAliases = Inr v" for r f v
    using parse_range [OF that aliases_range] by (simp add: normalise_le)
  have six: "vs_ok (FromValues [6]) 0 6" "\<not> vs_star (FromValues [6])" by (simp_all add: FromValues_ok FromValues_spec)
  show ?thesis
  proof (cases "raw = ''*'' \<or> equal_fold raw ''L''")
    case True
    then show ?thesis using assms six by (auto simp: parseDayOfWeek_def split: if_splits)
  next
    case plain: False
    show ?thesis
    proof (cases "raw \<noteq> [] \<and> to_upper_char (last raw) = CHR ''L''")
      case True
      then obtain v where "parseIntOrAlias (butlast raw) ''day-of-week'' 0 7 dayOfWeekAliases = Inr v" "d = DOWLastWeekdayOfMonth (normaliseWeekday v)"
        using assms plain unfolding parseDayOfWeek_def by (auto simp: bindE_Inr_iff)
      with wd show ?thesis by simp
    next
      case noL: False
      show ?thesis
      proof (cases "cut_at CHR ''#'' raw")
        case None
        then obtain v where v: "parseValueSet raw ''day-of-week'' 0 7 dayOfWeekAliases = Inr v" "d = DOWSet (normaliseWeekdaySet v)"
          using assms plain noL unfolding parseDayOfWeek_def by (auto simp: bindE_Inr_iff)
        then have "\<not> vs_star v" using plain parse_star [OF v(1)] by simp
        with normaliseWeekdaySet_ok [OF parseValueSet_ok [OF v(1)]] v(2) show ?thesis by simp
      next
        case (Some wo)
        then obtain v n where "parseIntOrAlias (fst wo) ''day-of-week'' 0 7 dayOfWeekAliases = Inr v" "\<not> (n < 1 \<or> n > 5)"
          "d = DOWNthWeekdayOfMonth (normaliseWeekday v) n"
          using assms plain noL unfolding parseDayOfWeek_def
          by (cases wo) (simp only: bindE_Inr_iff if_False option.case prod.case simp_thms fst_conv de_Morgan_disj, auto split: option.splits if_splits)
        moreover have "1 \<le> n" if "\<not> n < 1" using that by (simp only: not_less)
        ultimately show ?thesis using wd by (simp only: dow_ok.simps not_less de_Morgan_disj simp_thms)
      qed
    qed
  qed
qed

lemma ParseCron_wf:
  assumes "ParseCron expr flavor tz = Inr s"
  shows "cron_ok s"
proof -
  have zero: "vs_ok (FromValues [0]) 0 59" by (rule FromValues_ok) simp_all
  show ?thesis
    using assms unfolding ParseCron_def
    by (auto simp: Let_def bindE_Inr_iff cron_ok_def zero parseMonthField_def split: if_splits
        intro: parseValueSet_ok parseDayOfMonth_ok parseDayOfWeek_ok)
qed

section \<open>Properties\<close>

text \<open>
  C39. A parsed schedule is well-formed: every field is a wildcard or has at least one value, its values
  are within the bounds of the field and in increasing order, weekdays are at most six and
  occurrences between one and five.
\<close>

theorem ParseCron_ok:
  assumes "ParseCron expr flavor tz = Inr s"
  shows "cron_ok s"
  by (rule ParseCron_wf [OF assms])

text \<open>
  A value set contains exactly its values: the binary search over the sorted values agrees with
  membership in what the components of the field were expanded to.
\<close>

theorem vs_Contains_values:
  "vs_Contains (FromValues vs) x = (x \<in> set vs)"
  using vs_Contains_iff [of "FromValues vs" x] FromValues_spec [of vs] by simp

text \<open>
  A component of a field with bounds \<open>lo\<close> and \<open>hi\<close> that parses stands for an arithmetic progression
  within the bounds: the values are those between its first and its last value, in the distance of its
  step; the wrap-around of the loop variable adds none.
\<close>

theorem expandComponent_progression:
  assumes "expandComponent c field lo hi aliases = Inr vs"
  shows "\<exists>p step s e. split_step c field = Inr (p, step) \<and> range_bounds p field lo hi aliases step = Inr (s, e) \<and>
     lo \<le> s \<and> s \<le> e \<and> e \<le> hi \<and>
     (\<forall>x. (x \<in> set vs) = (uint s \<le> uint x \<and> uint x \<le> uint e \<and> (uint x - uint s) mod uint step = 0))"
  using assms
proof (rule expandComponent_range)
  fix p step s e
  assume a: "split_step c field = Inr (p, step)" "step \<noteq> 0" "range_bounds p field lo hi aliases step = Inr (s, e)"
    "lo \<le> s" "s \<le> e" "e \<le> hi"
    and x: "\<forall>x. x \<in> set vs \<longleftrightarrow> (\<exists>k. 0 \<le> k \<and> uint x = uint s + k * uint step \<and> uint x \<le> uint e)"
  have st: "0 < uint step" using a(2) by (metis uint_0_iff uint_ge_0 order_le_less)
  have prog: "(\<exists>k. 0 \<le> k \<and> uint x = uint s + k * uint step) \<longleftrightarrow> uint s \<le> uint x \<and> (uint x - uint s) mod uint step = 0" for x :: u32
  proof
    assume "\<exists>k. 0 \<le> k \<and> uint x = uint s + k * uint step"
    then obtain k where "0 \<le> k" "uint x = uint s + k * uint step" by blast
    then show "uint s \<le> uint x \<and> (uint x - uint s) mod uint step = 0" using st by simp
  next
    assume r: "uint s \<le> uint x \<and> (uint x - uint s) mod uint step = 0"
    then have "uint x = uint s + (uint x - uint s) div uint step * uint step" using div_mult_mod_eq [of "uint x - uint s" "uint step"] by simp
    moreover have "0 \<le> (uint x - uint s) div uint step" using r st by (simp add: pos_imp_zdiv_nonneg_iff)
    ultimately show "\<exists>k. 0 \<le> k \<and> uint x = uint s + k * uint step" by blast
  qed
  have "(x \<in> set vs) = (uint s \<le> uint x \<and> uint x \<le> uint e \<and> (uint x - uint s) mod uint step = 0)" for x
  proof -
    have "x \<in> set vs \<longleftrightarrow> (\<exists>k. 0 \<le> k \<and> uint x = uint s + k * uint step) \<and> uint x \<le> uint e" using x by blast
    then show ?thesis unfolding prog by (simp only: conj_ac)
  qed
  with a(1,3-6) show ?thesis by (intro exI conjI allI)
qed

theorem expandComponent_progression_witness:
  "\<exists>vs. expandComponent ''10-40/15'' ''minutes'' 0 59 [] = Inr vs \<and> 25 \<in> set vs \<and> 41 \<notin> set vs"
proof -
  have e: "expandComponent ''10-40/15'' ''minutes'' 0 59 [] = Inr [10, 25, 40]" by code_simp
  from expandComponent_progression [OF this] show ?thesis using e by auto
qed

theorem ParseCron_ok_witness:
  "\<exists>s. ParseCron ''0 9 L JAN,mar MON#2'' Unix5 None = Inr s \<and> cron_ok s"
proof -
  have "(case ParseCron ''0 9 L JAN,mar MON#2'' Unix5 None of Inr _ \<Rightarrow> True | Inl _ \<Rightarrow> False)" by code_simp
  then obtain s where "ParseCron ''0 9 L JAN,mar MON#2'' Unix5 None = Inr s" by (auto split: sum.splits)
  with ParseCron_ok [OF this] show ?thesis by blast
qed

end
