(* ===== verification/Calendar.thy ===== *)
theory Calendar
  imports Prelude
begin

text \<open>
  What the sources use of the calendar of package \<open>time\<close>: the proleptic Gregorian calendar in UTC. A
  \<open>time.Time\<close> in UTC without a fraction of a second is its number of seconds since 1970-01-01; the
  accessors are functions of that number. Months are counted from the year 0: month \<open>k\<close> is month
  \<open>k mod 12 + 1\<close> of year \<open>k div 12\<close>.
\<close>

section \<open>Months and days\<close>

definition is_leap :: "int \<Rightarrow> bool" where
  "is_leap y \<longleftrightarrow> y mod 4 = 0 \<and> (y mod 100 \<noteq> 0 \<or> y mod 400 = 0)"

definition month_len :: "int \<Rightarrow> int" where
  "month_len k = (let m = k mod 12 + 1 in
     if m = 2 then (if is_leap (k div 12) then 29 else 28) else if m \<in> {4, 6, 9, 11} then 30 else 31)"

definition days_before_year :: "int \<Rightarrow> int" where
  "days_before_year y = 365 * (y - 1970) + ((y - 1) div 4 - (y - 1) div 100 + (y - 1) div 400) - 477"

definition days_before_month :: "int \<Rightarrow> int" where
  "days_before_month m =
     (if m = 0 then 0 else if m = 1 then 31 else if m = 2 then 59 else if m = 3 then 90 else if m = 4 then 120
      else if m = 5 then 151 else if m = 6 then 181 else if m = 7 then 212 else if m = 8 then 243
      else if m = 9 then 273 else if m = 10 then 304 else 334)"

text \<open>The number of the first day of a month.\<close>

definition first_of :: "int \<Rightarrow> int" where
  "first_of k = days_before_year (k div 12) + days_before_month (k mod 12) +
     (if k mod 12 \<ge> 2 \<and> is_leap (k div 12) then 1 else 0)"

lemma days_before_next_year: "days_before_year (y + 1) = days_before_year y + (if is_leap y then 366 else 365)"
proof -
  have step: "y div c = (y - 1) div c + (if y mod c = 0 then 1 else 0)" if "0 < c" for c :: int
  proof (cases "y mod c = 0")
    case True
    then have "y - 1 = c * (y div c - 1) + (c - 1)" by (simp add: algebra_simps) (metis mult_div_mod_eq add.right_neutral)
    then have "(y - 1) div c = y div c - 1 + (c - 1) div c" using that by (metis div_mult_self4 less_irrefl)
    with True that show ?thesis by simp
  next
    case False
    then have "0 < y mod c" "y mod c < c" using that pos_mod_bound [of c y] pos_mod_sign [of c y] by linarith+
    moreover have "y - 1 = c * (y div c) + (y mod c - 1)" by simp
    then have "(y - 1) div c = y div c + (y mod c - 1) div c" using that by (metis div_mult_self4 less_irrefl)
    ultimately show ?thesis using False by simp
  qed
  have bits: "(if p then 1 else 0) - (if q then 1 else 0) + (if r then 1 else 0) = (if p \<and> (\<not> q \<or> r) then 1 else (0 :: int))"
    if "r \<Longrightarrow> q" "q \<Longrightarrow> p" for p q r
    using that by auto
  have leap: "(if y mod 4 = 0 then 1 else 0) - (if y mod 100 = 0 then 1 else 0) + (if y mod 400 = 0 then 1 else 0) =
      (if is_leap y then 1 else (0 :: int))"
    unfolding is_leap_def
  proof (rule bits)
    show "y mod 100 = 0" if "y mod 400 = 0" using that mod_mod_cancel [of 100 400 y] by simp
    show "y mod 4 = 0" if "y mod 100 = 0" using that mod_mod_cancel [of 4 100 y] by simp
  qed
  have gen: "365 * (y + 1 - 1970) + (a + x - (b + z) + (c + u)) - 477 = 365 * (y - 1970) + (a - b + c) - 477 + (if l then 366 else 365)"
    if "x - z + u = (if l then 1 else 0)" for a b c x z u :: int and l
    using that by (cases l) simp_all
  show ?thesis
    unfolding days_before_year_def add_diff_cancel_right' step [of 4, OF zero_less_numeral] step [of 100, OF zero_less_numeral]
      step [of 400, OF zero_less_numeral]
    by (rule gen [OF leap])
qed

lemma month_cases:
  fixes m :: int
  assumes "0 \<le> m" "m < 12"
  shows "m \<in> {0, 1, 2, 3, 4, 5, 6, 7, 8, 9, 10, 11}"
proof -
  obtain n where n: "m = int n" using assms(1) zero_le_imp_eq_int by blast
  then have "n < 12" using assms(2) by simp
  then have "n \<in> {0, 1, 2, 3, 4, 5, 6, 7, 8, 9, 10, 11}" by (auto simp: eval_nat_numeral less_Suc_eq)
  then show ?thesis unfolding n by auto
qed

lemma first_of_next: "first_of (k + 1) = first_of k + month_len k"
proof -
  have m: "k mod 12 \<in> {0, 1, 2, 3, 4, 5, 6, 7, 8, 9, 10, 11}" by (rule month_cases) simp_all
  have k: "k = 12 * (k div 12) + k mod 12" by simp
  define y where "y = k div 12"
  show ?thesis
  proof (cases "k mod 12 = 11")
    case True
    then have "k + 1 = 12 * (y + 1)" using k by (simp add: y_def)
    then have "(k + 1) div 12 = y + 1" "(k + 1) mod 12 = 0" by simp_all
    with True show ?thesis by (simp add: first_of_def month_len_def days_before_next_year days_before_month_def flip: y_def)
  next
    case False
    then have "0 \<le> k mod 12" "k mod 12 + 1 < 12" using m by auto
    moreover have "k + 1 = 12 * y + (k mod 12 + 1)" using k by (simp add: y_def)
    ultimately have "(k + 1) div 12 = y" "(k + 1) mod 12 = k mod 12 + 1"
      by (metis add_nonneg_nonneg div_mult_self4 div_pos_pos_trivial zero_le_one zero_neq_numeral add.right_neutral,
          metis add_nonneg_nonneg mod_mult_self4 mod_pos_pos_trivial zero_le_one)
    with m False show ?thesis by (auto simp: first_of_def month_len_def days_before_month_def simp flip: y_def)
  qed
qed

lemma month_len_range: "28 \<le> month_len k" "month_len k \<le> 31"
  by (simp_all add: month_len_def Let_def)

lemma first_of_mono: "j \<le> k \<Longrightarrow> first_of j + 28 * (k - j) \<le> first_of k"
proof (induction k rule: int_ge_induct)
  case (step k)
  then show ?case using month_len_range [of k] first_of_next [of k] by (simp add: algebra_simps)
qed simp

lemma first_of_le: "j \<le> k \<Longrightarrow> first_of j \<le> first_of k"
  using first_of_mono [of j k] by simp

lemma first_of_less: "j < k \<Longrightarrow> first_of j < first_of k"
  using first_of_mono [of j k] by simp

text \<open>The month of a day, searched from an estimate; the second argument is the distance to its first day.\<close>

function month_from :: "int \<Rightarrow> int \<Rightarrow> int" where
  "month_from k r =
     (if r < 0 then month_from (k - 1) (r + month_len (k - 1))
      else if r < month_len k then k
      else month_from (k + 1) (r - month_len k))"
  by pat_completeness auto

termination
  by (relation "measure (\<lambda>(k, r). if r < 0 then nat (1 - r) else if r < month_len k then 0 else nat r)")
    (use month_len_range in \<open>auto simp: not_less, smt+\<close>)

declare month_from.simps [simp del]

lemma month_from_spec: "first_of (month_from k r) \<le> first_of k + r \<and> first_of k + r < first_of (month_from k r + 1)"
proof (induction k r rule: month_from.induct)
  case (1 k r)
  have prev: "first_of k = first_of (k - 1) + month_len (k - 1)" using first_of_next [of "k - 1"] by simp
  show ?case
    using 1 prev first_of_next [of k] by (subst (1 2) month_from.simps) (auto simp: add_ac)
qed

definition month_of_day :: "int \<Rightarrow> int" where
  "month_of_day d = (let k = 23640 + d * 4800 div 146097 in month_from k (d - first_of k))"

lemma month_of_day: "first_of (month_of_day d) \<le> d" "d < first_of (month_of_day d + 1)"
  using month_from_spec [of "23640 + d * 4800 div 146097" "d - first_of (23640 + d * 4800 div 146097)"]
  by (simp_all add: month_of_day_def Let_def)

lemma month_of_day_unique: "first_of k \<le> d \<Longrightarrow> d < first_of (k + 1) \<Longrightarrow> month_of_day d = k"
  using month_of_day [of d] first_of_le [of "month_of_day d + 1" k] first_of_le [of "k + 1" "month_of_day d"]
  by (smt (verit))

lemma month_of_day_mono: "d \<le> e \<Longrightarrow> month_of_day d \<le> month_of_day e"
  using month_of_day [of d] month_of_day [of e] first_of_le [of "month_of_day e + 1" "month_of_day d"] by (smt (verit))

lemma month_of_day_less: "d < first_of k \<longleftrightarrow> month_of_day d < k"
  using month_of_day [of d] first_of_le [of "month_of_day d + 1" k] first_of_le [of k "month_of_day d"] by (smt (verit))

section \<open>Clock and calendar fields of an instant\<close>

definition day_no :: "int \<Rightarrow> int" where
  "day_no n = n div 86400"

definition month_idx :: "int \<Rightarrow> int" where
  "month_idx n = month_of_day (day_no n)"

definition Year :: "int \<Rightarrow> int" where
  "Year n = month_idx n div 12"

definition Month :: "int \<Rightarrow> int" where
  "Month n = month_idx n mod 12 + 1"

definition Day :: "int \<Rightarrow> int" where
  "Day n = day_no n - first_of (month_idx n) + 1"

definition Weekday :: "int \<Rightarrow> int" where
  "Weekday n = (day_no n + 4) mod 7"

definition Hour :: "int \<Rightarrow> int" where
  "Hour n = n mod 86400 div 3600"

definition Minute :: "int \<Rightarrow> int" where
  "Minute n = n mod 3600 div 60"

definition Second :: "int \<Rightarrow> int" where
  "Second n = n mod 60"

text \<open>\<open>time.Date\<close> in UTC. Fields out of range carry over, as \<open>AddDate\<close> uses for days.\<close>

definition Date :: "int \<Rightarrow> int \<Rightarrow> int \<Rightarrow> int \<Rightarrow> int \<Rightarrow> int \<Rightarrow> int" where
  "Date y mo d h mi s = (first_of (12 * y + (mo - 1)) + (d - 1)) * 86400 + h * 3600 + mi * 60 + s"

definition AddDays :: "int \<Rightarrow> int \<Rightarrow> int" where
  "AddDays n k = n + k * 86400"

lemma month_idx_eq: "12 * Year n + (Month n - 1) = month_idx n"
  by (simp add: Year_def Month_def)

lemma clock_eq: "n = day_no n * 86400 + Hour n * 3600 + Minute n * 60 + Second n"
proof -
  have m: "n mod 3600 div 60 * 60 + n mod 60 = n mod 3600"
    using div_mult_mod_eq [of "n mod 3600" 60] by (simp add: mod_mod_cancel)
  have h: "n mod 86400 div 3600 * 3600 + n mod 3600 = n mod 86400"
    using div_mult_mod_eq [of "n mod 86400" 3600] by (simp add: mod_mod_cancel)
  show ?thesis by (simp add: day_no_def Hour_def Minute_def Second_def add.assoc m h)
qed

lemma clock_range:
  "0 \<le> Hour n" "Hour n < 24" "0 \<le> Minute n" "Minute n < 60" "0 \<le> Second n" "Second n < 60"
proof -
  have "n mod 86400 < 3600 * 24" "0 \<le> n mod 86400" "n mod 3600 < 60 * 60" "0 \<le> n mod 3600" by simp_all
  then show "0 \<le> Hour n" "Hour n < 24" "0 \<le> Minute n" "Minute n < 60" "0 \<le> Second n" "Second n < 60"
    unfolding Hour_def Minute_def Second_def by (simp_all add: div_less_iff_less_mult pos_imp_zdiv_nonneg_iff)
qed

lemma Date_fields: "Date (Year n) (Month n) (Day n) h mi s = day_no n * 86400 + h * 3600 + mi * 60 + s"
  by (simp add: Date_def month_idx_eq Day_def)

lemma Date_self [simp]: "Date (Year n) (Month n) (Day n) (Hour n) (Minute n) (Second n) = n"
  using clock_eq [of n] by (simp add: Date_fields)

lemma clock_of:
  assumes "0 \<le> h" "h < 24" "0 \<le> mi" "mi < 60" "0 \<le> s" "s < 60" "n = d * 86400 + h * 3600 + mi * 60 + s"
  shows "day_no n = d \<and> Hour n = h \<and> Minute n = mi \<and> Second n = s"
proof -
  have 1: "n = d * 86400 + (h * 3600 + mi * 60 + s)" "0 \<le> h * 3600 + mi * 60 + s" "h * 3600 + mi * 60 + s < 86400"
    using assms by simp_all
  then have d: "day_no n = d" "n mod 86400 = h * 3600 + (mi * 60 + s)" by (simp_all add: day_no_def)
  have 2: "0 \<le> mi * 60 + s" "mi * 60 + s < 3600" using assms by simp_all
  have "n mod 3600 = n mod 86400 mod 3600" by (simp add: mod_mod_cancel)
  also have "\<dots> = mi * 60 + s" using d(2) 2 by simp
  finally have m: "n mod 3600 = mi * 60 + s" .
  have "n mod 60 = n mod 3600 mod 60" by (simp add: mod_mod_cancel)
  also have "\<dots> = s" using m assms(5,6) by simp
  finally have "Second n = s" by (simp add: Second_def)
  moreover have "Minute n = mi" using m assms(5,6) by (simp add: Minute_def)
  moreover have "Hour n = h" using d(2) 2 by (simp add: Hour_def)
  ultimately show ?thesis using d(1) by simp
qed

lemma Month_range: "1 \<le> Month n" "Month n \<le> 12"
  by (simp_all add: Month_def)

lemma Day_range: "1 \<le> Day n" "Day n \<le> month_len (month_idx n)"
  using month_of_day [of "day_no n"] first_of_next [of "month_idx n"] by (simp_all add: Day_def month_idx_def)

lemma day_no_mono: "n \<le> m \<Longrightarrow> day_no n \<le> day_no m"
  by (simp add: day_no_def zdiv_mono1)

lemma month_idx_mono: "n \<le> m \<Longrightarrow> month_idx n \<le> month_idx m"
  by (simp add: month_idx_def day_no_mono month_of_day_mono)

lemma Year_mono: "n \<le> m \<Longrightarrow> Year n \<le> Year m"
  by (simp add: Year_def month_idx_mono zdiv_mono1)

lemma month_idx_less: "n < first_of k * 86400 \<longleftrightarrow> month_idx n < k"
proof -
  have gen: "q * 86400 + r < f * 86400 \<longleftrightarrow> q < f" if "0 \<le> r" "r < 86400" for q r f :: int
    using that by linarith
  have "n < f * 86400 \<longleftrightarrow> n div 86400 < f" for f
    using gen [of "n mod 86400" "n div 86400" f] by simp
  then show ?thesis by (simp add: month_idx_def day_no_def flip: month_of_day_less)
qed

text \<open>The fields of a day do not depend on the time of the day.\<close>

lemma same_day: "day_no n = day_no m \<Longrightarrow> month_idx n = month_idx m \<and> Year n = Year m \<and> Month n = Month m \<and> Day n = Day m \<and> Weekday n = Weekday m"
  by (simp add: month_idx_def Year_def Month_def Day_def Weekday_def)

end
