(* ===== verification/Cron_Eval.thy ===== *)
theory Cron_Eval
  imports Cron Calendar
begin

text \<open>
  The evaluator of cron schedules (\<open>libs/scheduling-cron/evaluator.go\<close>). A wall-clock time is the
  instant in UTC with the same fields, as in the code, in seconds; the loops are partial functions of
  which \<open>None\<close> means that they do not return.
\<close>

section \<open>Days\<close>

definition u32_of :: "int \<Rightarrow> u32" where
  "u32_of k = word_of_int k"

definition lastDayOfMonth :: "int \<Rightarrow> int \<Rightarrow> u32" where
  "lastDayOfMonth year month =
     (let (nextYear, nextMonth) = (if month = 12 then (year + 1, 1) else (year, month + 1))
      in u32_of (Day (AddDays (Date nextYear nextMonth 1 0 0 0) (- 1))))"

definition domMatchFor :: "DayOfMonth \<Rightarrow> int \<Rightarrow> int \<Rightarrow> int \<Rightarrow> bool" where
  "domMatchFor spec year month day =
     (case spec of DOMStar \<Rightarrow> True | DOMSet s \<Rightarrow> vs_Contains s (u32_of day) | DOMLast \<Rightarrow> lastDayOfMonth year month = u32_of day)"

definition dowMatchFor :: "DayOfWeek \<Rightarrow> int \<Rightarrow> int \<Rightarrow> int \<Rightarrow> bool" where
  "dowMatchFor spec year month day =
     (let weekday = u32_of (Weekday (Date year month day 0 0 0))
      in case spec of
           DOWStar \<Rightarrow> True
         | DOWSet s \<Rightarrow> vs_Contains s weekday
         | DOWLastWeekdayOfMonth w \<Rightarrow>
           if weekday \<noteq> w then False
           else let l = lastDayOfMonth year month in if l < 7 then u32_of day > 0 else u32_of day > l - 7
         | DOWNthWeekdayOfMonth w occurrence \<Rightarrow>
           if weekday \<noteq> w then False else u32_of (go_div (day - 1) 7 + 1) = occurrence)"

definition dayMatches :: "CronSchedule \<Rightarrow> int \<Rightarrow> int \<Rightarrow> int \<Rightarrow> bool" where
  "dayMatches s year month day =
     (let domSpecified = cs_DayOfMonth s \<noteq> DOMStar;
          dowSpecified = cs_DayOfWeek s \<noteq> DOWStar;
          domMatch = domMatchFor (cs_DayOfMonth s) year month day;
          dowMatch = dowMatchFor (cs_DayOfWeek s) year month day
      in if domSpecified \<and> dowSpecified then domMatch \<or> dowMatch else domMatch \<and> dowMatch)"

section \<open>The wall-clock walk\<close>

function advance_month :: "CronSchedule \<Rightarrow> int \<Rightarrow> int \<Rightarrow> int \<Rightarrow> int option" where
  "advance_month s capYear year month =
     (let month1 = month + 1;
          year' = (if month1 > 12 then year + 1 else year);
          month' = (if month1 > 12 then 1 else month1)
      in if year' > capYear then None
         else if vs_Contains (cs_Months s) (u32_of month') then Some (Date year' month' 1 0 0 0)
         else advance_month s capYear year' month')"
  by pat_completeness auto

termination
  by (relation "measures [\<lambda>(s, capYear, year, month). nat (capYear + 1 - year), \<lambda>(s, capYear, year, month). nat (13 - month)]")
    (auto simp: Let_def split: if_splits)

declare advance_month.simps [simp del]

definition advanceToNextMonth :: "CronSchedule \<Rightarrow> int \<Rightarrow> int \<Rightarrow> int option" where
  "advanceToNextMonth s current capYear = advance_month s capYear (Year current) (Month current)"

definition advanceToNextDay :: "int \<Rightarrow> int \<Rightarrow> int option" where
  "advanceToNextDay current capYear =
     (let nxt = AddDays current 1 in if Year nxt > capYear then None else Some (Date (Year nxt) (Month nxt) (Day nxt) 0 0 0))"

definition withHourResetFiner :: "int \<Rightarrow> int \<Rightarrow> int" where
  "withHourResetFiner t h = Date (Year t) (Month t) (Day t) h 0 0"

definition withMinuteResetFiner :: "int \<Rightarrow> int \<Rightarrow> int" where
  "withMinuteResetFiner t m = Date (Year t) (Month t) (Day t) (Hour t) m 0"

definition withSecond :: "int \<Rightarrow> int \<Rightarrow> int" where
  "withSecond t s = Date (Year t) (Month t) (Day t) (Hour t) (Minute t) s"

definition withHourAdvanceOne :: "int \<Rightarrow> int" where
  "withHourAdvanceOne t =
     (if Hour t = 23 then let nxt = AddDays t 1 in Date (Year nxt) (Month nxt) (Day nxt) 0 0 0
      else Date (Year t) (Month t) (Day t) (Hour t + 1) 0 0)"

definition withMinuteAdvanceOne :: "int \<Rightarrow> int" where
  "withMinuteAdvanceOne t =
     (if Minute t = 59 then withHourAdvanceOne t else Date (Year t) (Month t) (Day t) (Hour t) (Minute t + 1) 0)"

text \<open>One iteration: return the current time, give up, or go on from a later time.\<close>

datatype match_step = Found | GiveUp | Again int

fun again_or_stop :: "int option \<Rightarrow> match_step" where
  "again_or_stop None = GiveUp"
| "again_or_stop (Some t) = Again t"

definition match_once :: "CronSchedule \<Rightarrow> int \<Rightarrow> int \<Rightarrow> match_step" where
  "match_once s capYear current =
     (if \<not> vs_Contains (cs_Months s) (u32_of (Month current)) then again_or_stop (advanceToNextMonth s current capYear)
      else if \<not> dayMatches s (Year current) (Month current) (Day current) then again_or_stop (advanceToNextDay current capYear)
      else if \<not> vs_Contains (cs_Hours s) (u32_of (Hour current))
      then (case NextAtOrAfter (cs_Hours s) (u32_of (Hour current)) 23 of
              None \<Rightarrow> again_or_stop (advanceToNextDay current capYear)
            | Some h \<Rightarrow> Again (withHourResetFiner current (uint h)))
      else if \<not> vs_Contains (cs_Minutes s) (u32_of (Minute current))
      then (case NextAtOrAfter (cs_Minutes s) (u32_of (Minute current)) 59 of
              None \<Rightarrow> Again (withHourAdvanceOne current)
            | Some m \<Rightarrow> Again (withMinuteResetFiner current (uint m)))
      else if \<not> vs_Contains (cs_Seconds s) (u32_of (Second current))
      then (case NextAtOrAfter (cs_Seconds s) (u32_of (Second current)) 59 of
              None \<Rightarrow> Again (withMinuteAdvanceOne current)
            | Some se \<Rightarrow> Again (withSecond current (uint se)))
      else Found)"

partial_function (option) findNextMatch :: "CronSchedule \<Rightarrow> int \<Rightarrow> int \<Rightarrow> int option option" where
  "findNextMatch s current capYear =
     (if Year current > capYear then Some None
      else case match_once s capYear current of
        Found \<Rightarrow> Some (Some current)
      | GiveUp \<Rightarrow> Some None
      | Again nxt \<Rightarrow> findNextMatch s nxt capYear)"

section \<open>Time zones\<close>

text \<open>The local fields of an instant, and \<open>time.Date\<close> in a location.\<close>

definition In :: "int \<Rightarrow> location \<Rightarrow> int" where
  "In t loc = t + zp_offset (loc t)"

definition Date_in :: "int \<Rightarrow> location \<Rightarrow> int" where
  "Date_in unix loc =
     (let z = loc unix
      in if zp_offset z \<noteq> 0
         then let utc = unix - zp_offset z
              in unix - (if utc < zp_start z \<or> utc \<ge> zp_end z then zp_offset (loc utc) else zp_offset z)
         else unix)"

datatype localResult = localResultNone | localResultSingle int | localResultAmbiguous int int

text \<open>Comparing the local fields with the requested ones is comparing wall-clock times.\<close>

definition resolveWallClock :: "int \<Rightarrow> location \<Rightarrow> localResult" where
  "resolveWallClock wall loc =
     (let candidate = Date_in wall loc
      in if In candidate loc \<noteq> wall then localResultNone
         else let probe = candidate + 3600
              in if In probe loc = wall then localResultAmbiguous candidate probe else localResultSingle candidate)"

definition maxForwardYears :: int where
  "maxForwardYears = 10"

text \<open>\<open>after\<close> is in nanoseconds; candidates are whole seconds. The inner option is the flag of the result.\<close>

definition is_after :: "int \<Rightarrow> instant \<Rightarrow> bool" where
  "is_after t after \<longleftrightarrow> t * 10 ^ 9 > after"

partial_function (option) fire_loop :: "CronSchedule \<Rightarrow> location \<Rightarrow> instant \<Rightarrow> int \<Rightarrow> int \<Rightarrow> int option option" where
  "fire_loop s tz after capYear current =
     (if Year current > capYear then Some None
      else Option.bind (findNextMatch s current capYear) (\<lambda>found.
        case found of
          None \<Rightarrow> Some None
        | Some candidate \<Rightarrow>
          if Year candidate > capYear then Some None
          else case resolveWallClock candidate tz of
            localResultNone \<Rightarrow> fire_loop s tz after capYear (candidate + 1)
          | localResultSingle utc \<Rightarrow>
            if is_after utc after then Some (Some utc) else fire_loop s tz after capYear (candidate + 1)
          | localResultAmbiguous early late \<Rightarrow>
            if is_after early after then Some (Some early)
            else if is_after late after then Some (Some late)
            else fire_loop s tz after capYear (candidate + 1)))"

definition NextFireAfter :: "CronSchedule \<Rightarrow> instant \<Rightarrow> int option option" where
  "NextFireAfter s after =
     (let tz = cs_TimeZone s;
          naive = In ((after + 10 ^ 9) div 10 ^ 9) tz
      in fire_loop s tz after (Year naive + maxForwardYears) (naive - 7200))"

end
