(* ===== verification/Cron_Safety.thy ===== *)
theory Cron_Safety
  imports Cron_Eval
begin

text \<open>
  Correctness of the evaluator: the wall-clock walk finds the earliest time at which the schedule fires,
  and the instants it is projected to.
\<close>

section \<open>Value sets and small numbers\<close>

definition has :: "ValueSet \<Rightarrow> int \<Rightarrow> bool" where
  "has v k \<longleftrightarrow> vs_star v \<or> k \<in> uint ` set (vs_values v)"

lemma uint_u32_of: "0 \<le> k \<Longrightarrow> k < 2 ^ 32 \<Longrightarrow> uint (u32_of k) = k"
  by (simp add: u32_of_def uint_word_of_int)

lemma Contains_has: "vs_ok v lo hi \<Longrightarrow> 0 \<le> k \<Longrightarrow> k < 2 ^ 32 \<Longrightarrow> vs_Contains v (u32_of k) = has v k"
proof -
  assume v: "vs_ok v lo hi" and k: "0 \<le> k" "k < 2 ^ 32"
  have "u32_of k \<in> X \<longleftrightarrow> k \<in> uint ` X" for X
    using uint_u32_of [OF k] by (auto simp: u32_of_def) (metis imageI)
  moreover have "vs_star v \<or> sorted (vs_values v)" using v by (auto simp: vs_ok_def)
  ultimately show ?thesis using vs_Contains_iff [of v] by (cases "vs_star v") (auto simp: has_def vs_Contains_def)
qed

lemma NextAtOrAfter_Some:
  assumes "vs_ok v lo hi" "0 \<le> k" "k \<le> mx" "mx < 2 ^ 32" "NextAtOrAfter v (u32_of k) (u32_of mx) = Some h"
  shows "k \<le> uint h \<and> uint h \<le> mx \<and> has v (uint h) \<and> (\<forall>j. k \<le> j \<and> j < uint h \<longrightarrow> \<not> has v j)"
proof (cases "vs_star v")
  case True
  then have "h = u32_of k" using assms(5) by (auto simp: NextAtOrAfter_def split: if_splits)
  then have "uint h = k" using assms(2-4) by (simp add: uint_u32_of)
  with True assms(3) show ?thesis by (simp add: has_def)
next
  case False
  then have srt: "sorted (vs_values v)" using assms(1) by (simp add: vs_ok_def)
  obtain i where i: "i < length (vs_values v)" "u32_of k \<le> vs_values v ! i" "vs_values v ! i \<le> u32_of mx" "h = vs_values v ! i"
    "\<forall>j < i. \<not> (u32_of k \<le> vs_values v ! j \<and> vs_values v ! j \<le> u32_of mx)"
    using assms(5) False by (auto simp: NextAtOrAfter_def find_Some_iff)
  have kb: "k \<le> uint h" "uint h \<le> mx" using i(2-4) assms(2-4) by (auto simp: word_le_def uint_u32_of)
  have "\<not> has v j" if "k \<le> j" "j < uint h" for j
  proof
    assume "has v j"
    then obtain n where n: "n < length (vs_values v)" "j = uint (vs_values v ! n)" using False by (auto simp: has_def in_set_conv_nth)
    have "n < i"
    proof (rule ccontr)
      assume "\<not> n < i"
      then have "vs_values v ! i \<le> vs_values v ! n" using srt n(1) by (simp add: sorted_nth_mono)
      then show False using that(2) n(2) i(4) by (simp add: word_le_def)
    qed
    moreover have "u32_of k \<le> vs_values v ! n" "vs_values v ! n \<le> u32_of mx"
      using that n(2) kb assms(2-4) by (auto simp: word_le_def uint_u32_of)
    ultimately show False using i(5) by blast
  qed
  moreover have "has v (uint h)" using i(1,4) by (simp add: has_def)
  ultimately show ?thesis using kb by blast
qed

lemma NextAtOrAfter_None:
  assumes "0 \<le> k" "k \<le> mx" "mx < 2 ^ 32" "NextAtOrAfter v (u32_of k) (u32_of mx) = None" "k \<le> j" "j \<le> mx"
  shows "\<not> has v j"
proof
  assume h: "has v j"
  have star: "\<not> vs_star v" using assms(1-4) by (auto simp: NextAtOrAfter_def word_le_def uint_u32_of)
  then obtain x where x: "x \<in> set (vs_values v)" "j = uint x" using h by (auto simp: has_def)
  have "\<not> (u32_of k \<le> x \<and> x \<le> u32_of mx)"
    using assms(4) star x(1) by (auto simp: NextAtOrAfter_def find_None_iff)
  then show False using assms(1-3,5,6) x(2) by (auto simp: word_le_def uint_u32_of)
qed

section \<open>One iteration\<close>

text \<open>The schedule fires at a wall-clock time.\<close>

definition fires :: "CronSchedule \<Rightarrow> int \<Rightarrow> bool" where
  "fires s t \<longleftrightarrow> has (cs_Months s) (Month t) \<and> dayMatches s (Year t) (Month t) (Day t) \<and>
     has (cs_Hours s) (Hour t) \<and> has (cs_Minutes s) (Minute t) \<and> has (cs_Seconds s) (Second t)"

lemma month_arith:
  fixes y mo :: int
  assumes "1 \<le> mo" "mo \<le> 12"
  shows "(12 * y + mo) div 12 = (if mo + 1 > 12 then y + 1 else y)" "(12 * y + mo) mod 12 + 1 = (if mo + 1 > 12 then 1 else mo + 1)"
proof -
  have "(12 * y + mo) div 12 = y + mo div 12" "(12 * y + mo) mod 12 = mo mod 12" by simp_all
  moreover have "mo div 12 = (if mo = 12 then 1 else 0)" "mo mod 12 = (if mo = 12 then 0 else mo)" using assms by auto
  ultimately show "(12 * y + mo) div 12 = (if mo + 1 > 12 then y + 1 else y)"
    "(12 * y + mo) mod 12 + 1 = (if mo + 1 > 12 then 1 else mo + 1)" using assms by simp_all
qed

lemma advance_month_step:
  assumes "vs_ok (cs_Months s) 1 12" "1 \<le> mo" "mo \<le> 12"
  shows "advance_month s cap y mo = (let k = 12 * y + mo in
    if k div 12 > cap then None else if has (cs_Months s) (k mod 12 + 1) then Some (first_of k * 86400)
    else advance_month s cap (k div 12) (k mod 12 + 1))"
proof -
  have mod12: "0 \<le> k mod 12 + 1 \<and> k mod 12 + 1 < (2 ^ 32 :: int)" for k
    using pos_mod_bound [of 12 k] by (simp add: less_le_trans)
  have c: "vs_Contains (cs_Months s) (u32_of (k mod 12 + 1)) = has (cs_Months s) (k mod 12 + 1)" for k
    by (rule Contains_has [OF assms(1)]) (use mod12 [of k] in simp_all)
  define k where "k = 12 * y + mo"
  have d: "Date (k div 12) (k mod 12 + 1) 1 0 0 0 = first_of k * 86400" by (simp add: Date_def)
  have "advance_month s cap y mo =
    (if k div 12 > cap then None else if has (cs_Months s) (k mod 12 + 1) then Some (first_of k * 86400)
     else advance_month s cap (k div 12) (k mod 12 + 1))"
    unfolding advance_month.simps [of s cap y mo] Let_def month_arith [OF assms(2,3), of y, symmetric] c k_def [symmetric] d by (rule refl)
  then show ?thesis by (simp add: Let_def k_def)
qed

lemma advance_month_Some:
  assumes "vs_ok (cs_Months s) 1 12"
  shows "1 \<le> mo \<Longrightarrow> mo \<le> 12 \<Longrightarrow> advance_month s cap y mo = Some t \<Longrightarrow>
    \<exists>k. t = first_of k * 86400 \<and> 12 * y + mo \<le> k \<and> (\<forall>j. 12 * y + mo \<le> j \<and> j < k \<longrightarrow> \<not> has (cs_Months s) (j mod 12 + 1))"
proof (induction "nat (12 * cap + 12 - (12 * y + mo))" arbitrary: y mo rule: less_induct)
  case less
  define k where "k = 12 * y + mo"
  have m: "0 \<le> k mod 12" "k mod 12 < 12" by simp_all
  have cap: "\<not> k div 12 > cap" using less.prems(3) advance_month_step [OF assms less.prems(1,2), of cap y] by (auto simp: k_def)
  show ?case
  proof (cases "has (cs_Months s) (k mod 12 + 1)")
    case True
    then show ?thesis using less.prems(3) cap advance_month_step [OF assms less.prems(1,2), of cap y]
      by (intro exI [of _ k]) (auto simp: Let_def simp flip: k_def)
  next
    case False
    have e: "12 * (k div 12) + (k mod 12 + 1) = k + 1" by simp
    have "k < 12 * cap + 12" using cap mult_div_mod_eq [of 12 k] m by linarith
    then have "\<exists>k'. t = first_of k' * 86400 \<and> k + 1 \<le> k' \<and> (\<forall>j. k + 1 \<le> j \<and> j < k' \<longrightarrow> \<not> has (cs_Months s) (j mod 12 + 1))"
      using less.hyps [of "k div 12" "k mod 12 + 1"] m less.prems(3) cap False advance_month_step [OF assms less.prems(1,2), of cap y]
      by (simp add: Let_def e flip: k_def)
    then obtain k' where k': "t = first_of k' * 86400" "k + 1 \<le> k'" "\<forall>j. k + 1 \<le> j \<and> j < k' \<longrightarrow> \<not> has (cs_Months s) (j mod 12 + 1)" by blast
    have "\<not> has (cs_Months s) (j mod 12 + 1)" if "k \<le> j" "j < k'" for j
      using that k'(3) False by (cases "j = k") auto
    then show ?thesis using k'(1,2) by (intro exI [of _ k']) (simp flip: k_def)
  qed
qed

lemma advance_month_None:
  assumes "vs_ok (cs_Months s) 1 12"
  shows "1 \<le> mo \<Longrightarrow> mo \<le> 12 \<Longrightarrow> advance_month s cap y mo = None \<Longrightarrow> 12 * y + mo \<le> j \<Longrightarrow> j div 12 \<le> cap \<Longrightarrow>
    \<not> has (cs_Months s) (j mod 12 + 1)"
proof (induction "nat (12 * cap + 12 - (12 * y + mo))" arbitrary: y mo rule: less_induct)
  case less
  define k where "k = 12 * y + mo"
  have m: "0 \<le> k mod 12" "k mod 12 < 12" by simp_all
  have kj: "k \<le> j" using less.prems(4) by (simp add: k_def)
  have cap: "k div 12 \<le> cap" using zdiv_mono1 [OF kj, of 12] less.prems(5) by simp
  have no: "\<not> has (cs_Months s) (k mod 12 + 1)"
    using less.prems(3) cap advance_month_step [OF assms less.prems(1,2), of cap y] by (auto simp: Let_def simp flip: k_def split: if_splits)
  show ?case
  proof (cases "j = k")
    case False
    have e: "12 * (k div 12) + (k mod 12 + 1) = k + 1" by simp
    have "k < 12 * cap + 12" using cap mult_div_mod_eq [of 12 k] m by linarith
    then show ?thesis
      using less.hyps [of "k div 12" "k mod 12 + 1"] m less.prems(3,5) cap no kj False advance_month_step [OF assms less.prems(1,2), of cap y]
      by (simp add: Let_def e flip: k_def)
  qed (use no in simp)
qed

text \<open>The fields of a later time.\<close>

lemma fields_between:
  assumes "n \<le> u"
  shows "day_no n \<le> day_no u"
    and "day_no u = day_no n \<Longrightarrow> Hour n \<le> Hour u"
    and "day_no u = day_no n \<Longrightarrow> Hour u = Hour n \<Longrightarrow> Minute n \<le> Minute u"
    and "day_no u = day_no n \<Longrightarrow> Hour u = Hour n \<Longrightarrow> Minute u = Minute n \<Longrightarrow> Second n \<le> Second u"
proof -
  have le: "day_no n * 86400 + Hour n * 3600 + Minute n * 60 + Second n \<le> day_no u * 86400 + Hour u * 3600 + Minute u * 60 + Second u"
    using assms unfolding clock_eq [symmetric] .
  show "day_no n \<le> day_no u" using assms by (rule day_no_mono)
  show "Hour n \<le> Hour u" if "day_no u = day_no n" using le that clock_range [of n] clock_range [of u] by linarith
  show "Minute n \<le> Minute u" if "day_no u = day_no n" "Hour u = Hour n" using le that clock_range [of n] clock_range [of u] by linarith
  show "Second n \<le> Second u" if "day_no u = day_no n" "Hour u = Hour n" "Minute u = Minute n" using le that by linarith
qed

lemma next_day_le:
  assumes "n \<le> u" "u < day_no n * 86400 + 86400"
  shows "day_no u = day_no n"
proof (rule antisym)
  show "day_no u \<le> day_no n" using assms(2) clock_eq [of u] clock_range [of u] by linarith
qed (rule fields_between(1) [OF assms(1)])

lemma before_time:
  assumes "n \<le> u" "u < day_no n * 86400 + h * 3600 + mi * 60 + s" "0 \<le> h" "h < 24" "0 \<le> mi" "mi < 60" "0 \<le> s" "s < 60"
  shows "day_no u = day_no n \<and> (Hour u < h \<or> Hour u = h \<and> (Minute u < mi \<or> Minute u = mi \<and> Second u < s))"
proof -
  have "u < day_no n * 86400 + 86400" using assms(2-) by linarith
  then have d: "day_no u = day_no n" by (rule next_day_le [OF assms(1)])
  have l: "Hour u * 3600 + Minute u * 60 + Second u < h * 3600 + mi * 60 + s" using assms(2) clock_eq [of u] d by linarith
  then have "Hour u \<le> h" using clock_range [of u] assms(3-) by linarith
  moreover have "Minute u \<le> mi" if "Hour u = h" using l that clock_range [of u] assms(3-) by linarith
  moreover have "Second u < s" if "Hour u = h" "Minute u = mi" using l that by linarith
  ultimately show ?thesis using d by (auto simp: less_le)
qed

lemma fires_fields:
  assumes "fires s u"
  shows "has (cs_Months s) (month_idx u mod 12 + 1)" "dayMatches s (Year u) (Month u) (Day u)"
    "has (cs_Hours s) (Hour u)" "has (cs_Minutes s) (Minute u)" "has (cs_Seconds s) (Second u)"
  using assms by (simp_all add: fires_def Month_def)

definition no_fire :: "CronSchedule \<Rightarrow> int \<Rightarrow> int \<Rightarrow> bool" where
  "no_fire s n m \<longleftrightarrow> (\<forall>u. n \<le> u \<and> u < m \<longrightarrow> \<not> fires s u)"

definition never :: "CronSchedule \<Rightarrow> int \<Rightarrow> int \<Rightarrow> bool" where
  "never s n cap \<longleftrightarrow> (\<forall>u. n \<le> u \<and> Year u \<le> cap \<longrightarrow> \<not> fires s u)"

text \<open>What an iteration that does not find a match promises.\<close>

fun step_ok :: "CronSchedule \<Rightarrow> int \<Rightarrow> int \<Rightarrow> match_step \<Rightarrow> bool" where
  "step_ok s n cap Found = fires s n"
| "step_ok s n cap GiveUp = never s n cap"
| "step_ok s n cap (Again m) = (n < m \<and> no_fire s n m)"

lemma next_month_ok:
  assumes "vs_ok (cs_Months s) 1 12" "\<not> has (cs_Months s) (Month n)"
  shows "step_ok s n cap (again_or_stop (advanceToNextMonth s n cap))"
proof -
  have no: "\<not> fires s u" if "month_idx u = month_idx n" for u using that assms(2) fires_fields(1) [of s u] by (auto simp: Month_def)
  have idx: "12 * Year n + Month n = month_idx n + 1" using month_idx_eq [of n] by linarith
  show ?thesis
  proof (cases "advance_month s cap (Year n) (Month n)")
    case None
    have "\<not> fires s u" if u: "n \<le> u" "Year u \<le> cap" for u
    proof (cases "month_idx u = month_idx n")
      case False
      then have "month_idx n + 1 \<le> month_idx u" using month_idx_mono [OF u(1)] by linarith
      then have "12 * Year n + Month n \<le> month_idx u" "month_idx u div 12 \<le> cap" using idx u(2) by (simp_all add: Year_def)
      from advance_month_None [OF assms(1) Month_range None this] show ?thesis using fires_fields(1) [of s u] by blast
    qed (rule no)
    with None show ?thesis by (simp add: advanceToNextMonth_def never_def)
  next
    case (Some t)
    obtain k where k: "t = first_of k * 86400" "month_idx n + 1 \<le> k"
      "\<forall>j. month_idx n + 1 \<le> j \<and> j < k \<longrightarrow> \<not> has (cs_Months s) (j mod 12 + 1)"
      using advance_month_Some [OF assms(1) Month_range Some] by (auto simp: idx)
    have "n < t" using k(1,2) month_idx_less [of n k] by simp
    moreover have "\<not> fires s u" if u: "n \<le> u" "u < t" for u
    proof (cases "month_idx u = month_idx n")
      case False
      then have "month_idx n + 1 \<le> month_idx u" "month_idx u < k" using month_idx_mono [OF u(1)] u(2) k(1) month_idx_less [of u k] by simp_all
      with k(3) show ?thesis using fires_fields(1) [of s u] by auto
    qed (rule no)
    ultimately show ?thesis using Some by (simp add: advanceToNextMonth_def no_fire_def)
  qed
qed

lemma day_no_AddDays: "day_no (AddDays n 1) = day_no n + 1"
  by (simp add: AddDays_def day_no_def)

lemma next_day_ok:
  assumes "\<And>u. n \<le> u \<Longrightarrow> day_no u = day_no n \<Longrightarrow> \<not> fires s u"
  shows "step_ok s n cap (again_or_stop (advanceToNextDay n cap))"
proof -
  note d = day_no_AddDays [of n]
  show ?thesis
  proof (cases "Year (AddDays n 1) > cap")
    case True
    have "\<not> fires s u" if u: "n \<le> u" "Year u \<le> cap" for u
    proof (rule assms [OF u(1)])
      have "u < AddDays n 1" using True u(2) Year_mono [of "AddDays n 1" u] by (cases "u < AddDays n 1") auto
      moreover have "\<not> day_no u = day_no n + 1"
        using same_day [of u "AddDays n 1"] d True u(2) by auto
      ultimately show "day_no u = day_no n" using day_no_mono [of u "AddDays n 1"] day_no_mono [OF u(1)] d by linarith
    qed
    with True show ?thesis by (simp add: advanceToNextDay_def never_def)
  next
    case False
    have t: "Date (Year (AddDays n 1)) (Month (AddDays n 1)) (Day (AddDays n 1)) 0 0 0 = day_no n * 86400 + 86400" by (simp add: Date_fields d algebra_simps)
    have "n < day_no n * 86400 + 86400" using clock_eq [of n] clock_range [of n] by linarith
    with False t show ?thesis using assms next_day_le by (auto simp: advanceToNextDay_def no_fire_def Let_def)
  qed
qed

text \<open>Advancing the time within a day.\<close>

lemma advance_to:
  assumes "t = day_no n * 86400 + h * 3600 + mi * 60 + s" "0 \<le> h" "h < 24" "0 \<le> mi" "mi < 60" "0 \<le> s" "s < 60"
    and "Hour n < h \<or> Hour n = h \<and> (Minute n < mi \<or> Minute n = mi \<and> Second n < s)"
    and "\<And>u. n \<le> u \<Longrightarrow> day_no u = day_no n \<Longrightarrow> Hour u < h \<or> Hour u = h \<and> (Minute u < mi \<or> Minute u = mi \<and> Second u < s) \<Longrightarrow>
      \<not> fires sch u"
  shows "step_ok sch n cap (Again t)"
proof -
  have "n < t" using assms(1-8) clock_eq [of n] clock_range [of n] by (elim disjE conjE; linarith)
  moreover have "\<not> fires sch u" if "n \<le> u" "u < t" for u
    using assms(9) [OF that(1)] before_time [OF that(1) that(2) [unfolded assms(1)] assms(2-7)] by blast
  ultimately show ?thesis by (simp add: no_fire_def)
qed

lemma next_hour_ok:
  assumes "\<And>u. n \<le> u \<Longrightarrow> day_no u = day_no n \<Longrightarrow> Hour u = Hour n \<Longrightarrow> \<not> fires s u"
  shows "step_ok s n cap (Again (withHourAdvanceOne n))"
proof (cases "Hour n = 23")
  case True
  have "\<not> fires s u" if u: "n \<le> u" "u < day_no n * 86400 + 86400" for u
  proof (rule assms [OF u(1)])
    show d: "day_no u = day_no n" by (rule next_day_le [OF u])
    show "Hour u = Hour n" using fields_between(2) [OF u(1) d] clock_range(2) [of u] True by linarith
  qed
  moreover have "n < day_no n * 86400 + 86400" using clock_eq [of n] clock_range [of n] by linarith
  moreover have "withHourAdvanceOne n = day_no n * 86400 + 86400"
    using True day_no_AddDays [of n] by (simp add: withHourAdvanceOne_def Let_def Date_fields)
  ultimately show ?thesis by (simp add: no_fire_def)
next
  case False
  show ?thesis
  proof (rule advance_to)
    show "withHourAdvanceOne n = day_no n * 86400 + (Hour n + 1) * 3600 + 0 * 60 + 0"
      using False by (simp add: withHourAdvanceOne_def Date_fields)
    show "\<not> fires s u" if "n \<le> u" "day_no u = day_no n"
      "Hour u < Hour n + 1 \<or> Hour u = Hour n + 1 \<and> (Minute u < 0 \<or> Minute u = 0 \<and> Second u < 0)" for u
      using assms [OF that(1,2)] fields_between(2) [OF that(1,2)] that(3) clock_range [of u] by linarith
  qed (use clock_range [of n] False in simp_all)
qed

lemma next_minute_ok:
  assumes "\<And>u. n \<le> u \<Longrightarrow> day_no u = day_no n \<Longrightarrow> Hour u = Hour n \<Longrightarrow> Minute u = Minute n \<Longrightarrow> \<not> fires s u"
  shows "step_ok s n cap (Again (withMinuteAdvanceOne n))"
proof (cases "Minute n = 59")
  case True
  have "step_ok s n cap (Again (withHourAdvanceOne n))"
  proof (rule next_hour_ok)
    fix u
    assume u: "n \<le> u" "day_no u = day_no n" "Hour u = Hour n"
    have "Minute u = Minute n" using fields_between(3) [OF u] clock_range(4) [of u] True by linarith
    with u show "\<not> fires s u" by (rule assms)
  qed
  with True show ?thesis by (simp add: withMinuteAdvanceOne_def)
next
  case False
  show ?thesis
  proof (rule advance_to)
    show "withMinuteAdvanceOne n = day_no n * 86400 + Hour n * 3600 + (Minute n + 1) * 60 + 0"
      using False by (simp add: withMinuteAdvanceOne_def Date_fields)
    show "\<not> fires s u" if u: "n \<le> u" "day_no u = day_no n"
      "Hour u < Hour n \<or> Hour u = Hour n \<and> (Minute u < Minute n + 1 \<or> Minute u = Minute n + 1 \<and> Second u < 0)" for u
    proof -
      have h: "Hour u = Hour n" using fields_between(2) [OF u(1,2)] u(3) by linarith
      moreover have "Minute u = Minute n" using fields_between(3) [OF u(1,2) h] u(3) h clock_range [of u] by linarith
      ultimately show ?thesis by (rule assms [OF u(1,2)])
    qed
  qed (use clock_range [of n] False in simp_all)
qed

lemma lit: "23 = u32_of 23" "59 = u32_of 59"
  by (simp_all add: u32_of_def)

lemma hour_ok:
  assumes "vs_ok (cs_Hours s) 0 23" "\<not> has (cs_Hours s) (Hour n)"
  shows "step_ok s n cap (case NextAtOrAfter (cs_Hours s) (u32_of (Hour n)) 23 of
     None \<Rightarrow> again_or_stop (advanceToNextDay n cap) | Some h \<Rightarrow> Again (withHourResetFiner n (uint h)))"
proof (cases "NextAtOrAfter (cs_Hours s) (u32_of (Hour n)) 23")
  case None
  have "step_ok s n cap (again_or_stop (advanceToNextDay n cap))"
  proof (rule next_day_ok)
    fix u
    assume u: "n \<le> u" "day_no u = day_no n"
    have "\<not> has (cs_Hours s) (Hour u)"
      by (rule NextAtOrAfter_None [OF _ _ _ None [unfolded lit]]) (use clock_range [of n] clock_range [of u] fields_between(2) [OF u] in simp_all)
    then show "\<not> fires s u" using fires_fields(3) [of s u] by blast
  qed
  with None show ?thesis by simp
next
  case (Some h)
  have h: "Hour n \<le> uint h" "uint h \<le> 23" "has (cs_Hours s) (uint h)" "\<forall>j. Hour n \<le> j \<and> j < uint h \<longrightarrow> \<not> has (cs_Hours s) j"
    using NextAtOrAfter_Some [OF assms(1) _ _ _ Some [unfolded lit]] clock_range [of n] by simp_all
  have "Hour n \<noteq> uint h" using h(3) assms(2) by auto
  have "step_ok s n cap (Again (withHourResetFiner n (uint h)))"
  proof (rule advance_to)
    show "withHourResetFiner n (uint h) = day_no n * 86400 + uint h * 3600 + 0 * 60 + 0" by (simp add: withHourResetFiner_def Date_fields)
    show "\<not> fires s u" if u: "n \<le> u" "day_no u = day_no n"
      "Hour u < uint h \<or> Hour u = uint h \<and> (Minute u < 0 \<or> Minute u = 0 \<and> Second u < 0)" for u
    proof -
      have "Hour u < uint h" using u(3) clock_range [of u] by linarith
      then show ?thesis using h(4) fields_between(2) [OF u(1,2)] fires_fields(3) [of s u] by blast
    qed
  qed (use h(1,2) \<open>Hour n \<noteq> uint h\<close> in simp_all)
  with Some show ?thesis by simp
qed

lemma minute_ok:
  assumes "vs_ok (cs_Minutes s) 0 59" "\<not> has (cs_Minutes s) (Minute n)"
  shows "step_ok s n cap (case NextAtOrAfter (cs_Minutes s) (u32_of (Minute n)) 59 of
     None \<Rightarrow> Again (withHourAdvanceOne n) | Some m \<Rightarrow> Again (withMinuteResetFiner n (uint m)))"
proof (cases "NextAtOrAfter (cs_Minutes s) (u32_of (Minute n)) 59")
  case None
  have "step_ok s n cap (Again (withHourAdvanceOne n))"
  proof (rule next_hour_ok)
    fix u
    assume u: "n \<le> u" "day_no u = day_no n" "Hour u = Hour n"
    have "\<not> has (cs_Minutes s) (Minute u)"
      by (rule NextAtOrAfter_None [OF _ _ _ None [unfolded lit]]) (use clock_range [of n] clock_range [of u] fields_between(3) [OF u] in simp_all)
    then show "\<not> fires s u" using fires_fields(4) [of s u] by blast
  qed
  with None show ?thesis by simp
next
  case (Some m)
  have m: "Minute n \<le> uint m" "uint m \<le> 59" "has (cs_Minutes s) (uint m)" "\<forall>j. Minute n \<le> j \<and> j < uint m \<longrightarrow> \<not> has (cs_Minutes s) j"
    using NextAtOrAfter_Some [OF assms(1) _ _ _ Some [unfolded lit]] clock_range [of n] by simp_all
  have "Minute n \<noteq> uint m" using m(3) assms(2) by auto
  have "step_ok s n cap (Again (withMinuteResetFiner n (uint m)))"
  proof (rule advance_to)
    show "withMinuteResetFiner n (uint m) = day_no n * 86400 + Hour n * 3600 + uint m * 60 + 0" by (simp add: withMinuteResetFiner_def Date_fields)
    show "\<not> fires s u" if u: "n \<le> u" "day_no u = day_no n"
      "Hour u < Hour n \<or> Hour u = Hour n \<and> (Minute u < uint m \<or> Minute u = uint m \<and> Second u < 0)" for u
    proof -
      have hh: "Hour u = Hour n" using fields_between(2) [OF u(1,2)] u(3) by linarith
      have "Minute u < uint m" using u(3) clock_range [of u] hh by linarith
      then show ?thesis using m(4) fields_between(3) [OF u(1,2) hh] fires_fields(4) [of s u] by blast
    qed
  qed (use m(1,2) \<open>Minute n \<noteq> uint m\<close> clock_range [of n] in simp_all)
  with Some show ?thesis by simp
qed

lemma second_ok:
  assumes "vs_ok (cs_Seconds s) 0 59" "\<not> has (cs_Seconds s) (Second n)"
  shows "step_ok s n cap (case NextAtOrAfter (cs_Seconds s) (u32_of (Second n)) 59 of
     None \<Rightarrow> Again (withMinuteAdvanceOne n) | Some e \<Rightarrow> Again (withSecond n (uint e)))"
proof (cases "NextAtOrAfter (cs_Seconds s) (u32_of (Second n)) 59")
  case None
  have "step_ok s n cap (Again (withMinuteAdvanceOne n))"
  proof (rule next_minute_ok)
    fix u
    assume u: "n \<le> u" "day_no u = day_no n" "Hour u = Hour n" "Minute u = Minute n"
    have "\<not> has (cs_Seconds s) (Second u)"
      by (rule NextAtOrAfter_None [OF _ _ _ None [unfolded lit]]) (use clock_range [of n] clock_range [of u] fields_between(4) [OF u] in simp_all)
    then show "\<not> fires s u" using fires_fields(5) [of s u] by blast
  qed
  with None show ?thesis by simp
next
  case (Some e)
  have e: "Second n \<le> uint e" "uint e \<le> 59" "has (cs_Seconds s) (uint e)" "\<forall>j. Second n \<le> j \<and> j < uint e \<longrightarrow> \<not> has (cs_Seconds s) j"
    using NextAtOrAfter_Some [OF assms(1) _ _ _ Some [unfolded lit]] clock_range [of n] by simp_all
  have "Second n \<noteq> uint e" using e(3) assms(2) by auto
  have "step_ok s n cap (Again (withSecond n (uint e)))"
  proof (rule advance_to)
    show "withSecond n (uint e) = day_no n * 86400 + Hour n * 3600 + Minute n * 60 + uint e" by (simp add: withSecond_def Date_fields)
    show "\<not> fires s u" if u: "n \<le> u" "day_no u = day_no n"
      "Hour u < Hour n \<or> Hour u = Hour n \<and> (Minute u < Minute n \<or> Minute u = Minute n \<and> Second u < uint e)" for u
    proof -
      have hh: "Hour u = Hour n" using fields_between(2) [OF u(1,2)] u(3) by linarith
      have mm: "Minute u = Minute n" using fields_between(3) [OF u(1,2) hh] u(3) hh by linarith
      have "Second u < uint e" using u(3) hh mm by linarith
      then show ?thesis using e(4) fields_between(4) [OF u(1,2) hh mm] fires_fields(5) [of s u] by blast
    qed
  qed (use e(1,2) \<open>Second n \<noteq> uint e\<close> clock_range [of n] in simp_all)
  with Some show ?thesis by simp
qed

lemma match_once_ok:
  assumes "cron_ok s"
  shows "step_ok s n cap (match_once s cap n)"
proof -
  have ok: "vs_ok (cs_Seconds s) 0 59" "vs_ok (cs_Minutes s) 0 59" "vs_ok (cs_Hours s) 0 23" "vs_ok (cs_Months s) 1 12"
    using assms by (simp_all add: cron_ok_def)
  have big: "k < 2 ^ 32" if "k < 60" for k :: int using that by (simp add: less_trans)
  have con: "vs_Contains (cs_Months s) (u32_of (Month n)) = has (cs_Months s) (Month n)"
    "vs_Contains (cs_Hours s) (u32_of (Hour n)) = has (cs_Hours s) (Hour n)"
    "vs_Contains (cs_Minutes s) (u32_of (Minute n)) = has (cs_Minutes s) (Minute n)"
    "vs_Contains (cs_Seconds s) (u32_of (Second n)) = has (cs_Seconds s) (Second n)"
    using Contains_has [OF ok(4), of "Month n"] Contains_has [OF ok(3), of "Hour n"] Contains_has [OF ok(2), of "Minute n"]
      Contains_has [OF ok(1), of "Second n"] Month_range [of n] clock_range [of n] by (simp_all add: big)
  have other: "\<not> fires s u" if "day_no u = day_no n" "\<not> dayMatches s (Year n) (Month n) (Day n)" for u
    using that same_day [of u n] fires_fields(2) [of s u] by auto
  consider (mo) "\<not> has (cs_Months s) (Month n)"
    | (day) "has (cs_Months s) (Month n)" "\<not> dayMatches s (Year n) (Month n) (Day n)"
    | (hour) "has (cs_Months s) (Month n)" "dayMatches s (Year n) (Month n) (Day n)" "\<not> has (cs_Hours s) (Hour n)"
    | (mi) "has (cs_Months s) (Month n)" "dayMatches s (Year n) (Month n) (Day n)" "has (cs_Hours s) (Hour n)"
        "\<not> has (cs_Minutes s) (Minute n)"
    | (se) "has (cs_Months s) (Month n)" "dayMatches s (Year n) (Month n) (Day n)" "has (cs_Hours s) (Hour n)"
        "has (cs_Minutes s) (Minute n)" "\<not> has (cs_Seconds s) (Second n)"
    | (found) "fires s n" unfolding fires_def by blast
  then show ?thesis
  proof cases
    case mo
    with next_month_ok [OF ok(4) mo] show ?thesis by (simp add: match_once_def con)
  next
    case day
    have "step_ok s n cap (again_or_stop (advanceToNextDay n cap))" by (rule next_day_ok) (rule other [OF _ day(2)])
    with day show ?thesis by (simp add: match_once_def con)
  next
    case hour
    with hour_ok [OF ok(3) hour(3), of cap] show ?thesis by (simp add: match_once_def con)
  next
    case mi
    with minute_ok [OF ok(2) mi(4), of cap] show ?thesis by (simp add: match_once_def con)
  next
    case se
    with second_ok [OF ok(1) se(5), of cap] show ?thesis by (simp add: match_once_def con)
  next
    case found
    then show ?thesis by (simp add: match_once_def con fires_def)
  qed
qed

end
