(* ===== verification/Cron_Next.thy ===== *)
theory Cron_Next
  imports Cron_Safety
begin

text \<open>
  The results of the evaluator: the wall-clock search returns the least firing time, the search over
  instants returns, its result is a firing instant, and in a zone with a fixed offset it is the least one;
  and what projecting a wall-clock time does when clocks are set back.
\<close>

section \<open>The wall-clock search\<close>

lemma Year_less_iff: "Year n \<le> cap \<longleftrightarrow> n < first_of (12 * (cap + 1)) * 86400"
proof -
  have "0 \<le> month_idx n mod 12" "month_idx n mod 12 < 12" "month_idx n = month_idx n div 12 * 12 + month_idx n mod 12" by simp_all
  then have "month_idx n div 12 \<le> cap \<longleftrightarrow> month_idx n < cap * 12 + 12" by linarith
  then show ?thesis by (simp add: Year_def month_idx_less algebra_simps)
qed

text \<open>The result of a search from a time: the least firing time up to the end of the cap year, or none.\<close>

fun least_fire :: "CronSchedule \<Rightarrow> int \<Rightarrow> int \<Rightarrow> int option \<Rightarrow> bool" where
  "least_fire s n cap None = never s n cap"
| "least_fire s n cap (Some t) = (n \<le> t \<and> Year t \<le> cap \<and> fires s t \<and> no_fire s n t)"

lemma least_fire_later: "least_fire s m cap r \<Longrightarrow> n < m \<Longrightarrow> no_fire s n m \<Longrightarrow> least_fire s n cap r"
  by (cases r) (fastforce simp: never_def no_fire_def not_less [symmetric])+

lemma findNextMatch_returns:
  assumes "cron_ok s"
  shows "\<exists>r. findNextMatch s n cap = Some r \<and> least_fire s n cap r"
proof (induction "nat (first_of (12 * (cap + 1)) * 86400 - n)" arbitrary: n rule: less_induct)
  case less
  note step = match_once_ok [OF assms, of n cap]
  show ?case
  proof (cases "Year n > cap")
    case True
    moreover have "never s n cap" unfolding never_def using True Year_mono [of n] by (meson order.trans not_le)
    ultimately show ?thesis by (subst findNextMatch.simps) simp
  next
    case le: False
    show ?thesis
    proof (cases "match_once s cap n")
      case Found
      with step le show ?thesis by (subst findNextMatch.simps) (auto simp: no_fire_def)
    next
      case GiveUp
      with step le show ?thesis by (subst findNextMatch.simps) simp
    next
      case (Again m)
      then have m: "n < m" "no_fire s n m" using step by simp_all
      moreover have "n < first_of (12 * (cap + 1)) * 86400" using le Year_less_iff [of n cap] by simp
      ultimately obtain r where "findNextMatch s m cap = Some r" "least_fire s m cap r" using less.hyps [of m] by auto
      with Again le m least_fire_later [of s m cap r n] show ?thesis by (subst findNextMatch.simps) auto
    qed
  qed
qed

section \<open>The search over instants\<close>

lemma resolve_In:
  "resolveWallClock w loc = localResultSingle t \<Longrightarrow> In t loc = w"
  "resolveWallClock w loc = localResultAmbiguous t u \<Longrightarrow> In t loc = w \<and> In u loc = w"
  by (auto simp: resolveWallClock_def Let_def split: if_splits)

lemma fire_loop_returns:
  assumes "cron_ok s"
  shows "\<exists>r. fire_loop s tz after cap c = Some r \<and> (\<forall>t. r = Some t \<longrightarrow> is_after t after \<and> fires s (In t tz))"
proof (induction "nat (first_of (12 * (cap + 1)) * 86400 - c)" arbitrary: c rule: less_induct)
  case less
  show ?case
  proof (cases "Year c > cap")
    case True
    then show ?thesis by (subst fire_loop.simps) simp
  next
    case le: False
    obtain f where f: "findNextMatch s c cap = Some f" "least_fire s c cap f" using findNextMatch_returns [OF assms] by blast
    show ?thesis
    proof (cases f)
      case None
      with f le show ?thesis by (subst fire_loop.simps) simp
    next
      case (Some w)
      then have w: "c \<le> w" "Year w \<le> cap" "fires s w" using f(2) by simp_all
      have "c < first_of (12 * (cap + 1)) * 86400" using w(1,2) Year_less_iff [of w cap] by simp
      then obtain r where r: "fire_loop s tz after cap (w + 1) = Some r" "\<forall>t. r = Some t \<longrightarrow> is_after t after \<and> fires s (In t tz)"
        using less.hyps [of "w + 1"] w(1) by auto
      show ?thesis
        using f(1) Some le w r by (subst fire_loop.simps) (auto split: localResult.splits dest: resolve_In)
    qed
  qed
qed

lemma fixed_resolve:
  assumes "\<forall>t. zp_offset (tz t) = ofs"
  shows "resolveWallClock w tz = localResultSingle (w - ofs)"
  using assms by (simp add: resolveWallClock_def Date_in_def In_def Let_def)

text \<open>The least instant after a given one at which a schedule fires in a zone.\<close>

fun least_instant :: "CronSchedule \<Rightarrow> location \<Rightarrow> instant \<Rightarrow> int \<Rightarrow> int \<Rightarrow> int option \<Rightarrow> bool" where
  "least_instant s tz after cap c None = (\<forall>t. is_after t after \<and> c \<le> In t tz \<and> Year (In t tz) \<le> cap \<longrightarrow> \<not> fires s (In t tz))"
| "least_instant s tz after cap c (Some t) = (is_after t after \<and> fires s (In t tz) \<and> Year (In t tz) \<le> cap \<and>
     (\<forall>u. is_after u after \<and> c \<le> In u tz \<and> u < t \<longrightarrow> \<not> fires s (In u tz)))"

lemma fire_loop_fixed:
  assumes "cron_ok s" "\<forall>t. zp_offset (tz t) = ofs"
  shows "\<exists>r. fire_loop s tz after cap c = Some r \<and> least_instant s tz after cap c r"
proof (induction "nat (first_of (12 * (cap + 1)) * 86400 - c)" arbitrary: c rule: less_induct)
  case less
  have In_ofs: "In t tz = t + ofs" for t using assms(2) by (simp add: In_def)
  show ?case
  proof (cases "Year c > cap")
    case True
    have "\<not> Year u \<le> cap" if "c \<le> u" for u using Year_mono [OF that] True by linarith
    with True show ?thesis by (subst fire_loop.simps) auto
  next
    case le: False
    obtain f where f: "findNextMatch s c cap = Some f" "least_fire s c cap f" using findNextMatch_returns [OF assms(1)] by blast
    show ?thesis
    proof (cases f)
      case None
      with f le show ?thesis by (subst fire_loop.simps) (auto simp: never_def)
    next
      case (Some w)
      then have w: "c \<le> w" "Year w \<le> cap" "fires s w" "no_fire s c w" using f(2) by simp_all
      have "c < first_of (12 * (cap + 1)) * 86400" using w(1,2) Year_less_iff [of w cap] by simp
      then obtain r where r: "fire_loop s tz after cap (w + 1) = Some r" "least_instant s tz after cap (w + 1) r"
        using less.hyps [of "w + 1"] w(1) by auto
      have early: "\<not> fires s (In u tz)" if "c \<le> In u tz" "u < w - ofs" for u
        using w(4) that In_ofs [of u] by (simp add: no_fire_def)
      show ?thesis
      proof (cases "is_after (w - ofs) after")
        case True
        then show ?thesis using f(1) Some le w early In_ofs fixed_resolve [OF assms(2)] by (subst fire_loop.simps) auto
      next
        case False
        have later: "w + 1 \<le> In u tz" if "is_after u after" for u
          using that False In_ofs [of u] by (simp add: is_after_def)
        have "least_instant s tz after cap c r" using r(2) later by (cases r) auto
        with False show ?thesis using f(1) Some le w r(1) fixed_resolve [OF assms(2)] by (subst fire_loop.simps) auto
      qed
    qed
  qed
qed

lemma NextFireAfter_returns:
  assumes "cron_ok s"
  shows "\<exists>r. NextFireAfter s after = Some r \<and>
    (case r of None \<Rightarrow> True | Some t \<Rightarrow> is_after t after \<and> fires s (In t (cs_TimeZone s)))"
  using fire_loop_returns [OF assms, of "cs_TimeZone s" after
    "Year (In ((after + 10 ^ 9) div 10 ^ 9) (cs_TimeZone s)) + maxForwardYears" "In ((after + 10 ^ 9) div 10 ^ 9) (cs_TimeZone s) - 7200"]
  unfolding NextFireAfter_def Let_def by (auto split: option.splits)

lemma NextFireAfter_fixed:
  assumes "cron_ok s" "\<forall>t. zp_offset (cs_TimeZone s t) = ofs"
  shows "\<exists>r. NextFireAfter s after = Some r \<and>
    (case r of
       None \<Rightarrow> (\<forall>t. is_after t after \<and> Year (t + ofs) \<le> Year ((after + 10 ^ 9) div 10 ^ 9 + ofs) + maxForwardYears \<longrightarrow> \<not> fires s (t + ofs))
     | Some t \<Rightarrow> is_after t after \<and> fires s (t + ofs) \<and> (\<forall>u. is_after u after \<and> u < t \<longrightarrow> \<not> fires s (u + ofs)))"
proof -
  let ?n = "In ((after + 10 ^ 9) div 10 ^ 9) (cs_TimeZone s)"
  have In_ofs: "In t (cs_TimeZone s) = t + ofs" for t using assms(2) by (simp add: In_def)
  obtain r where r: "NextFireAfter s after = Some r" "least_instant s (cs_TimeZone s) after (Year ?n + maxForwardYears) (?n - 7200) r"
    using fire_loop_fixed [OF assms, of after "Year ?n + maxForwardYears" "?n - 7200"] by (auto simp: NextFireAfter_def Let_def)
  have start: "?n - 7200 \<le> t + ofs" if "is_after t after" for t
  proof -
    have "after div 10 ^ 9 < t" using that unfolding is_after_def by (simp add: div_less_iff_less_mult)
    then show ?thesis by (simp add: In_ofs)
  qed
  from r show ?thesis using start by (cases r) (auto simp: In_ofs)
qed

lemma NextFireAfter_cap:
  assumes "cron_ok s" "\<forall>t. zp_offset (cs_TimeZone s t) = ofs"
  shows "\<exists>r. NextFireAfter s after = Some r \<and> (case r of None \<Rightarrow> True | Some t \<Rightarrow> is_after t after \<and> fires s (t + ofs) \<and>
    Year (t + ofs) \<le> Year ((after + 10 ^ 9) div 10 ^ 9 + ofs) + maxForwardYears)"
proof -
  let ?n = "In ((after + 10 ^ 9) div 10 ^ 9) (cs_TimeZone s)"
  have In_ofs: "In t (cs_TimeZone s) = t + ofs" for t using assms(2) by (simp add: In_def)
  obtain r where r: "NextFireAfter s after = Some r" "least_instant s (cs_TimeZone s) after (Year ?n + maxForwardYears) (?n - 7200) r"
    using fire_loop_fixed [OF assms, of after "Year ?n + maxForwardYears" "?n - 7200"] by (auto simp: NextFireAfter_def Let_def)
  then show ?thesis by (cases r) (auto simp: In_ofs)
qed

text \<open>A zone whose clocks are set back by an hour at an instant.\<close>

definition set_back :: "int \<Rightarrow> int \<Rightarrow> location" where
  "set_back ofs tr t =
     (if t < tr then \<lparr>zp_offset = ofs + 3600, zp_start = - (2 ^ 63), zp_end = tr\<rparr>
      else \<lparr>zp_offset = ofs, zp_start = tr, zp_end = 2 ^ 63 - 1\<rparr>)"

section \<open>Properties\<close>

text \<open>
  C17. The wall-clock search returns, and its result is the least time from its start on at which the schedule
  fires, up to the end of the cap year; it gives up only if there is none.
\<close>

theorem findNextMatch_least:
  assumes "cron_ok s"
  shows "\<exists>r. findNextMatch s start cap = Some r \<and> least_fire s start cap r"
  by (rule findNextMatch_returns [OF assms])

text \<open>
  C19. For every time zone the search for the next instant returns, and an instant it returns is after the
  given one and fires: its local time in the zone of the schedule matches all fields.
\<close>

theorem NextFireAfter_sound:
  assumes "cron_ok s"
  shows "\<exists>r. NextFireAfter s after = Some r \<and>
    (case r of None \<Rightarrow> True | Some t \<Rightarrow> is_after t after \<and> fires s (In t (cs_TimeZone s)))"
  by (rule NextFireAfter_returns [OF assms])

text \<open>
  C18. In a zone whose offset never changes, such as UTC, the result is the least instant after the given one at
  which the schedule fires, and there is no result only if it does not fire up to the end of the tenth
  year to come.
\<close>

theorem NextFireAfter_least:
  assumes "cron_ok s" "\<forall>t. zp_offset (cs_TimeZone s t) = ofs"
  shows "\<exists>r. NextFireAfter s after = Some r \<and>
    (case r of
       None \<Rightarrow> (\<forall>t. is_after t after \<and> Year (t + ofs) \<le> Year ((after + 10 ^ 9) div 10 ^ 9 + ofs) + maxForwardYears \<longrightarrow> \<not> fires s (t + ofs))
     | Some t \<Rightarrow> is_after t after \<and> fires s (t + ofs) \<and> (\<forall>u. is_after u after \<and> u < t \<longrightarrow> \<not> fires s (u + ofs)))"
  by (rule NextFireAfter_fixed [OF assms])

text \<open>
  When clocks are set back by an hour, the wall-clock times of that hour occur twice. In a zone at or east
  of UTC the projection returns the late occurrence only; in a zone at least an hour west of it both.
\<close>

theorem resolveWallClock_set_back:
  assumes "tr + ofs \<le> w" "w < tr + ofs + 3600" "\<bar>w\<bar> < 2 ^ 60" "\<bar>ofs\<bar> < 2 ^ 60" "\<bar>tr\<bar> < 2 ^ 60"
  shows "In (w - ofs - 3600) (set_back ofs tr) = w \<and> In (w - ofs) (set_back ofs tr) = w \<and>
    (0 \<le> ofs \<longrightarrow> resolveWallClock w (set_back ofs tr) = localResultSingle (w - ofs)) \<and>
    (ofs \<le> - 3600 \<longrightarrow> resolveWallClock w (set_back ofs tr) = localResultAmbiguous (w - ofs - 3600) (w - ofs))"
proof -
  have early: "In (w - ofs - 3600) (set_back ofs tr) = w" and late: "In (w - ofs) (set_back ofs tr) = w"
    and later: "In (w - ofs + 3600) (set_back ofs tr) = w + 3600"
    using assms(1,2) by (simp_all add: In_def set_back_def)
  have "Date_in w (set_back ofs tr) = w - ofs" if "0 \<le> ofs"
    using that assms by (simp add: Date_in_def set_back_def Let_def)
  moreover have "Date_in w (set_back ofs tr) = w - ofs - 3600" if "ofs \<le> - 3600"
    using that assms by (simp add: Date_in_def set_back_def Let_def)
  ultimately show ?thesis using early late later by (auto simp: resolveWallClock_def Let_def)
qed

section \<open>Witnesses\<close>

text \<open>Every day at half past two.\<close>

definition half_past_two :: CronSchedule where
  "half_past_two = \<lparr>cs_Flavor = Unix5, cs_Seconds = FromValues [0], cs_Minutes = FromValues [30], cs_Hours = FromValues [2],
     cs_DayOfMonth = DOMStar, cs_Months = Star, cs_DayOfWeek = DOWStar, cs_TimeZone = utc_loc\<rparr>"

lemma half_past_two_ok: "cron_ok half_past_two"
  by code_simp

lemma half_past_two_fires: "fires half_past_two 9000"
  by code_simp

theorem findNextMatch_least_witness:
  "\<exists>t. findNextMatch half_past_two 0 1970 = Some (Some t) \<and> fires half_past_two t \<and> t \<le> 9000"
proof -
  obtain r where r: "findNextMatch half_past_two 0 1970 = Some r" "least_fire half_past_two 0 1970 r"
    using findNextMatch_least [OF half_past_two_ok] by blast
  have y: "Year 9000 = 1970" by code_simp
  then show ?thesis using r half_past_two_fires by (cases r) (auto simp: never_def no_fire_def intro: leI)
qed

theorem NextFireAfter_sound_witness:
  "\<exists>r. NextFireAfter (half_past_two\<lparr>cs_TimeZone := set_back 3600 1729990800\<rparr>) 0 = Some r"
proof -
  have "cron_ok (half_past_two\<lparr>cs_TimeZone := set_back 3600 1729990800\<rparr>)" using half_past_two_ok by (simp add: cron_ok_def)
  from NextFireAfter_sound [OF this, of 0] show ?thesis by blast
qed

theorem NextFireAfter_least_witness:
  "\<exists>t. NextFireAfter half_past_two 0 = Some (Some t) \<and> fires half_past_two t \<and> 0 < t \<and> t \<le> 9000"
proof -
  have z: "\<forall>t. zp_offset (cs_TimeZone half_past_two t) = 0" by (simp add: half_past_two_def utc_loc_def)
  have y: "Year 9000 = 1970" "Year 1 + maxForwardYears = 1980" by code_simp+
  have "is_after 9000 0" by (simp add: is_after_def)
  with NextFireAfter_least [OF half_past_two_ok z, of 0] half_past_two_fires y
  show ?thesis by (cases "the (NextFireAfter half_past_two 0)") (auto simp: is_after_def not_less [symmetric] simp del: not_less)
qed

theorem resolveWallClock_set_back_witness:
  "resolveWallClock (1729990800 + 3600 + 1800) (set_back 3600 1729990800) = localResultSingle (1729990800 + 1800) \<and>
   In (1729990800 - 1800) (set_back 3600 1729990800) = 1729990800 + 3600 + 1800"
  using resolveWallClock_set_back [of 1729990800 3600 "1729990800 + 3600 + 1800"] by simp

end
