(* ===== verification/Schedule.thy ===== *)
theory Schedule
  imports Cron_Next Json_Codec
begin

text \<open>
  Schedules of the build service (\<open>pipeline-build-service/internal/domain/schedule/schedule.go\<close> and
  \<open>nextrun.go\<close>): triggers and their evaluation, the windows of a backfill, and the auto-pause rule. The
  time-zone database is a parameter. A computation that uses the cron evaluator is \<open>None\<close> if it does
  not return.
\<close>

section \<open>Triggers\<close>

definition TriggerKindTime :: int where "TriggerKindTime = 0"
definition TriggerKindEvent :: int where "TriggerKindEvent = 1"
definition TriggerKindCompound :: int where "TriggerKindCompound = 2"

record TimeTrigger =
  tt_Cron :: string
  tt_TimeZone :: string
  tt_Flavor :: string

record EventTrigger =
  et_EventType :: string
  et_TargetRID :: string
  et_BranchFilter :: "string list"

text \<open>The kind of a trigger and its three pointers; a compound trigger is its operator and components.\<close>

datatype Trigger =
    Trigger (tr_Kind: int) (tr_Time: "TimeTrigger option") (tr_Event: "EventTrigger option") (tr_Compound: "CompoundTrigger option")
and CompoundTrigger =
    CompoundTrigger (ct_Op: string) (ct_Components: "Trigger list")

definition mapFlavor :: "string \<Rightarrow> CronFlavor" where
  "mapFlavor f = (if f = ''QUARTZ6'' then Quartz6 else Unix5)"

text \<open>\<open>%d\<close> of an int.\<close>

definition show_int :: "int \<Rightarrow> string" where
  "show_int k = (if k < 0 then CHR ''-'' # digits (nat (- k)) else digits (nat k))"

section \<open>Evaluation\<close>

record TriggerEvent =
  te_EventType :: string
  te_TargetRID :: string
  te_Branch :: string
  te_OccurredAt :: instant

record EvaluationContext =
  ec_Now :: instant
  ec_LastRunAt :: "instant option"
  ec_Event :: "TriggerEvent option"

type_synonym tz_database = "string \<Rightarrow> string + location"

text \<open>Sequencing of computations that may not return or may fail.\<close>

type_synonym 'a comp = "(string + 'a) option"

definition bindC :: "'a comp \<Rightarrow> ('a \<Rightarrow> 'b comp) \<Rightarrow> 'b comp" where
  "bindC m k = Option.bind m (\<lambda>r. case r of Inl e \<Rightarrow> Some (Inl e) | Inr x \<Rightarrow> k x)"

lemma bindC_cong [fundef_cong]: "m = m' \<Longrightarrow> (\<And>x. m' = Some (Inr x) \<Longrightarrow> k x = k' x) \<Longrightarrow> bindC m k = bindC m' k'"
  by (cases m') (auto simp: bindC_def split: sum.splits)

lemma bindC_simps [simp]: "bindC (Some (Inl e)) k = Some (Inl e)" "bindC (Some (Inr x)) k = k x" "bindC None k = None"
  by (simp_all add: bindC_def)

definition invalid_cron :: "string \<Rightarrow> CronError \<Rightarrow> string" where
  "invalid_cron expr e = ''invalid cron expression '' @ [CHR 0x27] @ expr @ [CHR 0x27] @ '': '' @ CronError_Error e"

text \<open>A firing instant is a whole second.\<close>

definition at_second :: "int \<Rightarrow> instant" where
  "at_second t = t * 10 ^ 9"

definition evaluateTime :: "tz_database \<Rightarrow> TimeTrigger option \<Rightarrow> EvaluationContext \<Rightarrow> (bool \<times> instant option) comp" where
  "evaluateTime tzdb tp ctx =
     (case tp of
        None \<Rightarrow> Some (Inl ''time trigger is nil'')
      | Some t \<Rightarrow>
        bindC (Some (if tt_TimeZone t \<noteq> [] then
                 (case tzdb (tt_TimeZone t) of
                    Inl e \<Rightarrow> Inl (''invalid time_zone '' @ [CHR 0x27] @ tt_TimeZone t @ [CHR 0x27] @ '': '' @ e)
                  | Inr l \<Rightarrow> Inr l)
               else Inr utc_loc)) (\<lambda>tz.
        case ParseCron (tt_Cron t) (mapFlavor (tt_Flavor t)) (Some tz) of
          Inl e \<Rightarrow> Some (Inl (invalid_cron (tt_Cron t) e))
        | Inr parsed \<Rightarrow>
          let cursor = (case ec_LastRunAt ctx of None \<Rightarrow> zero_time | Some l \<Rightarrow> l)
          in (case NextFireAfter parsed cursor of
                None \<Rightarrow> None
              | Some None \<Rightarrow> Some (Inr (False, None))
              | Some (Some nxt) \<Rightarrow> Some (Inr (\<not> at_second nxt > ec_Now ctx, Some (at_second nxt))))))"

definition evaluateEvent :: "EventTrigger option \<Rightarrow> EvaluationContext \<Rightarrow> bool" where
  "evaluateEvent tp ctx =
     (case (tp, ec_Event ctx) of
        (Some t, Some ev) \<Rightarrow>
          if te_EventType ev \<noteq> et_EventType t then False
          else if te_TargetRID ev \<noteq> et_TargetRID t then False
          else if et_BranchFilter t = [] then True
          else te_Branch ev \<in> set (et_BranchFilter t)
      | _ \<Rightarrow> False)"

definition earlier :: "instant option \<Rightarrow> instant option \<Rightarrow> instant option" where
  "earlier earliest nxt =
     (case nxt of
        None \<Rightarrow> earliest
      | Some n \<Rightarrow> (case earliest of None \<Rightarrow> Some n | Some e \<Rightarrow> if n < e then Some n else Some e))"

fun EvaluateTrigger :: "tz_database \<Rightarrow> EvaluationContext \<Rightarrow> Trigger \<Rightarrow> (bool \<times> instant option) comp"
  and evaluateCompound :: "tz_database \<Rightarrow> EvaluationContext \<Rightarrow> CompoundTrigger option \<Rightarrow> (bool \<times> instant option) comp"
  and and_loop :: "tz_database \<Rightarrow> EvaluationContext \<Rightarrow> Trigger list \<Rightarrow> instant option \<Rightarrow> (bool \<times> instant option) comp"
  and or_loop :: "tz_database \<Rightarrow> EvaluationContext \<Rightarrow> Trigger list \<Rightarrow> bool \<Rightarrow> instant option \<Rightarrow> (bool \<times> instant option) comp"
where
  "EvaluateTrigger tzdb ctx (Trigger k tm ev cp) =
     (if k = TriggerKindTime then evaluateTime tzdb tm ctx
      else if k = TriggerKindEvent then Some (Inr (evaluateEvent ev ctx, None))
      else if k = TriggerKindCompound then evaluateCompound tzdb ctx cp
      else Some (Inl (''unknown trigger kind: '' @ show_int k)))"
| "evaluateCompound tzdb ctx None = Some (Inr (False, None))"
| "evaluateCompound tzdb ctx (Some (CompoundTrigger ct ts)) =
     (if ts = [] then Some (Inr (False, None))
      else if ct = ''AND'' then and_loop tzdb ctx ts None
      else if ct = ''OR'' then or_loop tzdb ctx ts False None
      else Some (Inl (''unknown compound op: '' @ ct)))"
| "and_loop tzdb ctx [] earliest = Some (Inr (True, earliest))"
| "and_loop tzdb ctx (t # ts) earliest =
     bindC (EvaluateTrigger tzdb ctx t) (\<lambda>(f, nxt).
       if \<not> f then Some (Inr (False, nxt)) else and_loop tzdb ctx ts (earlier earliest nxt))"
| "or_loop tzdb ctx [] anyFires earliest = Some (Inr (anyFires, earliest))"
| "or_loop tzdb ctx (t # ts) anyFires earliest =
     bindC (EvaluateTrigger tzdb ctx t) (\<lambda>(f, nxt). or_loop tzdb ctx ts (anyFires \<or> f) (earlier earliest nxt))"

definition EvaluateTrigger_ptr :: "tz_database \<Rightarrow> Trigger option \<Rightarrow> EvaluationContext \<Rightarrow> (bool \<times> instant option) comp" where
  "EvaluateTrigger_ptr tzdb t ctx = (case t of None \<Rightarrow> Some (Inl ''trigger is nil'') | Some x \<Rightarrow> EvaluateTrigger tzdb ctx x)"

section \<open>Backfill windows\<close>

record ScheduleWindow =
  sw_ScheduledFor :: instant
  sw_WindowStart :: instant
  sw_WindowEnd :: instant

definition DefaultBackfillLimit :: int where "DefaultBackfillLimit = 50"
definition MaxBackfillLimit :: int where "MaxBackfillLimit = 200"

definition ClampLimit :: "int option \<Rightarrow> int" where
  "ClampLimit limit =
     (case limit of
        None \<Rightarrow> DefaultBackfillLimit
      | Some l \<Rightarrow> if l < 1 then 1 else if l > MaxBackfillLimit then MaxBackfillLimit else l)"

text \<open>The occurrences: at most as many as are still wanted.\<close>

fun occurrences :: "CronSchedule \<Rightarrow> instant \<Rightarrow> nat \<Rightarrow> instant \<Rightarrow> instant list option" where
  "occurrences parsed endAt 0 cursor = Some []"
| "occurrences parsed endAt (Suc n) cursor =
     (case NextFireAfter parsed cursor of
        None \<Rightarrow> None
      | Some None \<Rightarrow> Some []
      | Some (Some nxt) \<Rightarrow>
        if at_second nxt > endAt then Some []
        else map_option (\<lambda>os. at_second nxt # os) (occurrences parsed endAt n (at_second nxt)))"

definition window_at :: "instant \<Rightarrow> instant list \<Rightarrow> nat \<Rightarrow> ScheduleWindow" where
  "window_at endAt os i =
     (let scheduled = os ! i;
          w1 = (if i + 1 < length os then os ! (i + 1) else endAt);
          w2 = (if w1 < scheduled then scheduled else w1);
          w3 = (if w2 > endAt then endAt else w2)
      in \<lparr>sw_ScheduledFor = scheduled, sw_WindowStart = scheduled, sw_WindowEnd = w3\<rparr>)"

text \<open>\<open>make\<close> panics for a negative capacity.\<close>

datatype windows_error = WindowsError string | MakePanic

definition BuildScheduleWindows ::
  "string \<Rightarrow> instant \<Rightarrow> instant \<Rightarrow> int \<Rightarrow> string \<Rightarrow> location option \<Rightarrow> (windows_error + ScheduleWindow list) option" where
  "BuildScheduleWindows expression startAt endAt limit flavor tz =
     (if endAt < startAt then Some (Inl (WindowsError ''end_at must be greater than or equal to start_at''))
      else case ParseCron expression (mapFlavor flavor) (Some (case tz of None \<Rightarrow> utc_loc | Some l \<Rightarrow> l)) of
        Inl e \<Rightarrow> Some (Inl (WindowsError (invalid_cron expression e)))
      | Inr parsed \<Rightarrow>
        map_option (\<lambda>os.
          if limit < 0 then Inl MakePanic
          else Inr (map (window_at endAt os) [0 ..< min (length os) (nat limit)]))
          (occurrences parsed endAt (nat (limit + 1)) (startAt - 10 ^ 9)))"

section \<open>Auto-pause, and the next run of a pipeline\<close>

record RunOutcome =
  oc_Succeeded :: bool
  oc_OccurredAt :: instant

definition AutoPauseFailureThreshold :: nat where "AutoPauseFailureThreshold = 5"

text \<open>The history from its end.\<close>

fun pause_loop :: "nat \<Rightarrow> RunOutcome list \<Rightarrow> bool" where
  "pause_loop streak [] \<longleftrightarrow> streak \<ge> AutoPauseFailureThreshold"
| "pause_loop streak (r # rs) \<longleftrightarrow>
     (if oc_Succeeded r then streak \<ge> AutoPauseFailureThreshold
      else if Suc streak \<ge> AutoPauseFailureThreshold then True
      else pause_loop (Suc streak) rs)"

definition ShouldAutoPause :: "RunOutcome list \<Rightarrow> bool" where
  "ShouldAutoPause history = pause_loop 0 (rev history)"

text \<open>Of a schedule only its description is read.\<close>

definition AutoPauseExempt :: "string option \<Rightarrow> bool" where
  "AutoPauseExempt description =
     (case description of None \<Rightarrow> False | Some d \<Rightarrow> contains_str (map to_lower_char d) ''auto_pause_exempt'')"

definition ComputeNextRunAt :: "string \<Rightarrow> bool \<Rightarrow> string option \<Rightarrow> instant \<Rightarrow> instant option option" where
  "ComputeNextRunAt status enabled cronExpr now =
     (if status \<noteq> ''active'' \<or> \<not> enabled then Some None
      else case cronExpr of
        None \<Rightarrow> Some None
      | Some c \<Rightarrow>
        let expr = trim_space c
        in if expr = [] then Some None
           else case ParseCron expr Unix5 (Some utc_loc) of
             Inl _ \<Rightarrow> Some None
           | Inr parsed \<Rightarrow> map_option (map_option at_second) (NextFireAfter parsed now))"

section \<open>Evaluation returns\<close>

lemma ParseCron_tz: "ParseCron expr flavor (Some tz) = Inr s \<Longrightarrow> cs_TimeZone s = tz"
  by (auto simp: ParseCron_def Let_def bindE_Inr_iff split: if_splits)

lemma evaluateTime_returns: "\<exists>r. evaluateTime tzdb tm ctx = Some r"
proof -
  have nf: "NextFireAfter s a \<noteq> None" if "ParseCron c f z = Inr s" for s a c f z
    using NextFireAfter_returns [OF ParseCron_wf [OF that], of a] by auto
  show ?thesis
    unfolding evaluateTime_def bindC_def
    by (auto simp: Let_def split: option.splits sum.splits dest: nf)
qed

lemma evaluate_returns:
  "\<exists>r. EvaluateTrigger tzdb ctx t = Some r"
  "\<exists>r. evaluateCompound tzdb ctx c = Some r"
  "\<exists>r. and_loop tzdb ctx ts e = Some r"
  "\<exists>r. or_loop tzdb ctx ts a e = Some r"
proof (induction tzdb ctx t and tzdb ctx c and tzdb ctx ts e and tzdb ctx ts a e
    rule: EvaluateTrigger_evaluateCompound_and_loop_or_loop.induct)
  case (1 tzdb ctx k tm ev cp)
  then show ?case using evaluateTime_returns [of tzdb tm ctx] by auto
next
  case (5 tzdb ctx t ts e)
  from "5.IH"(1) obtain r where "EvaluateTrigger tzdb ctx t = Some r" by blast
  with "5.IH"(2) show ?case by (cases r) auto
next
  case (7 tzdb ctx t ts a e)
  from "7.IH"(1) obtain r where "EvaluateTrigger tzdb ctx t = Some r" by blast
  with "7.IH"(2) show ?case by (cases r) auto
qed auto

section \<open>The formula of a trigger\<close>

text \<open>A trigger as a formula over its leaves: a time trigger is due, or the event matches.\<close>

fun holds :: "(TimeTrigger option \<Rightarrow> bool) \<Rightarrow> EvaluationContext \<Rightarrow> Trigger \<Rightarrow> bool"
  and holds_compound :: "(TimeTrigger option \<Rightarrow> bool) \<Rightarrow> EvaluationContext \<Rightarrow> CompoundTrigger option \<Rightarrow> bool"
where
  "holds due ctx (Trigger k tm ev cp) =
     (if k = TriggerKindTime then due tm
      else if k = TriggerKindEvent then evaluateEvent ev ctx
      else k = TriggerKindCompound \<and> holds_compound due ctx cp)"
| "holds_compound due ctx None = False"
| "holds_compound due ctx (Some (CompoundTrigger ct ts)) =
     (ts \<noteq> [] \<and> (if ct = ''AND'' then (\<forall>t \<in> set ts. holds due ctx t) else ct = ''OR'' \<and> (\<exists>t \<in> set ts. holds due ctx t)))"

definition time_due :: "tz_database \<Rightarrow> EvaluationContext \<Rightarrow> TimeTrigger option \<Rightarrow> bool" where
  "time_due tzdb ctx tm = (case evaluateTime tzdb tm ctx of Some (Inr (b, _)) \<Rightarrow> b | _ \<Rightarrow> False)"

lemma bindC_Inr: "bindC m k = Some (Inr y) \<longleftrightarrow> (\<exists>x. m = Some (Inr x) \<and> k x = Some (Inr y))"
  by (cases m) (auto simp: bindC_def split: sum.splits)

lemma evaluate_holds:
  "EvaluateTrigger tzdb ctx t = Some (Inr (b, n)) \<Longrightarrow> b = holds (time_due tzdb ctx) ctx t"
  "evaluateCompound tzdb ctx c = Some (Inr (b, n)) \<Longrightarrow> b = holds_compound (time_due tzdb ctx) ctx c"
  "and_loop tzdb ctx ts e = Some (Inr (b, n)) \<Longrightarrow> b = (\<forall>t \<in> set ts. holds (time_due tzdb ctx) ctx t)"
  "or_loop tzdb ctx ts a e = Some (Inr (b, n)) \<Longrightarrow> b = (a \<or> (\<exists>t \<in> set ts. holds (time_due tzdb ctx) ctx t))"
proof (induction tzdb ctx t and tzdb ctx c and tzdb ctx ts e and tzdb ctx ts a e arbitrary: b n and b n and b n and b n
    rule: EvaluateTrigger_evaluateCompound_and_loop_or_loop.induct)
  case (1 tzdb ctx k tm ev cp)
  then show ?case by (auto simp: time_due_def split: if_splits)
next
  case (5 tzdb ctx t ts e)
  then obtain f m where t: "EvaluateTrigger tzdb ctx t = Some (Inr (f, m))" by (auto simp: bindC_Inr)
  then show ?case using "5.IH"(1) [OF t] "5.IH"(2) [OF t refl] "5.prems" by (cases f) auto
next
  case (7 tzdb ctx t ts a e)
  then obtain f m where t: "EvaluateTrigger tzdb ctx t = Some (Inr (f, m))" by (auto simp: bindC_Inr)
  then show ?case using "7.IH"(1) [OF t] "7.IH"(2) [OF t refl] "7.prems" by auto
qed (auto split: if_splits)

section \<open>Occurrences in a zone with a fixed offset\<close>

lemma at_second_less [simp]: "at_second a < at_second b \<longleftrightarrow> a < b"
  by (simp add: at_second_def)

lemma is_after_at: "is_after u a \<longleftrightarrow> a < at_second u"
  by (simp add: is_after_def at_second_def)

lemma at_second_le: "at_second u \<le> b \<longleftrightarrow> u \<le> b div 10 ^ 9"
proof
  assume "at_second u \<le> b"
  then have "u * 10 ^ 9 div 10 ^ 9 \<le> b div 10 ^ 9" unfolding at_second_def by (rule zdiv_mono1) simp
  then show "u \<le> b div 10 ^ 9" by simp
next
  assume "u \<le> b div 10 ^ 9"
  then have "u * 10 ^ 9 \<le> b div 10 ^ 9 * 10 ^ 9" by simp
  also have "\<dots> \<le> b" using div_mult_mod_eq [of b "10 ^ 9"] pos_mod_sign [of "10 ^ 9" b] by (simp del: div_mult_mod_eq)
  finally show "at_second u \<le> b" by (simp add: at_second_def)
qed

definition in_window :: "CronSchedule \<Rightarrow> int \<Rightarrow> instant \<Rightarrow> instant \<Rightarrow> int \<Rightarrow> bool" where
  "in_window s ofs a b u \<longleftrightarrow> a < at_second u \<and> at_second u \<le> b \<and> fires s (u + ofs)"

text \<open>A list holds the first firing instants of an interval, as many as there are or as are wanted.\<close>

definition first_firings :: "CronSchedule \<Rightarrow> int \<Rightarrow> instant \<Rightarrow> instant \<Rightarrow> nat \<Rightarrow> instant list \<Rightarrow> bool" where
  "first_firings s ofs a b n os \<longleftrightarrow> length os \<le> n \<and> sorted_wrt (<) os \<and>
     (\<forall>x \<in> set os. \<exists>u. x = at_second u \<and> in_window s ofs a b u) \<and>
     (\<forall>u. in_window s ofs a b u \<longrightarrow> at_second u \<in> set os \<or> length os = n \<and> (\<forall>x \<in> set os. x < at_second u))"

text \<open>The second an instant lies in. A plan looks for firings after the second before its start, hence from that second on.\<close>

definition second_of :: "instant \<Rightarrow> instant" where
  "second_of t = t - t mod 10 ^ 9"

lemma in_window_second: "in_window s ofs (t - 10 ^ 9) b u \<longleftrightarrow> in_window s ofs (second_of t - 1) b u"
proof -
  define q where "q = t div 10 ^ 9"
  define r where "r = t mod 10 ^ 9"
  have t: "t = 1000000000 * q + r" "0 \<le> r" "r < 1000000000" by (simp_all add: q_def r_def)
  then have "second_of t = 1000000000 * q" by (simp add: second_of_def r_def [symmetric])
  moreover have "1000000000 * q + r - 1000000000 < 1000000000 * u \<longleftrightarrow> 1000000000 * q - 1 < 1000000000 * u"
  proof (cases "q \<le> u")
    case False
    then have "u \<le> q - 1" by simp
    then show ?thesis using t(2) by linarith
  qed (use t(3) in linarith)
  ultimately have "t - 10 ^ 9 < at_second u \<longleftrightarrow> second_of t - 1 < at_second u" by (simp add: t(1) at_second_def mult.commute)
  then show ?thesis by (simp add: in_window_def)
qed

lemma first_firings_second: "first_firings s ofs (t - 10 ^ 9) b n os \<longleftrightarrow> first_firings s ofs (second_of t - 1) b n os"
  unfolding first_firings_def in_window_second ..

lemma first_firings_Nil: "(\<And>u. \<not> in_window s ofs a b u) \<Longrightarrow> first_firings s ofs a b n []"
  by (simp add: first_firings_def)

lemma first_firings_Cons:
  assumes "in_window s ofs a b t" "\<And>u. a < at_second u \<Longrightarrow> u < t \<Longrightarrow> \<not> fires s (u + ofs)" "first_firings s ofs (at_second t) b n os"
  shows "first_firings s ofs a b (Suc n) (at_second t # os)"
proof -
  have os: "length os \<le> n" "sorted_wrt (<) os" "\<forall>x \<in> set os. \<exists>u. x = at_second u \<and> in_window s ofs (at_second t) b u"
    "\<forall>u. in_window s ofs (at_second t) b u \<longrightarrow> at_second u \<in> set os \<or> length os = n \<and> (\<forall>x \<in> set os. x < at_second u)"
    using assms(3) by (simp_all add: first_firings_def)
  have later: "in_window s ofs a b u \<longleftrightarrow> u = t \<or> in_window s ofs (at_second t) b u" for u
    using assms(1,2) less_trans [of a "at_second t" "at_second u"] by (cases u t rule: linorder_cases) (auto simp: in_window_def)
  have "\<forall>x \<in> set os. at_second t < x" using os(3) by (auto simp: in_window_def)
  moreover have "at_second u \<in> set (at_second t # os) \<or> length (at_second t # os) = Suc n \<and> (\<forall>x \<in> set (at_second t # os). x < at_second u)"
    if "in_window s ofs a b u" for u
    using that os(4) later [of u] by (auto simp: in_window_def)
  ultimately show ?thesis using os(1-3) later unfolding first_firings_def by auto
qed

lemma occurrences_spec:
  assumes "cron_ok s" "\<forall>t. zp_offset (cs_TimeZone s t) = ofs"
  shows "Year (b div 10 ^ 9 + ofs) \<le> Year ((a + 10 ^ 9) div 10 ^ 9 + ofs) + maxForwardYears \<Longrightarrow>
    \<exists>os. occurrences s b n a = Some os \<and> first_firings s ofs a b n os"
proof (induction n arbitrary: a)
  case 0
  then show ?case by (simp add: first_firings_def)
next
  case (Suc n)
  obtain r where r: "NextFireAfter s a = Some r" "case r of
       None \<Rightarrow> (\<forall>t. is_after t a \<and> Year (t + ofs) \<le> Year ((a + 10 ^ 9) div 10 ^ 9 + ofs) + maxForwardYears \<longrightarrow> \<not> fires s (t + ofs))
     | Some t \<Rightarrow> is_after t a \<and> fires s (t + ofs) \<and> (\<forall>u. is_after u a \<and> u < t \<longrightarrow> \<not> fires s (u + ofs))"
    using NextFireAfter_fixed [OF assms, of a] by blast
  show ?case
  proof (cases r)
    case None
    have "\<not> in_window s ofs a b u" for u
    proof
      assume u: "in_window s ofs a b u"
      then have "Year (u + ofs) \<le> Year (b div 10 ^ 9 + ofs)" by (intro Year_mono) (simp add: in_window_def at_second_le)
      then show False using u r(2) None Suc.prems by (auto simp: in_window_def is_after_at)
    qed
    then show ?thesis using r(1) None by (simp add: first_firings_Nil)
  next
    case (Some t)
    then have t: "a < at_second t" "fires s (t + ofs)" "\<And>u. a < at_second u \<Longrightarrow> u < t \<Longrightarrow> \<not> fires s (u + ofs)"
      using r(2) by (auto simp: is_after_at)
    show ?thesis
    proof (cases "at_second t > b")
      case True
      have "\<not> in_window s ofs a b u" for u
      proof
        assume u: "in_window s ofs a b u"
        then have "at_second u < at_second t" using True unfolding in_window_def by linarith
        then show False using u t(3) [of u] by (simp add: in_window_def)
      qed
      then show ?thesis using r(1) Some True by (simp add: first_firings_Nil)
    next
      case False
      have "Year ((a + 10 ^ 9) div 10 ^ 9 + ofs) \<le> Year ((at_second t + 10 ^ 9) div 10 ^ 9 + ofs)"
        by (intro Year_mono add_right_mono zdiv_mono1) (use t(1) in simp_all)
      then obtain os where "occurrences s b n (at_second t) = Some os" "first_firings s ofs (at_second t) b n os"
        using Suc.IH [of "at_second t"] Suc.prems by auto
      moreover have "in_window s ofs a b t" using t False by (simp add: in_window_def)
      ultimately show ?thesis using r(1) Some False first_firings_Cons [OF _ t(3)] by simp
    qed
  qed
qed

section \<open>Windows\<close>

lemma window_end:
  assumes "sorted_wrt (<) os" "\<forall>x \<in> set os. x \<le> b" "i < length os"
  shows "sw_WindowEnd (window_at b os i) = (if Suc i < length os then os ! Suc i else b)"
proof (cases "Suc i < length os")
  case True
  then have "os ! i < os ! Suc i" "os ! Suc i \<le> b" using assms(1,2) by (auto simp: sorted_wrt_iff_nth_less)
  with True show ?thesis by (simp add: window_at_def Let_def)
next
  case False
  then show ?thesis using assms(2,3) nth_mem [OF assms(3)] by (auto simp: window_at_def Let_def not_less)
qed

lemma sorted_take_covers:
  assumes "sorted_wrt (<) os" "x \<in> set os" "m \<le> length os"
  shows "x \<in> set (take m os) \<or> (\<forall>y \<in> set (take m os). y < x)"
proof -
  obtain i where "i < length os" "x = os ! i" using assms(2) by (auto simp: in_set_conv_nth)
  then show ?thesis using assms(1,3) by (cases "i < m") (auto simp: in_set_conv_nth sorted_wrt_iff_nth_less intro: exI [of _ i])
qed

text \<open>The windows of a plan cover the interval from the first occurrence: each ends where the next begins.\<close>

definition contiguous :: "instant \<Rightarrow> ScheduleWindow list \<Rightarrow> bool" where
  "contiguous b ws \<longleftrightarrow> (\<forall>i < length ws. sw_WindowStart (ws ! i) = sw_ScheduledFor (ws ! i) \<and>
     sw_ScheduledFor (ws ! i) \<le> sw_WindowEnd (ws ! i) \<and> sw_WindowEnd (ws ! i) \<le> b \<and>
     (Suc i < length ws \<longrightarrow> sw_WindowEnd (ws ! i) = sw_WindowStart (ws ! Suc i)))"

lemma windows_spec:
  assumes "first_firings s ofs a b (Suc n) os"
  defines "ws \<equiv> map (window_at b os) [0 ..< min (length os) n]"
  shows "first_firings s ofs a b n (map sw_ScheduledFor ws)" "contiguous b ws"
proof -
  have os: "length os \<le> Suc n" "sorted_wrt (<) os" "\<forall>x \<in> set os. \<exists>u. x = at_second u \<and> in_window s ofs a b u"
    "\<And>u. in_window s ofs a b u \<Longrightarrow> at_second u \<in> set os \<or> length os = Suc n \<and> (\<forall>x \<in> set os. x < at_second u)"
    using assms(1) by (simp_all add: first_firings_def)
  define m where "m = min (length os) n"
  have m: "m \<le> length os" "m \<le> n" "m < n \<Longrightarrow> m = length os" by (auto simp: m_def)
  have starts: "map sw_ScheduledFor ws = take m os"
    unfolding ws_def m_def [symmetric] using m(1) by (intro nth_equalityI) (simp_all add: window_at_def Let_def)
  have "at_second u \<in> set (take m os) \<or> m = n \<and> (\<forall>x \<in> set (take m os). x < at_second u)" if u: "in_window s ofs a b u" for u
  proof (cases "at_second u \<in> set os")
    case True
    show ?thesis
    proof (cases "m < n")
      case True
      then show ?thesis using m(3) \<open>at_second u \<in> set os\<close> by simp
    next
      case False
      then show ?thesis using sorted_take_covers [OF os(2) True m(1)] m(2) by auto
    qed
  next
    case False
    then have "length os = Suc n" "\<forall>x \<in> set os. x < at_second u" using os(4) [OF u] by auto
    then show ?thesis by (auto simp: m_def dest: in_set_takeD)
  qed
  then show "first_firings s ofs a b n (map sw_ScheduledFor ws)"
    unfolding first_firings_def starts using os(2,3) m by (auto simp: sorted_wrt_take dest: in_set_takeD)
  have le: "\<forall>x \<in> set os. x \<le> b" using os(3) by (auto simp: in_window_def)
  have "sw_WindowStart (window_at b os i) = os ! i \<and> sw_ScheduledFor (window_at b os i) = os ! i" for i by (simp add: window_at_def Let_def)
  moreover have "os ! i \<le> os ! Suc i \<and> os ! Suc i \<le> b" if "Suc i < length os" for i
    using os(2) le that by (simp add: sorted_wrt_iff_nth_less less_imp_le)
  moreover have "os ! i \<le> b" if "i < length os" for i using le that by simp
  ultimately show "contiguous b ws"
    unfolding contiguous_def ws_def using m(1) by (auto simp: window_end [OF os(2) le] simp flip: m_def)
qed

lemma BuildScheduleWindows_plan:
  assumes "ParseCron expression (mapFlavor flavor) (Some tz) = Inr s" "\<forall>t. zp_offset (tz t) = ofs"
    and "startAt \<le> endAt" "0 \<le> limit" "Year (endAt div 10 ^ 9 + ofs) \<le> Year (startAt div 10 ^ 9 + ofs) + maxForwardYears"
  shows "\<exists>ws. BuildScheduleWindows expression startAt endAt limit flavor (Some tz) = Some (Inr ws) \<and>
    first_firings s ofs (startAt - 10 ^ 9) endAt (nat limit) (map sw_ScheduledFor ws) \<and> contiguous endAt ws"
proof -
  have tz: "cs_TimeZone s = tz" using assms(1) by (rule ParseCron_tz)
  have z: "\<forall>t. zp_offset (cs_TimeZone s t) = ofs" using assms(2) tz by simp
  have y: "Year (endAt div 10 ^ 9 + ofs) \<le> Year ((startAt - 10 ^ 9 + 10 ^ 9) div 10 ^ 9 + ofs) + maxForwardYears" using assms(5) by simp
  obtain os where os: "occurrences s endAt (Suc (nat limit)) (startAt - 10 ^ 9) = Some os"
    "first_firings s ofs (startAt - 10 ^ 9) endAt (Suc (nat limit)) os"
    using occurrences_spec [OF ParseCron_wf [OF assms(1)] z y, of "Suc (nat limit)"] by blast
  have "nat (limit + 1) = Suc (nat limit)" using assms(4) by simp
  then have "BuildScheduleWindows expression startAt endAt limit flavor (Some tz) =
      Some (Inr (map (window_at endAt os) [0 ..< min (length os) (nat limit)]))"
    using assms(1,3,4) os(1) by (simp add: BuildScheduleWindows_def)
  with windows_spec [OF os(2)] show ?thesis by blast
qed

section \<open>Auto-pause\<close>

lemma pause_loop_iff:
  "streak < 5 \<Longrightarrow> pause_loop streak rs \<longleftrightarrow> streak + length (takeWhile (\<lambda>r. \<not> oc_Succeeded r) rs) \<ge> 5"
  by (induction streak rs rule: pause_loop.induct) (auto simp: AutoPauseFailureThreshold_def)

lemma takeWhile_length_ge: "n \<le> length (takeWhile P xs) \<longleftrightarrow> n \<le> length xs \<and> (\<forall>x \<in> set (take n xs). P x)"
proof (induction xs arbitrary: n)
  case (Cons x xs)
  then show ?case by (cases n) auto
qed simp

section \<open>A rare schedule\<close>

text \<open>Midnight of the fifth Monday of February: the 29th, in a leap year in which it is a Monday.\<close>

definition leap_monday :: CronSchedule where
  "leap_monday = \<lparr>cs_Flavor = Unix5, cs_Seconds = FromValues [0], cs_Minutes = FromValues [0], cs_Hours = FromValues [0],
     cs_DayOfMonth = DOMStar, cs_Months = FromValues [2], cs_DayOfWeek = DOWNthWeekdayOfMonth 1 5, cs_TimeZone = utc_loc\<rparr>"

lemma leap_monday_parsed: "ParseCron ''0 0 * 2 MON#5'' Unix5 (Some utc_loc) = Inr leap_monday"
proof -
  have f: "fields_of (trim_space ''0 0 * 2 MON#5'') = [''0'', ''0'', ''*'', ''2'', ''MON#5'']" by code_simp
  have p: "parseValueSet ''0'' ''minutes'' 0 59 [] = Inr (FromValues [0])" "parseValueSet ''0'' ''hours'' 0 23 [] = Inr (FromValues [0])"
    "parseDayOfMonth ''*'' = Inr DOMStar" "parseMonthField ''2'' = Inr (FromValues [2])" "parseDayOfWeek ''MON#5'' = Inr (DOWNthWeekdayOfMonth 1 5)"
    by code_simp+
  show ?thesis unfolding ParseCron_def f by (simp add: p leap_monday_def)
qed

lemma leap_monday_silent:
  assumes "1 \<le> Year u" "Year u \<le> 11"
  shows "\<not> fires leap_monday u"
proof
  assume f: "fires leap_monday u"
  have "has (FromValues [2]) (Month u)" using f by (simp add: fires_def leap_monday_def)
  then have m: "month_idx u mod 12 = 1" by (auto simp: has_def FromValues_spec Month_def)
  have d: "Weekday u = 1" "go_div (Day u - 1) 7 + 1 = 5"
  proof -
    have "dowMatchFor (DOWNthWeekdayOfMonth 1 5) (Year u) (Month u) (Day u)"
      using fires_fields(2) [OF f] by (simp add: dayMatches_def leap_monday_def domMatchFor_def)
    moreover have "Weekday (Date (Year u) (Month u) (Day u) 0 0 0) = Weekday u"
      by (intro same_day [THEN conjunct2, THEN conjunct2, THEN conjunct2, THEN conjunct2]) (simp add: Date_fields day_no_def)
    ultimately have w: "u32_of (Weekday u) = 1" "u32_of (go_div (Day u - 1) 7 + 1) = 5" by (auto simp: dowMatchFor_def Let_def split: if_splits)
    have "0 \<le> Weekday u" "Weekday u < 2 ^ 32" by (simp_all add: Weekday_def less_le_trans [OF pos_mod_bound])
    from uint_u32_of [OF this] w(1) show "Weekday u = 1" by simp
    have "0 \<le> Day u - 1" "Day u - 1 \<le> 30" using Day_range [of u] month_len_range(2) [of "month_idx u"] by linarith+
    then have "go_div (Day u - 1) 7 = (Day u - 1) div 7" by (cases "Day u - 1 = 0") (simp_all add: go_div_def sgn_if)
    moreover have "0 \<le> (Day u - 1) div 7 + 1" "(Day u - 1) div 7 + 1 < 2 ^ 32"
      using \<open>0 \<le> Day u - 1\<close> zdiv_mono1 [OF \<open>Day u - 1 \<le> 30\<close>, of 7] by (simp_all add: pos_imp_zdiv_nonneg_iff)
    ultimately show "go_div (Day u - 1) 7 + 1 = 5" using uint_u32_of [of "(Day u - 1) div 7 + 1"] w(2) by simp
  qed
  have "29 \<le> Day u"
  proof (rule ccontr)
    assume "\<not> 29 \<le> Day u"
    then have "0 \<le> Day u - 1" "Day u - 1 \<le> 27" using Day_range(1) [of u] by linarith+
    then have "go_div (Day u - 1) 7 \<le> 3" using zdiv_mono1 [of "Day u - 1" 27 7] by (cases "Day u - 1 = 0") (simp_all add: go_div_def sgn_if)
    with d(2) show False by simp
  qed
  moreover have "month_len (month_idx u) = (if is_leap (Year u) then 29 else 28)" using m by (simp add: month_len_def Year_def)
  ultimately have leap: "is_leap (Year u)" "Day u = 29" using Day_range(2) [of u] by (auto split: if_splits)
  then have "Year u mod 4 = 0" by (simp add: is_leap_def)
  then have "Year u = 4 \<or> Year u = 8" using assms by presburger
  then have "month_idx u = 49 \<or> month_idx u = 97" using m month_idx_eq [of u] by (auto simp: Month_def)
  then have "day_no u = first_of 49 + 28 \<or> day_no u = first_of 97 + 28" using leap(2) by (auto simp: Day_def)
  moreover have "(first_of 49 + 28 + 4) mod 7 \<noteq> 1" "(first_of 97 + 28 + 4) mod 7 \<noteq> 1" by code_simp+
  ultimately show False using d(1) by (auto simp: Weekday_def)
qed

section \<open>Properties\<close>

text \<open>
  C21. The evaluation of a trigger returns, and unless it reports an error its result is the truth value of
  the trigger as a formula: the short-circuit of AND and the early results of the loops do not change
  it, and a compound trigger without components never fires.
\<close>

theorem EvaluateTrigger_formula:
  "\<exists>r. EvaluateTrigger tzdb ctx t = Some r \<and> (case r of Inl _ \<Rightarrow> True | Inr (b, n) \<Rightarrow> b = holds (time_due tzdb ctx) ctx t)"
proof -
  obtain r where r: "EvaluateTrigger tzdb ctx t = Some r" using evaluate_returns(1) by blast
  with evaluate_holds(1) [of tzdb ctx t] show ?thesis by (cases r) auto
qed

text \<open>
  C22. A backfill plan from \<open>start_at\<close> to \<open>end_at\<close>, in a zone with a fixed offset, for a limit that is not negative and an
  interval of at most \<open>maxForwardYears\<close> (ten) calendar years: the windows start at the first firing instants of the
  schedule from the second that \<open>start_at\<close> lies in (\<open>start_at\<close> itself if it is a whole second) to \<open>end_at\<close>, both
  included, as many as there are or as the limit allows; each window ends where the next one begins and not
  after \<open>end_at\<close>. A firing at the second that a fractional \<open>start_at\<close> lies in is before \<open>start_at\<close> and still planned:
  see \<open>BuildScheduleWindows_early\<close>.
\<close>

theorem BuildScheduleWindows_complete:
  assumes "ParseCron expression (mapFlavor flavor) (Some tz) = Inr s" "\<forall>t. zp_offset (tz t) = ofs"
    and "startAt \<le> endAt" "0 \<le> limit" "Year (endAt div 10 ^ 9 + ofs) \<le> Year (startAt div 10 ^ 9 + ofs) + maxForwardYears"
  shows "\<exists>ws. BuildScheduleWindows expression startAt endAt limit flavor (Some tz) = Some (Inr ws) \<and>
    first_firings s ofs (second_of startAt - 1) endAt (nat limit) (map sw_ScheduledFor ws) \<and>
    (\<forall>w \<in> set ws. second_of startAt \<le> sw_ScheduledFor w \<and> sw_ScheduledFor w \<le> endAt) \<and> contiguous endAt ws"
proof -
  obtain ws where ws: "BuildScheduleWindows expression startAt endAt limit flavor (Some tz) = Some (Inr ws)"
    "first_firings s ofs (second_of startAt - 1) endAt (nat limit) (map sw_ScheduledFor ws)" "contiguous endAt ws"
    using BuildScheduleWindows_plan [OF assms] unfolding first_firings_second [of s ofs startAt] by blast
  then have "\<forall>w \<in> set ws. second_of startAt \<le> sw_ScheduledFor w \<and> sw_ScheduledFor w \<le> endAt"
    by (auto simp: first_firings_def in_window_def)
  with ws show ?thesis by blast
qed

text \<open>
  If the start of the interval is not a whole second and the schedule fires at the second it lies in, the
  plan begins with an occurrence before the start of the interval.
\<close>

theorem BuildScheduleWindows_early:
  assumes "ParseCron expression (mapFlavor flavor) (Some tz) = Inr s" "\<forall>t. zp_offset (tz t) = ofs"
    and "startAt \<le> endAt" "0 < limit" "Year (endAt div 10 ^ 9 + ofs) \<le> Year (startAt div 10 ^ 9 + ofs) + maxForwardYears"
    and "startAt mod 10 ^ 9 \<noteq> 0" "fires s (startAt div 10 ^ 9 + ofs)"
  shows "\<exists>ws. BuildScheduleWindows expression startAt endAt limit flavor (Some tz) = Some (Inr ws) \<and>
    (\<exists>w \<in> set ws. sw_ScheduledFor w < startAt)"
proof -
  obtain ws where res: "BuildScheduleWindows expression startAt endAt limit flavor (Some tz) = Some (Inr ws)"
    and ff: "first_firings s ofs (startAt - 10 ^ 9) endAt (nat limit) (map sw_ScheduledFor ws)"
    using BuildScheduleWindows_plan [OF assms(1-3) less_imp_le [OF assms(4)] assms(5)] by blast
  let ?t = "at_second (startAt div 10 ^ 9)"
  have t: "?t = startAt - startAt mod 10 ^ 9" by (simp add: at_second_def minus_mod_eq_div_mult)
  have m: "0 < startAt mod 10 ^ 9" "startAt mod 10 ^ 9 < 10 ^ 9"
    using assms(6) pos_mod_sign [of "10 ^ 9" startAt] pos_mod_bound [of "10 ^ 9" startAt] by (simp_all add: less_le)
  have early: "?t < startAt" "startAt - 10 ^ 9 < ?t" "?t \<le> endAt" unfolding t using m assms(3) by linarith+
  have "in_window s ofs (startAt - 10 ^ 9) endAt (startAt div 10 ^ 9)"
    using assms(7) early by (simp add: in_window_def)
  then consider "?t \<in> set (map sw_ScheduledFor ws)" | "length ws = nat limit" "\<forall>w \<in> set ws. sw_ScheduledFor w < ?t"
    using ff by (auto simp: first_firings_def)
  then have "\<exists>w \<in> set ws. sw_ScheduledFor w < startAt"
  proof cases
    case 1
    with early show ?thesis by auto
  next
    case 2
    then have "ws \<noteq> []" using assms(4) by auto
    then obtain w where "w \<in> set ws" by (cases ws) auto
    with 2 early show ?thesis by (meson less_trans)
  qed
  with res show ?thesis by blast
qed

text \<open>
  A schedule is paused exactly if its last five runs failed.
\<close>

theorem ShouldAutoPause_iff:
  "ShouldAutoPause history = (5 \<le> length history \<and> (\<forall>r \<in> set (drop (length history - 5) history). \<not> oc_Succeeded r))"
proof -
  have "set (take 5 (rev history)) = set (drop (length history - 5) history)" by (simp add: take_rev)
  then show ?thesis by (simp add: ShouldAutoPause_def pause_loop_iff takeWhile_length_ge)
qed

text \<open>
  A time trigger in a zone with a fixed offset fires exactly if the schedule has fired after the last run,
  or after the first instant of the year 1 if it never ran, and not after now; only times up to the end of
  the tenth year after the last run are considered. The instant returned is the least one after the last
  run.
\<close>

theorem evaluateTime_due:
  assumes "tzdb (tt_TimeZone t) = Inr tz" "tt_TimeZone t \<noteq> []" "\<forall>u. zp_offset (tz u) = ofs"
    and "ParseCron (tt_Cron t) (mapFlavor (tt_Flavor t)) (Some tz) = Inr s"
    and "last_run = (case ec_LastRunAt ctx of None \<Rightarrow> zero_time | Some l \<Rightarrow> l)"
  shows "\<exists>b n. evaluateTime tzdb (Some t) ctx = Some (Inr (b, n)) \<and>
    b = (\<exists>u. in_window s ofs last_run (ec_Now ctx) u \<and> Year (u + ofs) \<le> Year ((last_run + 10 ^ 9) div 10 ^ 9 + ofs) + maxForwardYears) \<and>
    (case n of None \<Rightarrow> True | Some x \<Rightarrow> \<exists>u. x = at_second u \<and> last_run < x \<and> fires s (u + ofs) \<and>
      (\<forall>v. last_run < at_second v \<and> fires s (v + ofs) \<longrightarrow> u \<le> v))"
proof -
  define cap where "cap = Year ((last_run + 10 ^ 9) div 10 ^ 9 + ofs) + maxForwardYears"
  have z: "\<forall>u. zp_offset (cs_TimeZone s u) = ofs" using assms(3) ParseCron_tz [OF assms(4)] by simp
  obtain r where r: "NextFireAfter s last_run = Some r" "case r of
       None \<Rightarrow> (\<forall>t. is_after t last_run \<and> Year (t + ofs) \<le> cap \<longrightarrow> \<not> fires s (t + ofs))
     | Some t \<Rightarrow> is_after t last_run \<and> fires s (t + ofs) \<and> (\<forall>u. is_after u last_run \<and> u < t \<longrightarrow> \<not> fires s (u + ofs))"
    using NextFireAfter_fixed [OF ParseCron_wf [OF assms(4)] z, of last_run] unfolding cap_def by blast
  have e: "evaluateTime tzdb (Some t) ctx =
      Some (Inr (case r of None \<Rightarrow> (False, None) | Some n \<Rightarrow> (\<not> at_second n > ec_Now ctx, Some (at_second n))))"
    using r(1) assms by (cases r) (simp_all add: evaluateTime_def)
  show ?thesis
  proof (cases r)
    case None
    then show ?thesis using r(2) unfolding e None cap_def [symmetric] by (auto simp: is_after_at in_window_def)
  next
    case (Some n)
    then have n: "last_run < at_second n" "fires s (n + ofs)" "Year (n + ofs) \<le> cap"
      "\<And>u. last_run < at_second u \<Longrightarrow> fires s (u + ofs) \<Longrightarrow> n \<le> u"
      using r NextFireAfter_cap [OF ParseCron_wf [OF assms(4)] z, of last_run] by (auto simp: is_after_at not_less [symmetric] cap_def)
    have "at_second n \<le> at_second u" if "in_window s ofs last_run b u" for b u
      using n(4) [of u] that by (auto simp: in_window_def at_second_def)
    then have "(\<not> at_second n > ec_Now ctx) = (\<exists>u. in_window s ofs last_run (ec_Now ctx) u \<and> Year (u + ofs) \<le> cap)"
      using n(1-3) by (auto simp: in_window_def not_less) (meson order_trans)
    moreover have "\<exists>u. at_second n = at_second u \<and> last_run < at_second n \<and> fires s (u + ofs) \<and>
        (\<forall>v. last_run < at_second v \<and> fires s (v + ofs) \<longrightarrow> u \<le> v)" using n by blast
    ultimately show ?thesis unfolding e Some cap_def [symmetric] by simp
  qed
qed

text \<open>
  A schedule that never ran is searched from the year 1 on for ten years. A schedule that first matches
  later, such as midnight of the fifth Monday of February, is never due, although there are days at which
  it fires.
\<close>

theorem rare_schedule_never_due:
  "evaluateTime tzdb (Some \<lparr>tt_Cron = ''0 0 * 2 MON#5'', tt_TimeZone = [], tt_Flavor = ''UNIX5''\<rparr>)
     \<lparr>ec_Now = now, ec_LastRunAt = None, ec_Event = ev\<rparr> = Some (Inr (False, None)) \<and>
   fires leap_monday 1456704000"
proof -
  have z: "\<forall>t. zp_offset (cs_TimeZone leap_monday t) = 0" by (simp add: leap_monday_def utc_loc_def)
  have y: "Year ((zero_time + 10 ^ 9) div 10 ^ 9 + 0) + maxForwardYears = 11" "Year (- 62135596800) = 1" by code_simp+
  have silent: "\<not> fires leap_monday (u + 0)" if "is_after u zero_time" "Year (u + 0) \<le> 11" for u
  proof (rule leap_monday_silent)
    have "- 62135596800 \<le> u" using that(1) by (simp add: is_after_def zero_time_def)
    then show "1 \<le> Year (u + 0)" using Year_mono [of "- 62135596800" u] y(2) by simp
  qed (rule that(2))
  obtain r where r: "NextFireAfter leap_monday zero_time = Some r"
    "case r of None \<Rightarrow> True | Some t \<Rightarrow> is_after t zero_time \<and> fires leap_monday (t + 0) \<and> Year (t + 0) \<le> 11"
    using NextFireAfter_cap [OF ParseCron_wf [OF leap_monday_parsed] z, of zero_time, unfolded y(1)] by blast
  have "r = None" using r(2) silent by (cases r) auto
  then have "evaluateTime tzdb (Some \<lparr>tt_Cron = ''0 0 * 2 MON#5'', tt_TimeZone = [], tt_Flavor = ''UNIX5''\<rparr>)
     \<lparr>ec_Now = now, ec_LastRunAt = None, ec_Event = ev\<rparr> = Some (Inr (False, None))"
    using r(1) leap_monday_parsed by (simp add: evaluateTime_def mapFlavor_def)
  moreover have "fires leap_monday 1456704000" by code_simp
  ultimately show ?thesis by blast
qed

section \<open>Witnesses\<close>

text \<open>An hourly schedule, planned for the first hours of 1970.\<close>

definition hourly :: CronSchedule where
  "hourly = \<lparr>cs_Flavor = Unix5, cs_Seconds = FromValues [0], cs_Minutes = FromValues [0], cs_Hours = Star,
     cs_DayOfMonth = DOMStar, cs_Months = Star, cs_DayOfWeek = DOWStar, cs_TimeZone = utc_loc\<rparr>"

lemma hourly_parsed: "ParseCron ''0 * * * *'' (mapFlavor ''UNIX5'') (Some utc_loc) = Inr hourly"
proof -
  have f: "fields_of (trim_space ''0 * * * *'') = [''0'', ''*'', ''*'', ''*'', ''*'']" by code_simp
  have p: "parseValueSet ''0'' ''minutes'' 0 59 [] = Inr (FromValues [0])" "parseValueSet ''*'' ''hours'' 0 23 [] = Inr Star"
    "parseDayOfMonth ''*'' = Inr DOMStar" "parseMonthField ''*'' = Inr Star" "parseDayOfWeek ''*'' = Inr DOWStar"
    by code_simp+
  show ?thesis unfolding ParseCron_def f by (simp add: p hourly_def mapFlavor_def)
qed

lemma utc_fixed: "\<forall>t. zp_offset (utc_loc t) = 0"
  by (simp add: utc_loc_def)

theorem BuildScheduleWindows_complete_witness:
  "\<exists>ws. BuildScheduleWindows ''0 * * * *'' 0 (7200 * 10 ^ 9) 2 ''UNIX5'' (Some utc_loc) = Some (Inr ws) \<and> contiguous (7200 * 10 ^ 9) ws"
proof -
  have "Year (7200 * 10 ^ 9 div 10 ^ 9 + 0) \<le> Year (0 div 10 ^ 9 + 0) + maxForwardYears" by code_simp
  with BuildScheduleWindows_complete [OF hourly_parsed utc_fixed, of 0 "7200 * 10 ^ 9" 2] show ?thesis by auto
qed

theorem BuildScheduleWindows_early_witness:
  "\<exists>ws. BuildScheduleWindows ''0 * * * *'' 500000000 (7200 * 10 ^ 9) 2 ''UNIX5'' (Some utc_loc) = Some (Inr ws) \<and>
    (\<exists>w \<in> set ws. sw_ScheduledFor w < 500000000)"
proof -
  have "Year (7200 * 10 ^ 9 div 10 ^ 9 + 0) \<le> Year (500000000 div 10 ^ 9 + 0) + maxForwardYears" by code_simp
  moreover have "fires hourly (500000000 div 10 ^ 9 + 0)" by code_simp
  ultimately show ?thesis
    using BuildScheduleWindows_early [OF hourly_parsed utc_fixed, of 500000000 "7200 * 10 ^ 9" 2] by simp
qed

theorem evaluateTime_due_witness:
  "\<exists>n. evaluateTime (\<lambda>_. Inr utc_loc) (Some \<lparr>tt_Cron = ''0 * * * *'', tt_TimeZone = ''UTC'', tt_Flavor = ''UNIX5''\<rparr>)
    \<lparr>ec_Now = 3600 * 10 ^ 9, ec_LastRunAt = Some 0, ec_Event = None\<rparr> = Some (Inr (True, n))"
proof -
  let ?t = "\<lparr>tt_Cron = ''0 * * * *'', tt_TimeZone = ''UTC'', tt_Flavor = ''UNIX5''\<rparr>"
  let ?ctx = "\<lparr>ec_Now = 3600 * 10 ^ 9, ec_LastRunAt = Some 0, ec_Event = None\<rparr>"
  have f: "in_window hourly 0 0 (3600 * 10 ^ 9) 3600 \<and> Year (3600 + 0) \<le> Year ((0 + 10 ^ 9) div 10 ^ 9 + 0) + maxForwardYears" by code_simp
  with evaluateTime_due [of "\<lambda>_. Inr utc_loc" ?t utc_loc 0 hourly 0 ?ctx] hourly_parsed utc_fixed show ?thesis by auto
qed

end
