(* ===== verification/Trigger_Json.thy ===== *)
theory Trigger_Json
  imports Schedule
begin

text \<open>
  The evaluation of stored triggers, which are JSON values
  (\<open>pipeline-build-service/internal/domain/schedule/json_trigger.go\<close>), and the encoding of triggers
  (\<open>schedule.go\<close>). Fields of a struct are matched by name without regard to case; of members with the
  same name the last is read. The text of an instant, the entry that comes first when a map with
  several is iterated over, and the current time are parameters.
\<close>

section \<open>Reading JSON values into structs\<close>

definition member :: "(string \<times> json) list \<Rightarrow> string \<Rightarrow> json option" where
  "member fs k = map_option snd (find (\<lambda>(k', _). equal_fold k' k) (rev fs))"

definition type_error :: "string + 'a" where
  "type_error = Inl ''json: cannot unmarshal''"

text \<open>The members of a struct; null leaves the zero value.\<close>

fun struct_of :: "json raw \<Rightarrow> string + (string \<times> json) list" where
  "struct_of RawEmpty = Inl ''unexpected end of JSON input''"
| "struct_of (RawBad e) = Inl e"
| "struct_of (Raw JNull) = Inr []"
| "struct_of (Raw (JObj fs)) = Inr fs"
| "struct_of (Raw _) = type_error"

fun str_of :: "json option \<Rightarrow> string + string" where
  "str_of None = Inr []"
| "str_of (Some JNull) = Inr []"
| "str_of (Some (JStr s)) = Inr s"
| "str_of (Some _) = type_error"

fun str_elems :: "json list \<Rightarrow> string + string list" where
  "str_elems [] = Inr []"
| "str_elems (j # js) = bindE (str_of (Some j)) (\<lambda>s. bindE (str_elems js) (\<lambda>ss. Inr (s # ss)))"

fun strs_of :: "json option \<Rightarrow> string + string list" where
  "strs_of None = Inr []"
| "strs_of (Some JNull) = Inr []"
| "strs_of (Some (JArr js)) = str_elems js"
| "strs_of (Some _) = type_error"

fun arr_of :: "json option \<Rightarrow> string + json list" where
  "arr_of None = Inr []"
| "arr_of (Some JNull) = Inr []"
| "arr_of (Some (JArr js)) = Inr js"
| "arr_of (Some _) = type_error"

fun raw_of :: "json option \<Rightarrow> json raw" where
  "raw_of None = RawEmpty"
| "raw_of (Some j) = Raw j"

definition TimeTrigger_of :: "json raw \<Rightarrow> string + TimeTrigger" where
  "TimeTrigger_of r =
     bindE (struct_of r) (\<lambda>fs.
     bindE (str_of (member fs ''cron'')) (\<lambda>c.
     bindE (str_of (member fs ''time_zone'')) (\<lambda>z.
     bindE (str_of (member fs ''flavor'')) (\<lambda>f. Inr \<lparr>tt_Cron = c, tt_TimeZone = z, tt_Flavor = f\<rparr>))))"

definition EventTrigger_of :: "json raw \<Rightarrow> string + EventTrigger" where
  "EventTrigger_of r =
     bindE (struct_of r) (\<lambda>fs.
     bindE (str_of (member fs ''type'')) (\<lambda>ty.
     bindE (str_of (member fs ''target_rid'')) (\<lambda>rid.
     bindE (strs_of (member fs ''branch_filter'')) (\<lambda>bs. Inr \<lparr>et_EventType = ty, et_TargetRID = rid, et_BranchFilter = bs\<rparr>))))"

definition compound_of :: "json raw \<Rightarrow> string + string \<times> json list" where
  "compound_of r =
     bindE (struct_of r) (\<lambda>fs.
     bindE (str_of (member fs ''op'')) (\<lambda>ct.
     bindE (arr_of (member fs ''components'')) (\<lambda>cs. Inr (ct, cs))))"

section \<open>Names and paths\<close>

definition upper :: "string \<Rightarrow> string" where
  "upper s = map to_upper_char s"

definition replace_char :: "char \<Rightarrow> char \<Rightarrow> string \<Rightarrow> string" where
  "replace_char a b s = map (\<lambda>c. if c = a then b else c) s"

definition NormalizeEventType :: "string \<Rightarrow> string" where
  "NormalizeEventType value =
     (let n = replace_char CHR '' '' CHR ''_'' (replace_char CHR ''-'' CHR ''_'' (upper (trim_space value)))
      in if n \<in> {[], ''DATASET_UPDATED'', ''DATA_UPDATE''} then ''DATA_UPDATED''
         else if n \<in> {''LOGIC_UPDATED'', ''LOGIC_UPDATE''} then ''NEW_LOGIC''
         else if n = ''JOB_COMPLETED'' then ''JOB_SUCCEEDED''
         else if n \<in> {''SCHEDULE_SUCCEEDED'', ''SCHEDULE_RAN_SUCCEEDED''} then ''SCHEDULE_RAN_SUCCESSFULLY''
         else n)"

definition normalizeCronFlavor :: "string \<Rightarrow> string" where
  "normalizeCronFlavor value =
     (if filter (\<lambda>c. c \<noteq> CHR ''_'') (upper (trim_space value)) = ''QUARTZ6'' then ''QUARTZ6'' else ''UNIX5'')"

definition normalizeKind :: "string \<Rightarrow> string" where
  "normalizeKind value =
     (let n = replace_char CHR ''-'' CHR ''_'' (trim_space value)
      in if n = ''pipelineBuild'' then ''pipeline_build''
         else if n = ''datasetBuild'' then ''dataset_build''
         else if n = ''syncRun'' then ''sync_run''
         else if n = ''healthCheck'' then ''health_check''
         else map to_lower_char n)"

definition joinTriggerPath :: "string \<Rightarrow> string \<Rightarrow> string" where
  "joinTriggerPath parent child = (if parent = [] then child else parent @ ''.'' @ child)"

definition printableTriggerPath :: "string \<Rightarrow> string \<Rightarrow> string" where
  "printableTriggerPath parent kind = (if parent = [] then kind else parent @ ''.'' @ kind)"

definition firstNonZeroTime :: "instant list \<Rightarrow> instant" where
  "firstNonZeroTime values = (case find (\<lambda>v. v \<noteq> zero_time) values of Some v \<Rightarrow> v | None \<Rightarrow> zero_time)"

section \<open>Evaluation\<close>

record JSONObservedTrigger =
  jo_Path :: string
  jo_EventType :: string
  jo_TargetRID :: string

record JSONTriggerContext =
  jc_Now :: instant
  jc_CreatedAt :: instant
  jc_LastRunAt :: "instant option"
  jc_Event :: "TriggerEvent option"
  jc_Observed :: "string set"

record JSONTriggerEvaluation =
  je_Fires :: bool
  je_NextFire :: "instant option"
  je_TriggerType :: string
  je_Snapshot :: "(string, string) gomap"
  je_ObservedPaths :: "JSONObservedTrigger list"

record json_env =
  jv_tz :: tz_database
  jv_text :: "instant \<Rightarrow> string"
  jv_pick :: "string list \<Rightarrow> nat"
  jv_now :: instant

definition snapshot :: "(string \<times> string) list \<Rightarrow> (string, string) gomap" where
  "snapshot kvs = fold (\<lambda>(k, v) m. gm_put m k v) kvs []"

text \<open>
  The entries of the map \<open>kind\<close>, if the value has that shape; a map keeps the last value of a key.
\<close>

definition last_entries :: "(string \<times> json) list \<Rightarrow> (string \<times> json) list" where
  "last_entries fs = rev (AList.clearjunk (rev fs))"

fun api_kinds :: "json \<Rightarrow> (string \<times> json) list" where
  "api_kinds (JObj fs) = (case member fs ''kind'' of Some (JObj ks) \<Rightarrow> last_entries ks | _ \<Rightarrow> [])"
| "api_kinds _ = []"

definition decodeJSONTriggerNode :: "json_env \<Rightarrow> json raw \<Rightarrow> string + string \<times> json raw" where
  "decodeJSONTriggerNode env raw =
     (if raw = RawEmpty \<or> raw = Raw JNull then Inl ''trigger is empty''
      else
        let kinds = (case raw of Raw j \<Rightarrow> api_kinds j | _ \<Rightarrow> [])
        in if kinds \<noteq> [] then (case kinds ! (jv_pick env (map fst kinds) mod length kinds) of (kind, data) \<Rightarrow> Inr (normalizeKind kind, Raw data))
           else
             bindE (struct_of raw) (\<lambda>fs.
             bindE (str_of (member fs ''kind'')) (\<lambda>kind.
               if kind = [] then Inl ''trigger kind is required''
               else Inr (normalizeKind kind, raw_of (member fs ''data'')))))"

definition evaluateJSONTimeTrigger :: "json_env \<Rightarrow> json raw \<Rightarrow> JSONTriggerContext \<Rightarrow> string \<Rightarrow> JSONTriggerEvaluation comp" where
  "evaluateJSONTimeTrigger env raw ctx path =
     bindC (Some (TimeTrigger_of raw)) (\<lambda>trigger0.
       let tzname = (if trim_space (tt_TimeZone trigger0) = [] then ''UTC'' else tt_TimeZone trigger0)
       in if trim_space (tt_Cron trigger0) = [] then Some (Inl ''time trigger cron is required'')
          else case jv_tz env tzname of
            Inl e \<Rightarrow> Some (Inl (''invalid time_zone '' @ quote tzname @ '': '' @ e))
          | Inr tz \<Rightarrow>
            (case ParseCron (tt_Cron trigger0) (mapFlavor (normalizeCronFlavor (tt_Flavor trigger0))) (Some tz) of
               Inl e \<Rightarrow> Some (Inl (''invalid cron expression '' @ quote (tt_Cron trigger0) @ '': '' @ CronError_Error e))
             | Inr parsed \<Rightarrow>
               let cursor = (case jc_LastRunAt ctx of None \<Rightarrow> jc_CreatedAt ctx | Some l \<Rightarrow> l)
               in (case NextFireAfter parsed cursor of
                     None \<Rightarrow> None
                   | Some None \<Rightarrow> Some (Inr \<lparr>je_Fires = False, je_NextFire = None, je_TriggerType = ''TIME'',
                       je_Snapshot = snapshot [(''type'', ''time''), (''path'', printableTriggerPath path ''time''), (''cron'', tt_Cron trigger0)],
                       je_ObservedPaths = []\<rparr>)
                   | Some (Some nxt) \<Rightarrow> Some (Inr \<lparr>je_Fires = (\<not> at_second nxt > jc_Now ctx), je_NextFire = Some (at_second nxt),
                       je_TriggerType = ''TIME'',
                       je_Snapshot = snapshot [(''type'', ''time''), (''path'', printableTriggerPath path ''time''), (''cron'', tt_Cron trigger0),
                         (''time_zone'', tzname), (''scheduled_for'', jv_text env (at_second nxt)), (''evaluated_at'', jv_text env (jc_Now ctx)),
                         (''cron_flavor'', normalizeCronFlavor (tt_Flavor trigger0))],
                       je_ObservedPaths = []\<rparr>))))"

definition jsonEventMatches :: "EventTrigger \<Rightarrow> TriggerEvent option \<Rightarrow> bool" where
  "jsonEventMatches trigger event =
     (case event of
        None \<Rightarrow> False
      | Some ev \<Rightarrow>
        if NormalizeEventType (te_EventType ev) \<noteq> et_EventType trigger then False
        else if trim_space (et_TargetRID trigger) \<noteq> [] \<and> trim_space (te_TargetRID ev) \<noteq> trim_space (et_TargetRID trigger) then False
        else if et_BranchFilter trigger = [] then True
        else (\<exists>b \<in> set (et_BranchFilter trigger). trim_space b = [] \<or> trim_space b = te_Branch ev))"

definition evaluateJSONEventTrigger :: "json_env \<Rightarrow> json raw \<Rightarrow> JSONTriggerContext \<Rightarrow> string \<Rightarrow> JSONTriggerEvaluation comp" where
  "evaluateJSONEventTrigger env raw ctx path =
     bindC (Some (EventTrigger_of raw)) (\<lambda>trigger0.
       let trigger = trigger0\<lparr>et_EventType := NormalizeEventType (et_EventType trigger0)\<rparr>;
           eventPath = printableTriggerPath path ''event'';
           eventMatches = jsonEventMatches trigger (jc_Event ctx);
           observed = eventPath \<in> jc_Observed ctx
       in Some (Inr \<lparr>je_Fires = (eventMatches \<or> observed), je_NextFire = None, je_TriggerType = ''EVENT'',
            je_Snapshot = snapshot ([(''type'', ''event''), (''path'', eventPath), (''event_type'', et_EventType trigger), (''target_rid'', et_TargetRID trigger)]
              @ (case jc_Event ctx of Some ev \<Rightarrow> if eventMatches then [(''observed_at'', jv_text env (te_OccurredAt ev)), (''branch'', te_Branch ev)] else [] | None \<Rightarrow> [])
              @ (if observed then [(''observed'', ''true'')] else [])),
            je_ObservedPaths = (if eventMatches then [\<lparr>jo_Path = eventPath, jo_EventType = et_EventType trigger, jo_TargetRID = et_TargetRID trigger\<rparr>] else [])\<rparr>))"

definition joined :: "string list \<Rightarrow> string" where
  "joined ss = (case ss of [] \<Rightarrow> [] | s # rest \<Rightarrow> s @ concat (map (\<lambda>x. ''','' @ x) rest))"

text \<open>The result of a compound trigger from those of its components.\<close>

definition combine :: "json_env \<Rightarrow> string \<Rightarrow> JSONTriggerContext \<Rightarrow> string \<Rightarrow> JSONTriggerEvaluation list \<Rightarrow> JSONTriggerEvaluation comp" where
  "combine env ct ctx path childResults =
     (if ct \<noteq> ''AND'' \<and> ct \<noteq> ''OR'' then Some (Inl (''unknown compound op: '' @ ct))
      else Some (Inr \<lparr>
        je_Fires = (if ct = ''AND'' then fold (\<lambda>c f. f \<and> je_Fires c) childResults True else fold (\<lambda>c f. f \<or> je_Fires c) childResults False),
        je_NextFire = fold (\<lambda>c n. earlier n (je_NextFire c)) childResults None,
        je_TriggerType = ''COMPOUND'',
        je_Snapshot = snapshot [(''type'', ''compound''), (''path'', printableTriggerPath path ''compound''), (''op'', ct),
          (''matched_paths'', joined (map (\<lambda>c. case gm_get (je_Snapshot c) ''path'' of Some p \<Rightarrow> p | None \<Rightarrow> []) (filter je_Fires childResults))),
          (''evaluated_at'', jv_text env (jc_Now ctx))],
        je_ObservedPaths = concat (map je_ObservedPaths childResults)\<rparr>))"

definition normalizeOp :: "string \<Rightarrow> string" where
  "normalizeOp s = (let u = upper (trim_space s) in if u = [] then ''AND'' else u)"

definition component_path :: "string \<Rightarrow> nat \<Rightarrow> string" where
  "component_path path i = joinTriggerPath path (''compound['' @ digits i @ '']'')"

text \<open>The parts of a value are smaller than the value.\<close>

lemma size_member: "(k, v) \<in> set fs \<Longrightarrow> size v < size (JObj fs)"
  by (induction fs) auto

lemma size_elem: "v \<in> set js \<Longrightarrow> size v < size (JArr js)"
  by (induction js) auto

lemma member_in: "member fs k = Some v \<Longrightarrow> \<exists>k'. (k', v) \<in> set fs"
  by (auto simp: member_def find_Some_iff dest: nth_mem) (metis length_rev nth_mem set_rev snd_conv surj_pair)

fun rsize :: "json raw \<Rightarrow> nat" where
  "rsize (Raw j) = Suc (size j)"
| "rsize _ = 0"

lemma last_entries_subset: "set (last_entries fs) \<subseteq> set fs"
proof (clarsimp simp: last_entries_def)
  fix k v
  assume "(k, v) \<in> set (AList.clearjunk (rev fs))"
  then have "map_of (AList.clearjunk (rev fs)) k = Some v" by (simp add: distinct_clearjunk)
  then have "map_of (rev fs) k = Some v" by (simp add: map_of_clearjunk)
  then show "(k, v) \<in> set fs" by (metis map_of_SomeD set_rev)
qed

lemma api_kinds_size: "(k, v) \<in> set (api_kinds j) \<Longrightarrow> size v < size j"
proof (induction j rule: api_kinds.induct)
  case (1 fs)
  then obtain ks where ks: "member fs ''kind'' = Some (JObj ks)" "(k, v) \<in> set (last_entries ks)"
    by (cases "member fs ''kind''") (simp, rename_tac j, case_tac j, auto)
  then have "(k, v) \<in> set ks" using last_entries_subset by blast
  then have "size v < size (JObj ks)" by (rule size_member)
  also obtain k' where "(k', JObj ks) \<in> set fs" using member_in [OF ks(1)] by blast
  then have "size (JObj ks) < size (JObj fs)" by (rule size_member)
  finally show ?case .
qed auto

lemma struct_of_size: "struct_of r = Inr fs \<Longrightarrow> (k, v) \<in> set fs \<Longrightarrow> Suc (size v) < rsize r"
  using size_member [of k v fs] by (induction r rule: struct_of.induct) (auto simp: type_error_def)

lemma decode_size:
  assumes "decodeJSONTriggerNode env raw = Inr (k, d)"
  shows "rsize d < rsize raw"
proof -
  obtain j where j: "raw = Raw j" "j \<noteq> JNull"
    using assms by (cases raw) (auto simp: decodeJSONTriggerNode_def split: if_splits)
  show ?thesis
  proof (cases "api_kinds j = []")
    case False
    define e where "e = api_kinds j ! (jv_pick env (map fst (api_kinds j)) mod length (api_kinds j))"
    have "e \<in> set (api_kinds j)" using False by (simp add: e_def)
    moreover have "d = Raw (snd e)" using assms j False by (auto simp: decodeJSONTriggerNode_def Let_def e_def split: prod.splits)
    ultimately show ?thesis using j(1) api_kinds_size [of "fst e" "snd e" j] by simp
  next
    case True
    then obtain fs where fs: "struct_of raw = Inr fs" "d = raw_of (member fs ''data'')"
      using assms j by (auto simp: decodeJSONTriggerNode_def bindE_Inr_iff split: if_splits)
    show ?thesis
    proof (cases "member fs ''data''")
      case (Some v)
      then obtain k' where "(k', v) \<in> set fs" using member_in by blast
      with fs Some struct_of_size [OF fs(1)] show ?thesis by auto
    qed (use fs j in simp)
  qed
qed

lemma compound_size:
  assumes "compound_of r = Inr (ct, cs)"
  shows "size_list size cs < rsize r"
proof -
  obtain fs where fs: "struct_of r = Inr fs" "arr_of (member fs ''components'') = Inr cs"
    using assms by (auto simp: compound_of_def bindE_Inr_iff)
  have r: "r \<noteq> RawEmpty \<and> (\<forall>e. r \<noteq> RawBad e)" using fs(1) by auto
  show ?thesis
  proof (cases "member fs ''components''")
    case None
    then show ?thesis using fs r by (cases r) auto
  next
    case (Some v)
    then obtain k' where "(k', v) \<in> set fs" using member_in by blast
    then have "Suc (size v) < rsize r" using struct_of_size [OF fs(1)] by blast
    with Some fs(2) show ?thesis by (cases v) (auto simp: type_error_def)
  qed
qed

section \<open>The evaluator\<close>

function evaluateJSONTriggerAt :: "json_env \<Rightarrow> json raw \<Rightarrow> JSONTriggerContext \<Rightarrow> string \<Rightarrow> JSONTriggerEvaluation comp"
  and eval_components :: "json_env \<Rightarrow> json list \<Rightarrow> nat \<Rightarrow> JSONTriggerContext \<Rightarrow> string \<Rightarrow> JSONTriggerEvaluation list comp"
where
  "evaluateJSONTriggerAt env raw ctx path =
     (case decodeJSONTriggerNode env raw of
        Inl e \<Rightarrow> Some (Inl e)
      | Inr (kind, data) \<Rightarrow>
        if kind = ''time'' then evaluateJSONTimeTrigger env data ctx path
        else if kind = ''event'' then evaluateJSONEventTrigger env data ctx path
        else if kind = ''compound''
        then (case compound_of data of
                Inl e \<Rightarrow> Some (Inl e)
              | Inr (op0, cs) \<Rightarrow>
                let ct = normalizeOp op0
                in if cs = [] then Some (Inr \<lparr>je_Fires = False, je_NextFire = None, je_TriggerType = ''COMPOUND'',
                       je_Snapshot = snapshot [(''type'', ''compound''), (''op'', ct)], je_ObservedPaths = []\<rparr>)
                   else bindC (eval_components env cs 0 ctx path) (combine env ct ctx path))
        else Some (Inl (''unknown trigger kind: '' @ kind)))"
| "eval_components env [] i ctx path = Some (Inr [])"
| "eval_components env (c # cs) i ctx path =
     bindC (evaluateJSONTriggerAt env (Raw c) ctx (component_path path i)) (\<lambda>r.
     bindC (eval_components env cs (Suc i) ctx path) (\<lambda>rs. Some (Inr (r # rs))))"
  by pat_completeness auto

termination
proof (relation "measure (\<lambda>x. case x of Inl (env, raw, ctx, path) \<Rightarrow> 2 * rsize raw | Inr (env, cs, i, ctx, path) \<Rightarrow> Suc (2 * size_list size cs))", goal_cases)
  case (2 env raw ctx path x2 kind data x2a op0 cs ct)
  then have "rsize data < rsize raw" "size_list size cs < rsize data" by (auto dest: decode_size compound_size)
  then show ?case by simp
qed auto

declare evaluateJSONTriggerAt.simps [simp del]

definition EvaluateJSONTrigger :: "json_env \<Rightarrow> json raw \<Rightarrow> JSONTriggerContext \<Rightarrow> JSONTriggerEvaluation comp" where
  "EvaluateJSONTrigger env raw ctx =
     evaluateJSONTriggerAt env raw (if jc_Now ctx = zero_time then ctx\<lparr>jc_Now := jv_now env\<rparr> else ctx) []"

definition MatchingJSONEventObservations :: "json_env \<Rightarrow> json raw \<Rightarrow> TriggerEvent \<Rightarrow> JSONObservedTrigger list comp" where
  "MatchingJSONEventObservations env raw event =
     bindC (EvaluateJSONTrigger env raw \<lparr>jc_Now = firstNonZeroTime [te_OccurredAt event, jv_now env], jc_CreatedAt = zero_time,
        jc_LastRunAt = None, jc_Event = Some event, jc_Observed = {}\<rparr>) (\<lambda>r. Some (Inr (je_ObservedPaths r)))"

section \<open>The encoding of triggers\<close>

definition TimeTrigger_json :: "TimeTrigger option \<Rightarrow> json" where
  "TimeTrigger_json tm = (case tm of None \<Rightarrow> JNull
     | Some t \<Rightarrow> JObj [(''cron'', JStr (tt_Cron t)), (''time_zone'', JStr (tt_TimeZone t)), (''flavor'', JStr (tt_Flavor t))])"

definition EventTrigger_json :: "EventTrigger option \<Rightarrow> json" where
  "EventTrigger_json ev = (case ev of None \<Rightarrow> JNull
     | Some e \<Rightarrow> JObj ([(''type'', JStr (et_EventType e)), (''target_rid'', JStr (et_TargetRID e))] @
         (if et_BranchFilter e = [] then [] else [(''branch_filter'', JArr (map JStr (et_BranchFilter e)))])))"

definition tagged :: "string \<Rightarrow> json \<Rightarrow> json" where
  "tagged kind data = JObj [(''data'', data), (''kind'', JStr kind)]"

text \<open>A slice without elements is written as an empty array; a nil slice, as null, reads the same.\<close>

fun trigger_MarshalJSON :: "Trigger \<Rightarrow> string + json"
  and compound_json :: "CompoundTrigger option \<Rightarrow> string + json"
  and triggers_json :: "Trigger list \<Rightarrow> string + json list"
where
  "trigger_MarshalJSON (Trigger k tm ev cp) =
     (if k = TriggerKindTime then Inr (tagged ''time'' (TimeTrigger_json tm))
      else if k = TriggerKindEvent then Inr (tagged ''event'' (EventTrigger_json ev))
      else if k = TriggerKindCompound then bindE (compound_json cp) (\<lambda>c. Inr (tagged ''compound'' c))
      else Inl (''invalid trigger kind: '' @ show_int k))"
| "compound_json None = Inr JNull"
| "compound_json (Some (CompoundTrigger ct ts)) =
     bindE (triggers_json ts) (\<lambda>js. Inr (JObj [(''op'', JStr ct), (''components'', JArr js)]))"
| "triggers_json [] = Inr []"
| "triggers_json (t # ts) = bindE (trigger_MarshalJSON t) (\<lambda>j. bindE (triggers_json ts) (\<lambda>js. Inr (j # js)))"

definition env_data :: "json raw \<Rightarrow> string + string \<times> json raw" where
  "env_data r = bindE (struct_of r) (\<lambda>fs. bindE (str_of (member fs ''kind'')) (\<lambda>kind. Inr (kind, raw_of (member fs ''data''))))"

lemma env_data_size: "env_data r = Inr (k, d) \<Longrightarrow> rsize d < rsize r \<or> d = RawEmpty"
proof -
  assume a: "env_data r = Inr (k, d)"
  then obtain fs where fs: "struct_of r = Inr fs" "d = raw_of (member fs ''data'')" by (auto simp: env_data_def bindE_Inr_iff)
  show ?thesis
  proof (cases "member fs ''data''")
    case (Some v)
    then obtain k' where "(k', v) \<in> set fs" using member_in by blast
    with fs Some struct_of_size [OF fs(1)] show ?thesis by auto
  qed (use fs in simp)
qed

lemma compound_size_less: "compound_of d = Inr (ct, cs) \<Longrightarrow> d \<noteq> RawEmpty"
  by (auto simp: compound_of_def)

function trigger_UnmarshalJSON :: "json raw \<Rightarrow> string + Trigger"
  and unmarshal_components :: "json list \<Rightarrow> string + Trigger list"
where
  "trigger_UnmarshalJSON data =
     (case env_data data of
        Inl e \<Rightarrow> Inl e
      | Inr (kind, inner) \<Rightarrow>
        if kind = ''time''
        then bindE (TimeTrigger_of inner) (\<lambda>t.
               Inr (Trigger TriggerKindTime (Some (if tt_TimeZone t = [] then t\<lparr>tt_TimeZone := ''UTC''\<rparr> else t)) None None))
        else if kind = ''event'' then bindE (EventTrigger_of inner) (\<lambda>t. Inr (Trigger TriggerKindEvent None (Some t) None))
        else if kind = ''compound''
        then (case compound_of inner of
                Inl e \<Rightarrow> Inl e
              | Inr (ct, cs) \<Rightarrow> bindE (unmarshal_components cs) (\<lambda>ts. Inr (Trigger TriggerKindCompound None None (Some (CompoundTrigger ct ts)))))
        else Inl (''unknown trigger kind: '' @ kind))"
| "unmarshal_components [] = Inr []"
| "unmarshal_components (c # cs) =
     bindE (trigger_UnmarshalJSON (Raw c)) (\<lambda>t. bindE (unmarshal_components cs) (\<lambda>ts. Inr (t # ts)))"
  by pat_completeness auto

termination
proof (relation "measure (\<lambda>x. case x of Inl r \<Rightarrow> 2 * rsize r | Inr cs \<Rightarrow> Suc (2 * size_list size cs))", goal_cases)
  case (2 data x2 kind inner x2a ct cs)
  then have "rsize inner < rsize data \<or> inner = RawEmpty" "size_list size cs < rsize inner" by (auto dest: env_data_size compound_size)
  then show ?case by auto
qed auto

declare trigger_UnmarshalJSON.simps [simp del]

end
