(* ===== verification/Trigger_Safety.thy ===== *)
theory Trigger_Safety
  imports Trigger_Json
begin

text \<open>
  Correctness of stored triggers: encoding and decoding, the truth value that the evaluation computes for
  an encoded trigger, and the observations that make a compound trigger fire over several events.
\<close>

section \<open>Members of encoded triggers\<close>

lemma find_rev_simps:
  "member [] k = None"
  "member [(a, v)] k = (if equal_fold a k then Some v else None)"
  "member [(a, v), (b, w)] k = (if equal_fold b k then Some w else if equal_fold a k then Some v else None)"
  "member [(a, v), (b, w), (c, x)] k =
     (if equal_fold c k then Some x else if equal_fold b k then Some w else if equal_fold a k then Some v else None)"
  by (simp_all add: member_def)

lemma fold_names:
  "equal_fold ''kind'' ''kind''" "equal_fold ''data'' ''data''" "\<not> equal_fold ''kind'' ''data''" "\<not> equal_fold ''data'' ''kind''"
  "equal_fold ''cron'' ''cron''" "equal_fold ''time_zone'' ''time_zone''" "equal_fold ''flavor'' ''flavor''"
  "\<not> equal_fold ''flavor'' ''cron''" "\<not> equal_fold ''flavor'' ''time_zone''" "\<not> equal_fold ''time_zone'' ''cron''"
  "equal_fold ''type'' ''type''" "equal_fold ''target_rid'' ''target_rid''" "equal_fold ''branch_filter'' ''branch_filter''"
  "\<not> equal_fold ''branch_filter'' ''type''" "\<not> equal_fold ''branch_filter'' ''target_rid''" "\<not> equal_fold ''target_rid'' ''type''"
  "\<not> equal_fold ''target_rid'' ''branch_filter''" "\<not> equal_fold ''type'' ''branch_filter''"
  "equal_fold ''op'' ''op''" "equal_fold ''components'' ''components''" "\<not> equal_fold ''components'' ''op''"
  by code_simp+

lemmas member_simps = find_rev_simps fold_names

lemma read_time_trigger: "TimeTrigger_of (Raw (TimeTrigger_json (Some t))) = Inr t"
  by (simp add: TimeTrigger_of_def TimeTrigger_json_def member_simps)

lemma str_elems_map: "str_elems (map JStr ss) = Inr ss"
  by (induction ss) simp_all

lemma read_event_trigger: "EventTrigger_of (Raw (EventTrigger_json (Some e))) = Inr e"
  by (cases "et_BranchFilter e = []") (simp_all add: EventTrigger_of_def EventTrigger_json_def member_simps str_elems_map)

lemma read_compound: "compound_of (Raw (JObj [(''op'', JStr ct), (''components'', JArr js)])) = Inr (ct, js)"
  by (simp add: compound_of_def member_simps)

lemma read_tagged: "env_data (Raw (tagged kind d)) = Inr (kind, Raw d)"
  by (simp add: env_data_def tagged_def member_simps)

lemma decode_tagged:
  "kind \<in> {''time'', ''event'', ''compound''} \<Longrightarrow> decodeJSONTriggerNode env (Raw (tagged kind d)) = Inr (kind, Raw d)"
proof -
  assume k: "kind \<in> {''time'', ''event'', ''compound''}"
  moreover have "normalizeKind ''time'' = ''time''" "normalizeKind ''event'' = ''event''" "normalizeKind ''compound'' = ''compound''"
    by code_simp+
  ultimately have "normalizeKind kind = kind" "kind \<noteq> []" by auto
  then show ?thesis by (simp add: decodeJSONTriggerNode_def tagged_def member_simps)
qed

section \<open>Round trip\<close>

text \<open>A trigger as the API builds it: the pointer of its kind is set, and no other.\<close>

fun trigger_wf :: "Trigger \<Rightarrow> bool" and compound_wf :: "CompoundTrigger \<Rightarrow> bool" where
  "trigger_wf (Trigger k tm ev cp) \<longleftrightarrow>
     (k = TriggerKindTime \<and> tm \<noteq> None \<and> tt_TimeZone (the tm) \<noteq> [] \<and> ev = None \<and> cp = None) \<or>
     (k = TriggerKindEvent \<and> tm = None \<and> ev \<noteq> None \<and> cp = None) \<or>
     (k = TriggerKindCompound \<and> tm = None \<and> ev = None \<and> (case cp of None \<Rightarrow> False | Some c \<Rightarrow> compound_wf c))"
| "compound_wf (CompoundTrigger ct ts) \<longleftrightarrow> (\<forall>t \<in> set ts. trigger_wf t)"

lemma kinds_differ:
  "TriggerKindTime \<noteq> TriggerKindEvent" "TriggerKindTime \<noteq> TriggerKindCompound" "TriggerKindEvent \<noteq> TriggerKindCompound"
  by (simp_all add: TriggerKindTime_def TriggerKindEvent_def TriggerKindCompound_def)

lemma marshal_roundtrip:
  "trigger_wf t \<Longrightarrow> \<exists>j. trigger_MarshalJSON t = Inr j \<and> trigger_UnmarshalJSON (Raw j) = Inr t"
  "\<forall>c. cp = Some c \<longrightarrow> compound_wf c \<longrightarrow> (\<exists>js. triggers_json (ct_Components c) = Inr js \<and>
     unmarshal_components js = Inr (ct_Components c) \<and> compound_json cp = Inr (JObj [(''op'', JStr (ct_Op c)), (''components'', JArr js)]))"
  "\<forall>t \<in> set ts. trigger_wf t \<Longrightarrow> \<exists>js. triggers_json ts = Inr js \<and> unmarshal_components js = Inr ts"
proof (induction t and cp and ts rule: trigger_MarshalJSON_compound_json_triggers_json.induct)
  case (1 k tm ev cp)
  then consider (time) t where "k = TriggerKindTime" "tm = Some t" "tt_TimeZone t \<noteq> []" "ev = None" "cp = None"
    | (event) e where "k = TriggerKindEvent" "tm = None" "ev = Some e" "cp = None"
    | (compound) c where "k = TriggerKindCompound" "tm = None" "ev = None" "cp = Some c" "compound_wf c"
    by (auto split: option.splits)
  then show ?case
  proof cases
    case time
    then show ?thesis by (simp add: trigger_UnmarshalJSON.simps read_tagged read_time_trigger)
  next
    case event
    then show ?thesis using kinds_differ by (simp add: trigger_UnmarshalJSON.simps read_tagged read_event_trigger)
  next
    case compound
    then obtain js where js: "unmarshal_components js = Inr (ct_Components c)"
      "compound_json cp = Inr (JObj [(''op'', JStr (ct_Op c)), (''components'', JArr js)])"
      using "1.IH" kinds_differ by (auto simp: kinds_differ [symmetric])
    with compound show ?thesis using kinds_differ
      by (simp add: trigger_UnmarshalJSON.simps read_tagged read_compound)
  qed
next
  case (3 ct ts)
  then show ?case by (auto simp: bindE_Inr_iff)
next
  case (5 t ts)
  then show ?case by fastforce
qed auto

section \<open>The evaluation of an encoded trigger\<close>

text \<open>The truth value of a trigger, given those of its leaves, each at its path; and its event leaves.\<close>

fun tholds :: "(TimeTrigger \<Rightarrow> bool) \<Rightarrow> (string \<Rightarrow> EventTrigger \<Rightarrow> bool) \<Rightarrow> Trigger \<Rightarrow> string \<Rightarrow> bool"
  and tholds_compound :: "(TimeTrigger \<Rightarrow> bool) \<Rightarrow> (string \<Rightarrow> EventTrigger \<Rightarrow> bool) \<Rightarrow> CompoundTrigger option \<Rightarrow> string \<Rightarrow> bool"
  and tholds_list :: "(TimeTrigger \<Rightarrow> bool) \<Rightarrow> (string \<Rightarrow> EventTrigger \<Rightarrow> bool) \<Rightarrow> Trigger list \<Rightarrow> nat \<Rightarrow> string \<Rightarrow> bool list"
where
  "tholds T E (Trigger k tm ev cp) path =
     (if k = TriggerKindTime then (case tm of None \<Rightarrow> False | Some t \<Rightarrow> T t)
      else if k = TriggerKindEvent then (case ev of None \<Rightarrow> False | Some e \<Rightarrow> E (printableTriggerPath path ''event'') e)
      else tholds_compound T E cp path)"
| "tholds_compound T E None path = False"
| "tholds_compound T E (Some (CompoundTrigger ct ts)) path =
     (ts \<noteq> [] \<and> (if normalizeOp ct = ''AND'' then (\<forall>b \<in> set (tholds_list T E ts 0 path). b) else (\<exists>b \<in> set (tholds_list T E ts 0 path). b)))"
| "tholds_list T E [] i path = []"
| "tholds_list T E (t # ts) i path = tholds T E t (component_path path i) # tholds_list T E ts (Suc i) path"

fun leaves :: "Trigger \<Rightarrow> string \<Rightarrow> (string \<times> EventTrigger) list"
  and leaves_compound :: "CompoundTrigger option \<Rightarrow> string \<Rightarrow> (string \<times> EventTrigger) list"
  and leaves_list :: "Trigger list \<Rightarrow> nat \<Rightarrow> string \<Rightarrow> (string \<times> EventTrigger) list"
where
  "leaves (Trigger k tm ev cp) path =
     (if k = TriggerKindTime then []
      else if k = TriggerKindEvent then (case ev of None \<Rightarrow> [] | Some e \<Rightarrow> [(printableTriggerPath path ''event'', e)])
      else leaves_compound cp path)"
| "leaves_compound None path = []"
| "leaves_compound (Some (CompoundTrigger ct ts)) path = leaves_list ts 0 path"
| "leaves_list [] i path = []"
| "leaves_list (t # ts) i path = leaves t (component_path path i) @ leaves_list ts (Suc i) path"

definition normE :: "EventTrigger \<Rightarrow> EventTrigger" where
  "normE e = e\<lparr>et_EventType := NormalizeEventType (et_EventType e)\<rparr>"

definition leaf_holds :: "JSONTriggerContext \<Rightarrow> string \<Rightarrow> EventTrigger \<Rightarrow> bool" where
  "leaf_holds ctx p e \<longleftrightarrow> jsonEventMatches (normE e) (jc_Event ctx) \<or> p \<in> jc_Observed ctx"

definition observation :: "string \<times> EventTrigger \<Rightarrow> JSONObservedTrigger" where
  "observation pe = \<lparr>jo_Path = fst pe, jo_EventType = et_EventType (normE (snd pe)), jo_TargetRID = et_TargetRID (snd pe)\<rparr>"

definition observations :: "JSONTriggerContext \<Rightarrow> (string \<times> EventTrigger) list \<Rightarrow> JSONObservedTrigger list" where
  "observations ctx ls = map observation (filter (\<lambda>(p, e). jsonEventMatches (normE e) (jc_Event ctx)) ls)"

definition json_time_due :: "json_env \<Rightarrow> JSONTriggerContext \<Rightarrow> TimeTrigger \<Rightarrow> bool" where
  "json_time_due env ctx t =
     (case evaluateJSONTimeTrigger env (Raw (TimeTrigger_json (Some t))) ctx [] of Some (Inr x) \<Rightarrow> je_Fires x | _ \<Rightarrow> False)"

lemma time_eval_returns: "\<exists>r. evaluateJSONTimeTrigger env raw ctx path = Some r"
proof -
  have nf: "NextFireAfter s a \<noteq> None" if "ParseCron c f z = Inr s" for s a c f z
    using NextFireAfter_returns [OF ParseCron_wf [OF that], of a] by auto
  show ?thesis
    unfolding evaluateJSONTimeTrigger_def bindC_def by (auto simp: Let_def split: option.splits sum.splits dest: nf)
qed

lemma time_eval_fires:
  assumes "evaluateJSONTimeTrigger env (Raw (TimeTrigger_json (Some t))) ctx path = Some (Inr x)"
  shows "je_Fires x = json_time_due env ctx t \<and> je_ObservedPaths x = []"
  using assms unfolding json_time_due_def evaluateJSONTimeTrigger_def read_time_trigger bindC_simps Let_def
  by (auto split: if_splits sum.splits option.splits)

lemma event_eval:
  "\<exists>x. evaluateJSONEventTrigger env (Raw (EventTrigger_json (Some e))) ctx path = Some (Inr x) \<and>
     je_Fires x = leaf_holds ctx (printableTriggerPath path ''event'') e \<and>
     je_ObservedPaths x = observations ctx [(printableTriggerPath path ''event'', e)]"
  by (simp add: evaluateJSONEventTrigger_def read_event_trigger Let_def leaf_holds_def observations_def observation_def normE_def)

lemma fold_and: "fold (\<lambda>c f. f \<and> P c) cs b = (b \<and> (\<forall>c \<in> set cs. P c))"
  by (induction cs arbitrary: b) auto

lemma fold_or: "fold (\<lambda>c f. f \<or> P c) cs b = (b \<or> (\<exists>c \<in> set cs. P c))"
  by (induction cs arbitrary: b) auto

definition eval_ok :: "JSONTriggerContext \<Rightarrow> bool \<Rightarrow> (string \<times> EventTrigger) list \<Rightarrow> JSONTriggerEvaluation comp \<Rightarrow> bool" where
  "eval_ok ctx b ls r \<longleftrightarrow> (\<exists>y. r = Some y \<and> (\<forall>x. y = Inr x \<longrightarrow> je_Fires x = b \<and> je_ObservedPaths x = observations ctx ls))"

lemma combine_ok:
  assumes "normalizeOp ct = op1" "map je_Fires rs = bs" "concat (map je_ObservedPaths rs) = obs"
  shows "\<exists>y. combine env op1 ctx path rs = Some y \<and> (\<forall>x. y = Inr x \<longrightarrow>
    je_Fires x = (if op1 = ''AND'' then (\<forall>b \<in> set bs. b) else (\<exists>b \<in> set bs. b)) \<and> je_ObservedPaths x = obs)"
  using assms by (auto simp: combine_def fold_and fold_or simp flip: assms(2))

lemma observations_append: "observations ctx (xs @ ys) = observations ctx xs @ observations ctx ys"
  by (simp add: observations_def)

lemma eval_marshalled:
  "\<forall>path j. trigger_wf t \<longrightarrow> trigger_MarshalJSON t = Inr j \<longrightarrow>
     eval_ok ctx (tholds (json_time_due env ctx) (leaf_holds ctx) t path) (leaves t path) (evaluateJSONTriggerAt env (Raw j) ctx path)"
  "\<forall>path c j. cp = Some c \<longrightarrow> compound_wf c \<longrightarrow> compound_json cp = Inr j \<longrightarrow>
     eval_ok ctx (tholds_compound (json_time_due env ctx) (leaf_holds ctx) cp path) (leaves_compound cp path)
       (evaluateJSONTriggerAt env (Raw (tagged ''compound'' j)) ctx path)"
  "\<forall>path i js. (\<forall>t \<in> set ts. trigger_wf t) \<longrightarrow> triggers_json ts = Inr js \<longrightarrow>
     (\<exists>y. eval_components env js i ctx path = Some y \<and> (\<forall>xs. y = Inr xs \<longrightarrow>
        map je_Fires xs = tholds_list (json_time_due env ctx) (leaf_holds ctx) ts i path \<and>
        concat (map je_ObservedPaths xs) = observations ctx (leaves_list ts i path)))"
proof (induction t and cp and ts rule: trigger_MarshalJSON_compound_json_triggers_json.induct)
  case (1 k tm ev cp)
  show ?case
  proof (intro allI impI)
    fix path j
    assume wf: "trigger_wf (Trigger k tm ev cp)" and m: "trigger_MarshalJSON (Trigger k tm ev cp) = Inr j"
    consider (time) t where "k = TriggerKindTime" "tm = Some t"
      | (event) e where "k = TriggerKindEvent" "ev = Some e"
      | (compound) c where "k = TriggerKindCompound" "cp = Some c" "compound_wf c"
      using wf by (auto split: option.splits)
    then show "eval_ok ctx (tholds (json_time_due env ctx) (leaf_holds ctx) (Trigger k tm ev cp) path)
        (leaves (Trigger k tm ev cp) path) (evaluateJSONTriggerAt env (Raw j) ctx path)"
    proof cases
      case time
      then have "evaluateJSONTriggerAt env (Raw j) ctx path = evaluateJSONTimeTrigger env (Raw (TimeTrigger_json (Some t))) ctx path"
        using m by (auto simp: evaluateJSONTriggerAt.simps decode_tagged)
      with time time_eval_returns [of env "Raw (TimeTrigger_json (Some t))" ctx path] time_eval_fires [of env t ctx path]
      show ?thesis by (auto simp: eval_ok_def observations_def)
    next
      case event
      then have "evaluateJSONTriggerAt env (Raw j) ctx path = evaluateJSONEventTrigger env (Raw (EventTrigger_json (Some e))) ctx path"
        using m kinds_differ by (auto simp: evaluateJSONTriggerAt.simps decode_tagged)
      with event event_eval [of env e ctx path] kinds_differ show ?thesis by (auto simp: eval_ok_def)
    next
      case compound
      then obtain c where "compound_json cp = Inr c" "j = tagged ''compound'' c" using m kinds_differ by (auto simp: bindE_Inr_iff)
      with "1.IH" compound kinds_differ show ?thesis by auto
    qed
  qed
next
  case (3 ct ts)
  show ?case
  proof (intro allI impI)
    fix path c j
    assume c: "Some (CompoundTrigger ct ts) = Some c" "compound_wf c" "compound_json (Some (CompoundTrigger ct ts)) = Inr j"
    then obtain js where js: "triggers_json ts = Inr js" "j = JObj [(''op'', JStr ct), (''components'', JArr js)]" by (auto simp: bindE_Inr_iff)
    have empty: "js = [] \<longleftrightarrow> ts = []" using js(1) by (cases ts) (auto simp: bindE_Inr_iff)
    have e: "evaluateJSONTriggerAt env (Raw (tagged ''compound'' j)) ctx path =
        (if js = [] then Some (Inr \<lparr>je_Fires = False, je_NextFire = None, je_TriggerType = ''COMPOUND'',
           je_Snapshot = snapshot [(''type'', ''compound''), (''op'', normalizeOp ct)], je_ObservedPaths = []\<rparr>)
         else bindC (eval_components env js 0 ctx path) (combine env (normalizeOp ct) ctx path))"
      unfolding js(2) by (subst evaluateJSONTriggerAt.simps) (simp add: decode_tagged read_compound Let_def)
    have "\<forall>t \<in> set ts. trigger_wf t" using c(1,2) by auto
    with "3.IH" js(1) obtain y where y: "eval_components env js 0 ctx path = Some y" "\<forall>xs. y = Inr xs \<longrightarrow>
        map je_Fires xs = tholds_list (json_time_due env ctx) (leaf_holds ctx) ts 0 path \<and>
        concat (map je_ObservedPaths xs) = observations ctx (leaves_list ts 0 path)"
      by blast
    show "eval_ok ctx (tholds_compound (json_time_due env ctx) (leaf_holds ctx) (Some (CompoundTrigger ct ts)) path)
        (leaves_compound (Some (CompoundTrigger ct ts)) path) (evaluateJSONTriggerAt env (Raw (tagged ''compound'' j)) ctx path)"
    proof (cases "ts = []")
      case True
      then show ?thesis unfolding e using empty by (simp add: eval_ok_def observations_def)
    next
      case False
      show ?thesis
      proof (cases y)
        case (Inl err)
        then show ?thesis unfolding e using y(1) False empty by (simp add: eval_ok_def)
      next
        case (Inr xs)
        from combine_ok [OF refl, of xs _ _ env ct ctx path] y(2) Inr False empty
        show ?thesis unfolding e y(1) Inr eval_ok_def by simp
      qed
    qed
  qed
next
  case (5 t ts)
  show ?case
  proof (intro allI impI)
    fix path i js
    assume wf: "\<forall>x \<in> set (t # ts). trigger_wf x" and m: "triggers_json (t # ts) = Inr js"
    then obtain j js' where js: "trigger_MarshalJSON t = Inr j" "triggers_json ts = Inr js'" "js = j # js'" by (auto simp: bindE_Inr_iff)
    obtain y1 where y1: "evaluateJSONTriggerAt env (Raw j) ctx (component_path path i) = Some y1"
      "\<forall>x. y1 = Inr x \<longrightarrow> je_Fires x = tholds (json_time_due env ctx) (leaf_holds ctx) t (component_path path i) \<and>
         je_ObservedPaths x = observations ctx (leaves t (component_path path i))"
      using "5.IH"(1) wf js(1) unfolding eval_ok_def by (meson list.set_intros(1))
    obtain y2 where y2: "eval_components env js' (Suc i) ctx path = Some y2"
      "\<forall>xs. y2 = Inr xs \<longrightarrow> map je_Fires xs = tholds_list (json_time_due env ctx) (leaf_holds ctx) ts (Suc i) path \<and>
         concat (map je_ObservedPaths xs) = observations ctx (leaves_list ts (Suc i) path)"
      using "5.IH"(2) js(1,2) wf by (meson list.set_intros(2))
    show "\<exists>y. eval_components env js i ctx path = Some y \<and> (\<forall>xs. y = Inr xs \<longrightarrow>
        map je_Fires xs = tholds_list (json_time_due env ctx) (leaf_holds ctx) (t # ts) i path \<and>
        concat (map je_ObservedPaths xs) = observations ctx (leaves_list (t # ts) i path))"
      using y1 y2 js(3) by (cases y1; cases y2) (auto simp: observations_append)
  qed
qed (auto simp: observations_def)

section \<open>Paths identify leaves\<close>

declare digits.simps [simp del]

lemma digits_small: "n < 10 \<Longrightarrow> digits n = [char_of (48 + n)]"
  by (subst digits.simps) simp

lemma digits_big: "\<not> n < 10 \<Longrightarrow> digits n = digits (n div 10) @ [char_of (48 + n mod 10)]"
  by (subst digits.simps) simp

lemma digits_char: "c \<in> set (digits n) \<Longrightarrow> c \<noteq> CHR '']''"
proof (induction n rule: digits.induct)
  case (1 n)
  have d: "char_of (48 + m) \<noteq> CHR '']''" if "m < 10" for m :: nat
  proof
    assume "char_of (48 + m) = CHR '']''"
    then have "of_char (char_of (48 + m) :: char) = (of_char CHR '']'' :: nat)" by simp
    then have "(48 + m) mod 256 = 93" by (simp add: of_char_of)
    then show False using that by simp
  qed
  show ?case
    using 1 d [of n] d [of "n mod 10"] by (cases "n < 10") (auto simp: digits_small digits_big)
qed

lemma digits_inj: "digits m = digits n \<Longrightarrow> m = n"
proof (induction m arbitrary: n rule: digits.induct)
  case (1 m)
  have ch: "char_of (48 + a) = (char_of (48 + b) :: char) \<Longrightarrow> a = b" if "a < 10" "b < 10" for a b :: nat
  proof -
    assume "char_of (48 + a) = (char_of (48 + b) :: char)"
    then have "of_char (char_of (48 + a) :: char) = (of_char (char_of (48 + b) :: char) :: nat)" by simp
    then show "a = b" using that by (simp add: of_char_of)
  qed
  have ne: "digits k \<noteq> []" for k by (subst digits.simps) simp
  show ?case
  proof (cases "m < 10")
    case True
    then have dm: "digits m = [char_of (48 + m)]" by (rule digits_small)
    have "n < 10"
    proof (rule ccontr)
      assume "\<not> n < 10"
      then have "digits n = digits (n div 10) @ [char_of (48 + n mod 10)]" by (rule digits_big)
      then show False using 1(2) dm ne [of "n div 10"] by (cases "digits (n div 10)") simp_all
    qed
    then show ?thesis using 1(2) dm ch [OF True] by (simp add: digits_small)
  next
    case False
    then have dm: "digits m = digits (m div 10) @ [char_of (48 + m mod 10)]" by (rule digits_big)
    have "\<not> n < 10"
    proof
      assume "n < 10"
      then have "digits n = [char_of (48 + n)]" by (rule digits_small)
      then show False using 1(2) dm ne [of "m div 10"] by (cases "digits (m div 10)") simp_all
    qed
    then have dn: "digits n = digits (n div 10) @ [char_of (48 + n mod 10)]" by (rule digits_big)
    have "digits (m div 10) = digits (n div 10)" "char_of (48 + m mod 10) = (char_of (48 + n mod 10) :: char)"
      using 1(2) unfolding dm dn by simp_all
    then have "m div 10 = n div 10" "m mod 10 = n mod 10" using 1(1) [OF False] ch [of "m mod 10" "n mod 10"] by simp_all
    then show ?thesis by (metis div_mult_mod_eq)
  qed
qed

lemma until_bracket: "digits i @ CHR '']'' # r = digits j @ CHR '']'' # s \<Longrightarrow> i = j"
proof -
  assume a: "digits i @ CHR '']'' # r = digits j @ CHR '']'' # s"
  have t: "takeWhile (\<lambda>c. c \<noteq> CHR '']'') (digits k @ CHR '']'' # q) = digits k" for k q
    using digits_char [of _ k] by (simp add: takeWhile_append2)
  have "digits i = digits j" using arg_cong [OF a, of "takeWhile (\<lambda>c. c \<noteq> CHR '']'')"] by (simp only: t)
  then show "i = j" by (rule digits_inj)
qed

lemma component_path_ne: "component_path path i \<noteq> []"
  by (simp add: component_path_def joinTriggerPath_def)

lemma component_path_inj: "component_path path i @ r = component_path path j @ s \<Longrightarrow> i = j"
  using until_bracket [of i r j s] by (auto simp: component_path_def joinTriggerPath_def split: if_splits)

lemma leaf_prefix:
  "path \<noteq> [] \<Longrightarrow> p \<in> fst ` set (leaves t path) \<Longrightarrow> \<exists>r. p = path @ r"
  "path \<noteq> [] \<Longrightarrow> p \<in> fst ` set (leaves_compound cp path) \<Longrightarrow> \<exists>r. p = path @ r"
  "p \<in> fst ` set (leaves_list ts i path) \<Longrightarrow> \<exists>j r. i \<le> j \<and> p = component_path path j @ r"
proof (induction t path and cp path and ts i path arbitrary: p and p and p rule: leaves_leaves_compound_leaves_list.induct)
  case (1 k tm ev cp path)
  then show ?case by (auto simp: printableTriggerPath_def split: if_splits option.splits)
next
  case (3 ct ts path)
  then show ?case by (fastforce simp: component_path_def joinTriggerPath_def)
next
  case (5 t ts i path)
  then consider "p \<in> fst ` set (leaves t (component_path path i))" | "p \<in> fst ` set (leaves_list ts (Suc i) path)" by auto
  then show ?case
  proof cases
    case 1
    then show ?thesis using "5.IH"(1) component_path_ne by blast
  next
    case 2
    then show ?thesis using "5.IH"(2) by (meson Suc_leD)
  qed
qed simp_all

lemma leaves_distinct:
  "distinct (map fst (leaves t path))"
  "distinct (map fst (leaves_compound cp path))"
  "distinct (map fst (leaves_list ts i path))"
proof (induction t path and cp path and ts i path rule: leaves_leaves_compound_leaves_list.induct)
  case (1 k tm ev cp path)
  then show ?case by (auto split: option.splits)
next
  case (5 t ts i path)
  have "p \<notin> fst ` set (leaves_list ts (Suc i) path)" if p: "p \<in> fst ` set (leaves t (component_path path i))" for p
  proof
    assume "p \<in> fst ` set (leaves_list ts (Suc i) path)"
    then obtain j r where "Suc i \<le> j" "p = component_path path j @ r" using leaf_prefix(3) by blast
    moreover obtain s where "p = component_path path i @ s" using leaf_prefix(1) [OF component_path_ne p] by blast
    ultimately show False using component_path_inj [of path i s j r] by auto
  qed
  with 5 show ?case by auto
qed simp_all

section \<open>Observations over several events\<close>

text \<open>A trigger whose leaves are events and whose operators are AND and OR.\<close>

fun event_only :: "Trigger \<Rightarrow> bool" and event_only_compound :: "CompoundTrigger option \<Rightarrow> bool" and event_only_list :: "Trigger list \<Rightarrow> bool" where
  "event_only (Trigger k tm ev cp) \<longleftrightarrow> (k = TriggerKindEvent \<and> ev \<noteq> None) \<or> (k = TriggerKindCompound \<and> event_only_compound cp)"
| "event_only_compound None \<longleftrightarrow> False"
| "event_only_compound (Some (CompoundTrigger ct ts)) \<longleftrightarrow> normalizeOp ct \<in> {''AND'', ''OR''} \<and> event_only_list ts"
| "event_only_list [] \<longleftrightarrow> True"
| "event_only_list (t # ts) \<longleftrightarrow> event_only t \<and> event_only_list ts"

lemma event_only_evaluates:
  "\<forall>path j. event_only t \<longrightarrow> trigger_MarshalJSON t = Inr j \<longrightarrow> (\<exists>x. evaluateJSONTriggerAt env (Raw j) ctx path = Some (Inr x))"
  "\<forall>path j. event_only_compound cp \<longrightarrow> compound_json cp = Inr j \<longrightarrow>
     (\<exists>x. evaluateJSONTriggerAt env (Raw (tagged ''compound'' j)) ctx path = Some (Inr x))"
  "\<forall>path i js. event_only_list ts \<longrightarrow> triggers_json ts = Inr js \<longrightarrow> (\<exists>xs. eval_components env js i ctx path = Some (Inr xs))"
proof (induction t and cp and ts rule: trigger_MarshalJSON_compound_json_triggers_json.induct)
  case (1 k tm ev cp)
  show ?case
  proof (intro allI impI)
    fix path j
    assume e: "event_only (Trigger k tm ev cp)" and m: "trigger_MarshalJSON (Trigger k tm ev cp) = Inr j"
    show "\<exists>x. evaluateJSONTriggerAt env (Raw j) ctx path = Some (Inr x)"
    proof (cases "k = TriggerKindEvent")
      case True
      then obtain ev' where "ev = Some ev'" using e kinds_differ by auto
      then have "evaluateJSONTriggerAt env (Raw j) ctx path = evaluateJSONEventTrigger env (Raw (EventTrigger_json (Some ev'))) ctx path"
        using m True kinds_differ by (auto simp: evaluateJSONTriggerAt.simps decode_tagged)
      with event_eval show ?thesis by metis
    next
      case False
      then obtain c where "compound_json cp = Inr c" "j = tagged ''compound'' c" "event_only_compound cp" "k = TriggerKindCompound"
        using m e kinds_differ by (auto simp: bindE_Inr_iff)
      with "1.IH" kinds_differ show ?thesis by auto
    qed
  qed
next
  case (3 ct ts)
  show ?case
  proof (intro allI impI)
    fix path j
    assume e: "event_only_compound (Some (CompoundTrigger ct ts))" and m: "compound_json (Some (CompoundTrigger ct ts)) = Inr j"
    then obtain js where js: "triggers_json ts = Inr js" "j = JObj [(''op'', JStr ct), (''components'', JArr js)]" by (auto simp: bindE_Inr_iff)
    then obtain xs where "eval_components env js 0 ctx path = Some (Inr xs)" using "3.IH" e by fastforce
    then show "\<exists>x. evaluateJSONTriggerAt env (Raw (tagged ''compound'' j)) ctx path = Some (Inr x)"
      using e unfolding js(2) by (subst evaluateJSONTriggerAt.simps) (auto simp: decode_tagged read_compound combine_def Let_def)
  qed
next
  case (5 t ts)
  show ?case
  proof (intro allI impI)
    fix path i js
    assume e: "event_only_list (t # ts)" and m: "triggers_json (t # ts) = Inr js"
    then obtain j js' where js: "trigger_MarshalJSON t = Inr j" "triggers_json ts = Inr js'" "js = j # js'" by (auto simp: bindE_Inr_iff)
    obtain x where "evaluateJSONTriggerAt env (Raw j) ctx (component_path path i) = Some (Inr x)"
      using "5.IH"(1) e js(1) by fastforce
    moreover obtain xs where "eval_components env js' (Suc i) ctx path = Some (Inr xs)" using "5.IH"(2) e js by fastforce
    ultimately show "\<exists>xs. eval_components env js i ctx path = Some (Inr xs)" using js(3) by simp
  qed
qed auto

lemma tholds_cong:
  "event_only t \<Longrightarrow> \<forall>(p, e) \<in> set (leaves t path). E p e = E' p e \<Longrightarrow> tholds T E t path = tholds T' E' t path"
  "event_only_compound cp \<Longrightarrow> \<forall>(p, e) \<in> set (leaves_compound cp path). E p e = E' p e \<Longrightarrow> tholds_compound T E cp path = tholds_compound T' E' cp path"
  "event_only_list ts \<Longrightarrow> \<forall>(p, e) \<in> set (leaves_list ts i path). E p e = E' p e \<Longrightarrow> tholds_list T E ts i path = tholds_list T' E' ts i path"
proof (induction T E t path and T E cp path and T E ts i path rule: tholds_tholds_compound_tholds_list.induct)
  case (1 T E k tm ev cp path)
  then show ?case using kinds_differ by (auto split: option.splits)
next
  case (5 T E t ts i path)
  then show ?case by auto
qed auto

definition event_ctx :: "instant \<Rightarrow> TriggerEvent option \<Rightarrow> string set \<Rightarrow> JSONTriggerContext" where
  "event_ctx now event seen = \<lparr>jc_Now = now, jc_CreatedAt = zero_time, jc_LastRunAt = None, jc_Event = event, jc_Observed = seen\<rparr>"

text \<open>The paths that a series of events leaves in the table of observations.\<close>

definition observed_paths :: "json_env \<Rightarrow> json raw \<Rightarrow> TriggerEvent list \<Rightarrow> string set" where
  "observed_paths env raw events =
     (\<Union>ev \<in> set events. case MatchingJSONEventObservations env raw ev of Some (Inr os) \<Rightarrow> jo_Path ` set os | _ \<Rightarrow> {})"

lemma EvaluateJSONTrigger_at: "\<exists>ctx'. jc_Event ctx' = jc_Event ctx \<and> jc_Observed ctx' = jc_Observed ctx \<and>
   EvaluateJSONTrigger env raw ctx = evaluateJSONTriggerAt env raw ctx' []"
  by (cases "jc_Now ctx = zero_time") (auto simp: EvaluateJSONTrigger_def intro: exI [of _ ctx] exI [of _ "ctx\<lparr>jc_Now := jv_now env\<rparr>"])

lemma event_only_result:
  assumes "trigger_wf t" "event_only t" "trigger_MarshalJSON t = Inr j"
  shows "\<exists>x. EvaluateJSONTrigger env (Raw j) ctx = Some (Inr x) \<and> je_Fires x = tholds (\<lambda>_. False) (leaf_holds ctx) t [] \<and>
    je_ObservedPaths x = observations ctx (leaves t [])"
proof -
  obtain ctx' where c: "jc_Event ctx' = jc_Event ctx" "jc_Observed ctx' = jc_Observed ctx"
    "EvaluateJSONTrigger env (Raw j) ctx = evaluateJSONTriggerAt env (Raw j) ctx' []"
    using EvaluateJSONTrigger_at by blast
  obtain x where x: "evaluateJSONTriggerAt env (Raw j) ctx' [] = Some (Inr x)" using event_only_evaluates(1) assms(2,3) by blast
  have "eval_ok ctx' (tholds (json_time_due env ctx') (leaf_holds ctx') t []) (leaves t []) (Some (Inr x))"
    using eval_marshalled(1) [of t ctx' env] assms(1,3) x by metis
  then have r: "je_Fires x = tholds (json_time_due env ctx') (leaf_holds ctx') t []" "je_ObservedPaths x = observations ctx' (leaves t [])"
    by (simp_all add: eval_ok_def)
  have "leaf_holds ctx' = leaf_holds ctx" "observations ctx' = observations ctx"
    using c(1,2) by (simp_all add: leaf_holds_def observations_def fun_eq_iff)
  with r have "je_Fires x = tholds (\<lambda>_. False) (leaf_holds ctx) t []" "je_ObservedPaths x = observations ctx (leaves t [])"
    using tholds_cong(1) [OF assms(2), of "[]" "leaf_holds ctx" "leaf_holds ctx"] by auto
  with x c(3) show ?thesis by auto
qed

lemma observed_leaf: "p \<in> jo_Path ` set (observations ctx ls) \<longleftrightarrow> (\<exists>e. (p, e) \<in> set ls \<and> jsonEventMatches (normE e) (jc_Event ctx))"
proof -
  have "jo_Path (observation x) = fst x" for x by (simp add: observation_def)
  then have "jo_Path ` set (observations ctx ls) = fst ` set (filter (\<lambda>(p, e). jsonEventMatches (normE e) (jc_Event ctx)) ls)"
    by (simp add: observations_def image_image)
  then have e: "p \<in> jo_Path ` set (observations ctx ls) \<longleftrightarrow>
      p \<in> fst ` set (filter (\<lambda>(p, e). jsonEventMatches (normE e) (jc_Event ctx)) ls)" by (rule arg_cong)
  show ?thesis unfolding e by (auto intro: rev_image_eqI)
qed

lemma no_event: "\<not> jsonEventMatches e None"
  by (simp add: jsonEventMatches_def)

lemma observed_paths_leaf:
  assumes "trigger_wf t" "event_only t" "trigger_MarshalJSON t = Inr j" "(p, e) \<in> set (leaves t [])"
  shows "p \<in> observed_paths env (Raw j) events \<longleftrightarrow> (\<exists>ev \<in> set events. jsonEventMatches (normE e) (Some ev))"
proof -
  have same: "e' = e" if "(p, e') \<in> set (leaves t [])" for e'
    using eq_key_imp_eq_value [OF leaves_distinct(1) that assms(4)] .
  have "p \<in> (case MatchingJSONEventObservations env (Raw j) ev of Some (Inr os) \<Rightarrow> jo_Path ` set os | _ \<Rightarrow> {})
      \<longleftrightarrow> jsonEventMatches (normE e) (Some ev)" for ev
  proof -
    define ctx where "ctx = \<lparr>jc_Now = firstNonZeroTime [te_OccurredAt ev, jv_now env], jc_CreatedAt = zero_time,
        jc_LastRunAt = None, jc_Event = Some ev, jc_Observed = {}\<rparr>"
    obtain x where x: "EvaluateJSONTrigger env (Raw j) ctx = Some (Inr x)" "je_ObservedPaths x = observations ctx (leaves t [])"
      using event_only_result [OF assms(1-3)] by blast
    then have "MatchingJSONEventObservations env (Raw j) ev = Some (Inr (observations ctx (leaves t [])))"
      by (simp add: MatchingJSONEventObservations_def flip: ctx_def)
    moreover have "p \<in> jo_Path ` set (observations ctx (leaves t [])) \<longleftrightarrow> jsonEventMatches (normE e) (Some ev)"
    proof -
      have "jc_Event ctx = Some ev" by (simp add: ctx_def)
      then show ?thesis unfolding observed_leaf using assms(4) same by metis
    qed
    ultimately show ?thesis by simp
  qed
  then show ?thesis unfolding observed_paths_def by blast
qed

section \<open>Properties\<close>

text \<open>
  C40. A trigger whose pointer for its kind is set, and no other, is encoded, and decoding gives the same
  trigger; a time trigger needs a time zone, since an empty one is read as UTC.
\<close>

theorem trigger_json_roundtrip:
  assumes "trigger_wf t"
  shows "\<exists>j. trigger_MarshalJSON t = Inr j \<and> trigger_UnmarshalJSON (Raw j) = Inr t"
  by (rule marshal_roundtrip(1) [OF assms])

text \<open>
  The evaluation of an encoded trigger returns, and without an error the trigger fires exactly if its
  formula holds, where an event leaf holds if the event matches it or its path was observed before; the
  observations reported are those leaves that the event matches.
\<close>

theorem evaluateJSONTriggerAt_formula:
  assumes "trigger_wf t" "trigger_MarshalJSON t = Inr j"
  shows "\<exists>r. evaluateJSONTriggerAt env (Raw j) ctx path = Some r \<and> (\<forall>x. r = Inr x \<longrightarrow>
    je_Fires x = tholds (json_time_due env ctx) (leaf_holds ctx) t path \<and>
    je_ObservedPaths x = map observation (filter (\<lambda>(p, e). jsonEventMatches (normE e) (jc_Event ctx)) (leaves t path)))"
  using eval_marshalled(1) [of t ctx env] assms unfolding eval_ok_def observations_def by blast

text \<open>
  C20. A trigger over events accumulates observations: after any series of events, whatever their order,
  the evaluation with the recorded paths and no event at hand fires exactly if the formula of the trigger
  holds with every leaf true that one of the events matched. No two leaves share a path, so that no
  observation is taken for another.
\<close>

theorem observations_accumulate:
  assumes "trigger_wf t" "event_only t" "trigger_MarshalJSON t = Inr j"
  shows "\<exists>x. EvaluateJSONTrigger env (Raw j) (event_ctx now None (observed_paths env (Raw j) events)) = Some (Inr x) \<and>
    je_Fires x = tholds (\<lambda>_. False) (\<lambda>p e. \<exists>ev \<in> set events. jsonEventMatches (normE e) (Some ev)) t []"
proof -
  let ?ctx = "event_ctx now None (observed_paths env (Raw j) events)"
  obtain x where x: "EvaluateJSONTrigger env (Raw j) ?ctx = Some (Inr x)" "je_Fires x = tholds (\<lambda>_. False) (leaf_holds ?ctx) t []"
    using event_only_result [OF assms] by blast
  have ctx: "jc_Event ?ctx = None" "jc_Observed ?ctx = observed_paths env (Raw j) events" by (simp_all add: event_ctx_def)
  have "leaf_holds ?ctx p e = (\<exists>ev \<in> set events. jsonEventMatches (normE e) (Some ev))" if "(p, e) \<in> set (leaves t [])" for p e
    unfolding leaf_holds_def ctx using observed_paths_leaf [OF assms that] no_event by blast
  then have "\<forall>(p, e) \<in> set (leaves t []). leaf_holds ?ctx p e = (\<exists>ev \<in> set events. jsonEventMatches (normE e) (Some ev))" by blast
  then have "tholds (\<lambda>_. False) (leaf_holds ?ctx) t [] = tholds (\<lambda>_. False) (\<lambda>p e. \<exists>ev \<in> set events. jsonEventMatches (normE e) (Some ev)) t []"
    by (rule tholds_cong(1) [OF assms(2)])
  with x(2) have "je_Fires x = tholds (\<lambda>_. False) (\<lambda>p e. \<exists>ev \<in> set events. jsonEventMatches (normE e) (Some ev)) t []" by (rule trans)
  with x(1) show ?thesis by (intro exI conjI)
qed

section \<open>Witnesses\<close>

definition sales :: EventTrigger where
  "sales = \<lparr>et_EventType = ''DATA_UPDATED'', et_TargetRID = ''sales'', et_BranchFilter = [''master'']\<rparr>"

definition both :: Trigger where
  "both = Trigger TriggerKindCompound None None (Some (CompoundTrigger ''AND''
     [Trigger TriggerKindEvent None (Some sales) None, Trigger TriggerKindEvent None (Some (sales\<lparr>et_TargetRID := ''orders''\<rparr>)) None]))"

definition sales_event :: TriggerEvent where
  "sales_event = \<lparr>te_EventType = ''DATA_UPDATED'', te_TargetRID = ''sales'', te_Branch = ''master'', te_OccurredAt = 5\<rparr>"

definition json_env_0 :: json_env where
  "json_env_0 = \<lparr>jv_tz = (\<lambda>_. Inr utc_loc), jv_text = (\<lambda>_. []), jv_pick = (\<lambda>_. 0), jv_now = 7\<rparr>"

lemma both_wf: "trigger_wf both" "event_only both"
  by (simp_all add: both_def kinds_differ normalizeOp_def) code_simp

theorem trigger_json_roundtrip_witness:
  "\<exists>j. trigger_MarshalJSON both = Inr j \<and> trigger_UnmarshalJSON (Raw j) = Inr both"
  by (rule trigger_json_roundtrip [OF both_wf(1)])

theorem evaluateJSONTriggerAt_formula_witness:
  "\<exists>j. trigger_MarshalJSON both = Inr j \<and> (\<exists>r. evaluateJSONTriggerAt json_env_0 (Raw j) (event_ctx 3 None {}) [] = Some r)"
proof -
  obtain j where j: "trigger_MarshalJSON both = Inr j" using marshal_roundtrip(1) [OF both_wf(1)] by blast
  with evaluateJSONTriggerAt_formula [OF both_wf(1) j] show ?thesis by blast
qed

theorem observations_accumulate_witness:
  "\<exists>j x. trigger_MarshalJSON both = Inr j \<and>
    EvaluateJSONTrigger json_env_0 (Raw j) (event_ctx 9 None
      (observed_paths json_env_0 (Raw j) [sales_event\<lparr>te_TargetRID := ''orders''\<rparr>, sales_event])) = Some (Inr x) \<and> je_Fires x"
proof -
  obtain j where j: "trigger_MarshalJSON both = Inr j" using marshal_roundtrip(1) [OF both_wf(1)] by blast
  have "tholds (\<lambda>_. False) (\<lambda>p e. \<exists>ev \<in> set [sales_event\<lparr>te_TargetRID := ''orders''\<rparr>, sales_event]. jsonEventMatches (normE e) (Some ev)) both []"
    by code_simp
  with observations_accumulate [OF both_wf j, of json_env_0 9 "[sales_event\<lparr>te_TargetRID := ''orders''\<rparr>, sales_event]"] j
  show ?thesis by auto
qed

end
