(* ===== verification/Job_Graph.thy ===== *)
theory Job_Graph
  imports Pipeline_Dag Go_Strings "HOL-Library.Multiset"
begin

text \<open>
  The graph of the JobSpecs of a build
  (\<open>pipeline-build-service/internal/domain/resolver/resolver.go\<close>, data in
  \<open>internal/models/resolver.go\<close>): \<open>DetectCycles\<close> with its Kahn scan and \<open>findCyclePath\<close>, and the
  fan-out plan (\<open>BuildFanOutPlan\<close>, \<open>fanOutStages\<close>). A spec depends on the spec that produces one of
  its inputs. The Kahn loop is a partial function, since the guard of its decrement would let it run
  forever on in-degrees that do not count the edges; \<open>DetectCycles_returns\<close> shows that it does return.
\<close>

section \<open>Data\<close>

text \<open>View filters, logic payloads and schemas are raw JSON that the resolver only carries.\<close>

record InputSpec =
  is_DatasetRID :: string
  is_FallbackChain :: "string list"
  is_ViewFilter :: "string list"
  is_RequireFresh :: bool

record JobSpec =
  js_RID :: string
  js_PipelineRID :: string
  js_BranchName :: string
  js_Inputs :: "InputSpec list"
  js_OutputDatasetRIDs :: "string list"
  js_LogicKind :: string
  js_LogicPayload :: string
  js_ContentHash :: string

record OpenedTransaction =
  op_DatasetRID :: string
  op_TransactionRID :: string

record ResolvedJob =
  rj_ID :: uuid
  rj_JobSpecRID :: string
  rj_OutputTransactionRIDs :: "string list"
  rj_DependsOnJobSpecRIDs :: "string list"

section \<open>The producer of a dataset\<close>

text \<open>\<open>for each output: producer[output] = spec.RID\<close>: of two producers the later one stays.\<close>

definition producer_map :: "JobSpec list \<Rightarrow> (string, string) gomap" where
  "producer_map specs =
     foldl (\<lambda>m spec. foldl (\<lambda>m output. gm_put m output (js_RID spec)) m (js_OutputDatasetRIDs spec)) [] specs"

lemma foldl_put_get:
  "gm_get (foldl (\<lambda>m output. gm_put m output r) m outs) d = (if d \<in> set outs then Some r else gm_get m d)"
  by (induction outs arbitrary: m) auto

text \<open>What the map means: the last spec that declares the dataset as an output.\<close>

definition producer_of :: "JobSpec list \<Rightarrow> string \<Rightarrow> string option" where
  "producer_of specs d = map_option js_RID (List.find (\<lambda>s. d \<in> set (js_OutputDatasetRIDs s)) (rev specs))"

lemma producer_map_get: "gm_get (producer_map specs) d = producer_of specs d"
proof (induction specs rule: rev_induct)
  case (snoc s specs)
  then show ?case by (simp add: producer_map_def producer_of_def foldl_put_get)
qed (simp add: producer_map_def producer_of_def)

lemma producer_of_Some:
  "producer_of specs d = Some r \<Longrightarrow> \<exists>s \<in> set specs. js_RID s = r \<and> d \<in> set (js_OutputDatasetRIDs s)"
  by (auto simp: producer_of_def find_Some_iff) (metis nth_mem set_rev length_rev)

lemma producer_of_output:
  "s \<in> set specs \<Longrightarrow> d \<in> set (js_OutputDatasetRIDs s) \<Longrightarrow> \<exists>r. producer_of specs d = Some r"
  by (auto simp: producer_of_def find_None_iff not_None_eq [symmetric])

text \<open>The upstream specs of a spec, one for each input that a spec of the build produces.\<close>

definition upstreams :: "JobSpec list \<Rightarrow> JobSpec \<Rightarrow> string list" where
  "upstreams specs s = List.map_filter (\<lambda>i. producer_of specs (is_DatasetRID i)) (js_Inputs s)"

definition spec_depends :: "JobSpec list \<Rightarrow> (string \<times> string) set" where
  "spec_depends specs = {(r, u). \<exists>s \<in> set specs. js_RID s = r \<and> u \<in> set (upstreams specs s)}"

section \<open>DetectCycles\<close>

text \<open>\<open>graph[rid] = append(graph[rid], upstream); indegree[upstream]++\<close>.\<close>

fun add_link :: "string degrees \<times> string adjacency \<Rightarrow> string \<times> string \<Rightarrow> string degrees \<times> string adjacency" where
  "add_link (indeg, graph) (rid, up) = (gm_put indeg up (deg_of indeg up + 1), add_edge graph rid up)"

definition init_links :: "JobSpec list \<Rightarrow> string degrees \<times> string adjacency" where
  "init_links specs =
     foldl (\<lambda>(indeg, graph) s. (gm_put indeg (js_RID s) (deg_of indeg (js_RID s)), ensure_node graph (js_RID s)))
       ([], []) specs"

fun link_inputs :: "(string, string) gomap \<Rightarrow> string \<Rightarrow> InputSpec list \<Rightarrow>
    string degrees \<times> string adjacency \<Rightarrow> string list + (string degrees \<times> string adjacency)" where
  "link_inputs producer rid [] m = Inr m"
| "link_inputs producer rid (input # inputs) m =
     (case gm_get producer (is_DatasetRID input) of
        None \<Rightarrow> link_inputs producer rid inputs m
      | Some up \<Rightarrow>
          if up = rid then Inl [rid, rid] else link_inputs producer rid inputs (add_link m (rid, up)))"

fun link_specs :: "(string, string) gomap \<Rightarrow> JobSpec list \<Rightarrow>
    string degrees \<times> string adjacency \<Rightarrow> string list + (string degrees \<times> string adjacency)" where
  "link_specs producer [] m = Inr m"
| "link_specs producer (s # specs) m =
     bindE (link_inputs producer (js_RID s) (js_Inputs s) m) (link_specs producer specs)"

text \<open>The inner loop of the scan: the guarded decrement, and the re-sorted queue.\<close>

fun lower :: "string degrees \<Rightarrow> string list \<Rightarrow> string list \<Rightarrow> string degrees \<times> string list" where
  "lower indeg zero [] = (indeg, zero)"
| "lower indeg zero (v # vs) =
     (let indeg1 = (if deg_of indeg v > 0 then gm_put indeg v (deg_of indeg v - 1) else indeg)
      in if deg_of indeg1 v = 0 then lower indeg1 (sort (zero @ [v])) vs else lower indeg1 zero vs)"

partial_function (option) pop_all ::
  "string adjacency \<Rightarrow> string degrees \<Rightarrow> string list \<Rightarrow> nat \<Rightarrow> (string degrees \<times> nat) option" where
  "pop_all graph indeg zero popped =
     (case zero of
        [] \<Rightarrow> Some (indeg, popped)
      | node # rest \<Rightarrow>
          (case lower indeg rest (sort (succs graph node)) of
             (indeg', zero') \<Rightarrow> pop_all graph indeg' zero' (popped + 1)))"

declare pop_all.simps [code]

definition findCyclePath :: "string adjacency \<Rightarrow> string degrees \<Rightarrow> string list" where
  "findCyclePath graph indeg =
     (case dfs_cycle graph [] [] (sort (filter (\<lambda>n. deg_of indeg n > 0) (gm_keys indeg))) of
        Inl cycle \<Rightarrow> cycle
      | Inr _ \<Rightarrow> [])"

text \<open>\<open>Inl\<close> is the path of a \<open>CycleDetectedError\<close>; \<open>None\<close> would be a loop that does not end.\<close>

definition DetectCycles :: "JobSpec list \<Rightarrow> (string list + unit) option" where
  "DetectCycles specs =
     (case link_specs (producer_map specs) specs (init_links specs) of
        Inl path \<Rightarrow> Some (Inl path)
      | Inr (indeg, graph) \<Rightarrow>
          (case pop_all graph indeg (zero_frontier indeg) 0 of
             None \<Rightarrow> None
           | Some (indeg', popped) \<Rightarrow>
               if popped = length specs then Some (Inr ())
               else let cycle = findCyclePath graph indeg'
                    in Some (Inl (if cycle \<noteq> [] then cycle else map js_RID specs))))"

section \<open>The fan-out plan\<close>

text \<open>The sorted keys of a Go set that collects the elements of a list.\<close>

definition setKeys :: "string list \<Rightarrow> string list" where
  "setKeys xs = sort (remdups xs)"

definition spec_deps :: "(string, string) gomap \<Rightarrow> JobSpec \<Rightarrow> string list" where
  "spec_deps producer s =
     setKeys (filter (\<lambda>up. up \<noteq> js_RID s)
       (List.map_filter (\<lambda>i. gm_get producer (is_DatasetRID i)) (js_Inputs s)))"

text \<open>
  \<open>remaining\<close> are the keys still without a stage, \<open>completed\<close> those with one. The loop stops when no
  remaining spec is ready.
\<close>

definition ready_stage :: "string adjacency \<Rightarrow> string list \<Rightarrow> string list \<Rightarrow> string list" where
  "ready_stage dependencies remaining completed =
     sort (filter (\<lambda>rid. \<forall>dep \<in> set (succs dependencies rid). dep \<in> set completed) remaining)"

function (sequential) stages_loop :: "string adjacency \<Rightarrow> string list \<Rightarrow> string list \<Rightarrow> string list list" where
  "stages_loop dependencies remaining completed =
     (if remaining = [] \<or> ready_stage dependencies remaining completed = [] then []
      else
        let stage = ready_stage dependencies remaining completed
        in stage # stages_loop dependencies (filter (\<lambda>rid. rid \<notin> set stage) remaining) (completed @ stage))"
  by pat_completeness auto
termination
proof (relation "measure (\<lambda>(dependencies, remaining, completed). length remaining)", goal_cases)
  case (2 dependencies remaining completed stage)
  then have "hd stage \<in> set stage" by (metis hd_in_set)
  moreover have "set stage \<subseteq> set remaining" unfolding 2(2) ready_stage_def by auto
  ultimately have "hd stage \<in> set remaining \<and> hd stage \<in> set stage" by blast
  then show ?case unfolding in_measure prod.case by (intro length_filter_less) auto
qed simp

definition fanOutStages :: "string adjacency \<Rightarrow> string list list" where
  "fanOutStages dependencies = stages_loop dependencies (gm_keys dependencies) []"

definition BuildFanOutPlan ::
  "uuid_lib \<Rightarrow> uuid \<Rightarrow> JobSpec list \<Rightarrow> OpenedTransaction list \<Rightarrow> ResolvedJob list \<times> string list list" where
  "BuildFanOutPlan lib buildID specs opened =
     (let producer = producer_map specs;
          openedByDataset = foldl (\<lambda>m t. gm_put m (op_DatasetRID t) (op_TransactionRID t)) [] opened;
          jobs = map (\<lambda>s. \<lparr>rj_ID = ul_NewSHA1 lib NameSpaceOID (ul_String lib buildID @ '':'' @ js_RID s),
                    rj_JobSpecRID = js_RID s,
                    rj_OutputTransactionRIDs = List.map_filter (gm_get openedByDataset) (js_OutputDatasetRIDs s),
                    rj_DependsOnJobSpecRIDs = spec_deps producer s\<rparr>) specs;
          dependencies = foldl (\<lambda>m s. gm_put m (js_RID s) (spec_deps producer s)) [] specs
      in (jobs, fanOutStages dependencies))"

section \<open>The scan on the edges of the graph\<close>

text \<open>The edges the second loop adds, in its order, and the consumers of a spec.\<close>

definition spec_edges :: "(string, string) gomap \<Rightarrow> JobSpec list \<Rightarrow> (string \<times> string) list" where
  "spec_edges producer specs =
     concat (map (\<lambda>s. map (Pair (js_RID s))
       (List.map_filter (\<lambda>i. gm_get producer (is_DatasetRID i)) (js_Inputs s))) specs)"

definition consumers :: "(string \<times> string) list \<Rightarrow> string \<Rightarrow> string list" where
  "consumers es v = map fst (filter (\<lambda>e. snd e = v) es)"

lemma link_inputs_eq:
  "link_inputs producer rid inputs m =
     (let ups = List.map_filter (\<lambda>i. gm_get producer (is_DatasetRID i)) inputs
      in if rid \<in> set ups then Inl [rid, rid] else Inr (foldl add_link m (map (Pair rid) ups)))"
  by (induction inputs arbitrary: m) (auto simp: Let_def List.map_filter_simps split: option.splits)

lemma link_specs_Inr:
  "link_specs producer specs m = Inr m' \<Longrightarrow>
   m' = foldl add_link m (spec_edges producer specs) \<and> (\<forall>(r, u) \<in> set (spec_edges producer specs). r \<noteq> u)"
proof (induction specs arbitrary: m)
  case (Cons s specs)
  let ?ups = "List.map_filter (\<lambda>i. gm_get producer (is_DatasetRID i)) (js_Inputs s)"
  have own: "js_RID s \<notin> set ?ups" and
    rest: "link_specs producer specs (foldl add_link m (map (Pair (js_RID s)) ?ups)) = Inr m'"
    using Cons.prems by (auto simp: link_inputs_eq Let_def split: if_splits)
  have "spec_edges producer (s # specs) = map (Pair (js_RID s)) ?ups @ spec_edges producer specs"
    by (simp add: spec_edges_def)
  then show ?case using Cons.IH [OF rest] own by auto
qed (simp add: spec_edges_def)

lemma link_specs_Inl:
  "link_specs producer specs m = Inl p \<Longrightarrow> \<exists>r. p = [r, r] \<and> (r, r) \<in> set (spec_edges producer specs)"
proof (induction specs arbitrary: m)
  case (Cons s specs)
  let ?ups = "List.map_filter (\<lambda>i. gm_get producer (is_DatasetRID i)) (js_Inputs s)"
  have edges: "set (spec_edges producer (s # specs)) =
      Pair (js_RID s) ` set ?ups \<union> set (spec_edges producer specs)"
    by (simp add: spec_edges_def)
  show ?case
  proof (cases "js_RID s \<in> set ?ups")
    case True
    then have "p = [js_RID s, js_RID s]" using Cons.prems by (simp add: link_inputs_eq Let_def)
    with True show ?thesis unfolding edges by blast
  next
    case False
    then have "link_specs producer specs (foldl add_link m (map (Pair (js_RID s)) ?ups)) = Inl p"
      using Cons.prems by (simp add: link_inputs_eq Let_def)
    from Cons.IH [OF this] show ?thesis unfolding edges by blast
  qed
qed simp

lemma spec_edges_depends: "set (spec_edges (producer_map specs) specs) = spec_depends specs"
  by (auto simp: spec_edges_def spec_depends_def upstreams_def producer_map_get)

lemma init_links_ok: "maps_ok (js_RID ` set specs) (consumers []) (init_links specs)"
proof (induction specs rule: rev_induct)
  case (snoc s specs)
  obtain indeg graph where m: "init_links specs = (indeg, graph)" by fastforce
  have step: "init_links (specs @ [s]) =
      (gm_put indeg (js_RID s) (deg_of indeg (js_RID s)), ensure_node graph (js_RID s))"
    using m by (simp add: init_links_def)
  show ?case unfolding step using snoc unfolding m by (auto simp: maps_ok_def)
qed (simp add: maps_ok_def init_links_def consumers_def)

lemma add_link_ok:
  assumes "maps_ok V (consumers es) m" "snd e \<in> V"
  shows "maps_ok V (consumers (es @ [e])) (add_link m e)"
proof -
  obtain indeg graph rid up where m: "m = (indeg, graph)" and e: "e = (rid, up)" by fastforce
  show ?thesis
    using assms unfolding m e by (auto simp: maps_ok_def consumers_def insert_absorb)
qed

lemma foldl_add_link_ok:
  "maps_ok V (consumers es) m \<Longrightarrow> snd ` set es' \<subseteq> V \<Longrightarrow> maps_ok V (consumers (es @ es')) (foldl add_link m es')"
proof (induction es' arbitrary: es m)
  case (Cons e es')
  have "maps_ok V (consumers ((es @ [e]) @ es')) (foldl add_link (add_link m e) es')"
    using Cons.prems by (intro Cons.IH add_link_ok) auto
  then show ?case by simp
qed simp

text \<open>The guard and the re-sorting do not matter when the in-degrees count enough edges.\<close>

lemma lower_relax:
  "relax indeg vs = (indeg', new) \<Longrightarrow> \<forall>v \<in> set vs. int (count_list vs v) \<le> deg_of indeg v \<Longrightarrow>
   \<exists>zero'. lower indeg zero vs = (indeg', zero') \<and> mset zero' = mset zero + mset new"
proof (induction vs arbitrary: indeg zero new)
  case (Cons v vs)
  let ?indeg = "gm_put indeg v (deg_of indeg v - 1)"
  obtain new1 where r: "relax ?indeg vs = (indeg', new1)"
    and new: "new = (if deg_of indeg v = 1 then v # new1 else new1)"
    using Cons.prems(1) by (rule relax_ConsE)
  have pos: "deg_of indeg v > 0" using bspec [OF Cons.prems(2), of v] by simp
  have "\<forall>w \<in> set vs. int (count_list vs w) \<le> deg_of ?indeg w"
    using Cons.prems(2) by (auto split: if_splits)
  note IH = Cons.IH [OF r this]
  show ?case
  proof (cases "deg_of indeg v = 1")
    case True
    then show ?thesis using IH [of "sort (zero @ [v])"] pos new by (auto simp: Let_def simp del: sort_append)
  next
    case False
    then show ?thesis using IH [of zero] pos new by (auto simp: Let_def)
  qed
qed simp

lemma relax_keys: "relax indeg vs = (indeg', new) \<Longrightarrow> set (gm_keys indeg) \<subseteq> set (gm_keys indeg')"
proof (induction vs arbitrary: indeg new)
  case (Cons v vs)
  obtain new1 where "relax (gm_put indeg v (deg_of indeg v - 1)) vs = (indeg', new1)"
    using Cons.prems by (rule relax_ConsE)
  from Cons.IH [OF this] show ?case by auto
qed simp

lemma count_list_sort [simp]: "count_list (sort xs) v = count_list xs v"
  by (metis count_mset mset_sort)

lemma mset_distinct: "mset xs = mset ys \<Longrightarrow> distinct ys \<Longrightarrow> distinct xs \<and> set xs = set ys"
  by (metis mset_eq_imp_distinct_iff mset_eq_setD)

locale sorted_scan = counted_graph V "\<lambda>u. sort (succs graph u)" pred
  for V :: "string set" and graph :: "string adjacency" and pred :: "string \<Rightarrow> string list"
begin

lemma pop_all_inv:
  "kahn_inv V pred indeg order zero \<Longrightarrow>
   \<exists>indeg' order'. pop_all graph indeg zero (length order) = Some (indeg', length order') \<and>
     kahn_inv V pred indeg' order' [] \<and> set (gm_keys indeg) \<subseteq> set (gm_keys indeg')"
proof (induction "length zero + pending (all_targets graph) indeg" arbitrary: indeg zero order
    rule: less_induct)
  case less
  show ?case
  proof (cases zero)
    case Nil
    with less.prems show ?thesis by (auto simp: pop_all.simps)
  next
    case (Cons n rest)
    let ?vs = "sort (succs graph n)"
    obtain indeg' new where r: "relax indeg ?vs = (indeg', new)" by fastforce
    have n: "n \<in> set zero" using Cons by simp
    have nV: "n \<in> V" "n \<notin> set order" using less.prems n by (auto simp: kahn_inv_def)
    have enough: "\<forall>v \<in> set ?vs. int (count_list ?vs v) \<le> deg_of indeg v"
    proof
      fix v assume "v \<in> set ?vs"
      then have v: "v \<in> V" using succ_V [of n] by auto
      then have "deg_of indeg v = int (length (filter (\<lambda>u. u \<notin> set order) (pred v)))"
        using less.prems by (simp add: kahn_inv_def)
      then show "int (count_list ?vs v) \<le> deg_of indeg v"
        using filter_remove_length [OF nV(2), of "pred v"] counts [OF v, of n] by simp
    qed
    obtain zero' where low: "lower indeg rest ?vs = (indeg', zero')"
      and zero': "mset zero' = mset (rest @ new)"
      using lower_relax [OF r enough, of rest] by auto
    note new = relax_distinct [OF less.prems n r] relax_fresh [OF less.prems n r]
    have "distinct zero" using less.prems by (simp add: kahn_inv_def)
    then have "distinct (rest @ new)" "set (rest @ new) = set zero - {n} \<union> set new"
      using Cons new by auto
    then have "distinct zero'" "set zero' = set zero - {n} \<union> set new"
      using mset_distinct [OF zero'] by auto
    then have inv: "kahn_inv V pred indeg' (order @ [n]) zero'"
      by (rule relax_step [OF less.prems n r])
    have "set ?vs \<subseteq> all_targets graph" using succs_all_targets [of graph n] by simp
    then have "pending (all_targets graph) indeg' + length new \<le> pending (all_targets graph) indeg"
      using relax_pending [OF r finite_all_targets] by simp
    moreover have "length zero' = length rest + length new"
      using zero' by (metis length_append size_mset)
    ultimately have "length zero' + pending (all_targets graph) indeg'
        < length zero + pending (all_targets graph) indeg"
      using Cons by simp
    from less.hyps [OF this inv] obtain indeg2 order2 where
      "pop_all graph indeg' zero' (length (order @ [n])) = Some (indeg2, length order2)"
      "kahn_inv V pred indeg2 order2 []" "set (gm_keys indeg') \<subseteq> set (gm_keys indeg2)"
      by blast
    moreover have "set (gm_keys indeg) \<subseteq> set (gm_keys indeg')" using relax_keys [OF r] .
    ultimately show ?thesis
      using low Cons by (auto simp: pop_all.simps [of graph indeg "n # rest"])
  qed
qed

end

section \<open>What DetectCycles decides\<close>

definition closed_path :: "('a \<times> 'a) set \<Rightarrow> 'a list \<Rightarrow> bool" where
  "closed_path R p \<longleftrightarrow> 2 \<le> length p \<and> hd p = last p \<and> (\<forall>i. Suc i < length p \<longrightarrow> (p ! i, p ! Suc i) \<in> R)"

lemma walk_nth: "walk g xs \<Longrightarrow> Suc i < length xs \<Longrightarrow> xs ! Suc i \<in> set (succs g (xs ! i))"
proof (induction g xs arbitrary: i rule: walk.induct)
  case (3 g x y xs)
  then show ?case by (cases i) auto
qed auto

lemma cycle_path_closed: "cycle_path g c \<Longrightarrow> closed_path (edges g) c"
  by (auto simp: cycle_path_def closed_path_def walk_nth)

lemma blocked_set_cyclic:
  assumes "finite L" "L \<noteq> {}" "\<And>v. v \<in> L \<Longrightarrow> \<exists>r \<in> L. (r, v) \<in> R"
  shows "\<not> acyclic (R \<inter> L \<times> L)"
proof
  assume "acyclic (R \<inter> L \<times> L)"
  then have "wf (R \<inter> L \<times> L)" using assms(1) by (intro finite_acyclic_wf) auto
  then obtain v where "v \<in> L" "\<And>r. (r, v) \<in> R \<inter> L \<times> L \<Longrightarrow> r \<notin> L"
    using assms(2) by (meson wf_eq_minimal ex_in_conv)
  with assms(3) show False by blast
qed

lemma takeWhile_neq: "x \<notin> set xs \<Longrightarrow> takeWhile (\<lambda>y. y \<noteq> x) (xs @ x # ys) = xs"
  by (induction xs) auto

lemma topo_order_acyclic:
  assumes ord: "topo_order V pred ord" and R: "\<And>r u. (r, u) \<in> R \<Longrightarrow> u \<in> V \<and> r \<in> set (pred u)"
  shows "acyclic R"
proof -
  let ?at = "\<lambda>x. length (takeWhile (\<lambda>y. y \<noteq> x) ord)"
  have "R \<subseteq> measure ?at"
  proof (clarify, unfold in_measure)
    fix r u assume "(r, u) \<in> R"
    then have u: "u \<in> set ord" "r \<in> set (pred u)" using R ord by (auto simp: topo_order_def)
    obtain xs ys where split: "ord = xs @ u # ys" "u \<notin> set xs" using u(1) by (metis split_list_first)
    then have "r \<in> set xs" using ord u(2) by (auto simp: topo_order_def)
    then obtain zs ws where xs: "xs = zs @ r # ws" "r \<notin> set zs" by (metis split_list_first)
    have "?at u = length xs" using split by (simp add: takeWhile_neq)
    moreover have "?at r = length zs" using split xs by (simp add: takeWhile_neq)
    ultimately show "?at r < ?at u" using xs by simp
  qed
  then show ?thesis by (rule acyclic_subset [OF wf_acyclic [OF wf_measure]])
qed

text \<open>The maps the second loop leaves when it does not stop at a self-dependency.\<close>

definition linked :: "JobSpec list \<Rightarrow> string degrees \<times> string adjacency" where
  "linked specs = foldl add_link (init_links specs) (spec_edges (producer_map specs) specs)"

definition consumers_of :: "JobSpec list \<Rightarrow> string \<Rightarrow> string list" where
  "consumers_of specs = consumers (spec_edges (producer_map specs) specs)"

lemma link_specs_linked:
  "link_specs (producer_map specs) specs (init_links specs) = Inr m \<Longrightarrow> m = linked specs"
  by (simp add: linked_def link_specs_Inr)

lemma spec_depends_rid: "(r, u) \<in> spec_depends specs \<Longrightarrow> r \<in> js_RID ` set specs \<and> u \<in> js_RID ` set specs"
  using producer_of_Some by (fastforce simp: spec_depends_def upstreams_def List.map_filter_def)

lemma linked_ok: "maps_ok (js_RID ` set specs) (consumers_of specs) (linked specs)"
proof -
  have "snd ` set (spec_edges (producer_map specs) specs) \<subseteq> js_RID ` set specs"
    unfolding spec_edges_depends by (auto dest: spec_depends_rid)
  from foldl_add_link_ok [OF init_links_ok this] show ?thesis
    by (simp add: linked_def consumers_of_def)
qed

lemma consumers_of_iff: "r \<in> set (consumers_of specs u) \<longleftrightarrow> (r, u) \<in> spec_depends specs"
  unfolding spec_edges_depends [symmetric] by (force simp: consumers_of_def consumers_def)

lemma linked_counts: "count_list (succs (snd (linked specs)) r) u = count_list (consumers_of specs u) r"
  using linked_ok [of specs] by (cases "linked specs") (simp add: maps_ok_def)

lemma linked_edges: "edges (snd (linked specs)) = spec_depends specs"
proof -
  have "u \<in> set (succs (snd (linked specs)) r) \<longleftrightarrow> (r, u) \<in> spec_depends specs" for r u
    using linked_counts [of specs r u] consumers_of_iff [of r specs u] by (metis count_list_0_iff)
  then show ?thesis by (auto simp: edges_def)
qed

interpretation scan: sorted_scan "js_RID ` set specs" "snd (linked specs)" "consumers_of specs" for specs
proof
  show "set (sort (succs (snd (linked specs)) u)) \<subseteq> js_RID ` set specs" for u
  proof
    fix v assume "v \<in> set (sort (succs (snd (linked specs)) u))"
    then have "(u, v) \<in> edges (snd (linked specs))" by simp
    then show "v \<in> js_RID ` set specs" unfolding linked_edges by (simp add: spec_depends_rid)
  qed
qed (simp_all add: linked_counts)

lemma scan_result:
  obtains indeg order where
    "pop_all (snd (linked specs)) (fst (linked specs)) (zero_frontier (fst (linked specs))) 0
       = Some (indeg, length order)"
    "kahn_inv (js_RID ` set specs) (consumers_of specs) indeg order []"
    "js_RID ` set specs \<subseteq> set (gm_keys indeg)"
proof -
  have ok: "maps_ok (js_RID ` set specs) (consumers_of specs) (fst (linked specs), snd (linked specs))"
    by (simp add: linked_ok)
  then have "js_RID ` set specs = set (gm_keys (fst (linked specs)))" by (cases "linked specs") (simp add: maps_ok_def)
  then show ?thesis
    using scan.pop_all_inv [OF zero_frontier_inv(1) [OF ok]] that by auto
qed

text \<open>The specs the scan leaves block each other, so a cycle is among them and the search finds one.\<close>

lemma leftover_blocked:
  assumes inv: "kahn_inv (js_RID ` set specs) (consumers_of specs) indeg order []"
    and v: "v \<in> js_RID ` set specs - set order"
  shows "\<exists>r \<in> js_RID ` set specs - set order. (r, v) \<in> spec_depends specs"
proof -
  have "\<not> set (consumers_of specs v) \<subseteq> set order" using inv v by (auto simp: kahn_inv_def)
  then obtain r where "r \<in> set (consumers_of specs v)" "r \<notin> set order" by blast
  then show ?thesis using spec_depends_rid by (auto simp: consumers_of_iff)
qed

lemma leftover_degree:
  assumes inv: "kahn_inv (js_RID ` set specs) (consumers_of specs) indeg order []"
    and v: "v \<in> js_RID ` set specs - set order"
  shows "deg_of indeg v > 0"
proof -
  have "deg_of indeg v = int (length (filter (\<lambda>u. u \<notin> set order) (consumers_of specs v)))"
    and "\<not> set (consumers_of specs v) \<subseteq> set order"
    using inv v by (auto simp: kahn_inv_def)
  then show ?thesis by (auto simp: filter_empty_conv)
qed

lemma findCyclePath_found:
  assumes inv: "kahn_inv (js_RID ` set specs) (consumers_of specs) indeg order []"
    and keys: "js_RID ` set specs \<subseteq> set (gm_keys indeg)"
    and left: "js_RID ` set specs - set order \<noteq> {}"
  shows "cycle_path (snd (linked specs)) (findCyclePath (snd (linked specs)) indeg)"
proof -
  let ?L = "js_RID ` set specs - set order" and ?g = "snd (linked specs)"
  let ?roots = "sort (filter (\<lambda>n. deg_of indeg n > 0) (gm_keys indeg))"
  show ?thesis
  proof (cases "dfs_cycle ?g [] [] ?roots")
    case (Inl c)
    then show ?thesis using dfs_cycle_cycle [OF Inl] by (simp add: findCyclePath_def)
  next
    case (Inr visited)
    have fin: "set ?roots \<subseteq> set visited" "finished_ok ?g (set visited)"
      using dfs_cycle_complete [OF Inr] by (auto simp: finished_ok_def acyclic_def)
    have sub: "?L \<subseteq> set visited" using fin(1) keys leftover_degree [OF inv] by auto
    have "\<not> acyclic (spec_depends specs \<inter> ?L \<times> ?L)"
      using leftover_blocked [OF inv] left by (intro blocked_set_cyclic) auto
    moreover have "acyclic (spec_depends specs \<inter> set visited \<times> set visited)"
      using fin(2) by (simp add: finished_ok_def linked_edges)
    ultimately show ?thesis using sub by (meson Int_mono Sigma_mono acyclic_subset order_refl)
  qed
qed

lemma DetectCycles_cases:
  obtains (self) r where "DetectCycles specs = Some (Inl [r, r])" "(r, r) \<in> spec_depends specs"
  | (scanned) indeg order where "kahn_inv (js_RID ` set specs) (consumers_of specs) indeg order []"
    "js_RID ` set specs \<subseteq> set (gm_keys indeg)"
    "DetectCycles specs = Some
       (if length order = length specs then Inr ()
        else let cycle = findCyclePath (snd (linked specs)) indeg
             in Inl (if cycle \<noteq> [] then cycle else map js_RID specs))"
proof (cases "link_specs (producer_map specs) specs (init_links specs)")
  case (Inl p)
  then show ?thesis
    using link_specs_Inl [OF Inl] self by (auto simp: DetectCycles_def spec_edges_depends)
next
  case (Inr m)
  obtain indeg order where "pop_all (snd (linked specs)) (fst (linked specs)) (zero_frontier (fst (linked specs))) 0
       = Some (indeg, length order)"
    "kahn_inv (js_RID ` set specs) (consumers_of specs) indeg order []"
    "js_RID ` set specs \<subseteq> set (gm_keys indeg)"
    by (rule scan_result)
  then show ?thesis
    using Inr link_specs_linked [OF Inr] by (intro scanned) (auto simp: DetectCycles_def Let_def split: prod.splits)
qed

lemma scan_complete:
  assumes inv: "kahn_inv (js_RID ` set specs) (consumers_of specs) indeg order []"
  shows "js_RID ` set specs \<subseteq> set order \<longleftrightarrow> acyclic (spec_depends specs)"
proof
  assume "js_RID ` set specs \<subseteq> set order"
  then have "set order = js_RID ` set specs" using inv by (auto simp: kahn_inv_def)
  then have "topo_order (js_RID ` set specs) (consumers_of specs) order"
    using inv by (intro kahn_complete_topo)
  then show "acyclic (spec_depends specs)"
    by (rule topo_order_acyclic) (auto simp: consumers_of_iff dest: spec_depends_rid)
next
  let ?L = "js_RID ` set specs - set order"
  assume acyc: "acyclic (spec_depends specs)"
  have "?L = {}"
  proof (rule ccontr)
    assume "?L \<noteq> {}"
    then have "\<not> acyclic (spec_depends specs \<inter> ?L \<times> ?L)"
      using leftover_blocked [OF inv] by (intro blocked_set_cyclic) auto
    then show False using acyc by (meson acyclic_subset inf_le1)
  qed
  then show "js_RID ` set specs \<subseteq> set order" by blast
qed

lemma DetectCycles_verdict:
  assumes "distinct (map js_RID specs)"
  shows "DetectCycles specs = Some (Inr ()) \<and> acyclic (spec_depends specs) \<or>
    (\<exists>path. DetectCycles specs = Some (Inl path) \<and> closed_path (spec_depends specs) path)
      \<and> \<not> acyclic (spec_depends specs)"
proof (cases specs rule: DetectCycles_cases)
  case (self r)
  then have "closed_path (spec_depends specs) [r, r]" by (simp add: closed_path_def)
  then show ?thesis using self by (auto simp: acyclic_def)
next
  case (scanned indeg order)
  let ?path = "findCyclePath (snd (linked specs)) indeg"
  have card: "card (js_RID ` set specs) = length specs"
    using assms by (metis distinct_card length_map list.set_map)
  have len: "length order = length specs \<longleftrightarrow> js_RID ` set specs \<subseteq> set order"
    using kahn_inv_length [OF scanned(1)] scanned(1) unfolding card by (auto simp: kahn_inv_def)
  show ?thesis
  proof (cases "js_RID ` set specs \<subseteq> set order")
    case True
    then show ?thesis using scanned(3) len scan_complete [OF scanned(1)] by simp
  next
    case False
    then have cyc: "cycle_path (snd (linked specs)) ?path"
      by (intro findCyclePath_found [OF scanned(1,2)]) blast
    then have "?path \<noteq> []" by (auto simp: cycle_path_def)
    moreover have "closed_path (spec_depends specs) ?path"
      using cycle_path_closed [OF cyc] by (simp only: linked_edges)
    ultimately show ?thesis using scanned(3) False len scan_complete [OF scanned(1)] by (auto simp: Let_def)
  qed
qed

lemma DetectCycles_total: "DetectCycles specs \<noteq> None"
  by (cases specs rule: DetectCycles_cases) auto

section \<open>The stages\<close>

declare stages_loop.simps [simp del]

lemma stages_loop_order:
  "stages_loop deps remaining completed = xs @ stage # ys \<Longrightarrow>
   stage \<noteq> [] \<and> sorted stage \<and> (\<forall>v \<in> set stage. set (succs deps v) \<subseteq> set (completed @ concat xs))"
proof (induction deps remaining completed arbitrary: xs rule: stages_loop.induct)
  case (1 deps remaining completed)
  define ready where "ready = ready_stage deps remaining completed"
  have step: "stages_loop deps remaining completed =
      (if remaining = [] \<or> ready = [] then []
       else ready # stages_loop deps (filter (\<lambda>rid. rid \<notin> set ready) remaining) (completed @ ready))"
    by (subst stages_loop.simps) (simp add: ready_def Let_def)
  have ne: "\<not> (remaining = [] \<or> ready = [])" using "1.prems" step by auto
  show ?case
  proof (cases xs)
    case Nil
    then have "stage = ready" using "1.prems" step ne by simp
    then show ?thesis using ne Nil by (auto simp: ready_def ready_stage_def)
  next
    case (Cons z zs)
    have "ready # stages_loop deps (filter (\<lambda>rid. rid \<notin> set ready) remaining) (completed @ ready)
        = (z # zs) @ stage # ys"
      using "1.prems" step ne unfolding Cons by (simp only: if_False)
    then have z: "z = ready"
      and rest: "stages_loop deps (filter (\<lambda>rid. rid \<notin> set ready) remaining) (completed @ ready) = zs @ stage # ys"
      by (simp, metis append_Cons list.inject)
    show ?thesis using "1.IH" [OF ne [unfolded ready_def] ready_def rest] Cons z by simp
  qed
qed

lemma stages_loop_distinct:
  "distinct (completed @ remaining) \<Longrightarrow>
   distinct (completed @ concat (stages_loop deps remaining completed)) \<and>
   set (concat (stages_loop deps remaining completed)) \<subseteq> set remaining"
proof (induction deps remaining completed rule: stages_loop.induct)
  case (1 deps remaining completed)
  define ready where "ready = ready_stage deps remaining completed"
  let ?rest = "filter (\<lambda>rid. rid \<notin> set ready) remaining"
  have step: "stages_loop deps remaining completed =
      (if remaining = [] \<or> ready = [] then [] else ready # stages_loop deps ?rest (completed @ ready))"
    by (subst stages_loop.simps) (simp add: ready_def Let_def)
  have sub: "set ready \<subseteq> set remaining" by (auto simp: ready_def ready_stage_def)
  show ?case
  proof (cases "remaining = [] \<or> ready = []")
    case False
    have "distinct ready" using "1.prems" by (simp add: ready_def ready_stage_def)
    then have "distinct ((completed @ ready) @ ?rest)" using "1.prems" sub by auto
    from "1.IH" [OF False [unfolded ready_def] ready_def this] show ?thesis using False step sub by auto
  qed (use "1.prems" step in auto)
qed

lemma stages_loop_complete:
  "acyclic R \<Longrightarrow> (\<And>r u. u \<in> set (succs deps r) \<Longrightarrow> (r, u) \<in> R) \<Longrightarrow>
   (\<And>r. r \<in> set remaining \<Longrightarrow> set (succs deps r) \<subseteq> set (completed @ remaining)) \<Longrightarrow>
   set remaining \<subseteq> set (concat (stages_loop deps remaining completed))"
proof (induction deps remaining completed rule: stages_loop.induct)
  case (1 deps remaining completed)
  define ready where "ready = ready_stage deps remaining completed"
  let ?rest = "filter (\<lambda>rid. rid \<notin> set ready) remaining"
  have step: "stages_loop deps remaining completed =
      (if remaining = [] \<or> ready = [] then [] else ready # stages_loop deps ?rest (completed @ ready))"
    by (subst stages_loop.simps) (simp add: ready_def Let_def)
  show ?case
  proof (cases "remaining = []")
    case False
    have "ready \<noteq> []"
    proof
      assume "ready = []"
      then have "set ready = {}" by simp
      then have none: "\<not> set (succs deps r) \<subseteq> set completed" if "r \<in> set remaining" for r
        using that by (auto simp: ready_def ready_stage_def)
      have "\<exists>r \<in> set remaining. (r, v) \<in> R\<inverse>" if "v \<in> set remaining" for v
        using none [OF that] "1.prems"(2) "1.prems"(3) [OF that] by fastforce
      then have "\<not> acyclic (R\<inverse> \<inter> set remaining \<times> set remaining)"
        using False by (intro blocked_set_cyclic) auto
      moreover have "acyclic (R\<inverse>)" using "1.prems"(1) by simp
      ultimately show False by (meson acyclic_subset inf_le1)
    qed
    then have ne: "\<not> (remaining = [] \<or> ready = [])" using False by simp
    have "set (succs deps r) \<subseteq> set ((completed @ ready) @ ?rest)" if "r \<in> set ?rest" for r
      using "1.prems"(3) [of r] that by auto
    from "1.IH" [OF ne [unfolded ready_def] ready_def "1.prems"(1,2) this] show ?thesis using ne step by auto
  qed simp
qed

section \<open>The plan\<close>

definition plan_deps :: "JobSpec list \<Rightarrow> string adjacency" where
  "plan_deps specs = foldl (\<lambda>m s. gm_put m (js_RID s) (spec_deps (producer_map specs) s)) [] specs"

lemma BuildFanOutPlan_stages: "snd (BuildFanOutPlan lib buildID specs opened) = fanOutStages (plan_deps specs)"
  by (simp add: BuildFanOutPlan_def plan_deps_def Let_def)

lemma foldl_put_keys:
  "gm_ok m \<Longrightarrow> gm_ok (foldl (\<lambda>m s. gm_put m (key s) (f s)) m xs) \<and>
   set (gm_keys (foldl (\<lambda>m s. gm_put m (key s) (f s)) m xs)) = set (gm_keys m) \<union> key ` set xs"
  by (induction xs arbitrary: m) auto

lemma foldl_put_value:
  "distinct (map key xs) \<Longrightarrow> x \<in> set xs \<Longrightarrow>
   gm_get (foldl (\<lambda>m s. gm_put m (key s) (f s)) m xs) (key x) = Some (f x)"
proof (induction xs rule: rev_induct)
  case (snoc y ys)
  then show ?case by (cases "x = y") (auto simp: image_iff)
qed simp

lemma spec_deps_set: "set (spec_deps (producer_map specs) s) = set (upstreams specs s) - {js_RID s}"
  by (auto simp: spec_deps_def setKeys_def upstreams_def producer_map_get)

lemma plan_deps_keys: "set (gm_keys (plan_deps specs)) = js_RID ` set specs"
  by (simp add: plan_deps_def foldl_put_keys)

lemma plan_deps_succs:
  assumes "distinct (map js_RID specs)" "acyclic (spec_depends specs)"
  shows "u \<in> set (succs (plan_deps specs) r) \<longleftrightarrow> (r, u) \<in> spec_depends specs"
proof
  assume u: "u \<in> set (succs (plan_deps specs) r)"
  then have "r \<in> set (gm_keys (plan_deps specs))" by (metis empty_iff list.set(1) succs_no_key)
  then have "r \<in> js_RID ` set specs" by (simp add: plan_deps_keys)
  then obtain s where s: "s \<in> set specs" "r = js_RID s" by auto
  then have "succs (plan_deps specs) r = spec_deps (producer_map specs) s"
    using assms(1) by (simp add: plan_deps_def succs_def foldl_put_value)
  then show "(r, u) \<in> spec_depends specs" using u s by (auto simp: spec_deps_set spec_depends_def)
next
  assume ru: "(r, u) \<in> spec_depends specs"
  then obtain s where s: "s \<in> set specs" "r = js_RID s" "u \<in> set (upstreams specs s)"
    by (auto simp: spec_depends_def)
  moreover have "u \<noteq> r" using ru assms(2) by (auto simp: acyclic_def)
  ultimately show "u \<in> set (succs (plan_deps specs) r)"
    using assms(1) by (simp add: plan_deps_def succs_def foldl_put_value spec_deps_set)
qed

lemma fanOutStages_schedule:
  assumes dist: "distinct (map js_RID specs)" and acyc: "acyclic (spec_depends specs)"
    and stages: "stages = fanOutStages (plan_deps specs)"
  shows "distinct (concat stages)" "set (concat stages) = js_RID ` set specs"
    "stages = xs @ stage # ys \<Longrightarrow> (r, u) \<in> spec_depends specs \<Longrightarrow> r \<in> set stage \<Longrightarrow> u \<in> set (concat xs)"
    "stages = xs @ stage # ys \<Longrightarrow> stage \<noteq> [] \<and> sorted stage"
proof -
  have keys: "distinct (gm_keys (plan_deps specs))" "set (gm_keys (plan_deps specs)) = js_RID ` set specs"
    by (simp_all add: plan_deps_keys plan_deps_def foldl_put_keys flip: gm_keys_distinct)
  note loop = stages [unfolded fanOutStages_def]
  show "distinct (concat stages)"
    using stages_loop_distinct [of "[]" "gm_keys (plan_deps specs)"] keys loop by simp
  have "set (succs (plan_deps specs) r) \<subseteq> set ([] @ gm_keys (plan_deps specs))" for r
    using plan_deps_succs [OF dist acyc] spec_depends_rid keys(2) by fastforce
  then have "set (gm_keys (plan_deps specs)) \<subseteq> set (concat stages)"
    unfolding loop using plan_deps_succs [OF dist acyc]
    by (intro stages_loop_complete [OF acyc]) auto
  moreover have "set (concat stages) \<subseteq> set (gm_keys (plan_deps specs))"
    using stages_loop_distinct [of "[]" "gm_keys (plan_deps specs)"] keys loop by simp
  ultimately show "set (concat stages) = js_RID ` set specs" using keys(2) by simp
  show "stage \<noteq> [] \<and> sorted stage" if "stages = xs @ stage # ys"
    using stages_loop_order that loop by metis
  show "u \<in> set (concat xs)" if "stages = xs @ stage # ys" "(r, u) \<in> spec_depends specs" "r \<in> set stage"
    using stages_loop_order [of "plan_deps specs" _ "[]" xs stage ys] that loop plan_deps_succs [OF dist acyc]
    by fastforce
qed

section \<open>Properties\<close>

text \<open>
  C16. On specs with distinct RIDs \<open>DetectCycles\<close> always returns; it accepts exactly the builds whose
  dependencies are acyclic, and the path of its error is a cycle of dependencies, first and last spec equal.
\<close>

theorem DetectCycles_decides:
  assumes "distinct (map js_RID specs)"
  shows "DetectCycles specs \<noteq> None \<and>
    (DetectCycles specs = Some (Inr ()) \<longleftrightarrow> acyclic (spec_depends specs)) \<and>
    (\<forall>path. DetectCycles specs = Some (Inl path) \<longrightarrow> closed_path (spec_depends specs) path)"
  using DetectCycles_verdict [OF assms] by auto

definition spec_of :: "string \<Rightarrow> string list \<Rightarrow> string list \<Rightarrow> JobSpec" where
  "spec_of rid inputs outputs =
     \<lparr>js_RID = rid, js_PipelineRID = ''p'', js_BranchName = ''master'',
      js_Inputs = map (\<lambda>d. \<lparr>is_DatasetRID = d, is_FallbackChain = [], is_ViewFilter = [], is_RequireFresh = False\<rparr>) inputs,
      js_OutputDatasetRIDs = outputs, js_LogicKind = ''TRANSFORM'', js_LogicPayload = [], js_ContentHash = []\<rparr>"

definition specs_chain :: "JobSpec list" where
  "specs_chain = [spec_of ''s1'' [''raw'', ''x''] [''y''], spec_of ''s2'' [''raw''] [''x''], spec_of ''s3'' [''y'', ''x''] [''z'']]"

definition specs_loop :: "JobSpec list" where
  "specs_loop = [spec_of ''s1'' [''z''] [''y''], spec_of ''s2'' [''y''] [''z''], spec_of ''s3'' [''y''] [''w'']]"

lemma specs_chain_ok: "DetectCycles specs_chain = Some (Inr ())"
  by code_simp

lemma specs_loop_cycle: "DetectCycles specs_loop = Some (Inl [''s1'', ''s2'', ''s1''])"
  by code_simp

theorem DetectCycles_decides_witness:
  "acyclic (spec_depends specs_chain) \<and> closed_path (spec_depends specs_loop) [''s1'', ''s2'', ''s1'']"
proof -
  have "distinct (map js_RID specs_chain)" "distinct (map js_RID specs_loop)" by code_simp+
  then show ?thesis
    using DetectCycles_decides [of specs_chain] DetectCycles_decides [of specs_loop]
      specs_chain_ok specs_loop_cycle by simp
qed

text \<open>
  C24. For a build that passes \<open>DetectCycles\<close>, the plan has one job per spec, the stages hold every spec
  exactly once, no stage is empty, and whatever a spec depends on is in an earlier stage.
\<close>

theorem BuildFanOutPlan_schedule:
  assumes "distinct (map js_RID specs)" "DetectCycles specs = Some (Inr ())"
    and "BuildFanOutPlan lib buildID specs opened = (jobs, stages)"
  shows "map rj_JobSpecRID jobs = map js_RID specs \<and>
    distinct (concat stages) \<and> set (concat stages) = js_RID ` set specs \<and>
    (\<forall>before stage after. stages = before @ stage # after \<longrightarrow> stage \<noteq> [] \<and> sorted stage \<and>
       (\<forall>r u. (r, u) \<in> spec_depends specs \<longrightarrow> r \<in> set stage \<longrightarrow> u \<in> set (concat before)))"
proof -
  have acyc: "acyclic (spec_depends specs)" using DetectCycles_verdict [OF assms(1)] assms(2) by auto
  have stages: "stages = fanOutStages (plan_deps specs)"
    using assms(3) BuildFanOutPlan_stages [of lib buildID specs opened] by simp
  note plan = fanOutStages_schedule [OF assms(1) acyc stages]
  have "map rj_JobSpecRID jobs = map js_RID specs"
    using assms(3) by (auto simp: BuildFanOutPlan_def Let_def)
  then show ?thesis using plan(1,2) plan(3) plan(4) by (intro conjI allI impI) simp_all
qed

definition lib_0 :: uuid_lib where
  "lib_0 = \<lparr>ul_NewSHA1 = (\<lambda>u s. u + of_nat (length s)), ul_Parse = (\<lambda>s. None), ul_String = (\<lambda>u. ''b'')\<rparr>"

lemma plan_chain: "plan_deps specs_chain = [(''s1'', [''s2'']), (''s2'', []), (''s3'', [''s1'', ''s2''])]"
  by code_simp

lemma stages_chain: "fanOutStages [(''s1'', [''s2'']), (''s2'', []), (''s3'', [''s1'', ''s2''])] = [[''s2''], [''s1''], [''s3'']]"
  by code_simp

theorem BuildFanOutPlan_schedule_witness:
  "snd (BuildFanOutPlan lib_0 7 specs_chain []) = [[''s2''], [''s1''], [''s3'']] \<and>
   set (concat (snd (BuildFanOutPlan lib_0 7 specs_chain []))) = js_RID ` set specs_chain"
proof -
  have "distinct (map js_RID specs_chain)" by code_simp
  then have "set (concat (snd (BuildFanOutPlan lib_0 7 specs_chain []))) = js_RID ` set specs_chain"
    using BuildFanOutPlan_schedule [of specs_chain, OF _ specs_chain_ok prod.collapse [symmetric]] by blast
  moreover have "snd (BuildFanOutPlan lib_0 7 specs_chain []) = [[''s2''], [''s1''], [''s3'']]"
    by (simp only: BuildFanOutPlan_stages plan_chain stages_chain)
  ultimately show ?thesis by blast
qed

end
