(* ===== verification/Build_Resolver.thy ===== *)
theory Build_Resolver
  imports Job_Graph Executor "HOL-Library.Sublist"
begin

text \<open>
  Build resolution (\<open>pipeline-build-service/internal/domain/resolver/\<close>): the branch resolution of
  \<open>branch.go\<close> and, of \<open>resolver.go\<close>, \<open>LoadJobSpecs\<close>, \<open>ValidateInputs\<close>, \<open>AcquireLocks\<close> and
  \<open>ResolveBuild\<close>. The three ports are records of operations on the state of the service; the lock
  port has the locale \<open>lock_table\<close> as its contract.
\<close>

section \<open>Branch resolution\<close>

record ResolvedInput =
  ri_Branch :: string
  ri_FallbackIndex :: nat

datatype ResolvedOutput =
    ResolvedOutputExisting string
  | ResolvedOutputCreateFrom string string

datatype branch_error =
    NoMatchError string "string list" "string list"
  | IncompatibleAncestryError string string "string list" "string list"

definition apos :: string where
  "apos = [CHR 0x27]"

fun branch_error_Error :: "branch_error \<Rightarrow> string" where
  "branch_error_Error (NoMatchError buildBranch tried available) =
     ''no matching branch for build='' @ apos @ buildBranch @ apos @ ''; tried ['' @ joinStrings tried '', '' @
     ''] against dataset branches ['' @ joinStrings available '', '' @ '']''"
| "branch_error_Error (IncompatibleAncestryError dataset buildBranch chain ancestry) =
     ''incompatible ancestry on dataset='' @ apos @ dataset @ apos @ '': build='' @ apos @ buildBranch @ apos @ '' chain=['' @
     joinStrings chain '', '' @ ''] ancestry=['' @ joinStrings ancestry '', '' @ '']''"

text \<open>\<open>indexOf\<close>, with \<open>None\<close> for -1.\<close>

fun indexOf :: "string list \<Rightarrow> string \<Rightarrow> nat option" where
  "indexOf [] needle = None"
| "indexOf (x # xs) needle = (if x = needle then Some 0 else map_option Suc (indexOf xs needle))"

fun first_fallback :: "nat \<Rightarrow> string list \<Rightarrow> string list \<Rightarrow> (string \<times> nat) option" where
  "first_fallback i [] branches = None"
| "first_fallback i (candidate # chain) branches =
     (if indexOf branches candidate \<noteq> None then Some (candidate, i)
      else first_fallback (Suc i) chain branches)"

definition ResolveInputDataset :: "string \<Rightarrow> string list \<Rightarrow> string list \<Rightarrow> branch_error + ResolvedInput" where
  "ResolveInputDataset buildBranch fallbackChain datasetBranches =
     (if indexOf datasetBranches buildBranch \<noteq> None
      then Inr \<lparr>ri_Branch = buildBranch, ri_FallbackIndex = 0\<rparr>
      else case first_fallback 0 fallbackChain datasetBranches of
             Some (candidate, i) \<Rightarrow> Inr \<lparr>ri_Branch = candidate, ri_FallbackIndex = i + 1\<rparr>
           | None \<Rightarrow> Inl (NoMatchError buildBranch fallbackChain datasetBranches))"

definition ResolveOutputDataset :: "string \<Rightarrow> string list \<Rightarrow> string list \<Rightarrow> branch_error + ResolvedOutput" where
  "ResolveOutputDataset buildBranch fallbackChain datasetBranches =
     (if indexOf datasetBranches buildBranch \<noteq> None then Inr (ResolvedOutputExisting buildBranch)
      else case first_fallback 0 fallbackChain datasetBranches of
             Some (candidate, _) \<Rightarrow> Inr (ResolvedOutputCreateFrom candidate buildBranch)
           | None \<Rightarrow> Inl (NoMatchError buildBranch fallbackChain datasetBranches))"

text \<open>The cursor moves behind each candidate found; a candidate found only before it is out of order.\<close>

fun ancestry_from :: "string list \<Rightarrow> string list \<Rightarrow> nat \<Rightarrow> bool" where
  "ancestry_from ancestry [] cursor = True"
| "ancestry_from ancestry (candidate # chain) cursor =
     (case indexOf (drop cursor ancestry) candidate of
        Some offset \<Rightarrow> ancestry_from ancestry chain (cursor + offset + 1)
      | None \<Rightarrow> if indexOf ancestry candidate \<noteq> None then False else ancestry_from ancestry chain cursor)"

definition AssertChainAncestryCompatible ::
  "string \<Rightarrow> string \<Rightarrow> string list \<Rightarrow> string list \<Rightarrow> branch_error option" where
  "AssertChainAncestryCompatible datasetRID buildBranch fallbackChain datasetAncestry =
     (if datasetAncestry = [] \<or> ancestry_from datasetAncestry fallbackChain 0 then None
      else Some (IncompatibleAncestryError datasetRID buildBranch fallbackChain datasetAncestry))"

section \<open>Ports and errors\<close>

text \<open>An error of a port is a \<open>ClientError\<close> or anything else, by its text.\<close>

datatype port_error = ClientError string | PortError string

datatype resolve_error =
    MissingJobSpecError string "string list"
  | SpecCycleError "string list"
  | InputNotFoundError string
  | InputBranchMissingError string string "string list"
  | StaleInputError string
  | LockHeldError string uuid
  | ClientResolutionError string
  | InvalidLogicKindError string string
  | OtherError string

definition mapClientErr :: "port_error \<Rightarrow> resolve_error" where
  "mapClientErr err = (case err of ClientError m \<Rightarrow> ClientResolutionError m | PortError m \<Rightarrow> OtherError m)"

definition formatQuotedList :: "string list \<Rightarrow> string" where
  "formatQuotedList items = ''['' @ joinStrings (map quote items) '', '' @ '']''"

text \<open>The arrow between the nodes of a cycle is U+2192, three bytes of UTF-8.\<close>

definition arrow :: string where
  "arrow = '' '' @ [CHR 0xE2, CHR 0x86, CHR 0x92] @ '' ''"

fun resolve_error_Error :: "uuid_lib \<Rightarrow> resolve_error \<Rightarrow> string" where
  "resolve_error_Error lib (MissingJobSpecError d tried) =
     ''missing JobSpec for output dataset '' @ d @ '' (tried branches: '' @ formatQuotedList tried @ '')''"
| "resolve_error_Error lib (SpecCycleError path) = ''cycle detected in JobSpec graph: '' @ joinStrings path arrow"
| "resolve_error_Error lib (InputNotFoundError d) = ''input dataset '' @ d @ '' not found''"
| "resolve_error_Error lib (InputBranchMissingError d b chain) =
     ''input dataset '' @ d @ '' has no branch matching build='' @ apos @ b @ apos @ '' (chain: '' @ formatQuotedList chain @ '')''"
| "resolve_error_Error lib (StaleInputError d) =
     ''input '' @ d @ '' resolved to fallback branch but require_fresh=true''"
| "resolve_error_Error lib (LockHeldError d holder) =
     ''output dataset '' @ d @ '' already locked by build '' @ ul_String lib holder"
| "resolve_error_Error lib (ClientResolutionError m) = ''dataset versioning client error: '' @ m"
| "resolve_error_Error lib (InvalidLogicKindError rid reason) =
     ''invalid logic_kind on JobSpec '' @ rid @ '': '' @ reason"
| "resolve_error_Error lib (OtherError m) = m"

record BranchSnapshot =
  bs_Name :: string
  bs_HeadTransactionRID :: "string option"

record ResolvedInputView =
  rv_DatasetRID :: string
  rv_Branch :: string
  rv_HeadTransactionRID :: "string option"
  rv_Schema :: string

text \<open>Pipeline, output dataset, build branch and fallback chain; the answer may be no spec.\<close>

type_synonym 's JobSpecRepository =
  "string \<Rightarrow> string \<Rightarrow> string \<Rightarrow> string list \<Rightarrow> 's \<Rightarrow> port_error + JobSpec option"

record 's DatasetVersioningRepository =
  dv_ListBranches :: "string \<Rightarrow> 's \<Rightarrow> port_error + BranchSnapshot list"
  dv_OpenTransaction :: "string \<Rightarrow> string \<Rightarrow> 's \<Rightarrow> (port_error + string) \<times> 's"
  dv_ViewSchema :: "string \<Rightarrow> string \<Rightarrow> 's \<Rightarrow> port_error + string"

record 's BranchLockRepository =
  bl_TryAcquire :: "string \<Rightarrow> uuid \<Rightarrow> string \<Rightarrow> 's \<Rightarrow> (port_error + uuid \<times> bool) \<times> 's"
  bl_HasUpstreamInProgress :: "string list \<Rightarrow> uuid \<Rightarrow> 's \<Rightarrow> port_error + bool"

section \<open>Loading the specs\<close>

fun lookup_all :: "'s JobSpecRepository \<Rightarrow> string \<Rightarrow> string \<Rightarrow> string list \<Rightarrow> string list \<Rightarrow> 's \<Rightarrow>
    JobSpec list \<Rightarrow> resolve_error + JobSpec list" where
  "lookup_all repo pipeline branch chain [] s specs = Inr specs"
| "lookup_all repo pipeline branch chain (output # outputs) s specs =
     (case repo pipeline output branch chain s of
        Inl err \<Rightarrow> Inl (mapClientErr err)
      | Inr None \<Rightarrow> Inl (MissingJobSpecError output (branch # chain))
      | Inr (Some spec) \<Rightarrow> lookup_all repo pipeline branch chain outputs s (specs @ [spec]))"

text \<open>Equal RIDs are adjacent after the stable sort, and the first spec of a RID stays.\<close>

fun dedup_rids :: "string option \<Rightarrow> JobSpec list \<Rightarrow> JobSpec list" where
  "dedup_rids prev [] = []"
| "dedup_rids prev (spec # specs) =
     (if prev = Some (js_RID spec) then dedup_rids prev specs
      else spec # dedup_rids (Some (js_RID spec)) specs)"

definition LoadJobSpecs :: "string \<Rightarrow> string \<Rightarrow> string list \<Rightarrow> string list \<Rightarrow> 's JobSpecRepository \<Rightarrow> 's \<Rightarrow>
    resolve_error + JobSpec list" where
  "LoadJobSpecs pipelineRID buildBranch fallbackChain outputDatasetRIDs repo s =
     bindE (lookup_all repo pipelineRID buildBranch fallbackChain outputDatasetRIDs s [])
       (\<lambda>specs. Inr (dedup_rids None (sort_key js_RID specs)))"

definition ValidateLogicKind :: "string \<Rightarrow> nat \<Rightarrow> string" where
  "ValidateLogicKind kind outputCount =
     (if map to_upper_char kind \<in> {''SYNC'', ''TRANSFORM'', ''HEALTH_CHECK'', ''ANALYTICAL'', ''EXPORT''}
      then if outputCount = 0 then ''at least one output dataset is required'' else []
      else ''unsupported logic_kind '' @ kind)"

fun check_kinds :: "JobSpec list \<Rightarrow> resolve_error option" where
  "check_kinds [] = None"
| "check_kinds (spec # specs) =
     (let reason = ValidateLogicKind (js_LogicKind spec) (length (js_OutputDatasetRIDs spec))
      in if reason \<noteq> [] then Some (InvalidLogicKindError (js_RID spec) reason) else check_kinds specs)"

section \<open>Inputs\<close>

definition outputSet :: "JobSpec list \<Rightarrow> string set" where
  "outputSet specs = (\<Union>s \<in> set specs. set (js_OutputDatasetRIDs s))"

definition externalInputDatasetRIDs :: "JobSpec list \<Rightarrow> string list" where
  "externalInputDatasetRIDs specs =
     setKeys (filter (\<lambda>d. d \<notin> outputSet specs) (concat (map (\<lambda>s. map is_DatasetRID (js_Inputs s)) specs)))"

definition headTransactionForBranch :: "BranchSnapshot list \<Rightarrow> string \<Rightarrow> string option" where
  "headTransactionForBranch snapshots branch =
     (case List.find (\<lambda>b. bs_Name b = branch) snapshots of Some b \<Rightarrow> bs_HeadTransactionRID b | None \<Rightarrow> None)"

text \<open>One external input, seen for the first time.\<close>

definition validate_input :: "string \<Rightarrow> InputSpec \<Rightarrow> 's DatasetVersioningRepository \<Rightarrow> 's \<Rightarrow>
    resolve_error + ResolvedInputView" where
  "validate_input buildBranch input client s =
     (case dv_ListBranches client (is_DatasetRID input) s of
        Inl err \<Rightarrow> Inl (mapClientErr err)
      | Inr snapshots \<Rightarrow>
          if snapshots = [] then Inl (InputNotFoundError (is_DatasetRID input))
          else case ResolveInputDataset buildBranch (is_FallbackChain input) (map bs_Name snapshots) of
             Inl _ \<Rightarrow> Inl (InputBranchMissingError (is_DatasetRID input) buildBranch (is_FallbackChain input))
           | Inr outcome \<Rightarrow>
               if is_RequireFresh input \<and> ri_FallbackIndex outcome > 0
               then Inl (StaleInputError (is_DatasetRID input))
               else case dv_ViewSchema client (is_DatasetRID input) (ri_Branch outcome) s of
                  Inl err \<Rightarrow> Inl (mapClientErr err)
                | Inr schema \<Rightarrow> Inr \<lparr>rv_DatasetRID = is_DatasetRID input, rv_Branch = ri_Branch outcome,
                    rv_HeadTransactionRID = headTransactionForBranch snapshots (ri_Branch outcome),
                    rv_Schema = (if schema = [] then ''null'' else schema)\<rparr>)"

text \<open>The two nested loops, over the inputs of all specs in their order.\<close>

fun validate_loop :: "string \<Rightarrow> string set \<Rightarrow> 's DatasetVersioningRepository \<Rightarrow> 's \<Rightarrow> InputSpec list \<Rightarrow>
    string list \<Rightarrow> ResolvedInputView list \<Rightarrow> resolve_error + ResolvedInputView list" where
  "validate_loop branch outputs client s [] seen resolved = Inr resolved"
| "validate_loop branch outputs client s (input # inputs) seen resolved =
     (if is_DatasetRID input \<in> outputs \<or> is_DatasetRID input \<in> set seen
      then validate_loop branch outputs client s inputs seen resolved
      else case validate_input branch input client s of
             Inl err \<Rightarrow> Inl err
           | Inr view \<Rightarrow> validate_loop branch outputs client s inputs (is_DatasetRID input # seen) (resolved @ [view]))"

definition ValidateInputs :: "string \<Rightarrow> JobSpec list \<Rightarrow> 's DatasetVersioningRepository \<Rightarrow> 's \<Rightarrow>
    resolve_error + ResolvedInputView list" where
  "ValidateInputs buildBranch specs client s =
     validate_loop buildBranch (outputSet specs) client s (concat (map js_Inputs specs)) [] []"

section \<open>Locks\<close>

fun acquire_loop :: "uuid \<Rightarrow> string \<Rightarrow> 's DatasetVersioningRepository \<Rightarrow> 's BranchLockRepository option \<Rightarrow>
    string list \<Rightarrow> string list \<Rightarrow> OpenedTransaction list \<Rightarrow> 's \<Rightarrow> (resolve_error + OpenedTransaction list) \<times> 's" where
  "acquire_loop buildID branch client locks [] seen opened s = (Inr opened, s)"
| "acquire_loop buildID branch client locks (output # outputs) seen opened s =
     (if output \<in> set seen then acquire_loop buildID branch client locks outputs seen opened s
      else case dv_OpenTransaction client output branch s of
        (Inl err, s1) \<Rightarrow> (Inl (mapClientErr err), s1)
      | (Inr txn, s1) \<Rightarrow>
          (case locks of
             None \<Rightarrow> acquire_loop buildID branch client locks outputs (output # seen)
                       (opened @ [\<lparr>op_DatasetRID = output, op_TransactionRID = txn\<rparr>]) s1
           | Some lock \<Rightarrow>
               (case bl_TryAcquire lock output buildID txn s1 of
                  (Inl err, s2) \<Rightarrow> (Inl (mapClientErr err), s2)
                | (Inr (holder, ok), s2) \<Rightarrow>
                    if \<not> ok then (Inl (LockHeldError output holder), s2)
                    else acquire_loop buildID branch client locks outputs (output # seen)
                           (opened @ [\<lparr>op_DatasetRID = output, op_TransactionRID = txn\<rparr>]) s2)))"

definition AcquireLocks :: "uuid \<Rightarrow> JobSpec list \<Rightarrow> string \<Rightarrow> 's DatasetVersioningRepository \<Rightarrow>
    's BranchLockRepository option \<Rightarrow> 's \<Rightarrow> (resolve_error + OpenedTransaction list) \<times> 's" where
  "AcquireLocks buildID specs buildBranch client locks s =
     acquire_loop buildID buildBranch client locks (concat (map js_OutputDatasetRIDs specs)) [] [] s"

section \<open>ResolveBuild\<close>

text \<open>
  Trigger kind, abort policy and requester only pass through: the defaults that \<open>ResolveBuild\<close> fills in
  for its own copy are not read again.
\<close>

record ResolveBuildArgs =
  ra_BuildID :: "uuid option"
  ra_PipelineRID :: string
  ra_BuildBranch :: string
  ra_JobSpecFallback :: "string list"
  ra_OutputDatasetRIDs :: "string list"
  ra_ForceBuild :: bool
  ra_RequestedBy :: string
  ra_TriggerKind :: string
  ra_AbortPolicy :: string

record ResolvedBuild =
  rb_BuildID :: uuid
  rb_State :: BuildState
  rb_ForceBuild :: bool
  rb_JobSpecs :: "JobSpec list"
  rb_InputViews :: "ResolvedInputView list"
  rb_OpenedTransactions :: "OpenedTransaction list"
  rb_Jobs :: "ResolvedJob list"
  rb_FanOutStages :: "string list list"
  rb_QueuedReason :: "string option"
  rb_ResolvedAt :: instant

text \<open>The steps behind the checks: the id, the wait for upstream builds, locks and plan.\<close>

definition resolve_locked :: "uuid_lib \<Rightarrow> instant \<Rightarrow> uuid \<Rightarrow> ResolveBuildArgs \<Rightarrow> JobSpec list \<Rightarrow>
    ResolvedInputView list \<Rightarrow> 's DatasetVersioningRepository \<Rightarrow> 's BranchLockRepository option \<Rightarrow> 's \<Rightarrow>
    (resolve_error + ResolvedBuild) \<times> 's" where
  "resolve_locked lib started newID args specs inputViews versioning locks s =
     (let buildID = (case ra_BuildID args of Some i \<Rightarrow> i | None \<Rightarrow> newID);
          base = \<lparr>rb_BuildID = buildID, rb_State = BuildResolution, rb_ForceBuild = ra_ForceBuild args,
            rb_JobSpecs = specs, rb_InputViews = inputViews, rb_OpenedTransactions = [], rb_Jobs = [],
            rb_FanOutStages = [], rb_QueuedReason = None, rb_ResolvedAt = started\<rparr>
      in case (case locks of None \<Rightarrow> Inr False
               | Some lock \<Rightarrow> bl_HasUpstreamInProgress lock (externalInputDatasetRIDs specs) buildID s) of
           Inl err \<Rightarrow> (Inl (mapClientErr err), s)
         | Inr True \<Rightarrow> (Inr (base\<lparr>rb_State := BuildQueued, rb_QueuedReason := Some ''upstream build in progress''\<rparr>), s)
         | Inr False \<Rightarrow>
             (case AcquireLocks buildID specs (ra_BuildBranch args) versioning locks s of
                (Inl err, s') \<Rightarrow> (Inl err, s')
              | (Inr opened, s') \<Rightarrow>
                  (case BuildFanOutPlan lib buildID specs opened of
                     (planned, stages) \<Rightarrow> (Inr (base\<lparr>rb_OpenedTransactions := opened, rb_Jobs := planned,
                                           rb_FanOutStages := stages\<rparr>), s'))))"

definition ResolveBuild :: "uuid_lib \<Rightarrow> instant \<Rightarrow> uuid \<Rightarrow> ResolveBuildArgs \<Rightarrow> 's JobSpecRepository \<Rightarrow>
    's DatasetVersioningRepository \<Rightarrow> 's BranchLockRepository option \<Rightarrow> 's \<Rightarrow>
    ((resolve_error + ResolvedBuild) \<times> 's) option" where
  "ResolveBuild lib started newID args jobSpecs versioning locks s =
     (case LoadJobSpecs (ra_PipelineRID args) (ra_BuildBranch args) (ra_JobSpecFallback args)
             (ra_OutputDatasetRIDs args) jobSpecs s of
        Inl err \<Rightarrow> Some (Inl err, s)
      | Inr specs \<Rightarrow>
     (case check_kinds specs of
        Some err \<Rightarrow> Some (Inl err, s)
      | None \<Rightarrow>
     (case DetectCycles specs of
        None \<Rightarrow> None
      | Some (Inl path) \<Rightarrow> Some (Inl (SpecCycleError path), s)
      | Some (Inr _) \<Rightarrow>
     (case ValidateInputs (ra_BuildBranch args) specs versioning s of
        Inl err \<Rightarrow> Some (Inl err, s)
      | Inr inputViews \<Rightarrow>
          Some (resolve_locked lib started newID args specs inputViews versioning locks s)))))"

section \<open>What branch resolution returns\<close>

lemma indexOf_None: "indexOf xs x = None \<longleftrightarrow> x \<notin> set xs"
  by (induction xs) auto

lemma indexOf_Some: "indexOf xs x = Some i \<Longrightarrow> \<exists>ys. xs = take i xs @ x # ys \<and> drop (Suc i) xs = ys"
  by (induction xs arbitrary: i) (auto split: if_splits)

lemma first_fallback_None: "first_fallback i chain branches = None \<longleftrightarrow> set chain \<inter> set branches = {}"
  by (induction i chain branches rule: first_fallback.induct) (auto simp: indexOf_None)

lemma first_fallback_Some:
  "first_fallback i chain branches = Some (c, j) \<Longrightarrow>
   i \<le> j \<and> j - i < length chain \<and> c = chain ! (j - i) \<and> c \<in> set branches \<and>
   set (take (j - i) chain) \<inter> set branches = {}"
proof (induction i chain branches rule: first_fallback.induct)
  case (2 i candidate chain branches)
  show ?case
  proof (cases "candidate \<in> set branches")
    case False
    then have "first_fallback (Suc i) chain branches = Some (c, j)" and "indexOf branches candidate = None"
      using 2(2) by (simp_all add: indexOf_None)
    with 2(1) False show ?thesis by (cases "j - i") (auto simp: Suc_le_eq diff_Suc split: nat.splits)
  next
    case True
    then have "indexOf branches candidate \<noteq> None" by (simp add: indexOf_None)
    then have "c = candidate \<and> j = i" using 2(2) by simp
    with True show ?thesis by simp
  qed
qed simp

lemma ResolveInputDataset_Inr:
  assumes "ResolveInputDataset branch chain branches = Inr r"
  shows "ri_FallbackIndex r \<le> length chain \<and> ri_Branch r = (branch # chain) ! ri_FallbackIndex r \<and>
    ri_Branch r \<in> set branches \<and> set (take (ri_FallbackIndex r) (branch # chain)) \<inter> set branches = {}"
proof (cases "branch \<in> set branches")
  case True
  then have "indexOf branches branch \<noteq> None" by (simp add: indexOf_None)
  then have "r = \<lparr>ri_Branch = branch, ri_FallbackIndex = 0\<rparr>" using assms by (simp add: ResolveInputDataset_def)
  with True show ?thesis by simp
next
  case False
  then obtain c j where c: "first_fallback 0 chain branches = Some (c, j)"
    and r: "r = \<lparr>ri_Branch = c, ri_FallbackIndex = j + 1\<rparr>"
    using assms by (auto simp: ResolveInputDataset_def indexOf_None split: option.splits)
  show ?thesis using first_fallback_Some [OF c] False r by auto
qed

lemma ResolveInputDataset_Inl:
  "ResolveInputDataset branch chain branches = Inl e \<longleftrightarrow>
     set (branch # chain) \<inter> set branches = {} \<and> e = NoMatchError branch chain branches"
proof (cases "branch \<in> set branches")
  case True
  then have "indexOf branches branch \<noteq> None" by (simp add: indexOf_None)
  with True show ?thesis by (simp add: ResolveInputDataset_def)
next
  case False
  then show ?thesis using first_fallback_None [of 0 chain branches]
    by (cases "first_fallback 0 chain branches") (auto simp: ResolveInputDataset_def indexOf_None)
qed

lemma subseq_head: "subseq (c # xs) zs \<Longrightarrow> c \<in> set zs"
  by (induction zs) (auto split: if_splits)

lemma subseq_first: "c \<notin> set zs \<Longrightarrow> subseq (c # xs) (zs @ c # ys) \<longleftrightarrow> subseq xs ys"
  by (induction zs) auto

lemma indexOf_split:
  "indexOf xs x = Some i \<Longrightarrow> x \<notin> set (take i xs) \<and> xs = take i xs @ x # drop (Suc i) xs"
  by (induction xs arbitrary: i) (auto split: if_splits)

text \<open>The greedy scan decides whether the candidates known to the dataset follow its ancestry.\<close>

lemma ancestry_from_subseq:
  "ancestry_from ancestry chain cursor \<longleftrightarrow>
     subseq (filter (\<lambda>c. c \<in> set ancestry) chain) (drop cursor ancestry)"
proof (induction chain arbitrary: cursor)
  case (Cons c chain)
  show ?case
  proof (cases "indexOf (drop cursor ancestry) c")
    case None
    then have "\<not> subseq (c # xs) (drop cursor ancestry)" for xs
      using subseq_head [of c xs] by (auto simp: indexOf_None)
    moreover have "ancestry_from ancestry (c # chain) cursor \<longleftrightarrow>
        c \<notin> set ancestry \<and> ancestry_from ancestry chain cursor"
      using indexOf_None [of ancestry c] by (simp add: None)
    ultimately show ?thesis using Cons.IH by simp
  next
    case (Some i)
    let ?rest = "drop (cursor + i + 1) ancestry"
    have split: "c \<notin> set (take i (drop cursor ancestry))"
      "drop cursor ancestry = take i (drop cursor ancestry) @ c # ?rest"
      using indexOf_split [OF Some] by (simp_all add: add.commute)
    have known: "c \<in> set ancestry"
      using Some indexOf_None [of "drop cursor ancestry" c] by (auto dest: in_set_dropD)
    have "subseq (c # xs) (drop cursor ancestry) \<longleftrightarrow> subseq xs ?rest" for xs
      by (subst split(2)) (rule subseq_first [OF split(1)])
    then show ?thesis using Some known Cons.IH by simp
  qed
qed simp

lemma AssertChainAncestryCompatible_iff:
  "AssertChainAncestryCompatible d b chain ancestry = None \<longleftrightarrow>
     ancestry = [] \<or> subseq (filter (\<lambda>c. c \<in> set ancestry) chain) ancestry"
  by (simp add: AssertChainAncestryCompatible_def ancestry_from_subseq)

section \<open>What the loader returns\<close>

lemma lookup_all_Inr:
  "lookup_all repo pipeline branch chain outputs s acc = Inr specs \<Longrightarrow>
   \<exists>new. specs = acc @ new \<and> length new = length outputs \<and>
     (\<forall>i < length outputs. repo pipeline (outputs ! i) branch chain s = Inr (Some (new ! i)))"
proof (induction repo pipeline branch chain outputs s acc rule: lookup_all.induct)
  case (2 repo pipeline branch chain out outputs s acc)
  then obtain spec where spec: "repo pipeline out branch chain s = Inr (Some spec)"
    and rest: "lookup_all repo pipeline branch chain outputs s (acc @ [spec]) = Inr specs"
    by (auto split: sum.splits option.splits)
  from "2.IH" [OF spec refl rest] obtain new where "specs = (acc @ [spec]) @ new"
    "length new = length outputs"
    "\<forall>i < length outputs. repo pipeline (outputs ! i) branch chain s = Inr (Some (new ! i))"
    by auto
  with spec show ?case by (intro exI [of _ "spec # new"]) (auto simp: nth_Cons split: nat.splits)
qed simp

lemma dedup_rids_set: "js_RID ` set (dedup_rids prev specs) \<union> set_option prev = js_RID ` set specs \<union> set_option prev"
  by (induction prev specs rule: dedup_rids.induct) auto

lemma dedup_rids_sub: "set (dedup_rids prev specs) \<subseteq> set specs"
  by (induction prev specs rule: dedup_rids.induct) auto

lemma dedup_rids_sorted:
  "sorted (map js_RID specs) \<Longrightarrow> (\<And>r s. prev = Some r \<Longrightarrow> s \<in> set specs \<Longrightarrow> r \<le> js_RID s) \<Longrightarrow>
   sorted (map js_RID (dedup_rids prev specs)) \<and> distinct (map js_RID (dedup_rids prev specs)) \<and>
   (\<forall>r. prev = Some r \<longrightarrow> (\<forall>s \<in> set (dedup_rids prev specs). r < js_RID s))"
proof (induction prev specs rule: dedup_rids.induct)
  case (2 prev spec specs)
  show ?case
  proof (cases "prev = Some (js_RID spec)")
    case True
    then show ?thesis using 2 by auto
  next
    case False
    have IH: "sorted (map js_RID (dedup_rids (Some (js_RID spec)) specs))"
      "distinct (map js_RID (dedup_rids (Some (js_RID spec)) specs))"
      "\<forall>s \<in> set (dedup_rids (Some (js_RID spec)) specs). js_RID spec < js_RID s"
      using "2.IH"(2) [OF False] "2.prems"(1) by auto
    have "r < js_RID spec" if "prev = Some r" for r
      using "2.prems"(2) [OF that, of spec] that False by (auto simp: order.strict_iff_order)
    then show ?thesis using IH False by (fastforce simp: image_iff dest: order.strict_trans)
  qed
qed simp

lemma LoadJobSpecs_facts:
  assumes "LoadJobSpecs pipeline branch chain outputs repo s = Inr specs"
  shows "distinct (map js_RID specs)" "sorted (map js_RID specs)"
    "output \<in> set outputs \<Longrightarrow> \<exists>spec. repo pipeline output branch chain s = Inr (Some spec) \<and>
       js_RID spec \<in> js_RID ` set specs"
    "spec \<in> set specs \<Longrightarrow> \<exists>output \<in> set outputs. repo pipeline output branch chain s = Inr (Some spec)"
proof -
  obtain found where found: "length found = length outputs"
    "\<forall>i < length outputs. repo pipeline (outputs ! i) branch chain s = Inr (Some (found ! i))"
    and specs: "specs = dedup_rids None (sort_key js_RID found)"
    using assms lookup_all_Inr [of repo pipeline branch chain outputs s "[]"]
    by (auto simp: LoadJobSpecs_def bindE_Inr_iff)
  show "distinct (map js_RID specs)" "sorted (map js_RID specs)"
    unfolding specs using dedup_rids_sorted [of "sort_key js_RID found" None] by auto
  have rids: "js_RID ` set specs = js_RID ` set found"
    using dedup_rids_set [of None "sort_key js_RID found"] by (simp add: specs)
  show "\<exists>spec. repo pipeline output branch chain s = Inr (Some spec) \<and> js_RID spec \<in> js_RID ` set specs"
    if "output \<in> set outputs"
    using that found unfolding rids by (metis image_eqI in_set_conv_nth)
  show "\<exists>output \<in> set outputs. repo pipeline output branch chain s = Inr (Some spec)" if "spec \<in> set specs"
  proof -
    have "spec \<in> set found" using that dedup_rids_sub by (fastforce simp: specs)
    then show ?thesis using found by (metis in_set_conv_nth)
  qed
qed

section \<open>What the validation returns\<close>

lemma validate_loop_Inr:
  "validate_loop branch outs client s inputs seen resolved = Inr views \<Longrightarrow>
   \<exists>new. views = resolved @ new \<and> distinct (map rv_DatasetRID new) \<and>
     rv_DatasetRID ` set new = is_DatasetRID ` set inputs - outs - set seen \<and>
     (\<forall>view \<in> set new. \<exists>input \<in> set inputs. validate_input branch input client s = Inr view)"
proof (induction inputs arbitrary: seen resolved)
  case (Cons input inputs)
  let ?d = "is_DatasetRID input"
  show ?case
  proof (cases "?d \<in> outs \<or> ?d \<in> set seen")
    case True
    then show ?thesis using Cons.IH [of seen resolved] Cons.prems by fastforce
  next
    case False
    then obtain view where view: "validate_input branch input client s = Inr view"
      and rest: "validate_loop branch outs client s inputs (?d # seen) (resolved @ [view]) = Inr views"
      using Cons.prems by (auto split: sum.splits)
    have d: "rv_DatasetRID view = ?d"
      using view by (auto simp: validate_input_def split: sum.splits if_splits)
    obtain new where new: "views = (resolved @ [view]) @ new" "distinct (map rv_DatasetRID new)"
      "rv_DatasetRID ` set new = is_DatasetRID ` set inputs - outs - set (?d # seen)"
      "\<forall>view \<in> set new. \<exists>input \<in> set inputs. validate_input branch input client s = Inr view"
      using Cons.IH [OF rest] by auto
    have "distinct (map rv_DatasetRID (view # new))" using new(2,3) d by auto
    moreover have "rv_DatasetRID ` set (view # new) = is_DatasetRID ` set (input # inputs) - outs - set seen"
      using new(3) d False by auto
    ultimately show ?thesis using new(1,4) view by (intro exI [of _ "view # new"]) auto
  qed
qed simp

lemma validate_input_branch:
  assumes "validate_input branch input client s = Inr view"
  obtains snapshots r where "dv_ListBranches client (is_DatasetRID input) s = Inr snapshots"
    "ResolveInputDataset branch (is_FallbackChain input) (map bs_Name snapshots) = Inr r"
    "rv_Branch view = ri_Branch r" "is_RequireFresh input \<longrightarrow> ri_FallbackIndex r = 0"
  using assms that by (auto simp: validate_input_def split: sum.splits if_splits)

section \<open>The contract of the lock port\<close>

text \<open>
  \<open>holder\<close> reads from the state which build holds the lock of a dataset. A lock is taken only when it
  is free, a refused lock names its holder, and nothing else changes; opening a transaction touches no lock.
\<close>

lemma try_result_cases:
  fixes r :: "port_error + uuid \<times> bool"
  obtains e where "r = Inl e" | h where "r = Inr (h, False)" | h where "r = Inr (h, True)"
  by (metis (full_types) old.sum.exhaust prod.exhaust)

locale lock_table =
  fixes client :: "'s DatasetVersioningRepository" and lock :: "'s BranchLockRepository"
    and holder :: "'s \<Rightarrow> string \<Rightarrow> uuid option"
  assumes open_holder: "dv_OpenTransaction client d branch s = (r, s') \<Longrightarrow> holder s' = holder s"
    and try_ok: "bl_TryAcquire lock d b txn s = (Inr (h, True), s') \<Longrightarrow>
      holder s d = None \<and> holder s' = (holder s)(d := Some b)"
    and try_held: "bl_TryAcquire lock d b txn s = (Inr (h, False), s') \<Longrightarrow>
      holder s d = Some h \<and> holder s' = holder s"
    and try_err: "bl_TryAcquire lock d b txn s = (Inl e, s') \<Longrightarrow> holder s' = holder s"
begin

text \<open>The locks a run has taken when it stops: all of the fresh outputs, or those before the failure.\<close>

definition taken_ok :: "uuid \<Rightarrow> string list \<Rightarrow> string list \<Rightarrow> OpenedTransaction list \<Rightarrow> 's \<Rightarrow> 's \<Rightarrow> bool" where
  "taken_ok b outputs seen new s s' \<longleftrightarrow>
     distinct (map op_DatasetRID new) \<and> op_DatasetRID ` set new \<subseteq> set outputs - set seen \<and>
     (\<forall>d \<in> op_DatasetRID ` set new. holder s d = None) \<and>
     holder s' = (\<lambda>d. if d \<in> op_DatasetRID ` set new then Some b else holder s d)"

lemma taken_cons:
  assumes "taken_ok b outputs (d # seen) new s1 s'" "holder s d = None" "holder s1 = (holder s)(d := Some b)"
    "d \<notin> set seen"
  shows "taken_ok b (d # outputs) seen (\<lparr>op_DatasetRID = d, op_TransactionRID = t\<rparr> # new) s s'"
  using assms by (auto simp: taken_ok_def fun_eq_iff split: if_splits)

lemma taken_skip: "taken_ok b outputs seen new s s' \<Longrightarrow> taken_ok b (d # outputs) seen new s s'"
  by (auto simp: taken_ok_def)

lemma taken_none: "holder s' = holder s \<Longrightarrow> taken_ok b outputs seen [] s s'"
  by (simp add: taken_ok_def)

lemma acquire_loop_locks:
  "acquire_loop b branch client (Some lock) outputs seen opened s = (r, s') \<Longrightarrow>
   \<exists>new. taken_ok b outputs seen new s s' \<and>
     (case r of
        Inr opened' \<Rightarrow> opened' = opened @ new \<and> op_DatasetRID ` set new = set outputs - set seen
      | Inl e \<Rightarrow> \<forall>d h. e = LockHeldError d h \<longrightarrow> d \<in> set outputs - set seen - op_DatasetRID ` set new \<and> holder s d = Some h)"
proof (induction outputs arbitrary: seen opened s)
  case Nil
  then show ?case by (auto intro!: taken_none exI [of _ "[]"])
next
  case (Cons d outputs)
  show ?case
  proof (cases "d \<in> set seen")
    case True
    then have "acquire_loop b branch client (Some lock) outputs seen opened s = (r, s')"
      using Cons.prems by simp
    from Cons.IH [OF this] obtain new where new: "taken_ok b outputs seen new s s'"
      "case r of Inr opened' \<Rightarrow> opened' = opened @ new \<and> op_DatasetRID ` set new = set outputs - set seen
         | Inl e \<Rightarrow> \<forall>d h. e = LockHeldError d h \<longrightarrow> d \<in> set outputs - set seen - op_DatasetRID ` set new \<and> holder s d = Some h"
      by blast
    show ?thesis using new(2) True
      by (intro exI [of _ new] conjI taken_skip [OF new(1)]) (auto split: sum.splits)
  next
    case fresh: False
    obtain r1 s1 where op: "dv_OpenTransaction client d branch s = (r1, s1)" by fastforce
    note h1 = open_holder [OF op]
    show ?thesis
    proof (cases r1)
      case (Inl err)
      then have "r = Inl (mapClientErr err)" "s' = s1" using Cons.prems fresh op by simp_all
      then show ?thesis using h1 by (intro exI [of _ "[]"]) (auto simp: mapClientErr_def taken_none split: port_error.splits)
    next
      case (Inr txn)
      obtain r2 s2 where try': "bl_TryAcquire lock d b txn s1 = (r2, s2)" by fastforce
      consider (err) e where "r2 = Inl e" | (held) h where "r2 = Inr (h, False)" | (ok) h where "r2 = Inr (h, True)"
        by (cases r2 rule: try_result_cases)
      then show ?thesis
      proof cases
        case err
        then have "r = Inl (mapClientErr e)" "s' = s2" using Cons.prems fresh op Inr try' by simp_all
        then show ?thesis using h1 try_err [OF try' [unfolded err]]
          by (intro exI [of _ "[]"]) (auto simp: mapClientErr_def taken_none split: port_error.splits)
      next
        case held
        then have "r = Inl (LockHeldError d h)" "s' = s2" using Cons.prems fresh op Inr try' by simp_all
        then show ?thesis using h1 try_held [OF try' [unfolded held]]
          fresh by (intro exI [of _ "[]"]) (auto simp: taken_none)
      next
        case ok
        note got = try_ok [OF try' [unfolded ok]]
        have "acquire_loop b branch client (Some lock) outputs (d # seen)
            (opened @ [\<lparr>op_DatasetRID = d, op_TransactionRID = txn\<rparr>]) s2 = (r, s')"
          using Cons.prems fresh op Inr try' ok by simp
        from Cons.IH [OF this] obtain new where new: "taken_ok b outputs (d # seen) new s2 s'"
          "case r of Inr opened' \<Rightarrow> opened' = (opened @ [\<lparr>op_DatasetRID = d, op_TransactionRID = txn\<rparr>]) @ new \<and>
               op_DatasetRID ` set new = set outputs - set (d # seen)
           | Inl e \<Rightarrow> \<forall>d' h. e = LockHeldError d' h \<longrightarrow> d' \<in> set outputs - set (d # seen) - op_DatasetRID ` set new \<and> holder s2 d' = Some h"
          by blast
        have "taken_ok b (d # outputs) seen (\<lparr>op_DatasetRID = d, op_TransactionRID = txn\<rparr> # new) s s'"
          using got h1 fresh by (intro taken_cons [OF new(1)]) auto
        then show ?thesis using new(2) fresh got h1
          by (intro exI [of _ "\<lparr>op_DatasetRID = d, op_TransactionRID = txn\<rparr> # new"]) (auto split: sum.splits if_splits)
      qed
    qed
  qed
qed

end

lemma ValidateInputs_Inr:
  assumes "ValidateInputs branch specs client s = Inr views"
  shows "distinct (map rv_DatasetRID views)"
    "rv_DatasetRID ` set views = set (externalInputDatasetRIDs specs)"
    "view \<in> set views \<Longrightarrow> \<exists>snapshots. dv_ListBranches client (rv_DatasetRID view) s = Inr snapshots \<and>
       rv_Branch view \<in> bs_Name ` set snapshots"
proof -
  have new: "distinct (map rv_DatasetRID views)"
    "rv_DatasetRID ` set views = is_DatasetRID ` set (concat (map js_Inputs specs)) - outputSet specs"
    "\<forall>view \<in> set views. \<exists>input. validate_input branch input client s = Inr view"
    using validate_loop_Inr [OF assms [unfolded ValidateInputs_def]] by fastforce+
  show "distinct (map rv_DatasetRID views)" by (fact new)
  show "rv_DatasetRID ` set views = set (externalInputDatasetRIDs specs)"
    unfolding new(2) by (auto simp: externalInputDatasetRIDs_def setKeys_def)
  show "\<exists>snapshots. dv_ListBranches client (rv_DatasetRID view) s = Inr snapshots \<and>
       rv_Branch view \<in> bs_Name ` set snapshots" if "view \<in> set views"
  proof -
    obtain input where input: "validate_input branch input client s = Inr view" using new(3) \<open>view \<in> set views\<close> by blast
    obtain snapshots r where r: "dv_ListBranches client (is_DatasetRID input) s = Inr snapshots"
      "ResolveInputDataset branch (is_FallbackChain input) (map bs_Name snapshots) = Inr r"
      "rv_Branch view = ri_Branch r"
      using input by (rule validate_input_branch)
    have "rv_DatasetRID view = is_DatasetRID input"
      using input by (auto simp: validate_input_def split: sum.splits if_splits)
    moreover have "rv_Branch view \<in> bs_Name ` set snapshots"
      using ResolveInputDataset_Inr [OF r(2)] by (metis list.set_map r(3))
    ultimately show ?thesis using r(1) by auto
  qed
qed

section \<open>What ResolveBuild returns\<close>

lemma acquire_loop_opened:
  "acquire_loop b branch client locks outputs seen opened s = (Inr opened', s') \<Longrightarrow>
   \<exists>new. opened' = opened @ new \<and> distinct (map op_DatasetRID new) \<and>
     op_DatasetRID ` set new = set outputs - set seen"
proof (induction outputs arbitrary: seen opened s)
  case (Cons d outputs)
  show ?case
  proof (cases "d \<in> set seen")
    case True
    then have "acquire_loop b branch client locks outputs seen opened s = (Inr opened', s')"
      using Cons.prems by simp
    from Cons.IH [OF this] True show ?thesis by auto
  next
    case False
    then obtain txn s2 where
      "acquire_loop b branch client locks outputs (d # seen)
         (opened @ [\<lparr>op_DatasetRID = d, op_TransactionRID = txn\<rparr>]) s2 = (Inr opened', s')"
      using Cons.prems by (auto split: prod.splits sum.splits option.splits if_splits)
    from Cons.IH [OF this] obtain new where
      "opened' = opened @ (\<lparr>op_DatasetRID = d, op_TransactionRID = txn\<rparr> # new)"
      "distinct (map op_DatasetRID new)" "op_DatasetRID ` set new = set outputs - set (d # seen)"
      by auto
    with False show ?thesis
      by (intro exI [of _ "\<lparr>op_DatasetRID = d, op_TransactionRID = txn\<rparr> # new"]) auto
  qed
qed simp

lemma ResolveBuild_total: "ResolveBuild lib now newID args repo client locks s = None \<longleftrightarrow> False"
  by (simp add: ResolveBuild_def DetectCycles_total split: sum.splits option.splits)

lemma ResolveBuild_Inr:
  assumes "ResolveBuild lib now newID args repo client locks s = Some (Inr rb, s')"
  obtains specs views where
    "LoadJobSpecs (ra_PipelineRID args) (ra_BuildBranch args) (ra_JobSpecFallback args) (ra_OutputDatasetRIDs args) repo s = Inr specs"
    "DetectCycles specs = Some (Inr ())" "ValidateInputs (ra_BuildBranch args) specs client s = Inr views"
    "resolve_locked lib now newID args specs views client locks s = (Inr rb, s')"
  using assms that by (auto simp: ResolveBuild_def split: sum.splits option.splits)

lemma resolve_locked_Inr:
  assumes "resolve_locked lib now newID args specs views client locks s = (Inr rb, s')"
  shows "rb_JobSpecs rb = specs" "rb_InputViews rb = views"
    "rb_BuildID rb = (case ra_BuildID args of Some i \<Rightarrow> i | None \<Rightarrow> newID)"
    "rb_QueuedReason rb \<noteq> None \<Longrightarrow> s' = s \<and> rb_State rb = BuildQueued \<and> rb_OpenedTransactions rb = []"
    "rb_QueuedReason rb = None \<Longrightarrow> rb_State rb = BuildResolution \<and>
       AcquireLocks (rb_BuildID rb) specs (ra_BuildBranch args) client locks s = (Inr (rb_OpenedTransactions rb), s') \<and>
       BuildFanOutPlan lib (rb_BuildID rb) specs (rb_OpenedTransactions rb) = (rb_Jobs rb, rb_FanOutStages rb)"
  using assms
  by (auto simp: resolve_locked_def Let_def split: sum.splits option.splits prod.splits bool.splits)

lemma ResolveBuild_unchanged:
  assumes "ResolveBuild lib now newID args repo client locks s = Some (r, s')" "s' \<noteq> s"
  obtains specs views where "LoadJobSpecs (ra_PipelineRID args) (ra_BuildBranch args) (ra_JobSpecFallback args)
      (ra_OutputDatasetRIDs args) repo s = Inr specs"
    "resolve_locked lib now newID args specs views client locks s = (r, s')"
  using assms that by (auto simp: ResolveBuild_def split: sum.splits option.splits)

section \<open>Properties\<close>

text \<open>
  C25. \<open>AssertChainAncestryCompatible\<close> accepts a fallback chain exactly when the candidates the dataset
  knows occur in its ancestry in the order of the chain: the cursor scan decides the subsequence order.
\<close>

theorem AssertChainAncestryCompatible_subseq:
  "AssertChainAncestryCompatible d b chain ancestry = None \<longleftrightarrow>
     subseq (filter (\<lambda>c. c \<in> set ancestry) chain) ancestry"
  using AssertChainAncestryCompatible_iff [of d b chain ancestry] by (cases "ancestry = []") auto

text \<open>
  C13. A resolved build: its specs have distinct RIDs in ascending order and acyclic dependencies; every
  requested output was looked up and its spec is among them; the input views are the external inputs,
  each once, on a branch their dataset has; a build that does not wait has opened one transaction
  for each output, and its stages run every spec after what it depends on. A build that waits for an upstream
  build has changed nothing.
\<close>

theorem ResolveBuild_resolved:
  assumes "ResolveBuild lib now newID args repo client locks s = Some (Inr rb, s')"
  shows "distinct (map js_RID (rb_JobSpecs rb)) \<and> sorted (map js_RID (rb_JobSpecs rb)) \<and>
    acyclic (spec_depends (rb_JobSpecs rb)) \<and>
    (\<forall>output \<in> set (ra_OutputDatasetRIDs args). \<exists>spec.
       repo (ra_PipelineRID args) output (ra_BuildBranch args) (ra_JobSpecFallback args) s = Inr (Some spec) \<and>
       js_RID spec \<in> js_RID ` set (rb_JobSpecs rb)) \<and>
    distinct (map rv_DatasetRID (rb_InputViews rb)) \<and>
    rv_DatasetRID ` set (rb_InputViews rb) = set (externalInputDatasetRIDs (rb_JobSpecs rb)) \<and>
    (\<forall>view \<in> set (rb_InputViews rb). \<exists>snapshots.
       dv_ListBranches client (rv_DatasetRID view) s = Inr snapshots \<and> rv_Branch view \<in> bs_Name ` set snapshots) \<and>
    (rb_QueuedReason rb \<noteq> None \<longrightarrow> s' = s \<and> rb_OpenedTransactions rb = []) \<and>
    (rb_QueuedReason rb = None \<longrightarrow>
       distinct (map op_DatasetRID (rb_OpenedTransactions rb)) \<and>
       op_DatasetRID ` set (rb_OpenedTransactions rb) = outputSet (rb_JobSpecs rb) \<and>
       set (concat (rb_FanOutStages rb)) = js_RID ` set (rb_JobSpecs rb) \<and>
       (\<forall>before stage after r u. rb_FanOutStages rb = before @ stage # after \<longrightarrow> r \<in> set stage \<longrightarrow>
          (r, u) \<in> spec_depends (rb_JobSpecs rb) \<longrightarrow> u \<in> set (concat before)))"
proof -
  obtain specs views where load: "LoadJobSpecs (ra_PipelineRID args) (ra_BuildBranch args) (ra_JobSpecFallback args)
      (ra_OutputDatasetRIDs args) repo s = Inr specs"
    and acyc: "DetectCycles specs = Some (Inr ())"
    and views: "ValidateInputs (ra_BuildBranch args) specs client s = Inr views"
    and locked: "resolve_locked lib now newID args specs views client locks s = (Inr rb, s')"
    using assms by (rule ResolveBuild_Inr)
  note specs = LoadJobSpecs_facts [OF load] and rb = resolve_locked_Inr [OF locked]
  have dag: "acyclic (spec_depends specs)" using DetectCycles_verdict [OF specs(1)] acyc by auto
  note vs = ValidateInputs_Inr [OF views]
  have ready: "distinct (map op_DatasetRID (rb_OpenedTransactions rb)) \<and>
      op_DatasetRID ` set (rb_OpenedTransactions rb) = outputSet specs"
    "rb_FanOutStages rb = fanOutStages (plan_deps specs)" if "rb_QueuedReason rb = None"
  proof -
    have "acquire_loop (rb_BuildID rb) (ra_BuildBranch args) client locks
        (concat (map js_OutputDatasetRIDs specs)) [] [] s = (Inr (rb_OpenedTransactions rb), s')"
      using rb(5) [OF that] by (simp add: AcquireLocks_def)
    from acquire_loop_opened [OF this]
    show "distinct (map op_DatasetRID (rb_OpenedTransactions rb)) \<and>
        op_DatasetRID ` set (rb_OpenedTransactions rb) = outputSet specs"
      by (auto simp: outputSet_def)
    show "rb_FanOutStages rb = fanOutStages (plan_deps specs)"
      using rb(5) [OF that] BuildFanOutPlan_stages [of lib "rb_BuildID rb" specs "rb_OpenedTransactions rb"]
      by simp
  qed
  note plan = fanOutStages_schedule [OF specs(1) dag ready(2)]
  show ?thesis unfolding rb(1,2)
    using specs dag vs rb(4) ready(1) plan(2) plan(3) by (intro conjI impI ballI allI) simp_all
qed

section \<open>Example\<close>

definition ports_0 :: "unit DatasetVersioningRepository" where
  "ports_0 = \<lparr>dv_ListBranches = (\<lambda>d s. Inr [\<lparr>bs_Name = ''master'', bs_HeadTransactionRID = None\<rparr>]),
     dv_OpenTransaction = (\<lambda>d b s. (Inr (''t'' @ d), s)), dv_ViewSchema = (\<lambda>d b s. Inr [])\<rparr>"

definition specs_0 :: "unit JobSpecRepository" where
  "specs_0 = (\<lambda>pipeline output branch chain s.
     Inr (if output = ''y'' then Some (spec_of ''s2'' [''x''] [''y'']) else Some (spec_of ''s1'' [''i''] [''x''])))"

definition args_0 :: ResolveBuildArgs where
  "args_0 = \<lparr>ra_BuildID = Some 5, ra_PipelineRID = ''p'', ra_BuildBranch = ''master'', ra_JobSpecFallback = [],
     ra_OutputDatasetRIDs = [''y'', ''x''], ra_ForceBuild = False, ra_RequestedBy = [], ra_TriggerKind = [], ra_AbortPolicy = []\<rparr>"

lemma resolve_0:
  "map_option (map_sum id (\<lambda>rb. (rb_FanOutStages rb, rb_QueuedReason rb, map js_RID (rb_JobSpecs rb))) \<circ> fst)
     (ResolveBuild lib_0 7 3 args_0 specs_0 ports_0 None ()) = Some (Inr ([[''s1''], [''s2'']], None, [''s1'', ''s2'']))"
  by code_simp

theorem ResolveBuild_resolved_witness:
  "\<exists>rb. ResolveBuild lib_0 7 3 args_0 specs_0 ports_0 None () = Some (Inr rb, ()) \<and>
     rb_FanOutStages rb = [[''s1''], [''s2'']] \<and>
     op_DatasetRID ` set (rb_OpenedTransactions rb) = outputSet (rb_JobSpecs rb) \<and> acyclic (spec_depends (rb_JobSpecs rb))"
proof -
  obtain r where r: "ResolveBuild lib_0 7 3 args_0 specs_0 ports_0 None () = Some (r, ())"
    using resolve_0 by auto
  obtain rb where rb: "r = Inr rb" and shape: "rb_FanOutStages rb = [[''s1''], [''s2'']]" "rb_QueuedReason rb = None"
    using resolve_0 r by (cases r) auto
  note R = ResolveBuild_resolved [OF r [unfolded rb]]
  have "acyclic (spec_depends (rb_JobSpecs rb))" using R by (elim conjE)
  moreover have "op_DatasetRID ` set (rb_OpenedTransactions rb) = outputSet (rb_JobSpecs rb)"
    using shape(2) R [THEN conjunct2, THEN conjunct2, THEN conjunct2, THEN conjunct2, THEN conjunct2, THEN conjunct2,
        THEN conjunct2, THEN conjunct2] by (elim impE conjE)
  ultimately show ?thesis using r rb shape(1) by blast
qed

end
