(* ===== verification/Build_Store.thy ===== *)
theory Build_Store
  imports Build_Resolver
begin

text \<open>
  The tables of the build service and the operations of its repository on them
  (\<open>pipeline-build-service/internal/postgres/repository.go\<close>): the ports of the resolver, opening and
  persisting a build with its staleness check, the events of the executor, and the operations of an
  abort. A statement that fails leaves the tables as they were; which statements fail, and with which
  text, is part of the environment. Columns that only report (runtime, worker, counters, output
  metadata) are not part of the rows.
\<close>

section \<open>Tables\<close>

record build_row =
  br_PipelineRID :: string
  br_BuildBranch :: string
  br_JobSpecFallback :: "string list"
  br_TargetDatasetRIDs :: "string list"
  br_State :: string
  br_TriggerKind :: string
  br_ForceBuild :: bool
  br_RequestedBy :: string
  br_AbortPolicy :: string
  br_ErrorMessage :: "string option"
  br_QueuedAt :: "instant option"
  br_StartedAt :: "instant option"
  br_FinishedAt :: "instant option"

record build_job_row =
  bj_BuildID :: uuid
  bj_JobSpecRID :: string
  bj_LogicKind :: string
  bj_ContentHash :: string
  bj_InputDatasetRIDs :: "string list"
  bj_OutputDatasetRIDs :: "string list"
  bj_InputSignature :: string
  bj_LogicHash :: string
  bj_StaleSkipped :: bool
  bj_State :: string
  bj_OutputTransactionRIDs :: "string list"
  bj_StateChangedAt :: instant
  bj_StartedAt :: "instant option"
  bj_FinishedAt :: "instant option"
  bj_Attempt :: nat
  bj_FailureReason :: "string option"

record output_row =
  ow_TransactionRID :: string
  ow_Committed :: bool
  ow_Aborted :: bool

record job_transition_row =
  jt_JobID :: uuid
  jt_From :: string
  jt_To :: string
  jt_Reason :: string

text \<open>The live rows of \<open>dataset_branches\<close>: dataset, branch, head transaction.\<close>

record branch_row =
  bw_DatasetRID :: string
  bw_Name :: string
  bw_Head :: "string option"
  bw_Schema :: string

record build_db =
  db_builds :: "(uuid, build_row) gomap"
  db_jobs :: "(uuid, build_job_row) gomap"
  db_outputs :: "(uuid \<times> string, output_row) gomap"
  db_deps :: "(uuid \<times> uuid) list"
  db_transitions :: "job_transition_row list"
  db_locks :: "(string, uuid \<times> string) gomap"
  db_transactions :: "(string \<times> string \<times> string) list"
  db_branches :: "branch_row list"

datatype sql_stmt =
    SqlBranches string | SqlOpenTransaction string | SqlSchema string
  | SqlTryLock string | SqlLockHolder string | SqlUpstream
  | SqlOpenBuild | SqlMarkFailed | SqlBegin | SqlResolvedState | SqlFreshJob string | SqlUpsertJob string
  | SqlUpsertOutput string string | SqlUpsertDependency string string | SqlCommitTx
  | SqlCommitOutput string | SqlOutputStats string | SqlAbortOutput string
  | SqlMarkRunning | SqlUpdateJob uuid | SqlInsertTransition uuid | SqlFinishBuild | SqlReleaseLocks
  | SqlLoadBuild | SqlMarkAborting | SqlMarkAborted | SqlListJobs | SqlListOutputs uuid
  | SqlListDependencies | SqlListSpecs

text \<open>\<open>pe_catalog\<close> says whether the URL of the Iceberg catalog is configured.\<close>

record pg_env =
  pe_now :: instant
  pe_fault :: "sql_stmt \<Rightarrow> string option"
  pe_newID :: "string \<Rightarrow> uuid"
  pe_uuids :: uuid_lib
  pe_catalog :: bool

text \<open>One statement whose only result is its effect.\<close>

definition exec :: "pg_env \<Rightarrow> sql_stmt \<Rightarrow> (build_db \<Rightarrow> build_db) \<Rightarrow> build_db \<Rightarrow> string option \<times> build_db" where
  "exec env st f db = (case pe_fault env st of Some e \<Rightarrow> (Some e, db) | None \<Rightarrow> (None, f db))"

text \<open>\<open>if err := a; err != nil { return err }; return b\<close>.\<close>

definition and_then :: "(build_db \<Rightarrow> string option \<times> build_db) \<Rightarrow> (build_db \<Rightarrow> string option \<times> build_db) \<Rightarrow>
    build_db \<Rightarrow> string option \<times> build_db" where
  "and_then a b db = (case a db of (Some e, db') \<Rightarrow> (Some e, db') | (None, db') \<Rightarrow> b db')"

section \<open>The ports of the resolver\<close>

definition pg_ListBranches :: "pg_env \<Rightarrow> string \<Rightarrow> build_db \<Rightarrow> port_error + BranchSnapshot list" where
  "pg_ListBranches env d db =
     (case pe_fault env (SqlBranches d) of
        Some e \<Rightarrow> Inl (PortError e)
      | None \<Rightarrow> Inr (map (\<lambda>b. \<lparr>bs_Name = bw_Name b, bs_HeadTransactionRID = bw_Head b\<rparr>)
          (sort_key bw_Name (filter (\<lambda>b. bw_DatasetRID b = d) (db_branches db)))))"

definition transaction_prefix :: string where
  "transaction_prefix = ''ri.foundry.main.transaction.''"

definition pg_OpenTransaction :: "pg_env \<Rightarrow> string \<Rightarrow> string \<Rightarrow> build_db \<Rightarrow> (port_error + string) \<times> build_db" where
  "pg_OpenTransaction env d branch db =
     (case pe_fault env (SqlOpenTransaction d) of
        Some e \<Rightarrow> (Inl (PortError e), db)
      | None \<Rightarrow>
          if \<not> (\<exists>b \<in> set (db_branches db). bw_DatasetRID b = d \<and> bw_Name b = branch)
          then (Inl (PortError (''dataset branch not found: '' @ d @ ''@'' @ branch)), db)
          else let rid = transaction_prefix @ ul_String (pe_uuids env) (pe_newID env d)
               in (Inr rid, db\<lparr>db_transactions := db_transactions db @ [(rid, d, branch)]\<rparr>))"

definition pg_ViewSchema :: "pg_env \<Rightarrow> string \<Rightarrow> string \<Rightarrow> build_db \<Rightarrow> port_error + string" where
  "pg_ViewSchema env d branch db =
     (case pe_fault env (SqlSchema d) of
        Some e \<Rightarrow> Inl (PortError e)
      | None \<Rightarrow>
          (case List.find (\<lambda>b. bw_DatasetRID b = d \<and> bw_Name b = branch) (db_branches db) of
             None \<Rightarrow> Inr ''{}''
           | Some b \<Rightarrow> Inr (if bw_Schema b = [] then ''{}'' else bw_Schema b)))"

text \<open>The key of the lock table is the dataset; its build column refers to a row of \<open>builds\<close>.\<close>

definition pg_TryAcquire :: "pg_env \<Rightarrow> string \<Rightarrow> uuid \<Rightarrow> string \<Rightarrow> build_db \<Rightarrow> (port_error + uuid \<times> bool) \<times> build_db" where
  "pg_TryAcquire env d buildID txn db =
     (case pe_fault env (SqlTryLock d) of
        Some e \<Rightarrow> (Inl (PortError e), db)
      | None \<Rightarrow>
     (case gm_get (db_locks db) d of
        None \<Rightarrow>
          if gm_get (db_builds db) buildID = None
          then (Inl (PortError ''violates foreign key constraint''), db)
          else (Inr (0, True), db\<lparr>db_locks := gm_put (db_locks db) d (buildID, txn)\<rparr>)
      | Some (holder, _) \<Rightarrow>
          (case pe_fault env (SqlLockHolder d) of
             Some e \<Rightarrow> (Inl (PortError e), db)
           | None \<Rightarrow> (Inr (holder, False), db))))"

definition in_progress :: "string \<Rightarrow> bool" where
  "in_progress state \<longleftrightarrow> state \<in> {''BUILD_RESOLUTION'', ''BUILD_QUEUED'', ''BUILD_RUNNING'', ''BUILD_ABORTING''}"

definition pg_HasUpstreamInProgress :: "pg_env \<Rightarrow> string list \<Rightarrow> uuid \<Rightarrow> build_db \<Rightarrow> port_error + bool" where
  "pg_HasUpstreamInProgress env inputs self db =
     (if inputs = [] then Inr False
      else case pe_fault env SqlUpstream of
        Some e \<Rightarrow> Inl (PortError e)
      | None \<Rightarrow> Inr (\<exists>(j, d) \<in> set (gm_keys (db_outputs db)). d \<in> set inputs \<and>
          (case gm_get (db_jobs db) j of
             None \<Rightarrow> False
           | Some job \<Rightarrow>
               (case gm_get (db_builds db) (bj_BuildID job) of
                  None \<Rightarrow> False
                | Some b \<Rightarrow> bj_BuildID job \<noteq> self \<and> in_progress (br_State b)))))"

definition pg_versioning :: "pg_env \<Rightarrow> build_db DatasetVersioningRepository" where
  "pg_versioning env = \<lparr>dv_ListBranches = pg_ListBranches env, dv_OpenTransaction = pg_OpenTransaction env,
     dv_ViewSchema = pg_ViewSchema env\<rparr>"

definition pg_locks :: "pg_env \<Rightarrow> build_db BranchLockRepository" where
  "pg_locks env = \<lparr>bl_TryAcquire = pg_TryAcquire env, bl_HasUpstreamInProgress = pg_HasUpstreamInProgress env\<rparr>"

definition lock_holder :: "build_db \<Rightarrow> string \<Rightarrow> uuid option" where
  "lock_holder db d = map_option fst (gm_get (db_locks db) d)"

interpretation pg: lock_table "pg_versioning env" "pg_locks env" lock_holder for env
proof
  show "dv_OpenTransaction (pg_versioning env) d branch s = (r, s') \<Longrightarrow> lock_holder s' = lock_holder s"
    for d branch s r s'
    by (auto simp: pg_versioning_def pg_OpenTransaction_def lock_holder_def Let_def split: option.splits if_splits)
  show "bl_TryAcquire (pg_locks env) d b txn s = (Inr (h, True), s') \<Longrightarrow>
      lock_holder s d = None \<and> lock_holder s' = (lock_holder s)(d := Some b)" for d b txn s h s'
    by (auto simp: pg_locks_def pg_TryAcquire_def lock_holder_def fun_eq_iff split: option.splits if_splits)
  show "bl_TryAcquire (pg_locks env) d b txn s = (Inr (h, False), s') \<Longrightarrow>
      lock_holder s d = Some h \<and> lock_holder s' = lock_holder s" for d b txn s h s'
    by (auto simp: pg_locks_def pg_TryAcquire_def lock_holder_def split: option.splits if_splits)
  show "bl_TryAcquire (pg_locks env) d b txn s = (Inl e, s') \<Longrightarrow> lock_holder s' = lock_holder s" for d b txn s e s'
    by (auto simp: pg_locks_def pg_TryAcquire_def split: option.splits if_splits)
qed

section \<open>The life of a build row\<close>

definition uniqueStrings :: "string list \<Rightarrow> string list" where
  "uniqueStrings xs = setKeys (filter (\<lambda>v. v \<noteq> []) (map trim_space xs))"

text \<open>An update of a row that is not there changes nothing.\<close>

definition update_build :: "uuid \<Rightarrow> (build_row \<Rightarrow> build_row) \<Rightarrow> build_db \<Rightarrow> build_db" where
  "update_build i f db =
     (case gm_get (db_builds db) i of None \<Rightarrow> db | Some b \<Rightarrow> db\<lparr>db_builds := gm_put (db_builds db) i (f b)\<rparr>)"

definition coalesce :: "'a option \<Rightarrow> 'a option \<Rightarrow> 'a option" where
  "coalesce a b = (case a of Some x \<Rightarrow> Some x | None \<Rightarrow> b)"

text \<open>The checks of the table come before the conflict on the key is noticed.\<close>

definition build_checks :: "string \<Rightarrow> string \<Rightarrow> string option" where
  "build_checks triggerKind abortPolicy =
     (if triggerKind \<notin> {''MANUAL'', ''SCHEDULED'', ''FORCE''} then Some ''builds_trigger_kind_check''
      else if abortPolicy \<notin> {''DEPENDENT_ONLY'', ''ALL_NON_DEPENDENT''} then Some ''builds_abort_policy_check''
      else None)"

definition OpenBuild :: "pg_env \<Rightarrow> ResolveBuildArgs \<Rightarrow> uuid \<Rightarrow> build_db \<Rightarrow> string option \<times> build_db" where
  "OpenBuild env args buildID db =
     (let triggerKind = (if ra_TriggerKind args = [] then ''MANUAL'' else ra_TriggerKind args);
          abortPolicy = (if ra_AbortPolicy args = [] then ''DEPENDENT_ONLY'' else ra_AbortPolicy args);
          row = \<lparr>br_PipelineRID = ra_PipelineRID args, br_BuildBranch = ra_BuildBranch args,
            br_JobSpecFallback = ra_JobSpecFallback args,
            br_TargetDatasetRIDs = uniqueStrings (ra_OutputDatasetRIDs args),
            br_State = ''BUILD_RESOLUTION'', br_TriggerKind = triggerKind, br_ForceBuild = ra_ForceBuild args,
            br_RequestedBy = ra_RequestedBy args, br_AbortPolicy = abortPolicy, br_ErrorMessage = None,
            br_QueuedAt = None, br_StartedAt = None, br_FinishedAt = None\<rparr>
      in case build_checks triggerKind abortPolicy of
           Some e \<Rightarrow> (Some e, db)
         | None \<Rightarrow> exec env SqlOpenBuild (\<lambda>db. if gm_get (db_builds db) buildID = None
               then db\<lparr>db_builds := gm_put (db_builds db) buildID row\<rparr> else db) db)"

definition MarkBuildFailed :: "pg_env \<Rightarrow> uuid \<Rightarrow> string \<Rightarrow> build_db \<Rightarrow> string option \<times> build_db" where
  "MarkBuildFailed env buildID reason =
     exec env SqlMarkFailed (update_build buildID (\<lambda>b. b\<lparr>br_State := ''BUILD_FAILED'', br_ErrorMessage := Some reason,
       br_FinishedAt := Some (pe_now env)\<rparr>))"

definition release_rows :: "uuid \<Rightarrow> build_db \<Rightarrow> build_db" where
  "release_rows buildID db = db\<lparr>db_locks := filter (\<lambda>(d, b, t). b \<noteq> buildID) (db_locks db)\<rparr>"

definition releaseBuildLocks :: "pg_env \<Rightarrow> uuid \<Rightarrow> build_db \<Rightarrow> string option \<times> build_db" where
  "releaseBuildLocks env buildID db =
     (if buildID = 0 then (None, db) else exec env SqlReleaseLocks (release_rows buildID) db)"

definition markBuildRunning :: "pg_env \<Rightarrow> uuid \<Rightarrow> build_db \<Rightarrow> string option \<times> build_db" where
  "markBuildRunning env buildID db =
     (if buildID = 0 then (None, db)
      else exec env SqlMarkRunning (update_build buildID (\<lambda>b.
        if br_State b \<in> {''BUILD_RESOLUTION'', ''BUILD_QUEUED''}
        then b\<lparr>br_State := ''BUILD_RUNNING'', br_StartedAt := coalesce (br_StartedAt b) (Some (pe_now env))\<rparr>
        else b)) db)"

section \<open>The events of the executor\<close>

text \<open>The update of a job row with \<open>WHERE id = .. AND state = from\<close>; the flag says whether it matched.\<close>

definition cas_job :: "uuid \<Rightarrow> string \<Rightarrow> (build_job_row \<Rightarrow> build_job_row) \<Rightarrow> build_db \<Rightarrow> bool \<times> build_db" where
  "cas_job j from f db =
     (case gm_get (db_jobs db) j of
        None \<Rightarrow> (False, db)
      | Some job \<Rightarrow>
          if bj_State job = from then (True, db\<lparr>db_jobs := gm_put (db_jobs db) j (f job)\<rparr>) else (False, db))"

definition isFailureState :: "string \<Rightarrow> bool" where
  "isFailureState state \<longleftrightarrow> state \<in> {''FAILED'', ''ABORTED'', ''ABORT_PENDING''}"

text \<open>The five forms of the update in \<open>Record\<close>.\<close>

definition recorded_job :: "pg_env \<Rightarrow> AuditEvent \<Rightarrow> build_job_row \<Rightarrow> build_job_row" where
  "recorded_job env ev job =
     (let moved = job\<lparr>bj_State := ae_To ev, bj_StateChangedAt := pe_now env, bj_Attempt := max (bj_Attempt job) (ae_Attempt ev)\<rparr>;
          now = Some (pe_now env)
      in if ae_To ev = ''COMPLETED'' \<and> equal_fold (trim_space (ae_Reason ev)) ''ignored because fresh''
         then moved\<lparr>bj_StartedAt := coalesce (bj_StartedAt job) now, bj_FinishedAt := coalesce (bj_FinishedAt job) now,
                bj_StaleSkipped := True, bj_FailureReason := None\<rparr>
         else if isFailureState (ae_To ev)
         then moved\<lparr>bj_FinishedAt := coalesce (bj_FinishedAt job) now, bj_FailureReason := Some (ae_Reason ev)\<rparr>
         else if ae_To ev = ''RUNNING'' then moved\<lparr>bj_StartedAt := coalesce (bj_StartedAt job) now\<rparr>
         else if ae_To ev = ''COMPLETED'' then moved\<lparr>bj_FinishedAt := coalesce (bj_FinishedAt job) now\<rparr>
         else moved)"

definition add_transition :: "uuid \<Rightarrow> string \<Rightarrow> string \<Rightarrow> string \<Rightarrow> build_db \<Rightarrow> build_db" where
  "add_transition j from to reason db =
     db\<lparr>db_transitions := db_transitions db @ [\<lparr>jt_JobID = j, jt_From = from, jt_To = to, jt_Reason = reason\<rparr>]\<rparr>"

text \<open>\<open>error_message = COALESCE(NULLIF($3, ''), error_message)\<close> for a failed or aborted build.\<close>

definition finish_build :: "pg_env \<Rightarrow> AuditEvent \<Rightarrow> build_row \<Rightarrow> build_row" where
  "finish_build env ev b =
     (let b1 = b\<lparr>br_State := ae_To ev, br_FinishedAt := coalesce (br_FinishedAt b) (Some (pe_now env))\<rparr>
      in if ae_To ev = ''BUILD_COMPLETED'' \<or> ae_Reason ev = [] then b1
         else b1\<lparr>br_ErrorMessage := Some (ae_Reason ev)\<rparr>)"

definition recordBuildEvent :: "pg_env \<Rightarrow> AuditEvent \<Rightarrow> build_db \<Rightarrow> string option \<times> build_db" where
  "recordBuildEvent env ev db =
     (if ae_BuildID ev = 0 \<or> ae_To ev = [] then (None, db)
      else if ae_To ev \<in> {''BUILD_COMPLETED'', ''BUILD_FAILED'', ''BUILD_ABORTED''}
      then and_then (exec env SqlFinishBuild (update_build (ae_BuildID ev) (finish_build env ev)))
             (releaseBuildLocks env (ae_BuildID ev)) db
      else if ae_To ev = ''BUILD_RUNNING'' then markBuildRunning env (ae_BuildID ev) db
      else (None, db))"

definition pg_Record :: "pg_env \<Rightarrow> AuditEvent \<Rightarrow> build_db \<Rightarrow> string option \<times> build_db" where
  "pg_Record env ev db =
     (if ae_JobID ev = 0 then recordBuildEvent env ev db
      else if ae_From ev = [] \<or> ae_To ev = [] \<or> ae_From ev = ae_To ev then (None, db)
      else
        let db1 = (if ae_To ev \<in> {''RUN_PENDING'', ''RUNNING''} then snd (markBuildRunning env (ae_BuildID ev) db) else db)
        in case pe_fault env (SqlUpdateJob (ae_JobID ev)) of
             Some e \<Rightarrow> (Some e, db1)
           | None \<Rightarrow>
               (case cas_job (ae_JobID ev) (ae_From ev) (recorded_job env ev) db1 of
                  (False, db2) \<Rightarrow> (None, db2)
                | (True, db2) \<Rightarrow>
                    exec env (SqlInsertTransition (ae_JobID ev))
                      (add_transition (ae_JobID ev) (ae_From ev) (ae_To ev) (ae_Reason ev)) db2))"

definition update_outputs :: "OutputTransaction \<Rightarrow> (output_row \<Rightarrow> output_row) \<Rightarrow> build_db \<Rightarrow> build_db" where
  "update_outputs tx f db =
     db\<lparr>db_outputs := map (\<lambda>((j, d), row).
        if d = ot_DatasetRID tx \<and> ow_TransactionRID row = ot_TransactionRID tx then ((j, d), f row) else ((j, d), row)) (db_outputs db)\<rparr>"

definition pg_Abort :: "pg_env \<Rightarrow> OutputTransaction \<Rightarrow> build_db \<Rightarrow> string option \<times> build_db" where
  "pg_Abort env tx = exec env (SqlAbortOutput (ot_DatasetRID tx)) (update_outputs tx (\<lambda>row. row\<lparr>ow_Aborted := True\<rparr>))"

text \<open>The second statement of \<open>Commit\<close> writes the columns that only report.\<close>

definition pg_Commit :: "pg_env \<Rightarrow> OutputTransaction \<Rightarrow> build_db \<Rightarrow> string option \<times> build_db" where
  "pg_Commit env tx = and_then
     (exec env (SqlCommitOutput (ot_DatasetRID tx)) (update_outputs tx (\<lambda>row. row\<lparr>ow_Committed := True\<rparr>)))
     (exec env (SqlOutputStats (ot_DatasetRID tx)) id)"

section \<open>The gate before Iceberg outputs\<close>

text \<open>
  \<open>ConfigGatedOutputCommitter\<close> and \<open>ConfigGatedTransactionManager\<close> (\<open>handler/execution.go\<close>) route an output by its
  dataset: to the Iceberg adapter if there is one, or to the repository. \<open>cmd/pipeline-build-service/main.go\<close>
  wires no adapter, so every call for an Iceberg output is an error and its row stays as it is.
\<close>

definition DatasetRIDPrefix :: string where
  "DatasetRIDPrefix = ''ri.foundry.main.iceberg-table.''"

definition Handles :: "string \<Rightarrow> bool" where
  "Handles datasetRID \<longleftrightarrow> take (length DatasetRIDPrefix) datasetRID = DatasetRIDPrefix"

type_synonym 's tx_call = "OutputTransaction \<Rightarrow> 's \<Rightarrow> string option \<times> 's"

definition config_gated :: "bool \<Rightarrow> string \<Rightarrow> 's tx_call option \<Rightarrow> 's tx_call option \<Rightarrow> 's tx_call" where
  "config_gated catalogConfigured verb iceberg metadata tx s =
     (if Handles (ot_DatasetRID tx) then
        (case iceberg of
           None \<Rightarrow> (Some (if catalogConfigured
              then ''foundry_iceberg_catalog_adapter_not_configured: FOUNDRY_ICEBERG_CATALOG_URL is set but the Iceberg transaction store is not wired''
              else ''foundry_iceberg_catalog_not_configured: set FOUNDRY_ICEBERG_CATALOG_URL to '' @ verb @ '' Iceberg outputs''), s)
         | Some adapter \<Rightarrow> adapter tx s)
      else (case metadata of None \<Rightarrow> (None, s) | Some repository \<Rightarrow> repository tx s))"

definition wired_Commit :: "bool \<Rightarrow> 's tx_call \<Rightarrow> 's tx_call" where
  "wired_Commit catalogConfigured outputCommitter = config_gated catalogConfigured ''commit'' None (Some outputCommitter)"

definition wired_Abort :: "bool \<Rightarrow> 's tx_call \<Rightarrow> 's tx_call" where
  "wired_Abort catalogConfigured repo = config_gated catalogConfigured ''abort'' None (Some repo)"

lemma wired_plain [simp]:
  "\<not> Handles (ot_DatasetRID tx) \<Longrightarrow> wired_Commit c f tx s = f tx s"
  "\<not> Handles (ot_DatasetRID tx) \<Longrightarrow> wired_Abort c f tx s = f tx s"
  by (simp_all add: wired_Commit_def wired_Abort_def config_gated_def)

lemma wired_iceberg:
  "Handles (ot_DatasetRID tx) \<Longrightarrow> \<exists>e. wired_Commit c f tx s = (Some e, s)"
  "Handles (ot_DatasetRID tx) \<Longrightarrow> \<exists>e. wired_Abort c f tx s = (Some e, s)"
  by (simp_all add: wired_Commit_def wired_Abort_def config_gated_def)

lemma wired_iceberg_snd [simp]:
  "Handles (ot_DatasetRID tx) \<Longrightarrow> snd (wired_Commit c f tx s) = s"
  "Handles (ot_DatasetRID tx) \<Longrightarrow> snd (wired_Abort c f tx s) = s"
  by (simp_all add: wired_Commit_def wired_Abort_def config_gated_def)

section \<open>The operations of an abort\<close>

definition MarkBuildAborting :: "pg_env \<Rightarrow> uuid \<Rightarrow> string \<Rightarrow> build_db \<Rightarrow> string option \<times> build_db" where
  "MarkBuildAborting env buildID reason =
     exec env SqlMarkAborting (update_build buildID (\<lambda>b. b\<lparr>br_State := ''BUILD_ABORTING'', br_ErrorMessage := Some reason\<rparr>))"

definition pg_TransitionJob :: "pg_env \<Rightarrow> uuid \<Rightarrow> JobState \<Rightarrow> JobState \<Rightarrow> string \<Rightarrow> build_db \<Rightarrow> string option \<times> build_db" where
  "pg_TransitionJob env j from to reason = and_then
     (exec env (SqlUpdateJob j) (\<lambda>db. snd (cas_job j (job_state_string from)
        (\<lambda>job. job\<lparr>bj_State := job_state_string to, bj_StateChangedAt := pe_now env, bj_FailureReason := Some reason\<rparr>) db)))
     (exec env (SqlInsertTransition j) (add_transition j (job_state_string from) (job_state_string to) reason))"

definition MarkBuildAborted :: "pg_env \<Rightarrow> uuid \<Rightarrow> string \<Rightarrow> build_db \<Rightarrow> string option \<times> build_db" where
  "MarkBuildAborted env buildID reason = and_then
     (exec env SqlMarkAborted (update_build buildID (\<lambda>b. b\<lparr>br_State := ''BUILD_ABORTED'', br_ErrorMessage := Some reason,
        br_FinishedAt := Some (pe_now env)\<rparr>)))
     (exec env SqlReleaseLocks (release_rows buildID))"

record AbortJobSnapshot =
  as_ID :: uuid
  as_State :: string
  as_Outputs :: "OutputTransaction list"

record AbortBuildSnapshot =
  ab_ID :: uuid
  ab_State :: string
  ab_Jobs :: "AbortJobSnapshot list"

fun mapE :: "('a \<Rightarrow> 'e + 'b) \<Rightarrow> 'a list \<Rightarrow> 'e + 'b list" where
  "mapE f [] = Inr []"
| "mapE f (x # xs) = bindE (f x) (\<lambda>y. bindE (mapE f xs) (\<lambda>ys. Inr (y # ys)))"

definition output_rows :: "build_db \<Rightarrow> uuid \<Rightarrow> OutputTransaction list" where
  "output_rows db j = sort_key ot_DatasetRID
     (map (\<lambda>((j', d), row). \<lparr>ot_DatasetRID = d, ot_TransactionRID = ow_TransactionRID row\<rparr>)
       (filter (\<lambda>((j', d), row). j' = j) (db_outputs db)))"

definition outputsForJob :: "pg_env \<Rightarrow> build_db \<Rightarrow> uuid \<Rightarrow> string + OutputTransaction list" where
  "outputsForJob env db j = (case pe_fault env (SqlListOutputs j) of Some e \<Rightarrow> Inl e | None \<Rightarrow> Inr (output_rows db j))"

definition abortJobs :: "pg_env \<Rightarrow> build_db \<Rightarrow> uuid \<Rightarrow> string + AbortJobSnapshot list" where
  "abortJobs env db buildID =
     (case pe_fault env SqlListJobs of
        Some e \<Rightarrow> Inl e
      | None \<Rightarrow> mapE (\<lambda>(j, job). bindE (outputsForJob env db j)
          (\<lambda>outs. Inr \<lparr>as_ID = j, as_State = bj_State job, as_Outputs = outs\<rparr>))
        (filter (\<lambda>(j, job). bj_BuildID job = buildID) (db_jobs db)))"

text \<open>A build is addressed by its id; \<open>None\<close> is the answer for an id without a row.\<close>

definition LoadBuildForAbort :: "pg_env \<Rightarrow> uuid \<Rightarrow> build_db \<Rightarrow> string + AbortBuildSnapshot option" where
  "LoadBuildForAbort env buildID db =
     (case pe_fault env SqlLoadBuild of
        Some e \<Rightarrow> Inl e
      | None \<Rightarrow>
          (case gm_get (db_builds db) buildID of
             None \<Rightarrow> Inr None
           | Some b \<Rightarrow> bindE (abortJobs env db buildID)
               (\<lambda>js. Inr (Some \<lparr>ab_ID = buildID, ab_State = br_State b, ab_Jobs = js\<rparr>))))"

lemma mapE_Inr: "(\<And>x. x \<in> set xs \<Longrightarrow> f x = Inr (g x)) \<Longrightarrow> mapE f xs = Inr (map g xs)"
  by (induction xs) simp_all

lemma mapE_all: "mapE f xs = Inr ys \<Longrightarrow> list_all2 (\<lambda>x y. f x = Inr y) xs ys"
  by (induction xs arbitrary: ys) (auto simp: bindE_Inr_iff)

end
