(* ===== verification/Build_Persist.thy ===== *)
theory Build_Persist
  imports Build_Store
begin

text \<open>
  Persisting a resolved build (\<open>persistResolvedBuild\<close> of \<open>internal/postgres/repository.go\<close>): the
  signatures that decide whether a job is fresh, the propagation of staleness along the dependencies,
  the rows of jobs, outputs and dependencies, and \<open>LoadPlan\<close>, which reads them back as a plan of the
  executor.
\<close>

section \<open>Signatures\<close>

text \<open>
  An entry of the signature, with the members of its JSON object. The digests stand for
  \<open>hex(sha256(json.Marshal(..)))\<close> of the entries, of a logic, of a schema and of the two
  hashes of a job; nothing is assumed of them.
\<close>

datatype sig_item =
    InternalItem string string string
  | ExternalItem string string string string "string list" bool nat

fun sig_dataset :: "sig_item \<Rightarrow> string" where
  "sig_dataset (InternalItem d rid h) = d"
| "sig_dataset (ExternalItem d branch head schema chain fresh filters) = d"

record digests =
  dg_signature :: "sig_item list \<Rightarrow> string"
  dg_logic :: "string \<Rightarrow> string \<Rightarrow> InputSpec list \<Rightarrow> string list \<Rightarrow> string"
  dg_schema :: "string \<Rightarrow> string"
  dg_job :: "string \<Rightarrow> string \<Rightarrow> string"

record stalenessMetadata =
  sm_InputSignature :: string
  sm_LogicHash :: string

definition logicHashForSpec :: "digests \<Rightarrow> JobSpec \<Rightarrow> string" where
  "logicHashForSpec dg spec =
     (if trim_space (js_ContentHash spec) \<noteq> [] then trim_space (js_ContentHash spec)
      else dg_logic dg (js_LogicKind spec) (js_LogicPayload spec) (js_Inputs spec) (uniqueStrings (js_OutputDatasetRIDs spec)))"

definition sig_item_of :: "digests \<Rightarrow> JobSpec \<Rightarrow> (string, JobSpec) gomap \<Rightarrow> (string, ResolvedInputView) gomap \<Rightarrow>
    InputSpec \<Rightarrow> sig_item" where
  "sig_item_of dg spec producers views input =
     (let d = is_DatasetRID input;
          external = (case gm_get views d of
             Some view \<Rightarrow> ExternalItem d (rv_Branch view) (case rv_HeadTransactionRID view of Some h \<Rightarrow> h | None \<Rightarrow> [])
               (if rv_Schema view \<noteq> [] then dg_schema dg (rv_Schema view) else [])
               (is_FallbackChain input) (is_RequireFresh input) (length (is_ViewFilter input))
           | None \<Rightarrow> ExternalItem d [] [] [] (is_FallbackChain input) (is_RequireFresh input) (length (is_ViewFilter input)))
      in case gm_get producers d of
           Some producer \<Rightarrow>
             if js_RID producer \<noteq> js_RID spec then InternalItem d (js_RID producer) (logicHashForSpec dg producer)
             else external
         | None \<Rightarrow> external)"

definition inputSignatureForSpec :: "digests \<Rightarrow> JobSpec \<Rightarrow> (string, JobSpec) gomap \<Rightarrow> (string, ResolvedInputView) gomap \<Rightarrow>
    string" where
  "inputSignatureForSpec dg spec producers views =
     dg_signature dg (sort_key sig_dataset (map (sig_item_of dg spec producers views) (js_Inputs spec)))"

definition stalenessMetadataBySpec :: "digests \<Rightarrow> JobSpec list \<Rightarrow> ResolvedInputView list \<Rightarrow>
    (string, stalenessMetadata) gomap" where
  "stalenessMetadataBySpec dg specs inputViews =
     (let producers = foldl (\<lambda>m spec. foldl (\<lambda>m output. gm_put m output spec) m (js_OutputDatasetRIDs spec)) [] specs;
          views = foldl (\<lambda>m view. gm_put m (rv_DatasetRID view) view) [] inputViews
      in foldl (\<lambda>m spec. gm_put m (js_RID spec)
           \<lparr>sm_InputSignature = inputSignatureForSpec dg spec producers views, sm_LogicHash = logicHashForSpec dg spec\<rparr>) [] specs)"

section \<open>Freshness\<close>

definition fresh_job :: "build_db \<Rightarrow> string \<Rightarrow> string \<Rightarrow> string \<Rightarrow> string list \<Rightarrow> uuid \<times> build_job_row \<Rightarrow> bool" where
  "fresh_job db rid logicHash inputSignature required = (\<lambda>(j, job).
     bj_JobSpecRID job = rid \<and> bj_State job = ''COMPLETED'' \<and> \<not> bj_StaleSkipped job \<and>
     bj_LogicHash job = logicHash \<and> bj_InputSignature job = inputSignature \<and>
     set required \<subseteq> set (bj_OutputDatasetRIDs job) \<and>
     (\<forall>d \<in> set required. case gm_get (db_outputs db) (j, d) of Some row \<Rightarrow> ow_Committed row | None \<Rightarrow> False))"

definition previousFreshJobExists :: "pg_env \<Rightarrow> build_db \<Rightarrow> string \<Rightarrow> string \<Rightarrow> string \<Rightarrow> string list \<Rightarrow> string + bool" where
  "previousFreshJobExists env db rid logicHash inputSignature outputs =
     (if trim_space rid = [] \<or> outputs = [] then Inr False
      else case pe_fault env (SqlFreshJob rid) of
             Some e \<Rightarrow> Inl e
           | None \<Rightarrow> Inr (\<exists>row \<in> set (db_jobs db). fresh_job db rid logicHash inputSignature (uniqueStrings outputs) row))"

definition is_fresh :: "(string, bool) gomap \<Rightarrow> string \<Rightarrow> bool" where
  "is_fresh fresh k = (case gm_get fresh k of Some b \<Rightarrow> b | None \<Rightarrow> False)"

lemma is_fresh_put [simp]: "is_fresh (gm_put fresh k b) k' = (if k' = k then b else is_fresh fresh k')"
  by (simp add: is_fresh_def)

text \<open>One pass over the jobs, with the \<open>changed\<close> flag, and the loop around it.\<close>

fun stale_pass :: "ResolvedJob list \<Rightarrow> (string, bool) gomap \<Rightarrow> bool \<Rightarrow> (string, bool) gomap \<times> bool" where
  "stale_pass [] fresh changed = (fresh, changed)"
| "stale_pass (job # js) fresh changed =
     (if is_fresh fresh (rj_JobSpecRID job) \<and> (\<exists>dep \<in> set (rj_DependsOnJobSpecRIDs job). \<not> is_fresh fresh dep)
      then stale_pass js (gm_put fresh (rj_JobSpecRID job) False) True
      else stale_pass js fresh changed)"

definition fresh_set :: "(string, bool) gomap \<Rightarrow> string set" where
  "fresh_set fresh = {k. is_fresh fresh k}"

lemma finite_fresh_set [simp]: "finite (fresh_set fresh)"
proof (rule finite_subset)
  show "fresh_set fresh \<subseteq> set (gm_keys fresh)"
    by (auto simp: fresh_set_def is_fresh_def gm_keys_get split: option.splits)
qed simp

lemma fresh_set_put: "fresh_set (gm_put fresh k False) = fresh_set fresh - {k}"
  by (auto simp: fresh_set_def split: if_splits)

lemma stale_pass_result:
  "stale_pass js fresh changed = (fresh', changed') \<Longrightarrow>
   (changed' = changed \<and> fresh' = fresh) \<or> (changed' \<and> fresh_set fresh' \<subset> fresh_set fresh)"
proof (induction js arbitrary: fresh changed)
  case (Cons job js)
  show ?case
  proof (cases "is_fresh fresh (rj_JobSpecRID job) \<and> (\<exists>dep \<in> set (rj_DependsOnJobSpecRIDs job). \<not> is_fresh fresh dep)")
    case True
    let ?fresh = "gm_put fresh (rj_JobSpecRID job) False"
    have "stale_pass js ?fresh True = (fresh', changed')" using Cons.prems True by simp
    then have "changed' \<and> fresh_set fresh' \<subseteq> fresh_set ?fresh" using Cons.IH [of ?fresh True] by blast
    moreover have "fresh_set ?fresh \<subset> fresh_set fresh"
      using True unfolding fresh_set_put by (auto simp: fresh_set_def)
    ultimately show ?thesis by blast
  next
    case False
    then have "stale_pass js fresh changed = (fresh', changed')" using Cons.prems by auto
    then show ?thesis using Cons.IH by blast
  qed
qed simp

function (sequential) propagateStaleDependencies :: "ResolvedJob list \<Rightarrow> (string, bool) gomap \<Rightarrow> (string, bool) gomap" where
  "propagateStaleDependencies js fresh =
     (let pass = stale_pass js fresh False
      in if snd pass then propagateStaleDependencies js (fst pass) else fst pass)"
  by pat_completeness auto
termination
proof (relation "inv_image finite_psubset (\<lambda>(js, fresh). fresh_set fresh)", goal_cases)
  case (2 js fresh pass)
  then show ?case
    using stale_pass_result [of js fresh False "fst pass" True] by (auto simp: finite_psubset_def prod_eq_iff)
qed simp

declare propagateStaleDependencies.simps [simp del]

text \<open>What stays fresh: the jobs that were fresh and lead, along their dependencies, to fresh jobs only.\<close>

definition dep_rel :: "ResolvedJob list \<Rightarrow> (string \<times> string) set" where
  "dep_rel js = {(k, d). \<exists>job \<in> set js. rj_JobSpecRID job = k \<and> d \<in> set (rj_DependsOnJobSpecRIDs job)}"

lemma stale_pass_reason:
  "stale_pass js fresh changed = (fresh', changed') \<Longrightarrow> set js \<subseteq> set all \<Longrightarrow> \<not> is_fresh fresh' k \<Longrightarrow>
   \<exists>k'. (k, k') \<in> (dep_rel all)\<^sup>* \<and> \<not> is_fresh fresh k'"
proof (induction js arbitrary: fresh changed)
  case (Cons job js)
  show ?case
  proof (cases "is_fresh fresh (rj_JobSpecRID job) \<and> (\<exists>dep \<in> set (rj_DependsOnJobSpecRIDs job). \<not> is_fresh fresh dep)")
    case True
    let ?k = "rj_JobSpecRID job" and ?fresh = "gm_put fresh (rj_JobSpecRID job) False"
    obtain dep where dep: "dep \<in> set (rj_DependsOnJobSpecRIDs job)" "\<not> is_fresh fresh dep" using True by blast
    have edge: "(?k, dep) \<in> dep_rel all" using dep(1) Cons.prems(2) by (auto simp: dep_rel_def)
    have "stale_pass js ?fresh True = (fresh', changed')" using Cons.prems(1) True by simp
    then obtain k' where k': "(k, k') \<in> (dep_rel all)\<^sup>*" "\<not> is_fresh ?fresh k'"
      using Cons.IH [of ?fresh True] Cons.prems(2,3) by auto
    show ?thesis
    proof (cases "k' = ?k")
      case True
      have "(k, dep) \<in> (dep_rel all)\<^sup>*"
        using k'(1) edge unfolding True by (rule rtrancl_into_rtrancl)
      with dep(2) show ?thesis by blast
    next
      case False
      then show ?thesis using k' by auto
    qed
  next
    case False
    then have "stale_pass js fresh changed = (fresh', changed')" using Cons.prems(1) by auto
    then show ?thesis using Cons.IH Cons.prems(2,3) by auto
  qed
qed auto

lemma stale_pass_closed:
  "stale_pass js fresh False = (fresh', False) \<Longrightarrow>
   (k, d) \<in> dep_rel js \<Longrightarrow> is_fresh fresh k \<Longrightarrow> is_fresh fresh d"
proof (induction js)
  case (Cons job js)
  let ?stale = "is_fresh fresh (rj_JobSpecRID job) \<and> (\<exists>dep \<in> set (rj_DependsOnJobSpecRIDs job). \<not> is_fresh fresh dep)"
  have no: "\<not> ?stale"
  proof
    assume ?stale
    then have "stale_pass js (gm_put fresh (rj_JobSpecRID job) False) True = (fresh', False)"
      using Cons.prems(1) by simp
    from stale_pass_result [OF this] show False by simp
  qed
  then have "stale_pass js fresh False = (fresh', False)" using Cons.prems(1) by (simp only: stale_pass.simps if_False)
  then show ?case using Cons.IH Cons.prems(2,3) no by (auto simp: dep_rel_def)
qed (simp add: dep_rel_def)

lemma propagate_fresh:
  "is_fresh (propagateStaleDependencies js fresh) k \<longleftrightarrow> (\<forall>k'. (k, k') \<in> (dep_rel js)\<^sup>* \<longrightarrow> is_fresh fresh k')"
proof (induction js fresh rule: propagateStaleDependencies.induct)
  case (1 js fresh)
  obtain fresh' changed where pass: "stale_pass js fresh False = (fresh', changed)" by fastforce
  show ?case
  proof (cases changed)
    case True
    have sub: "fresh_set fresh' \<subseteq> fresh_set fresh" using stale_pass_result [OF pass] by blast
    have "is_fresh (propagateStaleDependencies js fresh) k \<longleftrightarrow> (\<forall>k'. (k, k') \<in> (dep_rel js)\<^sup>* \<longrightarrow> is_fresh fresh' k')"
      using "1.IH" [OF refl] True pass by (subst propagateStaleDependencies.simps) simp
    also have "\<dots> \<longleftrightarrow> (\<forall>k'. (k, k') \<in> (dep_rel js)\<^sup>* \<longrightarrow> is_fresh fresh k')"
    proof
      assume all: "\<forall>k'. (k, k') \<in> (dep_rel js)\<^sup>* \<longrightarrow> is_fresh fresh' k'"
      then show "\<forall>k'. (k, k') \<in> (dep_rel js)\<^sup>* \<longrightarrow> is_fresh fresh k'"
        using sub by (auto simp: fresh_set_def)
    next
      assume all: "\<forall>k'. (k, k') \<in> (dep_rel js)\<^sup>* \<longrightarrow> is_fresh fresh k'"
      show "\<forall>k'. (k, k') \<in> (dep_rel js)\<^sup>* \<longrightarrow> is_fresh fresh' k'"
      proof (intro allI impI, rule ccontr)
        fix k' assume kk: "(k, k') \<in> (dep_rel js)\<^sup>*" and not: "\<not> is_fresh fresh' k'"
        obtain k'' where "(k', k'') \<in> (dep_rel js)\<^sup>*" "\<not> is_fresh fresh k''"
          using stale_pass_reason [OF pass order_refl not] by blast
        with kk all show False by (meson rtrancl_trans)
      qed
    qed
    finally show ?thesis .
  next
    case False
    then have pass': "stale_pass js fresh False = (fresh', False)" using pass by simp
    have closed: "is_fresh fresh k'" if "(k, k') \<in> (dep_rel js)\<^sup>*" "is_fresh fresh k" for k'
      using that stale_pass_closed [OF pass'] by (induction rule: rtrancl_induct) auto
    have "fresh' = fresh" using stale_pass_result [OF pass'] by blast
    then have "propagateStaleDependencies js fresh = fresh"
      using pass' by (subst propagateStaleDependencies.simps) simp
    then show ?thesis using closed by auto
  qed
qed

section \<open>Persisting\<close>

fun foldE :: "('a \<Rightarrow> 's \<Rightarrow> 'e + 's) \<Rightarrow> 'a list \<Rightarrow> 's \<Rightarrow> 'e + 's" where
  "foldE f [] s = Inr s"
| "foldE f (x # xs) s = bindE (f x s) (foldE f xs)"

definition targetDatasetRIDsFromSpecs :: "JobSpec list \<Rightarrow> string list" where
  "targetDatasetRIDsFromSpecs specs = uniqueStrings (concat (map js_OutputDatasetRIDs specs))"

definition inputDatasetRIDs :: "InputSpec list \<Rightarrow> string list" where
  "inputDatasetRIDs inputs = uniqueStrings (filter (\<lambda>d. d \<noteq> []) (map is_DatasetRID inputs))"

definition datasetForTransaction :: "OpenedTransaction list \<Rightarrow> string \<Rightarrow> string" where
  "datasetForTransaction items txRID =
     (case List.find (\<lambda>i. op_TransactionRID i = txRID) items of Some i \<Rightarrow> op_DatasetRID i | None \<Rightarrow> txRID)"

definition zero_spec :: JobSpec where
  "zero_spec = \<lparr>js_RID = [], js_PipelineRID = [], js_BranchName = [], js_Inputs = [], js_OutputDatasetRIDs = [],
     js_LogicKind = [], js_LogicPayload = [], js_ContentHash = []\<rparr>"

definition zero_meta :: stalenessMetadata where
  "zero_meta = \<lparr>sm_InputSignature = [], sm_LogicHash = []\<rparr>"

definition spec_by_rid :: "JobSpec list \<Rightarrow> string \<Rightarrow> JobSpec" where
  "spec_by_rid specs rid =
     (case gm_get (foldl (\<lambda>m s. gm_put m (js_RID s) s) [] specs) rid of Some s \<Rightarrow> s | None \<Rightarrow> zero_spec)"

definition meta_of :: "(string, stalenessMetadata) gomap \<Rightarrow> string \<Rightarrow> stalenessMetadata" where
  "meta_of staleness rid = (case gm_get staleness rid of Some m \<Rightarrow> m | None \<Rightarrow> zero_meta)"

definition freshBySpec :: "pg_env \<Rightarrow> digests \<Rightarrow> ResolvedBuild \<Rightarrow> build_db \<Rightarrow> string + (string, bool) gomap" where
  "freshBySpec env dg rb db =
     (if rb_ForceBuild rb then Inr []
      else
        let staleness = stalenessMetadataBySpec dg (rb_JobSpecs rb) (rb_InputViews rb)
        in bindE (foldE (\<lambda>job fresh.
               let rid = rj_JobSpecRID job; meta = meta_of staleness rid
               in bindE (previousFreshJobExists env db rid (sm_LogicHash meta) (sm_InputSignature meta)
                    (js_OutputDatasetRIDs (spec_by_rid (rb_JobSpecs rb) rid)))
                  (\<lambda>b. Inr (gm_put fresh rid b))) (rb_Jobs rb) [])
           (\<lambda>fresh. Inr (propagateStaleDependencies (rb_Jobs rb) fresh)))"

text \<open>The row of a job: a new one is WAITING, an existing one keeps its state and its build.\<close>

definition upsert_job :: "pg_env \<Rightarrow> uuid \<Rightarrow> JobSpec \<Rightarrow> stalenessMetadata \<Rightarrow> bool \<Rightarrow> ResolvedJob \<Rightarrow> build_db \<Rightarrow>
    string + build_db" where
  "upsert_job env buildID spec meta stale job db =
     (case pe_fault env (SqlUpsertJob (rj_JobSpecRID job)) of
        Some e \<Rightarrow> Inl e
      | None \<Rightarrow>
          if gm_get (db_builds db) buildID = None then Inl ''violates foreign key constraint''
          else
            let base = (case gm_get (db_jobs db) (rj_ID job) of
                  Some row \<Rightarrow> row
                | None \<Rightarrow> \<lparr>bj_BuildID = buildID, bj_JobSpecRID = rj_JobSpecRID job, bj_LogicKind = [], bj_ContentHash = [],
                    bj_InputDatasetRIDs = [], bj_OutputDatasetRIDs = [], bj_InputSignature = [], bj_LogicHash = [],
                    bj_StaleSkipped = False, bj_State = ''WAITING'', bj_OutputTransactionRIDs = [],
                    bj_StateChangedAt = pe_now env, bj_StartedAt = None, bj_FinishedAt = None, bj_Attempt = 0,
                    bj_FailureReason = None\<rparr>);
                row = base\<lparr>bj_LogicKind := js_LogicKind spec, bj_ContentHash := js_ContentHash spec,
                  bj_InputDatasetRIDs := inputDatasetRIDs (js_Inputs spec),
                  bj_OutputDatasetRIDs := uniqueStrings (js_OutputDatasetRIDs spec),
                  bj_InputSignature := sm_InputSignature meta, bj_LogicHash := sm_LogicHash meta,
                  bj_StaleSkipped := stale, bj_OutputTransactionRIDs := rj_OutputTransactionRIDs job\<rparr>
            in Inr (db\<lparr>db_jobs := gm_put (db_jobs db) (rj_ID job) row\<rparr>))"

definition upsert_output :: "pg_env \<Rightarrow> OpenedTransaction list \<Rightarrow> ResolvedJob \<Rightarrow> string \<Rightarrow> build_db \<Rightarrow> string + build_db" where
  "upsert_output env opened job txRID db =
     (let d = datasetForTransaction opened txRID
      in case pe_fault env (SqlUpsertOutput (rj_JobSpecRID job) d) of
           Some e \<Rightarrow> Inl e
         | None \<Rightarrow>
             let row = (case gm_get (db_outputs db) (rj_ID job, d) of
                   Some row \<Rightarrow> row\<lparr>ow_TransactionRID := txRID\<rparr>
                 | None \<Rightarrow> \<lparr>ow_TransactionRID = txRID, ow_Committed = False, ow_Aborted = False\<rparr>)
             in Inr (db\<lparr>db_outputs := gm_put (db_outputs db) (rj_ID job, d) row\<rparr>))"

definition persist_job :: "pg_env \<Rightarrow> digests \<Rightarrow> ResolvedBuild \<Rightarrow> (string, bool) gomap \<Rightarrow> ResolvedJob \<Rightarrow> build_db \<Rightarrow>
    string + build_db" where
  "persist_job env dg rb fresh job db =
     (let rid = rj_JobSpecRID job;
          meta = meta_of (stalenessMetadataBySpec dg (rb_JobSpecs rb) (rb_InputViews rb)) rid
      in bindE (upsert_job env (rb_BuildID rb) (spec_by_rid (rb_JobSpecs rb) rid) meta (is_fresh fresh rid) job db)
           (foldE (upsert_output env (rb_OpenedTransactions rb) job) (rj_OutputTransactionRIDs job)))"

definition persist_dep :: "pg_env \<Rightarrow> (string, uuid) gomap \<Rightarrow> ResolvedJob \<Rightarrow> string \<Rightarrow> build_db \<Rightarrow> string + build_db" where
  "persist_dep env jobBySpec job depSpec db =
     (case gm_get jobBySpec depSpec of
        None \<Rightarrow> Inr db
      | Some depID \<Rightarrow>
          (case pe_fault env (SqlUpsertDependency (rj_JobSpecRID job) depSpec) of
             Some e \<Rightarrow> Inl e
           | None \<Rightarrow> if rj_ID job = depID then Inl ''job_dependencies_check''
               else Inr (if (rj_ID job, depID) \<in> set (db_deps db) then db
                         else db\<lparr>db_deps := db_deps db @ [(rj_ID job, depID)]\<rparr>)))"

definition persistResolvedBuild :: "pg_env \<Rightarrow> digests \<Rightarrow> ResolvedBuild \<Rightarrow> build_db \<Rightarrow> string + build_db" where
  "persistResolvedBuild env dg rb db =
     (let state = (if rb_QueuedReason rb \<noteq> None then ''BUILD_QUEUED'' else build_state_string (rb_State rb));
          jobBySpec = foldl (\<lambda>m job. gm_put m (rj_JobSpecRID job) (rj_ID job)) [] (rb_Jobs rb)
      in case pe_fault env SqlResolvedState of
           Some e \<Rightarrow> Inl e
         | None \<Rightarrow>
             let db1 = update_build (rb_BuildID rb) (\<lambda>b. b\<lparr>br_State := state,
                   br_TargetDatasetRIDs := targetDatasetRIDsFromSpecs (rb_JobSpecs rb),
                   br_QueuedAt := (if state = ''BUILD_QUEUED'' then Some (pe_now env) else br_QueuedAt b)\<rparr>) db
             in bindE (freshBySpec env dg rb db1) (\<lambda>fresh.
                bindE (foldE (persist_job env dg rb fresh) (rb_Jobs rb) db1)
                  (foldE (\<lambda>job. foldE (persist_dep env jobBySpec job) (rj_DependsOnJobSpecRIDs job)) (rb_Jobs rb))))"

text \<open>The transaction around it: an error at any point rolls everything back.\<close>

definition PersistResolvedBuild :: "pg_env \<Rightarrow> digests \<Rightarrow> ResolvedBuild \<Rightarrow> build_db \<Rightarrow> string option \<times> build_db" where
  "PersistResolvedBuild env dg rb db =
     (case pe_fault env SqlBegin of
        Some e \<Rightarrow> (Some e, db)
      | None \<Rightarrow>
     (case persistResolvedBuild env dg rb db of
        Inl e \<Rightarrow> (Some e, db)
      | Inr db' \<Rightarrow> (case pe_fault env SqlCommitTx of Some e \<Rightarrow> (Some e, db) | None \<Rightarrow> (None, db'))))"

section \<open>Loading the plan\<close>

fun ParseStoredPolicy :: "string \<Rightarrow> AbortPolicy option" where
  "ParseStoredPolicy s =
     (if s = ''DEPENDENT_ONLY'' then Some AbortDependentOnly
      else if s = ''ALL_NON_DEPENDENT'' then Some AbortAllNonDependent else None)"

definition dependenciesForBuild :: "build_db \<Rightarrow> uuid \<Rightarrow> uuid \<Rightarrow> string list" where
  "dependenciesForBuild db buildID j = List.map_filter (\<lambda>(j', dep).
     if j' = j \<and> (case gm_get (db_jobs db) j of Some job \<Rightarrow> bj_BuildID job = buildID | None \<Rightarrow> False)
     then map_option bj_JobSpecRID (gm_get (db_jobs db) dep) else None) (db_deps db)"

definition jobStalenessSignature :: "digests \<Rightarrow> build_job_row \<Rightarrow> string" where
  "jobStalenessSignature dg job =
     (if trim_space (bj_InputSignature job) = [] \<and> trim_space (bj_LogicHash job) = [] then []
      else dg_job dg (trim_space (bj_InputSignature job)) (trim_space (bj_LogicHash job)))"

text \<open>
  Of the metadata the entries for the executor; those from \<open>job_specs\<close>, which only a runner reads, are
  not part of the plan here.
\<close>

definition plan_node :: "digests \<Rightarrow> bool \<Rightarrow> build_db \<Rightarrow> uuid \<Rightarrow> uuid \<times> build_job_row \<Rightarrow> OutputTransaction list \<Rightarrow> Node" where
  "plan_node dg force db buildID = (\<lambda>(j, job) outputs.
     \<lparr>nd_ID = bj_JobSpecRID job, nd_JobID = j, nd_DependsOn = dependenciesForBuild db buildID j,
      nd_Outputs = outputs, nd_MaxAttempts = 1, nd_StaleSkipped = bj_StaleSkipped job,
      nd_Metadata =
        [(''job_spec_rid'', bj_JobSpecRID job), (''force_build'', if force then ''true'' else ''false'')] @
        (if trim_space (bj_InputSignature job) \<noteq> [] then [(''input_signature'', bj_InputSignature job)] else []) @
        (if trim_space (bj_LogicHash job) \<noteq> [] then [(''canonical_logic_hash'', bj_LogicHash job)] else []) @
        (if jobStalenessSignature dg job \<noteq> [] then [(''staleness_signature'', jobStalenessSignature dg job)] else []) @
        (if bj_StaleSkipped job then [(''staleness_skip_reason'', ''fresh'')] else [])\<rparr>)"

text \<open>
  The jobs of one build are created in one transaction and share \<open>created_at\<close>, by which the query orders
  them; here they come in the order of the rows.
\<close>

definition LoadPlan :: "pg_env \<Rightarrow> digests \<Rightarrow> uuid \<Rightarrow> build_db \<Rightarrow> string + Plan" where
  "LoadPlan env dg buildID db =
     (case pe_fault env SqlLoadBuild of
        Some e \<Rightarrow> Inl e
      | None \<Rightarrow>
     (case gm_get (db_builds db) buildID of
        None \<Rightarrow> Inl ''no rows in result set''
      | Some b \<Rightarrow>
     (case List.map_filter (pe_fault env) [SqlListJobs, SqlListDependencies, SqlListSpecs] of
        e # _ \<Rightarrow> Inl e
      | [] \<Rightarrow>
          bindE (mapE (\<lambda>(j, job). bindE (outputsForJob env db j)
                   (\<lambda>outs. Inr (plan_node dg (br_ForceBuild b) db buildID (j, job) outs)))
                 (filter (\<lambda>(j, job). bj_BuildID job = buildID) (db_jobs db)))
            (\<lambda>nodes. Inr \<lparr>pl_BuildID = buildID, pl_AbortPolicy = ParseStoredPolicy (br_AbortPolicy b),
               pl_Parallelism = 4, pl_MaxAttempts = 1, pl_Nodes = nodes\<rparr>))))"

end
