(* ===== verification/Build_Handlers.thy ===== *)
theory Build_Handlers
  imports Build_Persist
begin

text \<open>
  The handlers around build resolution (\<open>pipeline-build-service/internal/handler/\<close>): \<open>CreateBuild\<close>
  and \<open>DryRunResolve\<close> of \<open>build_resolution.go\<close>, \<open>AbortBuild\<close> of \<open>abort.go\<close>, on the tables of
  \<open>Build_Store\<close>. A response is its status and body; decoding the request body is the caller's. The
  repository of JobSpecs is an argument.
\<close>

section \<open>CreateBuild\<close>

record CreateBuildRequest =
  cb_PipelineRID :: string
  cb_BuildBranch :: string
  cb_JobSpecFallback :: "string list"
  cb_ForceBuild :: bool
  cb_OutputDatasetRIDs :: "string list"
  cb_TriggerKind :: "string option"
  cb_AbortPolicy :: "string option"

definition validateResolveRequest :: "string \<Rightarrow> string \<Rightarrow> string list \<Rightarrow> string option" where
  "validateResolveRequest pipelineRID buildBranch outputs =
     (if trim_space pipelineRID = [] then Some ''pipeline_rid is required''
      else if trim_space buildBranch = [] then Some ''build_branch is required''
      else if outputs = [] then Some ''output_dataset_rids must declare at least one dataset''
      else None)"

text \<open>The last argument is the subject of the authenticated user, empty without one.\<close>

definition createBuildArgs :: "CreateBuildRequest \<Rightarrow> string \<Rightarrow> string + ResolveBuildArgs" where
  "createBuildArgs body requestedBy =
     (case validateResolveRequest (cb_PipelineRID body) (cb_BuildBranch body) (cb_OutputDatasetRIDs body) of
        Some e \<Rightarrow> Inl e
      | None \<Rightarrow>
          Inr \<lparr>ra_BuildID = None, ra_PipelineRID = cb_PipelineRID body, ra_BuildBranch = cb_BuildBranch body,
            ra_JobSpecFallback = cb_JobSpecFallback body, ra_OutputDatasetRIDs = cb_OutputDatasetRIDs body,
            ra_ForceBuild = cb_ForceBuild body, ra_RequestedBy = requestedBy,
            ra_TriggerKind = (case cb_TriggerKind body of
                Some k \<Rightarrow> if trim_space k \<noteq> [] then map to_upper_char (trim_space k) else ''MANUAL''
              | None \<Rightarrow> ''MANUAL''),
            ra_AbortPolicy = (case cb_AbortPolicy body of Some p \<Rightarrow> p | None \<Rightarrow> ''DEPENDENT_ONLY'')\<rparr>)"

datatype create_response =
    BadRequest string
  | ServerError string string
  | ResolutionFailed string
  | Accepted uuid BuildState "string option" nat "OpenedTransaction list"

definition CreateBuild :: "pg_env \<Rightarrow> digests \<Rightarrow> build_db JobSpecRepository \<Rightarrow> uuid \<Rightarrow> CreateBuildRequest \<Rightarrow> string \<Rightarrow>
    build_db \<Rightarrow> (create_response \<times> build_db) option" where
  "CreateBuild env dg repo buildID body requestedBy db =
     (case createBuildArgs body requestedBy of
        Inl e \<Rightarrow> Some (BadRequest e, db)
      | Inr args0 \<Rightarrow>
     (let args = args0\<lparr>ra_BuildID := Some buildID\<rparr> in
      case OpenBuild env args buildID db of
        (Some e, db1) \<Rightarrow> Some (ServerError ''build_open_failed'' e, db1)
      | (None, db1) \<Rightarrow>
     (case ResolveBuild (pe_uuids env) (pe_now env) buildID args repo (pg_versioning env) (Some (pg_locks env)) db1 of
        None \<Rightarrow> None
      | Some (Inl err, db2) \<Rightarrow>
          let msg = resolve_error_Error (pe_uuids env) err
          in Some (ResolutionFailed msg, snd (MarkBuildFailed env buildID msg db2))
      | Some (Inr resolved, db2) \<Rightarrow>
     (case PersistResolvedBuild env dg resolved db2 of
        (Some e, db3) \<Rightarrow> Some (ServerError ''build_persist_failed'' e, snd (MarkBuildFailed env buildID e db3))
      | (None, db3) \<Rightarrow>
          Some (Accepted (rb_BuildID resolved) (rb_State resolved) (rb_QueuedReason resolved)
            (length (rb_JobSpecs resolved)) (rb_OpenedTransactions resolved), db3)))))"

section \<open>DryRunResolve\<close>

record dryRunError =
  dr_DatasetRID :: "string option"
  dr_Kind :: string
  dr_Message :: string

record dryRunInput =
  di_DatasetRID :: string
  di_ResolvedInputBranch :: "string option"
  di_FallbackIndex :: "nat option"
  di_FallbackChain :: "string list"

record dryRunOutput =
  do_DatasetRID :: string
  do_ResolvedOutput :: string
  do_CreatesBranch :: bool
  do_FromBranch :: "string option"

record dryRunJob =
  dj_JobSpecRID :: string
  dj_Branch :: string
  dj_OutputDatasetRIDs :: "string list"
  dj_ResolvedOutputs :: "dryRunOutput list"
  dj_ResolvedInputs :: "dryRunInput list"
  dj_DependsOn :: "string list"

definition dryRunErrorFromErr :: "uuid_lib \<Rightarrow> resolve_error \<Rightarrow> dryRunError" where
  "dryRunErrorFromErr lib err =
     (let m = resolve_error_Error lib err in
      case err of
        MissingJobSpecError d _ \<Rightarrow> \<lparr>dr_DatasetRID = Some d, dr_Kind = ''MISSING_JOB_SPEC'', dr_Message = m\<rparr>
      | SpecCycleError _ \<Rightarrow> \<lparr>dr_DatasetRID = None, dr_Kind = ''CYCLE_DETECTED'', dr_Message = m\<rparr>
      | InputBranchMissingError d _ _ \<Rightarrow> \<lparr>dr_DatasetRID = Some d, dr_Kind = ''INPUT_NOT_RESOLVABLE'', dr_Message = m\<rparr>
      | InputNotFoundError d \<Rightarrow> \<lparr>dr_DatasetRID = Some d, dr_Kind = ''INPUT_NOT_FOUND'', dr_Message = m\<rparr>
      | _ \<Rightarrow> \<lparr>dr_DatasetRID = None, dr_Kind = ''RESOLUTION_ERROR'', dr_Message = m\<rparr>)"

definition newInlineJobSpecRepo :: "JobSpec list \<Rightarrow> (string, JobSpec) gomap" where
  "newInlineJobSpecRepo specs =
     foldl (\<lambda>m spec. foldl (\<lambda>m output. gm_put m output spec) m (js_OutputDatasetRIDs spec)) [] specs"

definition inlineLookup :: "(string, JobSpec) gomap \<Rightarrow> 's JobSpecRepository" where
  "inlineLookup specs = (\<lambda>pipeline output branch chain s. Inr (gm_get specs output))"

text \<open>The error text of a port; a \<open>ClientError\<close> prefixes its message.\<close>

fun port_error_Error :: "port_error \<Rightarrow> string" where
  "port_error_Error (ClientError m) = ''dataset client error: '' @ m"
| "port_error_Error (PortError m) = m"

definition dry_input :: "string \<Rightarrow> 's DatasetVersioningRepository \<Rightarrow> 's \<Rightarrow> InputSpec \<Rightarrow> dryRunInput \<times> dryRunError list" where
  "dry_input branch client s input =
     (let d = is_DatasetRID input;
          none = \<lparr>di_DatasetRID = d, di_ResolvedInputBranch = None, di_FallbackIndex = None, di_FallbackChain = is_FallbackChain input\<rparr>
      in case dv_ListBranches client d s of
           Inl e \<Rightarrow> (none, [\<lparr>dr_DatasetRID = Some d, dr_Kind = ''VERSIONING_CLIENT_ERROR'', dr_Message = port_error_Error e\<rparr>])
         | Inr branches \<Rightarrow>
             (case ResolveInputDataset branch (is_FallbackChain input) (map bs_Name branches) of
                Inl e \<Rightarrow> (none, [\<lparr>dr_DatasetRID = Some d, dr_Kind = ''INPUT_NOT_RESOLVABLE'', dr_Message = branch_error_Error e\<rparr>])
              | Inr r \<Rightarrow> (none\<lparr>di_ResolvedInputBranch := Some (ri_Branch r), di_FallbackIndex := Some (ri_FallbackIndex r)\<rparr>, [])))"

definition dry_output :: "string \<Rightarrow> string list \<Rightarrow> 's DatasetVersioningRepository \<Rightarrow> 's \<Rightarrow> string \<Rightarrow> dryRunOutput \<times> dryRunError list" where
  "dry_output branch chain client s d =
     (let base = \<lparr>do_DatasetRID = d, do_ResolvedOutput = branch, do_CreatesBranch = False, do_FromBranch = None\<rparr>
      in case dv_ListBranches client d s of
           Inl e \<Rightarrow> (base, [\<lparr>dr_DatasetRID = Some d, dr_Kind = ''VERSIONING_CLIENT_ERROR'', dr_Message = port_error_Error e\<rparr>])
         | Inr branches \<Rightarrow>
             (case ResolveOutputDataset branch chain (map bs_Name branches) of
                Inl e \<Rightarrow> (base, [\<lparr>dr_DatasetRID = Some d, dr_Kind = ''OUTPUT_NOT_RESOLVABLE'', dr_Message = branch_error_Error e\<rparr>])
              | Inr (ResolvedOutputCreateFrom from new) \<Rightarrow>
                  (base\<lparr>do_ResolvedOutput := new, do_CreatesBranch := True, do_FromBranch := Some from\<rparr>, [])
              | Inr (ResolvedOutputExisting b) \<Rightarrow> (base\<lparr>do_ResolvedOutput := b\<rparr>, [])))"

definition dry_job :: "string \<Rightarrow> string list \<Rightarrow> 's DatasetVersioningRepository \<Rightarrow> 's \<Rightarrow> (string, string list) gomap \<Rightarrow>
    JobSpec \<Rightarrow> dryRunJob \<times> dryRunError list" where
  "dry_job branch chain client s depsBySpec spec =
     (let inputs = map (dry_input branch client s) (js_Inputs spec);
          outputs = map (dry_output branch chain client s) (js_OutputDatasetRIDs spec)
      in (\<lparr>dj_JobSpecRID = js_RID spec, dj_Branch = js_BranchName spec, dj_OutputDatasetRIDs = js_OutputDatasetRIDs spec,
           dj_ResolvedOutputs = map fst outputs, dj_ResolvedInputs = map fst inputs,
           dj_DependsOn = (case gm_get depsBySpec (js_RID spec) of Some ds \<Rightarrow> ds | None \<Rightarrow> [])\<rparr>,
          concat (map snd inputs) @ concat (map snd outputs)))"

text \<open>\<open>Inl\<close> is a rejected request; the body has its pipeline filled in from the URL already.\<close>

definition DryRunResolve :: "uuid_lib \<Rightarrow> string \<Rightarrow> string \<Rightarrow> string list \<Rightarrow> string list \<Rightarrow> JobSpec list \<Rightarrow>
    's JobSpecRepository \<Rightarrow> 's DatasetVersioningRepository \<Rightarrow> 's \<Rightarrow> (string + dryRunJob list \<times> dryRunError list) option" where
  "DryRunResolve lib pipelineRID buildBranch jobSpecFallback outputs inlineSpecs repo client s =
     (case validateResolveRequest pipelineRID buildBranch outputs of
        Some e \<Rightarrow> Some (Inl e)
      | None \<Rightarrow>
     (let jobRepo = (if inlineSpecs \<noteq> [] then inlineLookup (newInlineJobSpecRepo inlineSpecs) else repo) in
      case LoadJobSpecs pipelineRID buildBranch jobSpecFallback outputs jobRepo s of
        Inl err \<Rightarrow> Some (Inr ([], [dryRunErrorFromErr lib err]))
      | Inr specs \<Rightarrow>
     (case DetectCycles specs of
        None \<Rightarrow> None
      | Some (Inl path) \<Rightarrow> Some (Inr ([], [dryRunErrorFromErr lib (SpecCycleError path)]))
      | Some (Inr _) \<Rightarrow>
          let depsBySpec = foldl (\<lambda>m job. gm_put m (rj_JobSpecRID job) (rj_DependsOnJobSpecRIDs job)) []
                (fst (BuildFanOutPlan lib 0 specs []));
              results = map (dry_job buildBranch jobSpecFallback client s depsBySpec) specs
          in Some (Inr (map fst results, concat (map snd results))))))"

section \<open>AbortBuild\<close>

definition abortTargets :: "string \<Rightarrow> JobState list" where
  "abortTargets state =
     (if state \<in> {''RUNNING'', ''RUN_PENDING''} then [JobAbortPending, JobAborted]
      else if state = ''WAITING'' then [JobAborted]
      else if state = ''ABORT_PENDING'' then [JobAborted] else [])"

text \<open>The walk of one job through its targets; errors of \<open>TransitionJob\<close> are dropped.\<close>

fun abort_walk :: "pg_env \<Rightarrow> uuid \<Rightarrow> JobState \<Rightarrow> JobState list \<Rightarrow> build_db \<Rightarrow> build_db" where
  "abort_walk env j from [] db = db"
| "abort_walk env j from (to # targets) db =
     (if \<not> IsValidTransition from to \<and> from \<noteq> to then abort_walk env j from targets db
      else abort_walk env j to targets (snd (pg_TransitionJob env j from to ''build aborted by user'' db)))"

text \<open>A state outside the vocabulary has no targets.\<close>

definition abort_job :: "pg_env \<Rightarrow> AbortJobSnapshot \<Rightarrow> build_db \<Rightarrow> build_db" where
  "abort_job env job db =
     (case ParseJobState (as_State job) of
        Inr from \<Rightarrow> abort_walk env (as_ID job) from (abortTargets (as_State job)) db
      | Inl _ \<Rightarrow> db)"

definition transitionAbortJobs :: "pg_env \<Rightarrow> AbortJobSnapshot list \<Rightarrow> build_db \<Rightarrow> build_db" where
  "transitionAbortJobs env js db = fold (abort_job env) js db"

text \<open>
  Each open output once, over the outputs of all jobs; the count and the error texts. The transaction manager
  is the one \<open>main.go\<close> wires, behind the gate for Iceberg outputs.
\<close>

definition output_key :: "OutputTransaction \<Rightarrow> string" where
  "output_key out = ot_DatasetRID out @ [CHR 0x00] @ ot_TransactionRID out"

fun abort_outputs :: "pg_env \<Rightarrow> OutputTransaction list \<Rightarrow> string list \<Rightarrow> nat \<Rightarrow> string list \<Rightarrow> build_db \<Rightarrow>
    (nat \<times> string list) \<times> build_db" where
  "abort_outputs env [] seen aborted errs db = ((aborted, errs), db)"
| "abort_outputs env (out # outs) seen aborted errs db =
     (if output_key out \<in> set seen then abort_outputs env outs seen aborted errs db
      else case wired_Abort (pe_catalog env) (pg_Abort env) out db of
             (Some e, db') \<Rightarrow> abort_outputs env outs (output_key out # seen) aborted (errs @ [ot_DatasetRID out @ '': '' @ e]) db'
           | (None, db') \<Rightarrow> abort_outputs env outs (output_key out # seen) (aborted + 1) errs db')"

definition abortOpenOutputs :: "pg_env \<Rightarrow> AbortJobSnapshot list \<Rightarrow> build_db \<Rightarrow> (nat \<times> string list) \<times> build_db" where
  "abortOpenOutputs env js db = abort_outputs env (concat (map as_Outputs js)) [] 0 [] db"

datatype abort_response =
    AbortServerError string
  | AbortNotFound
  | AbortConflict
  | AbortAccepted nat "string list"

text \<open>Cancelling a registered execution does not touch the tables.\<close>

definition AbortBuild :: "pg_env \<Rightarrow> uuid \<Rightarrow> build_db \<Rightarrow> abort_response \<times> build_db" where
  "AbortBuild env buildID db =
     (case LoadBuildForAbort env buildID db of
        Inl e \<Rightarrow> (AbortServerError e, db)
      | Inr None \<Rightarrow> (AbortNotFound, db)
      | Inr (Some snap) \<Rightarrow>
          if ab_State snap \<in> {''BUILD_COMPLETED'', ''BUILD_FAILED''} then (AbortConflict, db)
          else
            (case (if ab_State snap \<notin> {''BUILD_ABORTING'', ''BUILD_ABORTED''}
                   then MarkBuildAborting env (ab_ID snap) ''aborted by user'' db else (None, db)) of
               (Some e, db1) \<Rightarrow> (AbortServerError e, db1)
             | (None, db1) \<Rightarrow>
                 let db2 = transitionAbortJobs env (ab_Jobs snap) db1;
                     ((aborted, errs), db3) = abortOpenOutputs env (ab_Jobs snap) db2;
                     db4 = (if errs = [] then snd (MarkBuildAborted env (ab_ID snap) ''aborted by user'' db3) else db3)
                 in (AbortAccepted aborted errs, db4)))"

section \<open>What an abort does to the rows\<close>

definition no_fault :: "pg_env \<Rightarrow> bool" where
  "no_fault env \<longleftrightarrow> (\<forall>st. pe_fault env st = None)"

lemma exec_clear: "no_fault env \<Longrightarrow> exec env st f db = (None, f db)"
  by (simp add: no_fault_def exec_def)

definition same_but_jobs :: "build_db \<Rightarrow> build_db \<Rightarrow> bool" where
  "same_but_jobs db db' \<longleftrightarrow> db_builds db' = db_builds db \<and> db_locks db' = db_locks db \<and>
     db_outputs db' = db_outputs db \<and> db_deps db' = db_deps db"

lemma same_but_jobs_refl [simp]: "same_but_jobs db db"
  by (simp add: same_but_jobs_def)

lemma same_but_jobs_trans: "same_but_jobs a b \<Longrightarrow> same_but_jobs b c \<Longrightarrow> same_but_jobs a c"
  by (simp add: same_but_jobs_def)

lemma transition_clear:
  assumes "no_fault env" "gm_get (db_jobs db) j = Some row" "bj_State row = job_state_string from"
    and t: "t = snd (pg_TransitionJob env j from to reason db)"
  shows "\<exists>row'. gm_get (db_jobs t) = (gm_get (db_jobs db))(j := Some row') \<and> bj_State row' = job_state_string to \<and>
    bj_BuildID row' = bj_BuildID row \<and> same_but_jobs db t"
  unfolding t using assms(1-3)
  by (simp add: pg_TransitionJob_def and_then_def exec_clear cas_job_def add_transition_def fun_eq_iff same_but_jobs_def)

definition abort_final :: "JobState \<Rightarrow> JobState" where
  "abort_final s = (if JobState_IsTerminal s then s else JobAborted)"

lemma abort_walk_one:
  assumes "no_fault env" "gm_get (db_jobs db) j = Some row" "bj_State row = job_state_string from"
    "IsValidTransition from to"
    and t: "t = abort_walk env j from [to] db"
  shows "\<exists>row'. gm_get (db_jobs t) = (gm_get (db_jobs db))(j := Some row') \<and> bj_State row' = job_state_string to \<and>
    bj_BuildID row' = bj_BuildID row \<and> same_but_jobs db t"
  using transition_clear [OF assms(1-3)] assms(4) by (simp add: t)

lemma abort_walk_two:
  assumes "no_fault env" "gm_get (db_jobs db) j = Some row" "bj_State row = job_state_string from"
    "IsValidTransition from JobAbortPending"
    and t: "t = abort_walk env j from [JobAbortPending, JobAborted] db"
  shows "\<exists>row'. gm_get (db_jobs t) = (gm_get (db_jobs db))(j := Some row') \<and> bj_State row' = job_state_string JobAborted \<and>
    bj_BuildID row' = bj_BuildID row \<and> same_but_jobs db t"
proof -
  define u where "u = snd (pg_TransitionJob env j from JobAbortPending ''build aborted by user'' db)"
  obtain row1 where row1: "gm_get (db_jobs u) = (gm_get (db_jobs db))(j := Some row1)"
    "bj_State row1 = job_state_string JobAbortPending" "bj_BuildID row1 = bj_BuildID row" "same_but_jobs db u"
    using transition_clear [OF assms(1-3) u_def] by blast
  have tu: "t = abort_walk env j JobAbortPending [JobAborted] u" using assms(4) by (simp add: t u_def)
  have "gm_get (db_jobs u) j = Some row1" using row1(1) by simp
  from abort_walk_one [OF assms(1) this row1(2) _ tu] show ?thesis
    using row1 by (auto simp: IsValidTransition_def intro: same_but_jobs_trans)
qed

lemma abort_job_row:
  assumes "no_fault env" "gm_get (db_jobs db) (as_ID job) = Some row" "bj_State row = job_state_string s"
    "as_State job = job_state_string s"
  shows "\<exists>row'. gm_get (db_jobs (abort_job env job db)) = (gm_get (db_jobs db))(as_ID job := Some row') \<and>
    bj_State row' = job_state_string (abort_final s) \<and> bj_BuildID row' = bj_BuildID row \<and>
    same_but_jobs db (abort_job env job db)"
proof -
  have job: "abort_job env job db = abort_walk env (as_ID job) s (abortTargets (job_state_string s)) db"
    using assms(4) by (simp add: abort_job_def)
  consider (two) "abortTargets (job_state_string s) = [JobAbortPending, JobAborted]" "IsValidTransition s JobAbortPending"
      "abort_final s = JobAborted"
    | (one) "abortTargets (job_state_string s) = [JobAborted]" "IsValidTransition s JobAborted" "abort_final s = JobAborted"
    | (none) "abortTargets (job_state_string s) = []" "abort_final s = s"
    by (cases s) (auto simp: abortTargets_def IsValidTransition_def abort_final_def JobState_IsTerminal_def)
  then show ?thesis
  proof cases
    case two
    then show ?thesis using abort_walk_two [OF assms(1-3) two(2)] by (simp add: job)
  next
    case one
    then show ?thesis using abort_walk_one [OF assms(1-3) one(2)] by (simp add: job)
  next
    case none
    then show ?thesis using assms(2,3) by (auto simp: job fun_eq_iff)
  qed
qed

text \<open>All jobs of a snapshot, whose rows are still as the snapshot saw them.\<close>

definition snap_ok :: "build_db \<Rightarrow> AbortJobSnapshot list \<Rightarrow> bool" where
  "snap_ok db js \<longleftrightarrow> distinct (map as_ID js) \<and>
     (\<forall>job \<in> set js. \<exists>row s. gm_get (db_jobs db) (as_ID job) = Some row \<and> bj_State row = job_state_string s \<and>
        as_State job = job_state_string s)"

definition job_state :: "build_db \<Rightarrow> uuid \<Rightarrow> string option" where
  "job_state db j = map_option bj_State (gm_get (db_jobs db) j)"

definition job_build :: "build_db \<Rightarrow> uuid \<Rightarrow> uuid option" where
  "job_build db j = map_option bj_BuildID (gm_get (db_jobs db) j)"

lemma abort_jobs_rows:
  assumes "no_fault env" "snap_ok db js"
  defines "t \<equiv> transitionAbortJobs env js db"
  shows "same_but_jobs db t \<and> (\<forall>j. j \<notin> as_ID ` set js \<longrightarrow> gm_get (db_jobs t) j = gm_get (db_jobs db) j) \<and>
    (\<forall>j. job_build t j = job_build db j) \<and>
    (\<forall>j s. j \<in> as_ID ` set js \<longrightarrow> job_state db j = Some (job_state_string s) \<longrightarrow>
       job_state t j = Some (job_state_string (abort_final s)))"
  using assms(2) unfolding t_def transitionAbortJobs_def
proof (induction js arbitrary: db)
  case (Cons job js)
  let ?u = "abort_job env job db"
  obtain row s where row: "gm_get (db_jobs db) (as_ID job) = Some row" "bj_State row = job_state_string s"
    "as_State job = job_state_string s"
    using Cons.prems by (auto simp: snap_ok_def)
  obtain row' where u: "gm_get (db_jobs ?u) = (gm_get (db_jobs db))(as_ID job := Some row')"
    "bj_State row' = job_state_string (abort_final s)" "bj_BuildID row' = bj_BuildID row" "same_but_jobs db ?u"
    using abort_job_row [OF assms(1) row] by blast
  have new: "as_ID job \<notin> as_ID ` set js" using Cons.prems by (simp add: snap_ok_def)
  then have "as_ID x \<noteq> as_ID job" if "x \<in> set js" for x using that by (metis image_eqI)
  then have "snap_ok ?u js" using Cons.prems u(1) by (simp add: snap_ok_def)
  note IH = Cons.IH [OF this]
  have same: "job_state_string a = job_state_string b \<longleftrightarrow> a = b" for a b by (metis ParseJobState_string sum.inject(2))
  show ?case
    using IH u new row same_but_jobs_trans [OF u(4)]
    by (auto simp: job_state_def job_build_def same split: if_splits)
qed (simp add: same_but_jobs_def)

definition output_of :: "string \<Rightarrow> output_row \<Rightarrow> OutputTransaction" where
  "output_of d row = \<lparr>ot_DatasetRID = d, ot_TransactionRID = ow_TransactionRID row\<rparr>"

lemma update_outputs_get:
  "gm_get (db_outputs (update_outputs tx f db)) (j, d) =
     map_option (\<lambda>row. if output_of d row = tx then f row else row) (gm_get (db_outputs db) (j, d))"
proof -
  have eq: "(\<lambda>((j, d), row). if d = ot_DatasetRID tx \<and> ow_TransactionRID row = ot_TransactionRID tx then ((j, d), f row) else ((j, d), row)) =
      (\<lambda>(k, row). (k, if output_of (snd k) row = tx then f row else row))"
    by (auto simp: fun_eq_iff output_of_def)
  have m: "map_of (map (\<lambda>(k, row). (k, g k row)) xs) k = map_option (g k) (map_of xs k)" for g :: "uuid \<times> string \<Rightarrow> output_row \<Rightarrow> output_row" and xs k
    by (induction xs) auto
  have "db_outputs (update_outputs tx f db) = map (\<lambda>(k, row). (k, if output_of (snd k) row = tx then f row else row)) (db_outputs db)"
    unfolding update_outputs_def eq by simp
  then show ?thesis using m [of "\<lambda>k row. if output_of (snd k) row = tx then f row else row"] by (simp add: gm_get_def)
qed

lemma output_of_flags [simp]:
  "output_of d (row\<lparr>ow_Committed := x\<rparr>) = output_of d row" "output_of d (row\<lparr>ow_Aborted := x\<rparr>) = output_of d row"
  by (simp_all add: output_of_def)

lemma output_rows_iff:
  assumes "gm_ok (db_outputs db)"
  shows "out \<in> set (output_rows db j) \<longleftrightarrow> (\<exists>d row. gm_get (db_outputs db) (j, d) = Some row \<and> out = output_of d row)"
  using gm_get_in_set [OF assms] by (force simp: output_rows_def output_of_def)

text \<open>The keys of outputs whose datasets hold no NUL, which a text column cannot, are distinct.\<close>

lemma output_key_inj:
  assumes "CHR 0x00 \<notin> set (ot_DatasetRID x)" "CHR 0x00 \<notin> set (ot_DatasetRID y)" "output_key x = output_key y"
  shows "x = (y :: OutputTransaction)"
proof -
  have "takeWhile (\<lambda>c. c \<noteq> CHR 0x00) (output_key z) = ot_DatasetRID z" if "CHR 0x00 \<notin> set (ot_DatasetRID z)" for z :: OutputTransaction
    unfolding output_key_def using that by (subst takeWhile_append2) auto
  then have "ot_DatasetRID x = ot_DatasetRID y" using assms by metis
  with assms(3) show ?thesis by (simp add: output_key_def)
qed

lemma abort_outputs_clear:
  assumes "no_fault env" "\<And>out. out \<in> set outs \<union> set over \<Longrightarrow> CHR 0x00 \<notin> set (ot_DatasetRID out)"
  shows "\<exists>n' errs' db'. abort_outputs env outs (map output_key over) n errs db = ((n', errs'), db') \<and>
     db_jobs db' = db_jobs db \<and> db_builds db' = db_builds db \<and> db_locks db' = db_locks db \<and>
     (errs' = [] \<longleftrightarrow> errs = [] \<and> (\<forall>out \<in> set outs - set over. \<not> Handles (ot_DatasetRID out))) \<and>
     (\<forall>j d. gm_get (db_outputs db') (j, d) = map_option (\<lambda>row.
        if \<not> Handles d \<and> output_of d row \<in> set outs - set over then row\<lparr>ow_Aborted := True\<rparr> else row) (gm_get (db_outputs db) (j, d)))"
  using assms(2)
proof (induction outs arbitrary: over n errs db)
  case (Cons out outs)
  have seen: "output_key out \<in> set (map output_key over) \<longleftrightarrow> out \<in> set over"
    using output_key_inj [of out] Cons.prems by auto
  show ?case
  proof (cases "out \<in> set over")
    case True
    then have "set (out # outs) - set over = set outs - set over" by auto
    with Cons.IH [of over n errs db] Cons.prems True seen show ?thesis by auto
  next
    case False
    define X where "X = set outs - set (out # over)"
    have split: "set (out # outs) - set over = insert out X" using False by (auto simp: X_def)
    have nul: "\<And>x. x \<in> set outs \<union> set (out # over) \<Longrightarrow> CHR 0x00 \<notin> set (ot_DatasetRID x)" using Cons.prems by auto
    note IH = Cons.IH [of "out # over", OF nul, folded X_def]
    show ?thesis
    proof (cases "Handles (ot_DatasetRID out)")
      case True
      obtain e where e: "wired_Abort (pe_catalog env) (pg_Abort env) out db = (Some e, db)"
        using wired_iceberg(2) [OF True, of "pe_catalog env" "pg_Abort env" db] by blast
      have rows: "(\<lambda>row. if \<not> Handles d \<and> output_of d row \<in> insert out X then row\<lparr>ow_Aborted := True\<rparr> else row) =
          (\<lambda>row. if \<not> Handles d \<and> output_of d row \<in> X then row\<lparr>ow_Aborted := True\<rparr> else row)" for d
        using True by (auto simp: fun_eq_iff output_of_def)
      from IH [of n "errs @ [ot_DatasetRID out @ '': '' @ e]" db] False seen e True show ?thesis
        unfolding split rows by simp
    next
      case plain: False
      let ?u = "update_outputs out (\<lambda>row. row\<lparr>ow_Aborted := True\<rparr>) db"
      have e: "wired_Abort (pe_catalog env) (pg_Abort env) out db = (None, ?u)"
        using plain by (simp add: pg_Abort_def exec_clear [OF assms(1)])
      have u: "db_jobs ?u = db_jobs db" "db_builds ?u = db_builds db" "db_locks ?u = db_locks db"
        by (simp_all add: update_outputs_def)
      have rows: "map_option (\<lambda>row. if \<not> Handles d \<and> output_of d row \<in> X then row\<lparr>ow_Aborted := True\<rparr> else row)
          (gm_get (db_outputs ?u) (j, d)) =
        map_option (\<lambda>row. if \<not> Handles d \<and> output_of d row \<in> insert out X then row\<lparr>ow_Aborted := True\<rparr> else row)
          (gm_get (db_outputs db) (j, d))" for j d
      proof (cases "gm_get (db_outputs db) (j, d)")
        case (Some row)
        have "output_of d row = out \<Longrightarrow> \<not> Handles d" using plain by (auto simp: output_of_def)
        with Some show ?thesis by (auto simp: update_outputs_get)
      qed (simp add: update_outputs_get)
      from IH [of "n + 1" errs ?u] False seen e u plain show ?thesis unfolding split rows by simp
    qed
  qed
qed (simp add: option.map_ident)

definition build_state :: "build_db \<Rightarrow> uuid \<Rightarrow> string option" where
  "build_state db b = map_option br_State (gm_get (db_builds db) b)"

lemma gm_get_filter:
  "gm_ok m \<Longrightarrow> gm_get (filter P m) k = (case gm_get m k of None \<Rightarrow> None | Some v \<Rightarrow> if P (k, v) then Some v else None)"
proof (induction m)
  case (Cons kv m)
  obtain k' v' where kv: "kv = (k', v')" by fastforce
  have "gm_get (filter P m) k' = None"
    using Cons.prems kv by (auto simp: gm_get_None_iff gm_keys_def gm_ok_def)
  then show ?case using Cons kv by (auto simp: gm_get_def gm_ok_def split: option.splits)
qed simp

lemma release_rows_holder:
  "gm_ok (db_locks db) \<Longrightarrow>
   lock_holder (release_rows b db) d = (if lock_holder db d = Some b then None else lock_holder db d)"
  by (cases "gm_get (db_locks db) d") (auto simp: lock_holder_def release_rows_def gm_get_filter)

definition abort_snapshots :: "build_db \<Rightarrow> uuid \<Rightarrow> AbortJobSnapshot list" where
  "abort_snapshots db b = map (\<lambda>(j, job). \<lparr>as_ID = j, as_State = bj_State job, as_Outputs = output_rows db j\<rparr>)
     (filter (\<lambda>(j, job). bj_BuildID job = b) (db_jobs db))"

lemma abortJobs_clear: "no_fault env \<Longrightarrow> abortJobs env db b = Inr (abort_snapshots db b)"
  by (auto simp: no_fault_def abortJobs_def abort_snapshots_def outputsForJob_def intro!: mapE_Inr)

lemma abortJobs_snap:
  assumes "gm_ok (db_jobs db)"
    "\<And>j row. gm_get (db_jobs db) j = Some row \<Longrightarrow> bj_BuildID row = b \<Longrightarrow> \<exists>s. bj_State row = job_state_string s"
  shows "snap_ok db (abort_snapshots db b)" "j \<in> as_ID ` set (abort_snapshots db b) \<longleftrightarrow> job_build db j = Some b"
proof -
  have "map as_ID (abort_snapshots db b) = map fst (filter (\<lambda>(j, job). bj_BuildID job = b) (db_jobs db))"
    by (simp add: abort_snapshots_def comp_def split_beta)
  then have "distinct (map as_ID (abort_snapshots db b))"
    using assms(1) by (simp add: gm_ok_def distinct_map_filter)
  moreover have "\<exists>row s. gm_get (db_jobs db) (as_ID job) = Some row \<and> bj_State row = job_state_string s \<and>
      as_State job = job_state_string s" if "job \<in> set (abort_snapshots db b)" for job
    using that assms(2) gm_get_in_set [OF assms(1)] by (fastforce simp: abort_snapshots_def)
  ultimately show "snap_ok db (abort_snapshots db b)" by (simp add: snap_ok_def)
  show "j \<in> as_ID ` set (abort_snapshots db b) \<longleftrightarrow> job_build db j = Some b"
    using gm_get_in_set [OF assms(1)] by (force simp: abort_snapshots_def job_build_def)
qed

section \<open>What resolution and persisting do to the locks\<close>

lemma OpenBuild_locks: "OpenBuild env args b db = (r, db') \<Longrightarrow> db_locks db' = db_locks db"
  by (auto simp: OpenBuild_def exec_def Let_def split: option.splits if_splits)

lemma MarkBuildFailed_locks: "db_locks (snd (MarkBuildFailed env b reason db)) = db_locks db"
  by (auto simp: MarkBuildFailed_def exec_def update_build_def split: option.splits)

lemma foldE_keeps:
  "foldE f xs s = Inr s' \<Longrightarrow> (\<And>x s s'. f x s = Inr s' \<Longrightarrow> g s' = g s) \<Longrightarrow> g s' = g s"
proof (induction xs arbitrary: s)
  case (Cons x xs)
  obtain s1 where "f x s = Inr s1" "foldE f xs s1 = Inr s'"
    using Cons.prems(1) by (auto simp: bindE_Inr_iff)
  then show ?case using Cons.IH [of s1] Cons.prems(2) by metis
qed simp

lemma persist_job_locks: "persist_job env dg rb fresh job db = Inr db' \<Longrightarrow> db_locks db' = db_locks db"
proof -
  assume p: "persist_job env dg rb fresh job db = Inr db'"
  obtain db1 where one: "upsert_job env (rb_BuildID rb) (spec_by_rid (rb_JobSpecs rb) (rj_JobSpecRID job))
      (meta_of (stalenessMetadataBySpec dg (rb_JobSpecs rb) (rb_InputViews rb)) (rj_JobSpecRID job))
      (is_fresh fresh (rj_JobSpecRID job)) job db = Inr db1"
    and two: "foldE (upsert_output env (rb_OpenedTransactions rb) job) (rj_OutputTransactionRIDs job) db1 = Inr db'"
    using p by (auto simp: persist_job_def Let_def bindE_Inr_iff)
  have "db_locks db1 = db_locks db"
    using one by (auto simp: upsert_job_def Let_def split: option.splits if_splits)
  moreover have "db_locks db' = db_locks db1"
    using two by (rule foldE_keeps) (auto simp: upsert_output_def Let_def split: option.splits)
  ultimately show ?thesis by simp
qed

lemma persist_deps_locks:
  "foldE (\<lambda>job. foldE (persist_dep env m job) (rj_DependsOnJobSpecRIDs job)) js db = Inr db' \<Longrightarrow>
   db_locks db' = db_locks db"
  by (erule foldE_keeps, erule foldE_keeps) (auto simp: persist_dep_def split: option.splits if_splits)

lemma update_build_locks [simp]: "db_locks (update_build b f db) = db_locks db"
  by (simp add: update_build_def split: option.splits)

lemma PersistResolvedBuild_locks:
  "PersistResolvedBuild env dg rb db = (r, db') \<Longrightarrow> db_locks db' = db_locks db"
  unfolding PersistResolvedBuild_def persistResolvedBuild_def Let_def
  by (auto simp: bindE_Inr_iff dest!: persist_deps_locks foldE_keeps [where g = db_locks, OF _ persist_job_locks]
      split: option.splits sum.splits)

lemma lock_holder_cong: "db_locks db' = db_locks db \<Longrightarrow> lock_holder db' = lock_holder db"
  by (simp add: lock_holder_def fun_eq_iff)

text \<open>Locks only come into being, for the build that resolves; an opened build holds all of its outputs.\<close>

definition locks_gained :: "uuid \<Rightarrow> build_db \<Rightarrow> build_db \<Rightarrow> bool" where
  "locks_gained b db db' \<longleftrightarrow> (\<exists>D. (\<forall>d \<in> D. lock_holder db d = None) \<and>
     lock_holder db' = (\<lambda>d. if d \<in> D then Some b else lock_holder db d))"

lemma locks_gained_same: "lock_holder db' = lock_holder db \<Longrightarrow> locks_gained b db db'"
  unfolding locks_gained_def by (rule exI [of _ "{}"]) simp

lemma AcquireLocks_gained:
  assumes "AcquireLocks b specs branch (pg_versioning env) (Some (pg_locks env)) db = (r, db')"
  shows "locks_gained b db db'" "r = Inr opened \<Longrightarrow> d \<in> op_DatasetRID ` set opened \<Longrightarrow>
     lock_holder db d = None \<and> lock_holder db' d = Some b"
proof -
  from pg.acquire_loop_locks [OF assms [unfolded AcquireLocks_def]] obtain new where
    new: "pg.taken_ok b (concat (map js_OutputDatasetRIDs specs)) [] new db db'" "\<forall>opened. r = Inr opened \<longrightarrow> opened = new"
    by (cases r) auto
  then show "locks_gained b db db'" unfolding pg.taken_ok_def locks_gained_def by blast
  show "lock_holder db d = None \<and> lock_holder db' d = Some b" if "r = Inr opened" "d \<in> op_DatasetRID ` set opened"
    using new that unfolding pg.taken_ok_def by auto
qed

lemma ResolveBuild_gained:
  assumes "ResolveBuild lib now newID args repo (pg_versioning env) (Some (pg_locks env)) db = Some (r, db')"
    "ra_BuildID args = Some b"
  shows "locks_gained b db db'"
    "r = Inr rb \<Longrightarrow> rb_BuildID rb = b \<and> (\<forall>d \<in> op_DatasetRID ` set (rb_OpenedTransactions rb).
       lock_holder db d = None \<and> lock_holder db' d = Some b)"
proof -
  show "locks_gained b db db'"
  proof (cases "db' = db")
    case False
    obtain specs views where "resolve_locked lib now newID args specs views (pg_versioning env) (Some (pg_locks env)) db = (r, db')"
      using ResolveBuild_unchanged [OF assms(1) False] by blast
    then show ?thesis using assms(2) False
      by (auto simp: resolve_locked_def Let_def dest!: AcquireLocks_gained(1)
          split: sum.splits bool.splits prod.splits)
  qed (simp add: locks_gained_same)
  show "rb_BuildID rb = b \<and> (\<forall>d \<in> op_DatasetRID ` set (rb_OpenedTransactions rb).
       lock_holder db d = None \<and> lock_holder db' d = Some b)" if r: "r = Inr rb"
  proof -
    obtain specs views where locked:
      "resolve_locked lib now newID args specs views (pg_versioning env) (Some (pg_locks env)) db = (Inr rb, db')"
      using ResolveBuild_Inr [OF assms(1) [unfolded r]] by blast
    then have b: "rb_BuildID rb = b"
      using assms(2) resolve_locked_Inr(3) [OF locked] by simp
    show ?thesis
    proof (cases "rb_QueuedReason rb")
      case None
      have "AcquireLocks b specs (ra_BuildBranch args) (pg_versioning env) (Some (pg_locks env)) db
          = (Inr (rb_OpenedTransactions rb), db')"
        using resolve_locked_Inr(5) [OF locked None] b by simp
      note got = AcquireLocks_gained(2) [OF this refl]
      show ?thesis by (intro conjI [OF b] ballI) (rule got)
    next
      case (Some reason)
      then have "rb_OpenedTransactions rb = []" using resolve_locked_Inr(4) [OF locked] by simp
      then show ?thesis using b by simp
    qed
  qed
qed

section \<open>Properties\<close>

text \<open>
  C14. Whatever the request, the repository and the faults, \<open>CreateBuild\<close> takes no lock from its holder
  and gives locks to its own build only; when it accepts a build, every output it reports was free before and is
  locked for that build now. So two builds never hold one output.
\<close>

theorem CreateBuild_locks:
  assumes "CreateBuild env dg repo b body who db = Some (resp, db')"
  shows "(\<forall>d h. lock_holder db d = Some h \<longrightarrow> lock_holder db' d = Some h) \<and>
    (\<forall>d h. lock_holder db d = None \<longrightarrow> lock_holder db' d = Some h \<longrightarrow> h = b) \<and>
    (\<forall>i st queued n opened. resp = Accepted i st queued n opened \<longrightarrow> i = b \<and>
       (\<forall>d \<in> op_DatasetRID ` set opened. lock_holder db d = None \<and> lock_holder db' d = Some b))"
proof -
  have spread: ?thesis if "locks_gained b db db'"
    "\<And>i st queued n opened. resp = Accepted i st queued n opened \<Longrightarrow> i = b \<and>
       (\<forall>d \<in> op_DatasetRID ` set opened. lock_holder db d = None \<and> lock_holder db' d = Some b)"
    using that by (fastforce simp: locks_gained_def split: if_splits)
  show ?thesis
  proof (cases "createBuildArgs body who")
    case (Inl e)
    then show ?thesis using assms by (intro spread) (auto simp: CreateBuild_def locks_gained_same)
  next
    case (Inr args0)
    define args where "args = args0\<lparr>ra_BuildID := Some b\<rparr>"
    obtain e1 db1 where open': "OpenBuild env args b db = (e1, db1)" by fastforce
    have h1: "lock_holder db1 = lock_holder db" by (rule lock_holder_cong [OF OpenBuild_locks [OF open']])
    show ?thesis
    proof (cases e1)
      case (Some e)
      then show ?thesis using assms Inr open' h1
        by (intro spread) (auto simp: CreateBuild_def locks_gained_same simp flip: args_def)
    next
      case None
      obtain r db2 where res: "ResolveBuild (pe_uuids env) (pe_now env) b args repo (pg_versioning env) (Some (pg_locks env)) db1 = Some (r, db2)"
        using ResolveBuild_total by (metis option.exhaust surj_pair)
      note gained = ResolveBuild_gained [OF res, of b]
      have id: "ra_BuildID args = Some b" by (simp add: args_def)
      have g12: "locks_gained b db db2" using gained(1) [OF id] unfolding locks_gained_def h1 .
      show ?thesis
      proof (cases r)
        case (Inl err)
        then have "db' = snd (MarkBuildFailed env b (resolve_error_Error (pe_uuids env) err) db2)"
          "resp = ResolutionFailed (resolve_error_Error (pe_uuids env) err)"
          using assms Inr open' None res by (simp_all add: CreateBuild_def Let_def flip: args_def)
        then show ?thesis using g12 lock_holder_cong [OF MarkBuildFailed_locks]
          by (intro spread) (auto simp: locks_gained_def)
      next
        case (Inr rb)
        obtain e3 db3 where per: "PersistResolvedBuild env dg rb db2 = (e3, db3)" by fastforce
        have h3: "lock_holder db3 = lock_holder db2" by (rule lock_holder_cong [OF PersistResolvedBuild_locks [OF per]])
        have "CreateBuild env dg repo b body who db = (case e3 of
            Some e \<Rightarrow> Some (ServerError ''build_persist_failed'' e, snd (MarkBuildFailed env b e db3))
          | None \<Rightarrow> Some (Accepted (rb_BuildID rb) (rb_State rb) (rb_QueuedReason rb)
              (length (rb_JobSpecs rb)) (rb_OpenedTransactions rb), db3))"
          using \<open>createBuildArgs body who = Inr args0\<close> open' None res Inr per
          by (simp add: CreateBuild_def Let_def flip: args_def)
        then show ?thesis using assms g12 h3 gained(2) [OF id Inr] h1 lock_holder_cong [OF MarkBuildFailed_locks]
          by (intro spread) (auto simp: locks_gained_def split: option.splits)
      qed
    qed
  qed
qed

text \<open>The outputs an abort of a build calls the transaction manager for.\<close>

definition build_output :: "build_db \<Rightarrow> uuid \<Rightarrow> string \<Rightarrow> string \<Rightarrow> bool" where
  "build_output db b d txn \<longleftrightarrow> (\<exists>j row. job_build db j = Some b \<and> gm_get (db_outputs db) (j, d) = Some row \<and> ow_TransactionRID row = txn)"

definition has_iceberg :: "build_db \<Rightarrow> uuid \<Rightarrow> bool" where
  "has_iceberg db b \<longleftrightarrow> (\<exists>j d. job_build db j = Some b \<and> gm_get (db_outputs db) (j, d) \<noteq> None \<and> Handles d)"

lemma snapshot_outputs:
  assumes "gm_ok (db_jobs db)" "gm_ok (db_outputs db)"
  shows "out \<in> set (concat (map as_Outputs (abort_snapshots db b))) \<longleftrightarrow> build_output db b (ot_DatasetRID out) (ot_TransactionRID out)"
proof -
  have "out \<in> set (concat (map as_Outputs (abort_snapshots db b))) \<longleftrightarrow> (\<exists>j. job_build db j = Some b \<and> out \<in> set (output_rows db j))"
    using gm_get_in_set [OF assms(1)] by (force simp: abort_snapshots_def job_build_def)
  also have "\<dots> \<longleftrightarrow> build_output db b (ot_DatasetRID out) (ot_TransactionRID out)"
    unfolding output_rows_iff [OF assms(2)] build_output_def by (cases out) (auto simp: output_of_def)
  finally show ?thesis .
qed

lemma AbortBuild_rows:
  assumes nf: "no_fault env" and ok: "gm_ok (db_jobs db)" "gm_ok (db_locks db)" "gm_ok (db_outputs db)"
    and st: "build_state db b = Some st" "st \<notin> {''BUILD_COMPLETED'', ''BUILD_FAILED''}"
    and states: "\<And>j row. gm_get (db_jobs db) j = Some row \<Longrightarrow> bj_BuildID row = b \<Longrightarrow> \<exists>s. bj_State row = job_state_string s"
    and nul: "\<And>j d row. gm_get (db_outputs db) (j, d) = Some row \<Longrightarrow> CHR 0x00 \<notin> set d"
    and run: "AbortBuild env b db = (resp, db')"
  shows "(\<exists>n errs. resp = AbortAccepted n errs \<and> (errs = [] \<longleftrightarrow> \<not> has_iceberg db b))"
    "build_state db' b = Some (if has_iceberg db b \<and> st \<noteq> ''BUILD_ABORTED'' then ''BUILD_ABORTING'' else ''BUILD_ABORTED'')"
    "job_build db j = Some b \<Longrightarrow> job_state db j = Some (job_state_string s) \<Longrightarrow>
       job_state db' j = Some (job_state_string (if JobState_IsTerminal s then s else JobAborted))"
    "job_build db j \<noteq> Some b \<Longrightarrow> gm_get (db_jobs db') j = gm_get (db_jobs db) j"
    "gm_get (db_outputs db') (j, d) = map_option (\<lambda>row. if \<not> Handles d \<and> build_output db b d (ow_TransactionRID row)
       then row\<lparr>ow_Aborted := True\<rparr> else row) (gm_get (db_outputs db) (j, d))"
    "b' \<noteq> b \<Longrightarrow> gm_get (db_builds db') b' = gm_get (db_builds db) b'"
    "lock_holder db' d = (if \<not> has_iceberg db b \<and> lock_holder db d = Some b then None else lock_holder db d)"
proof -
  obtain row where row: "gm_get (db_builds db) b = Some row" "br_State row = st"
    using st(1) by (auto simp: build_state_def)
  define db1 where "db1 = (if st \<in> {''BUILD_ABORTING'', ''BUILD_ABORTED''} then db
      else snd (MarkBuildAborting env b ''aborted by user'' db))"
  have db1: "db_jobs db1 = db_jobs db" "db_locks db1 = db_locks db" "db_outputs db1 = db_outputs db"
    "build_state db1 b = Some (if st = ''BUILD_ABORTED'' then ''BUILD_ABORTED'' else ''BUILD_ABORTING'')"
    "\<And>b'. b' \<noteq> b \<Longrightarrow> gm_get (db_builds db1) b' = gm_get (db_builds db) b'"
    using row by (auto simp: db1_def MarkBuildAborting_def exec_clear [OF nf] update_build_def build_state_def)
  define js where "js = abort_snapshots db b"
  define outs where "outs = concat (map as_Outputs js)"
  define db2 where "db2 = transitionAbortJobs env js db1"
  note snap = abortJobs_snap [of db b, OF ok(1) states, folded js_def]
  have "snap_ok db1 js" using snap(1) db1(1) by (simp add: snap_ok_def)
  note db2 = abort_jobs_rows [OF nf this, folded db2_def]
  have outs_iff: "out \<in> set outs \<longleftrightarrow> build_output db b (ot_DatasetRID out) (ot_TransactionRID out)" for out
    unfolding outs_def js_def by (rule snapshot_outputs [OF ok(1,3)])
  have "\<And>out. out \<in> set outs \<union> set ([] :: OutputTransaction list) \<Longrightarrow> CHR 0x00 \<notin> set (ot_DatasetRID out)"
    using nul by (auto simp: outs_iff build_output_def)
  note clear = abort_outputs_clear [OF nf, where outs = outs and over = "[]" and n = 0 and errs = "[]" and db = db2, OF this, simplified]
  obtain n errs db3 where
    calls: "abort_outputs env outs [] 0 [] db2 = ((n, errs), db3)"
    and db3: "db_jobs db3 = db_jobs db2" "db_builds db3 = db_builds db2" "db_locks db3 = db_locks db2"
    and errs: "errs = [] \<longleftrightarrow> (\<forall>out \<in> set outs. \<not> Handles (ot_DatasetRID out))"
    and rows3: "\<And>j d. gm_get (db_outputs db3) (j, d) = map_option (\<lambda>row.
        if \<not> Handles d \<and> output_of d row \<in> set outs then row\<lparr>ow_Aborted := True\<rparr> else row) (gm_get (db_outputs db2) (j, d))"
    using clear by auto
  have ice: "errs = [] \<longleftrightarrow> \<not> has_iceberg db b"
  proof -
    have "(\<exists>out \<in> set outs. Handles (ot_DatasetRID out)) \<longleftrightarrow> has_iceberg db b"
    proof
      assume "has_iceberg db b"
      then obtain j d r where "job_build db j = Some b" "gm_get (db_outputs db) (j, d) = Some r" "Handles d"
        by (auto simp: has_iceberg_def)
      then have "output_of d r \<in> set outs" "Handles (ot_DatasetRID (output_of d r))"
        by (auto simp: outs_iff build_output_def output_of_def)
      then show "\<exists>out \<in> set outs. Handles (ot_DatasetRID out)" by blast
    qed (fastforce simp: outs_iff build_output_def has_iceberg_def)
    then show ?thesis using errs by blast
  qed
  define db4 where "db4 = (if errs = [] then snd (MarkBuildAborted env b ''aborted by user'' db3) else db3)"
  have resp: "resp = AbortAccepted n errs" "db' = db4"
    using run row nf st(2) calls
    by (auto simp: AbortBuild_def LoadBuildForAbort_def abortJobs_clear [OF nf] no_fault_def db1_def db2_def db4_def abortOpenOutputs_def Let_def
        MarkBuildAborting_def exec_def js_def outs_def split: if_splits)
  show "\<exists>n errs. resp = AbortAccepted n errs \<and> (errs = [] \<longleftrightarrow> \<not> has_iceberg db b)" using resp(1) ice by blast
  have fin: "db4 = (if errs = [] then release_rows b (update_build b (\<lambda>r. r\<lparr>br_State := ''BUILD_ABORTED'',
      br_ErrorMessage := Some ''aborted by user'', br_FinishedAt := Some (pe_now env)\<rparr>) db3) else db3)"
    by (simp add: db4_def MarkBuildAborted_def and_then_def exec_clear [OF nf])
  have same4: "db_jobs db4 = db_jobs db3" "db_outputs db4 = db_outputs db3"
    by (simp_all add: fin release_rows_def update_build_def split: option.splits)
  have b3: "db_builds db3 = db_builds db1" "db_outputs db2 = db_outputs db" "db_locks db3 = db_locks db"
    using db1(2,3) db2 db3 by (simp_all add: same_but_jobs_def)
  show "build_state db' b = Some (if has_iceberg db b \<and> st \<noteq> ''BUILD_ABORTED'' then ''BUILD_ABORTING'' else ''BUILD_ABORTED'')"
    using db1(4) ice unfolding resp(2) fin by (auto simp: build_state_def release_rows_def update_build_def b3(1) split: option.splits)
  show "b' \<noteq> b \<Longrightarrow> gm_get (db_builds db') b' = gm_get (db_builds db) b'"
    using db1(5) unfolding resp(2) fin by (simp add: release_rows_def update_build_def b3(1) split: option.splits)
  have same: "job_state db1 = job_state db" "job_build db1 = job_build db" using db1(1) by (simp_all add: job_state_def job_build_def fun_eq_iff)
  have jobs': "db_jobs db' = db_jobs db2" using same4(1) db3(1) by (simp add: resp(2))
  show "job_build db j \<noteq> Some b \<Longrightarrow> gm_get (db_jobs db') j = gm_get (db_jobs db) j"
    using db2 snap(2) db1(1) by (simp add: jobs')
  show "job_state db' j = Some (job_state_string (if JobState_IsTerminal s then s else JobAborted))"
    if "job_build db j = Some b" "job_state db j = Some (job_state_string s)"
  proof -
    have "job_state db2 j = Some (job_state_string (abort_final s))" using db2 that snap(2) same by simp
    then show ?thesis using jobs' by (simp add: job_state_def abort_final_def)
  qed
  have "output_of d r \<in> set outs \<longleftrightarrow> build_output db b d (ow_TransactionRID r)" for r
    by (simp add: outs_iff output_of_def)
  then show "gm_get (db_outputs db') (j, d) = map_option (\<lambda>row. if \<not> Handles d \<and> build_output db b d (ow_TransactionRID row)
       then row\<lparr>ow_Aborted := True\<rparr> else row) (gm_get (db_outputs db) (j, d))"
    using rows3 [of j d] by (simp add: resp(2) same4(2) b3(2))
  have "gm_ok (db_locks db3)" using ok(2) b3(3) by simp
  then have "lock_holder (release_rows b (update_build b f db3)) d = (if lock_holder db3 d = Some b then None else lock_holder db3 d)" for f
    by (subst release_rows_holder) (simp_all add: lock_holder_def)
  then show "lock_holder db' d = (if \<not> has_iceberg db b \<and> lock_holder db d = Some b then None else lock_holder db d)"
    using ice unfolding resp(2) fin by (simp add: lock_holder_def b3(3))
qed

text \<open>
  C15. \<open>AbortBuild\<close>, without database faults, on a build that is neither completed nor failed (those are refused):
  each job of the build that had not ended is ABORTED and the others keep their end; every output of its jobs is
  marked aborted, except Iceberg outputs, for which the wired transaction manager only has an error. Without
  Iceberg outputs the build ends in BUILD_ABORTED and its locks are released; with one the errors are reported
  and the build stays in BUILD_ABORTING with its locks. Rows of other builds and of their jobs, output rows of
  other transactions and locks of others are untouched. (Dataset names are text columns and hold no NUL.)
\<close>

theorem AbortBuild_settles:
  assumes "no_fault env" "gm_ok (db_jobs db)" "gm_ok (db_locks db)" "gm_ok (db_outputs db)"
    and "build_state db b = Some st" "st \<notin> {''BUILD_COMPLETED'', ''BUILD_FAILED''}"
    and "\<And>j row. gm_get (db_jobs db) j = Some row \<Longrightarrow> bj_BuildID row = b \<Longrightarrow> \<exists>s. bj_State row = job_state_string s"
    and "\<And>j d row. gm_get (db_outputs db) (j, d) = Some row \<Longrightarrow> CHR 0x00 \<notin> set d"
    and "AbortBuild env b db = (resp, db')"
  shows "(\<exists>n errs. resp = AbortAccepted n errs \<and> (errs = [] \<longleftrightarrow> \<not> has_iceberg db b)) \<and>
    build_state db' b = Some (if has_iceberg db b \<and> st \<noteq> ''BUILD_ABORTED'' then ''BUILD_ABORTING'' else ''BUILD_ABORTED'') \<and>
    (\<forall>j s. job_build db j = Some b \<longrightarrow> job_state db j = Some (job_state_string s) \<longrightarrow>
       job_state db' j = Some (job_state_string (if JobState_IsTerminal s then s else JobAborted))) \<and>
    (\<forall>j. job_build db j \<noteq> Some b \<longrightarrow> gm_get (db_jobs db') j = gm_get (db_jobs db) j) \<and>
    (\<forall>j d. gm_get (db_outputs db') (j, d) = map_option (\<lambda>row. if \<not> Handles d \<and> build_output db b d (ow_TransactionRID row)
       then row\<lparr>ow_Aborted := True\<rparr> else row) (gm_get (db_outputs db) (j, d))) \<and>
    (\<forall>b'. b' \<noteq> b \<longrightarrow> gm_get (db_builds db') b' = gm_get (db_builds db) b') \<and>
    (\<forall>d. lock_holder db' d = (if \<not> has_iceberg db b \<and> lock_holder db d = Some b then None else lock_holder db d))"
proof -
  note A = AbortBuild_rows [OF assms]
  show ?thesis by (intro conjI allI impI; rule A; assumption)
qed

section \<open>Examples\<close>

definition env_0 :: pg_env where
  "env_0 = \<lparr>pe_now = 7, pe_fault = (\<lambda>st. None), pe_newID = (\<lambda>d. 3),
     pe_uuids = \<lparr>ul_NewSHA1 = (\<lambda>u s. 40), ul_Parse = (\<lambda>s. None), ul_String = (\<lambda>u. if u = 5 then ''b5'' else ''u'')\<rparr>,
     pe_catalog = False\<rparr>"

definition dg_0 :: digests where
  "dg_0 = \<lparr>dg_signature = (\<lambda>is. ''s''), dg_logic = (\<lambda>k p i os. ''l''), dg_schema = (\<lambda>s. ''h''), dg_job = (\<lambda>a b. ''j'')\<rparr>"

definition repo_0 :: "build_db JobSpecRepository" where
  "repo_0 = (\<lambda>pipeline output branch chain s.
     Inr (if output = ''x'' then Some (spec_of ''s1'' [] [''x'']) else if output = ''y'' then Some (spec_of ''s2'' [] [''x'', ''y'']) else None))"

definition row_0 :: build_row where
  "row_0 = \<lparr>br_PipelineRID = ''p'', br_BuildBranch = ''master'', br_JobSpecFallback = [], br_TargetDatasetRIDs = [''y''],
     br_State = ''BUILD_RUNNING'', br_TriggerKind = ''MANUAL'', br_ForceBuild = False, br_RequestedBy = [],
     br_AbortPolicy = ''DEPENDENT_ONLY'', br_ErrorMessage = None, br_QueuedAt = None, br_StartedAt = None, br_FinishedAt = None\<rparr>"

definition job_0 :: build_job_row where
  "job_0 = \<lparr>bj_BuildID = 9, bj_JobSpecRID = ''s3'', bj_LogicKind = ''TRANSFORM'', bj_ContentHash = [], bj_InputDatasetRIDs = [],
     bj_OutputDatasetRIDs = [''y''], bj_InputSignature = ''s'', bj_LogicHash = ''l'', bj_StaleSkipped = False, bj_State = ''RUNNING'',
     bj_OutputTransactionRIDs = [''t''], bj_StateChangedAt = 0, bj_StartedAt = None, bj_FinishedAt = None, bj_Attempt = 0,
     bj_FailureReason = None\<rparr>"

text \<open>A running build holds the output y.\<close>

definition db_0 :: build_db where
  "db_0 = \<lparr>db_builds = [(9, row_0)], db_jobs = [(30, job_0)],
     db_outputs = [((30, ''y''), \<lparr>ow_TransactionRID = ''t'', ow_Committed = False, ow_Aborted = False\<rparr>)],
     db_deps = [], db_transitions = [], db_locks = [(''y'', 9, ''t'')], db_transactions = [],
     db_branches = map (\<lambda>d. \<lparr>bw_DatasetRID = d, bw_Name = ''master'', bw_Head = None, bw_Schema = []\<rparr>) [''x'', ''y'']\<rparr>"

definition request_for :: "string list \<Rightarrow> CreateBuildRequest" where
  "request_for outputs = \<lparr>cb_PipelineRID = ''p'', cb_BuildBranch = ''master'', cb_JobSpecFallback = [], cb_ForceBuild = False,
     cb_OutputDatasetRIDs = outputs, cb_TriggerKind = None, cb_AbortPolicy = None\<rparr>"

lemma create_x: "map_option fst (CreateBuild env_0 dg_0 repo_0 5 (request_for [''x'']) [] db_0) =
    Some (Accepted 5 BuildResolution None 1 [\<lparr>op_DatasetRID = ''x'', op_TransactionRID = ''ri.foundry.main.transaction.u''\<rparr>])"
  by code_simp

theorem CreateBuild_locks_witness:
  "\<exists>resp db'. CreateBuild env_0 dg_0 repo_0 5 (request_for [''x'']) [] db_0 = Some (resp, db') \<and>
     lock_holder db_0 ''x'' = None \<and> lock_holder db' ''x'' = Some 5 \<and> lock_holder db' ''y'' = Some 9"
proof -
  obtain db' where c: "CreateBuild env_0 dg_0 repo_0 5 (request_for [''x'']) [] db_0 =
      Some (Accepted 5 BuildResolution None 1 [\<lparr>op_DatasetRID = ''x'', op_TransactionRID = ''ri.foundry.main.transaction.u''\<rparr>], db')"
    using create_x by auto
  have y: "lock_holder db_0 ''y'' = Some 9" by (simp add: lock_holder_def db_0_def gm_get_def)
  note L = CreateBuild_locks [OF c]
  have "lock_holder db' ''y'' = Some 9" using conjunct1 [OF L] y by blast
  moreover have "lock_holder db_0 ''x'' = None \<and> lock_holder db' ''x'' = Some 5"
    using conjunct2 [OF conjunct2 [OF L]] by simp
  ultimately show ?thesis using c by blast
qed

lemma db_0_abortable:
  "no_fault env_0" "gm_ok (db_jobs db_0)" "gm_ok (db_locks db_0)" "gm_ok (db_outputs db_0)"
  "build_state db_0 9 = Some ''BUILD_RUNNING''" "gm_get (db_jobs db_0) j = Some row \<Longrightarrow> \<exists>s. bj_State row = job_state_string s"
  "gm_get (db_outputs db_0) (j, d) = Some orow \<Longrightarrow> d = ''y''"
  "job_build db_0 30 = Some 9" "job_state db_0 30 = Some (job_state_string JobRunning)" "lock_holder db_0 ''y'' = Some 9"
  by (auto simp: no_fault_def env_0_def db_0_def gm_ok_def build_state_def row_0_def gm_get_def job_0_def job_build_def
      job_state_def lock_holder_def intro: exI [of _ JobRunning] split: if_splits)

theorem AbortBuild_settles_witness:
  "\<exists>resp db' orow. AbortBuild env_0 9 db_0 = (resp, db') \<and> build_state db' 9 = Some ''BUILD_ABORTED'' \<and>
     job_state db' 30 = Some ''ABORTED'' \<and> lock_holder db' ''y'' = None \<and>
     gm_get (db_outputs db') (30, ''y'') = Some orow \<and> ow_Aborted orow"
proof -
  obtain resp db' where a: "AbortBuild env_0 9 db_0 = (resp, db')" by fastforce
  have "\<not> Handles ''y''" by code_simp
  then have no: "\<not> has_iceberg db_0 9" using db_0_abortable(7) by (fastforce simp: has_iceberg_def)
  define orow where "orow = \<lparr>ow_TransactionRID = ''t'', ow_Committed = False, ow_Aborted = False\<rparr>"
  have out: "gm_get (db_outputs db_0) (30, ''y'') = Some orow" by (simp add: db_0_def gm_get_def orow_def)
  then have bo: "build_output db_0 9 ''y'' (ow_TransactionRID orow)" using db_0_abortable(8) by (auto simp: build_output_def)
  have nul: "CHR 0x00 \<notin> set d" if "gm_get (db_outputs db_0) (j, d) = Some row" for j d row
    using db_0_abortable(7) [OF that] by simp
  have states: "\<exists>s. bj_State row = job_state_string s" if "gm_get (db_jobs db_0) j = Some row" "bj_BuildID row = 9" for j row
    using db_0_abortable(6) [OF that(1)] .
  have A: "build_state db' 9 = Some ''BUILD_ABORTED'' \<and>
    (\<forall>j s. job_build db_0 j = Some 9 \<longrightarrow> job_state db_0 j = Some (job_state_string s) \<longrightarrow>
       job_state db' j = Some (job_state_string (if JobState_IsTerminal s then s else JobAborted))) \<and>
    (\<forall>j d. gm_get (db_outputs db') (j, d) = map_option (\<lambda>row. if \<not> Handles d \<and> build_output db_0 9 d (ow_TransactionRID row)
       then row\<lparr>ow_Aborted := True\<rparr> else row) (gm_get (db_outputs db_0) (j, d))) \<and>
    (\<forall>d. lock_holder db' d = (if lock_holder db_0 d = Some 9 then None else lock_holder db_0 d))"
    using AbortBuild_settles [OF db_0_abortable(1-5) _ states nul a] no by simp
  moreover from A have "job_state db' 30 = Some (job_state_string (if JobState_IsTerminal JobRunning then JobRunning else JobAborted))"
    using db_0_abortable(8,9) by blast
  ultimately have "build_state db' 9 = Some ''BUILD_ABORTED'' \<and> job_state db' 30 = Some ''ABORTED'' \<and> lock_holder db' ''y'' = None"
    using db_0_abortable(10) by (simp add: JobState_IsTerminal_def)
  moreover have "gm_get (db_outputs db') (30, ''y'') = Some (orow\<lparr>ow_Aborted := True\<rparr>)"
    using A out bo \<open>\<not> Handles ''y''\<close> by simp
  ultimately show ?thesis using a by auto
qed

section \<open>Where the code falls short\<close>

text \<open>
  A build whose second output is locked by another build keeps the lock of its first output when it
  fails: \<open>MarkBuildFailed\<close> releases nothing, \<open>AbortBuild\<close> refuses a failed build, and every later build of that
  output fails on the lock.
\<close>

definition db_1 :: build_db where
  "db_1 = db_0\<lparr>
     db_builds := db_builds db_0 @ [(5, row_0\<lparr>br_State := ''BUILD_FAILED'',
       br_ErrorMessage := Some ''output dataset y already locked by build u'', br_FinishedAt := Some 7\<rparr>)],
     db_locks := db_locks db_0 @ [(''x'', 5, ''ri.foundry.main.transaction.u'')],
     db_transactions := [(''ri.foundry.main.transaction.u'', ''x'', ''master''), (''ri.foundry.main.transaction.u'', ''y'', ''master'')]\<rparr>"

lemma create_y: "CreateBuild env_0 dg_0 repo_0 5 (request_for [''y'']) [] db_0 =
    Some (ResolutionFailed ''output dataset y already locked by build u'', db_1)"
  by code_simp

lemma abort_failed: "AbortBuild env_0 5 db_1 = (AbortConflict, db_1)"
  by code_simp

lemma create_x_again: "map_option fst (CreateBuild env_0 dg_0 repo_0 6 (request_for [''x'']) [] db_1) =
    Some (ResolutionFailed ''output dataset x already locked by build b5'')"
  by code_simp

theorem failed_build_keeps_lock:
  "CreateBuild env_0 dg_0 repo_0 5 (request_for [''y'']) [] db_0 =
     Some (ResolutionFailed ''output dataset y already locked by build u'', db_1) \<and>
   build_state db_1 5 = Some ''BUILD_FAILED'' \<and> lock_holder db_1 ''x'' = Some 5 \<and>
   AbortBuild env_0 5 db_1 = (AbortConflict, db_1) \<and>
   map_option fst (CreateBuild env_0 dg_0 repo_0 6 (request_for [''x'']) [] db_1) =
     Some (ResolutionFailed ''output dataset x already locked by build b5'')"
proof -
  have "build_state db_1 5 = Some ''BUILD_FAILED''" "lock_holder db_1 ''x'' = Some 5" by code_simp+
  then show ?thesis using create_y abort_failed create_x_again by simp
qed


text \<open>
  A build with an Iceberg output can never be aborted: no adapter is wired, so the call for that output is an error each
  time, and the build stays in BUILD_ABORTING with the lock of the output, also after the retry that the
  comment in \<open>abort.go\<close> speaks of.
\<close>

definition ice :: string where
  "ice = ''ri.foundry.main.iceberg-table.a''"

definition db_ice :: build_db where
  "db_ice = db_0\<lparr>db_jobs := [(30, job_0\<lparr>bj_OutputDatasetRIDs := [ice]\<rparr>)],
     db_outputs := [((30, ice), \<lparr>ow_TransactionRID = ''t'', ow_Committed = False, ow_Aborted = False\<rparr>)],
     db_locks := [(ice, 9, ''t'')]\<rparr>"

definition abort_twice :: "build_db \<Rightarrow> abort_response \<times> abort_response \<times> build_db" where
  "abort_twice db = (case AbortBuild env_0 9 db of (r1, db1) \<Rightarrow> (case AbortBuild env_0 9 db1 of (r2, db2) \<Rightarrow> (r1, r2, db2)))"

definition stuck_error :: string where
  "stuck_error = ice @ '': foundry_iceberg_catalog_not_configured: set FOUNDRY_ICEBERG_CATALOG_URL to abort Iceberg outputs''"

lemma abort_twice_ice:
  "case abort_twice db_ice of (r1, r2, db2) \<Rightarrow> r1 = AbortAccepted 0 [stuck_error] \<and> r2 = AbortAccepted 0 [stuck_error] \<and>
     build_state db2 9 = Some ''BUILD_ABORTING'' \<and> lock_holder db2 ice = Some 9"
  by code_simp

theorem iceberg_abort_stuck:
  "\<exists>db1 db2. AbortBuild env_0 9 db_ice = (AbortAccepted 0 [stuck_error], db1) \<and>
     AbortBuild env_0 9 db1 = (AbortAccepted 0 [stuck_error], db2) \<and>
     build_state db2 9 = Some ''BUILD_ABORTING'' \<and> lock_holder db2 ice = Some 9"
  using abort_twice_ice unfolding abort_twice_def by (auto split: prod.splits)

end
