(* ===== verification/Executor_Trace.thy ===== *)
theory Executor_Trace
  imports Executor_Outcome
begin

text \<open>
  The trace of a build is made of one segment for each node: either the run of the node or its abort
  before it started. What is read off a trace later (rows, transactions) is read off the segments.
\<close>

section \<open>Segments\<close>

text \<open>An effect of a node: a call on one of its outputs, a note, or a transition between two of its states.\<close>

fun node_effect :: "uuid \<Rightarrow> Node \<Rightarrow> effect \<Rightarrow> bool" where
  "node_effect bid n (Record ev) \<longleftrightarrow> ae_BuildID ev = bid \<and> ae_JobID ev = nd_JobID n \<and>
     (ae_From ev = [] \<and> ae_To ev = [] \<or> (\<exists>s t. ae_From ev = node_state_string s \<and> ae_To ev = node_state_string t))"
| "node_effect bid n (Committed out) \<longleftrightarrow> out \<in> set (nd_Outputs n)"
| "node_effect bid n (CommitFailed out) \<longleftrightarrow> out \<in> set (nd_Outputs n)"
| "node_effect bid n (AbortCalled out) \<longleftrightarrow> out \<in> set (nd_Outputs n)"

definition node_seg :: "uuid \<Rightarrow> Node \<Rightarrow> NodeState \<Rightarrow> effect list \<Rightarrow> bool" where
  "node_seg bid n st seg \<longleftrightarrow> terminal st \<and> (\<forall>e \<in> set seg. node_effect bid n e) \<and>
     trail_ok (\<lambda>a b. a \<noteq> b) JobWaiting (moves seg) (job_state_of st) \<and>
     (if st = NodeCompleted \<and> \<not> nd_StaleSkipped n then tx_calls seg = map Committed (nd_Outputs n)
      else \<exists>pre. tx_calls seg = pre @ map AbortCalled (nd_Outputs n))"

lemma node_effect_events [simp]:
  "node_effect bid n (transition_event bid n s t k r)" "node_effect bid n (note_event bid n k r d)"
  by (auto simp: transition_event_def note_event_def)

lemma abortOutputs_effects: "e \<in> set (abortOutputs bid n reason) \<Longrightarrow> node_effect bid n e"
  by (auto simp: abortOutputs_def)

lemma commit_loop_effects:
  "commit_loop bid n commit k outs committed = (r, c, tr) \<Longrightarrow> set outs \<subseteq> set (nd_Outputs n) \<Longrightarrow>
   e \<in> set tr \<Longrightarrow> node_effect bid n e"
  by (induction outs arbitrary: k committed r c tr) (auto split: option.splits prod.splits)

lemma rollback_loop_effects:
  "rollback_loop bid n abort k outs committed = (errs, tr) \<Longrightarrow> set outs \<subseteq> set (nd_Outputs n) \<Longrightarrow>
   e \<in> set tr \<Longrightarrow> node_effect bid n e"
  by (induction outs arbitrary: k errs tr) (auto simp: Let_def split: prod.splits)

lemma commitAllOutputs_effects:
  assumes "commitAllOutputs bid n commit abort = (r, tr)" "e \<in> set tr"
  shows "node_effect bid n e"
  using assms commit_loop_effects [OF _ order_refl] rollback_loop_effects [OF _ order_refl]
  unfolding commitAllOutputs_def by (fastforce split: option.splits prod.splits)

lemma attempt_loop_effects:
  "attempt_loop bid n env k left lerr = (r, tr) \<Longrightarrow> e \<in> set tr \<Longrightarrow> node_effect bid n e"
proof (induction left arbitrary: k lerr r tr)
  case (Suc left)
  then show ?case
    using commitAllOutputs_effects [of bid n "dv_commit env" "dv_abort env"] abortOutputs_effects
    by (fastforce split: option.splits sum.splits prod.splits if_splits)
qed simp

lemma driveNode_effects:
  "driveNode bid n dflt env = (r, tr) \<Longrightarrow> e \<in> set tr \<Longrightarrow> node_effect bid n e"
  using attempt_loop_effects [of bid n env 1 "max_attempts (nd_MaxAttempts n) dflt" None] abortOutputs_effects
  unfolding driveNode_def Let_def by (fastforce split: sum.splits prod.splits if_splits)

lemma trail_moves: "trail_ok IsValidTransition s tr t \<Longrightarrow> trail_ok (\<lambda>a b. a \<noteq> b) s tr t"
  by (induction IsValidTransition s tr t rule: trail_ok.induct) (auto simp: IsValidTransition_def)

lemma driveNode_seg:
  assumes d: "driveNode bid n dflt env = (r, tr)"
  shows "node_seg bid n (rr_state r) tr"
proof (cases "nd_StaleSkipped n")
  case True
  then have "rr_state r = NodeCompleted" "moves tr = [(JobWaiting, JobCompleted)]" "tx_calls tr = map AbortCalled (nd_Outputs n)"
    using d by (auto simp: driveNode_def Let_def run_result_def)
  then show ?thesis using driveNode_effects [OF d] True by (auto simp: node_seg_def terminal_def)
next
  case False
  from driveNode_trace [OF False d] driveNode_effects [OF d] False show ?thesis
    by (auto simp: node_seg_def intro: trail_moves)
qed

lemma abort_seg:
  "node_seg bid n NodeAborted (transition_event bid n NodeWaiting NodeAborted 0 reason # abortOutputs bid n reason)"
  using abortOutputs_effects by (auto simp: node_seg_def terminal_def intro: exI [of _ "[]"])


section \<open>The trace of a build\<close>

type_synonym segment = "string \<times> NodeState \<times> effect list"

text \<open>A node that completes, and is not skipped, had in one of its runs every commit answered without error.\<close>

definition commits_ok :: "(nat \<Rightarrow> iter_env) \<Rightarrow> Node \<Rightarrow> string \<Rightarrow> NodeState \<Rightarrow> bool" where
  "commits_ok envs n i st \<longleftrightarrow> st = NodeCompleted \<and> \<not> nd_StaleSkipped n \<longrightarrow>
     (\<exists>k. \<forall>j < length (nd_Outputs n). dv_commit (it_drive (envs k) i) j = None)"

definition segments_ok :: "(nat \<Rightarrow> iter_env) \<Rightarrow> uuid \<Rightarrow> executionGraph \<Rightarrow> exec_state \<Rightarrow> segment list \<Rightarrow> bool" where
  "segments_ok envs bid g s segs \<longleftrightarrow> xs_trace s = concat (map (snd \<circ> snd) segs) \<and> distinct (map fst segs) \<and>
     fst ` set segs = set (ids_of g) - set (xs_remaining s) - set (xs_inFlight s) \<and>
     (\<forall>(i, st, seg) \<in> set segs. state_of s i = st \<and> node_seg bid (node_of g i) st seg \<and> commits_ok envs (node_of g i) i st)"

definition traced :: "(nat \<Rightarrow> iter_env) \<Rightarrow> uuid \<Rightarrow> executionGraph \<Rightarrow> exec_state \<Rightarrow> bool" where
  "traced envs bid g s \<longleftrightarrow> (\<exists>segs. segments_ok envs bid g s segs)"

lemma traced_step:
  assumes "traced envs bid g s" "i \<in> set (ids_of g)" "i \<in> set (xs_remaining s) \<union> set (xs_inFlight s)"
    and "xs_trace t = xs_trace s @ seg" "node_seg bid (node_of g i) st seg \<and> commits_ok envs (node_of g i) i st"
    and "set (xs_remaining t) \<union> set (xs_inFlight t) = set (xs_remaining s) \<union> set (xs_inFlight s) - {i}"
    and "\<And>j. state_of t j = (if j = i then st else state_of s j)"
  shows "traced envs bid g t"
proof -
  obtain segs where segs: "segments_ok envs bid g s segs" using assms(1) by (auto simp: traced_def)
  then have fresh: "i \<notin> fst ` set segs" using assms(3) by (auto simp: segments_ok_def)
  have "fst ` set (segs @ [(i, st, seg)]) = set (ids_of g) - set (xs_remaining t) - set (xs_inFlight t)"
    using segs assms(2,6) by (auto simp: segments_ok_def)
  moreover have "state_of t j = st' \<and> node_seg bid (node_of g j) st' seg' \<and> commits_ok envs (node_of g j) j st'" if "(j, st', seg') \<in> set (segs @ [(i, st, seg)])" for j st' seg'
  proof (cases "(j, st', seg') \<in> set segs")
    case True
    then have "j \<noteq> i" using fresh by (metis fst_conv image_eqI)
    with True segs assms(7) show ?thesis by (auto simp: segments_ok_def)
  next
    case False
    with that have "j = i" "st' = st" "seg' = seg" by simp_all
    with assms(5,7) show ?thesis by simp
  qed
  then have "\<forall>(j, st', seg') \<in> set (segs @ [(i, st, seg)]). state_of t j = st' \<and> node_seg bid (node_of g j) st' seg' \<and>
      commits_ok envs (node_of g j) j st'"
    by blast
  ultimately have "segments_ok envs bid g t (segs @ [(i, st, seg)])"
    using segs fresh assms(4) by (auto simp: segments_ok_def)
  then show ?thesis by (auto simp: traced_def)
qed

lemma traced_same:
  assumes "traced envs bid g s" "xs_trace t = xs_trace s"
    and "set (xs_remaining t) \<union> set (xs_inFlight t) = set (xs_remaining s) \<union> set (xs_inFlight s)"
    and "\<And>j. j \<notin> set (xs_remaining s) \<union> set (xs_inFlight s) \<Longrightarrow> state_of t j = state_of s j"
  shows "traced envs bid g t"
proof -
  obtain segs where segs: "segments_ok envs bid g s segs" using assms(1) by (auto simp: traced_def)
  have "j \<notin> set (xs_remaining s) \<union> set (xs_inFlight s)" if "(j, st, seg) \<in> set segs" for j st seg
  proof -
    have "j \<in> fst ` set segs" using that by (force simp: image_iff)
    then show ?thesis using segs by (auto simp: segments_ok_def)
  qed
  then have "segments_ok envs bid g t segs" using segs assms(2-4) by (fastforce simp: segments_ok_def)
  then show ?thesis by (auto simp: traced_def)
qed

lemma traced_init: "graph_ok g \<Longrightarrow> traced envs bid g (init_state g)"
  by (auto simp: traced_def segments_ok_def init_state_def intro!: exI [of _ "[]"])

lemma abort_one_traced:
  assumes "graph_ok g" "sched_base cfg g s" "i \<in> set (xs_remaining s)" "traced envs bid g s"
  shows "traced envs bid g (abort_one bid g reason i s)"
proof -
  have i: "i \<in> set (ids_of g)" "i \<notin> set (xs_inFlight s)" using assms(2,3) by (auto simp: sched_base_def)
  have w: "state_of s i = NodeWaiting" using assms(2,3) by (simp add: sched_base_def states_ok_def)
  let ?seg = "transition_event bid (node_of g i) NodeWaiting NodeAborted 0 reason # abortOutputs bid (node_of g i) reason"
  have t: "abort_one bid g reason i s = s\<lparr>xs_trace := xs_trace s @ ?seg, xs_state := gm_put (xs_state s) i NodeAborted,
     xs_aborted := add_to i (xs_aborted s), xs_remaining := removeAll i (xs_remaining s)\<rparr>"
    using node_of_id [OF assms(1) i(1)] w by (simp add: abort_one_def abortNode_def Let_def terminal_def)
  show ?thesis
    by (rule traced_step [OF assms(4) i(1) _ _ conjI [OF abort_seg], of _ reason])
      (use assms(3) i(2) in \<open>auto simp: t state_of_def commits_ok_def\<close>)
qed

lemma abort_ids_traced:
  assumes "graph_ok g" "sched_base cfg g s" "set ids \<subseteq> set (xs_remaining s)" "distinct ids" "traced envs bid g s"
  shows "traced envs bid g (abort_ids bid g reason ids s)"
  using assms(2-5)
proof (induction ids arbitrary: s)
  case (Cons i ids)
  have i: "i \<in> set (xs_remaining s)" using Cons.prems(2) by simp
  note one = abort_one_inv [OF assms(1) Cons.prems(1) i, of bid reason]
  have "abort_ids bid g reason (i # ids) s = abort_ids bid g reason ids (abort_one bid g reason i s)"
    by (simp add: abort_one_def Let_def)
  moreover have "set ids \<subseteq> set (xs_remaining (abort_one bid g reason i s))" using Cons.prems(2,3) one(2) by auto
  ultimately show ?case
    using Cons.IH [OF one(1)] Cons.prems(3) abort_one_traced [OF assms(1) Cons.prems(1) i Cons.prems(4)] by simp
qed simp

lemma abort_remaining_traced:
  assumes "graph_ok g" "sched_base cfg g s" "distinct ids" "traced envs bid g s"
  shows "traced envs bid g (abort_remaining bid g reason ids s)"
  unfolding abort_remaining_def by (rule abort_ids_traced [OF assms(1,2) _ _ assms(4)]) (use assms(3) in auto)

lemma cancel_build_traced:
  assumes "graph_ok g" "sched_inv cfg g s" "traced envs (ec_build cfg) g s"
  shows "traced envs (ec_build cfg) g (cancel_build cfg g s)"
proof -
  let ?s1 = "abort_ids (ec_build cfg) g ''build cancelled'' (xs_remaining s) s"
  have base: "sched_base cfg g s" "distinct (xs_remaining s)" using assms(2) by (simp_all add: sched_inv_def sched_base_def)
  have "traced envs (ec_build cfg) g ?s1" using abort_ids_traced [OF assms(1) base(1) order_refl base(2) assms(3)] .
  then show ?thesis
    by (rule traced_same) (auto simp: cancel_build_def Let_def state_of_def mark_pending_get)
qed

lemma launch_ready_traced:
  "traced envs bid g s \<Longrightarrow> set ids \<subseteq> set (xs_remaining s) \<Longrightarrow> distinct ids \<Longrightarrow> traced envs bid g (launch_ready cfg cancel k ids s)"
proof (induction ids arbitrary: s k)
  case (Cons i ids)
  have "traced envs bid g (launch i s)"
    by (rule traced_same [OF Cons.prems(1)]) (use Cons.prems(2) in \<open>auto simp: launch_def state_of_def\<close>)
  moreover have "set ids \<subseteq> set (xs_remaining (launch i s))" using Cons.prems(2,3) by (auto simp: launch_def)
  ultimately show ?case using Cons.IH Cons.prems by simp
qed simp

lemma settle_traced:
  assumes ok: "graph_ok g" and base: "sched_base cfg g s" and i: "rr_nodeID result = i" "i \<in> set (xs_inFlight s)"
    and tr: "traced envs (ec_build cfg) g s" and seg: "node_seg (ec_build cfg) (node_of g i) (rr_state result) seg" "commits_ok envs (node_of g i) i (rr_state result)"
  shows "traced envs (ec_build cfg) g (settle cfg g result (s\<lparr>xs_trace := xs_trace s @ seg\<rparr>))"
proof -
  let ?s = "s\<lparr>xs_trace := xs_trace s @ seg\<rparr>"
  define s1 where "s1 = add_class (rr_nodeID result) (rr_state result) (note_result result ?s)"
  have st: "terminal (rr_state result)" using seg(1) by (simp add: node_seg_def)
  have ids: "i \<in> set (ids_of g)" "i \<notin> set (xs_remaining s)" using base i(2) by (auto simp: sched_base_def)
  have base': "sched_base cfg g ?s" using base by (simp add: sched_base_def states_ok_def state_of_def)
  note N = note_result_base [OF base' _ st, folded s1_def]
  have fields: "xs_trace s1 = xs_trace s @ seg" "xs_remaining s1 = xs_remaining s" "xs_inFlight s1 = removeAll i (xs_inFlight s)"
    "xs_state s1 = gm_put (xs_state s) i (rr_state result)"
    using i(1) by (simp_all add: s1_def add_class_def note_result_def Let_def split: NodeState.split)
  have t1: "traced envs (ec_build cfg) g s1"
    by (rule traced_step [OF tr ids(1) _ fields(1) conjI [OF seg]]) (use i(2) ids(2) fields in \<open>auto simp: state_of_def\<close>)
  have b1: "sched_base cfg g s1" using N(1) i by simp
  show ?thesis
  proof (cases "rr_state result = NodeFailed")
    case True
    let ?c = "computeCascade g i (ec_policy cfg) (xs_completed s1)"
    define s2 where "s2 = abort_remaining (ec_build cfg) g ''dependency failed'' (cp_dependents ?c) s1"
    have d: "distinct (cp_dependents ?c)" "distinct (cp_independents ?c)"
      using cascade_dependents(2) cascade_independents(1) [OF ok] by blast+
    have "traced envs (ec_build cfg) g s2" "sched_base cfg g s2"
      using abort_remaining_traced [OF ok b1 d(1) t1] abort_remaining_inv [OF ok b1 d(1)] by (simp_all add: s2_def)
    then have "traced envs (ec_build cfg) g (abort_remaining (ec_build cfg) g
        ''abort_policy=ALL_NON_DEPENDENT triggered by upstream failure'' (cp_independents ?c) s2)"
      using abort_remaining_traced [OF ok _ d(2)] by blast
    moreover have "settle cfg g result ?s = abort_remaining (ec_build cfg) g
        ''abort_policy=ALL_NON_DEPENDENT triggered by upstream failure'' (cp_independents ?c) s2"
      using True i(1) by (simp add: settle_eq Let_def s2_def s1_def)
    ultimately show ?thesis by simp
  next
    case False
    then have "settle cfg g result ?s = s1" by (simp add: settle_eq Let_def s1_def)
    with t1 show ?thesis by simp
  qed
qed

lemma receive_traced:
  fixes env :: iter_env
  assumes env: "env = envs k" and ok: "graph_ok g" and inv: "sched_inv cfg g s" and ne: "xs_inFlight s \<noteq> []" and tr: "traced envs (ec_build cfg) g s"
  shows "traced envs (ec_build cfg) g (receive cfg g env s)"
proof -
  define i where "i = xs_inFlight s ! (it_pick env mod length (xs_inFlight s))"
  have i: "i \<in> set (xs_inFlight s)" using ne by (simp add: i_def)
  have base: "sched_base cfg g s" using inv by (simp add: sched_inv_def)
  then have ids: "i \<in> set (ids_of g)" using i by (auto simp: sched_base_def)
  obtain r seg where d: "driveNode (ec_build cfg) (node_of g i) (ec_maxAttempts cfg) (it_drive env i) = (r, seg)" by fastforce
  have "rr_nodeID r = i"
    using driveNode_state(1) [of "ec_build cfg" "node_of g i" "ec_maxAttempts cfg" "it_drive env i"] d node_of_id [OF ok ids] by simp
  moreover have "commits_ok envs (node_of g i) i (rr_state r)"
    using driveNode_commits [OF _ d] by (auto simp: commits_ok_def env)
  ultimately have "traced envs (ec_build cfg) g (settle cfg g r (s\<lparr>xs_trace := xs_trace s @ seg\<rparr>))"
    using settle_traced [OF ok base _ i tr driveNode_seg [OF d]] by blast
  with d show ?thesis
    by (simp add: receive_def Let_def flip: i_def)
qed

lemma exec_iter_traced:
  assumes env: "env = envs k" and ok: "graph_ok g" and inv: "sched_inv cfg g s" and tr: "traced envs (ec_build cfg) g s"
  shows "traced envs (ec_build cfg) g (fst (exec_iter cfg g env s))"
proof -
  define s0 where "s0 = (if it_cancelled env then cancel_build cfg g s else s)"
  have s0: "sched_inv cfg g s0" "traced envs (ec_build cfg) g s0"
    using cancel_build_inv [OF ok inv] inv cancel_build_traced [OF ok inv tr] tr by (simp_all add: s0_def)
  define ready where "ready = readyNodes (xs_remaining s0) (xs_completed s0) g"
  define s1 where "s1 = launch_ready cfg (if it_cancelled env then Some 0 else it_cancel_after env) 0 ready s0"
  note rd = readyNodes_facts [OF s0(1), folded ready_def]
  have s1: "sched_inv cfg g s1" "traced envs (ec_build cfg) g s1"
    using launch_ready_inv [OF s0(1)] launch_ready_traced [OF s0(2)] rd by (simp_all add: s1_def)
  have "sched_base cfg g s0" "distinct (xs_remaining s0)" using s0(1) by (simp_all add: sched_inv_def sched_base_def)
  then have "traced envs (ec_build cfg) g (abort_ids (ec_build cfg) g ''dependency failed'' (sort (xs_remaining s0)) s0)"
    by (intro abort_ids_traced [OF ok _ _ _ s0(2)]) simp_all
  then show ?thesis
    using s1(2) receive_traced [OF env ok s1(1) _ s1(2)]
    by (simp add: exec_iter_def exec_launch_def Let_def flip: s0_def ready_def s1_def)
qed

lemma exec_loop_traced:
  assumes "graph_ok g" "0 < ec_parallelism cfg" "sched_inv cfg g s" "traced envs (ec_build cfg) g s"
    "exec_loop cfg g envs fuel k s = Some t"
  shows "traced envs (ec_build cfg) g t"
  using assms(3-5)
proof (induction fuel arbitrary: k s)
  case (Suc fuel)
  obtain u go where it: "exec_iter cfg g (envs k) s = (u, go)" by fastforce
  have u: "traced envs (ec_build cfg) g u" using exec_iter_traced [OF refl assms(1) Suc.prems(1,2), of k] it by simp
  from assms(1) Suc.prems(1) assms(2) have "sched_inv cfg g u"
    by (cases rule: exec_iter_cases [where env = "envs k"]) (use it in simp_all)
  with u show ?case using Suc.IH [of u "Suc k"] Suc.prems it by (cases go) (auto split: if_splits)
qed simp

text \<open>The trace of \<open>Execute\<close>: a segment for each node, then the record of the end.\<close>

lemma Execute_segments:
  assumes "Execute fuel envs plan = Some (Inr (out, tr))"
  obtains g segs where "newExecutionGraph plan = Inr g"
    "tr = concat (map (snd \<circ> snd) segs) @ [terminal_event (pl_BuildID plan) (oc_FinalState out)]"
    "distinct (map fst segs)" "fst ` set segs = nd_ID ` set (pl_Nodes plan)"
    "\<And>i st seg. (i, st, seg) \<in> set segs \<Longrightarrow> gm_get (oc_Nodes out) i = Some st \<and> node_seg (pl_BuildID plan) (node_of g i) st seg \<and>
      commits_ok envs (node_of g i) i st"
proof -
  obtain g s where g: "newExecutionGraph plan = Inr g" "graph_ok g" "out = outcome_of g s"
    "exec_loop (config_of plan) g envs fuel 0 (init_state g) = Some s"
    "sched_inv (config_of plan) g s" "xs_remaining s = []" "xs_inFlight s = []"
    using assms by (rule Execute_Inr)
  have b: "ec_build (config_of plan) = pl_BuildID plan" by (simp add: config_of_def)
  have "traced envs (pl_BuildID plan) g s"
    using exec_loop_traced [OF g(2) config_pos init_inv [OF g(2)] traced_init [OF g(2)] g(4)] by (simp add: b)
  then obtain segs where segs: "segments_ok envs (pl_BuildID plan) g s segs" by (auto simp: traced_def)
  have "tr = xs_trace s @ [terminal_event (pl_BuildID plan) (oc_FinalState out)]"
    using assms g(1,3,4) by (auto simp: Execute_def Let_def)
  moreover have "gm_get (oc_Nodes out) i = Some st \<and> node_seg (pl_BuildID plan) (node_of g i) st seg \<and>
      commits_ok envs (node_of g i) i st"
    if "(i, st, seg) \<in> set segs" for i st seg
  proof -
    have "i \<in> fst ` set segs" using that by (force simp: image_iff)
    then have "i \<in> set (ids_of g)" using segs by (auto simp: segments_ok_def)
    then have "gm_get (xs_state s) i = Some (state_of s i)" using final_state [OF g(5-7)] by blast
    then show ?thesis using that segs g(3) by (auto simp: segments_ok_def)
  qed
  ultimately show thesis
    using that [OF g(1), of segs] segs g(6,7) ids_of_plan [OF g(1)] by (simp add: segments_ok_def)
qed

end
