(* ===== verification/Build_Run.thy ===== *)
theory Build_Run
  imports Build_Handlers Executor_Trace
begin

text \<open>
  The run of a persisted build: \<open>ExecutePipeline\<close> (\<open>pipeline-build-service/internal/handler/execution.go\<close>)
  loads the plan from the tables, the executor runs it, and its events and transaction calls act on the
  tables through \<open>Record\<close>, \<open>Commit\<close> and \<open>Abort\<close> of the repository.
\<close>

section \<open>Running a persisted build\<close>

text \<open>
  The environment of one call of the executor on the repository; for a commit that failed, whether its
  first statement had taken effect.
\<close>

record step_env =
  se_pg :: pg_env
  se_reached :: bool

fun apply_effect :: "step_env \<Rightarrow> effect \<Rightarrow> build_db \<Rightarrow> build_db" where
  "apply_effect env (Record ev) db = snd (pg_Record (se_pg env) ev db)"
| "apply_effect env (Committed out) db = snd (wired_Commit (pe_catalog (se_pg env)) (pg_Commit (se_pg env)) out db)"
| "apply_effect env (CommitFailed out) db =
     (if se_reached env \<and> \<not> Handles (ot_DatasetRID out) then update_outputs out (\<lambda>row. row\<lparr>ow_Committed := True\<rparr>) db else db)"
| "apply_effect env (AbortCalled out) db = snd (wired_Abort (pe_catalog (se_pg env)) (pg_Abort (se_pg env)) out db)"

fun apply_effects :: "(nat \<Rightarrow> step_env) \<Rightarrow> nat \<Rightarrow> effect list \<Rightarrow> build_db \<Rightarrow> build_db" where
  "apply_effects envs k [] db = db"
| "apply_effects envs k (e # tr) db = apply_effects envs (Suc k) tr (apply_effect (envs k) e db)"

definition normalizePlan :: "int \<Rightarrow> Plan \<Rightarrow> Plan" where
  "normalizePlan parallelism plan =
     (let p1 = (if pl_Parallelism plan < 1 then parallelism else pl_Parallelism plan);
          p2 = (if p1 < 1 then 4 else p1)
      in plan\<lparr>pl_Parallelism := p2, pl_MaxAttempts := (if pl_MaxAttempts plan < 1 then 1 else pl_MaxAttempts plan),
           pl_AbortPolicy := (case pl_AbortPolicy plan of None \<Rightarrow> Some AbortDependentOnly | p \<Rightarrow> p)\<rparr>)"

text \<open>
  The committer and the transaction manager of the ports are behind the gate for Iceberg outputs: for those the
  gate answers, for the others what is behind it (the environment).
\<close>

definition gate_drive :: "bool \<Rightarrow> OutputTransaction list \<Rightarrow> drive_env \<Rightarrow> drive_env" where
  "gate_drive catalog outs d = d\<lparr>
     dv_commit := (\<lambda>k. if k < length outs then fst (wired_Commit catalog (\<lambda>tx s. (dv_commit d k, s)) (outs ! k) ()) else None),
     dv_abort := (\<lambda>k. if k < length outs then fst (wired_Abort catalog (\<lambda>tx s. (dv_abort d k, s)) (outs ! k) ()) else None)\<rparr>"

definition plan_outputs :: "Plan \<Rightarrow> string \<Rightarrow> OutputTransaction list" where
  "plan_outputs plan i = (case List.find (\<lambda>n. nd_ID n = i) (pl_Nodes plan) of Some n \<Rightarrow> nd_Outputs n | None \<Rightarrow> [])"

definition gate_iter :: "bool \<Rightarrow> Plan \<Rightarrow> iter_env \<Rightarrow> iter_env" where
  "gate_iter catalog plan it = it\<lparr>it_drive := (\<lambda>i. gate_drive catalog (plan_outputs plan i) (it_drive it i))\<rparr>"

datatype execute_response =
    PlanRejected string
  | ExecuteRejected executor_error
  | Executed Outcome

text \<open>
  A request that names a build and no nodes. \<open>None\<close> means that the bound on the iterations of the
  executor was reached.
\<close>

definition ExecutePipeline :: "pg_env \<Rightarrow> digests \<Rightarrow> int \<Rightarrow> nat \<Rightarrow> (nat \<Rightarrow> iter_env) \<Rightarrow> (nat \<Rightarrow> step_env) \<Rightarrow> uuid \<Rightarrow> build_db \<Rightarrow>
    (execute_response \<times> build_db) option" where
  "ExecutePipeline env dg parallelism fuel envs steps b db =
     (case LoadPlan env dg b db of
        Inl e \<Rightarrow> Some (PlanRejected e, db)
      | Inr plan \<Rightarrow>
          (case Execute fuel (\<lambda>k. gate_iter (pe_catalog env) plan (envs k)) (normalizePlan parallelism plan) of
             None \<Rightarrow> None
           | Some (Inl e) \<Rightarrow> Some (ExecuteRejected e, db)
           | Some (Inr (out, tr)) \<Rightarrow> Some (Executed out, apply_effects steps 0 tr db)))"

section \<open>What one effect does to the tables\<close>

definition job_move :: "uuid \<Rightarrow> AuditEvent \<Rightarrow> bool" where
  "job_move j ev \<longleftrightarrow> ae_JobID ev = j \<and> j \<noteq> 0 \<and> ae_From ev \<noteq> [] \<and> ae_To ev \<noteq> [] \<and> ae_From ev \<noteq> ae_To ev"

definition job_log :: "build_db \<Rightarrow> uuid \<Rightarrow> (string \<times> string) list" where
  "job_log db j = map (\<lambda>t. (jt_From t, jt_To t)) (filter (\<lambda>t. jt_JobID t = j) (db_transitions db))"

definition job_trail :: "uuid \<Rightarrow> effect list \<Rightarrow> (string \<times> string) list" where
  "job_trail j tr = concat (map (\<lambda>e. case e of
      Record ev \<Rightarrow> if job_move j ev then [(ae_From ev, ae_To ev)] else [] | _ \<Rightarrow> []) tr)"

lemma job_trail_simps [simp]:
  "job_trail j [] = []" "job_trail j (a @ b) = job_trail j a @ job_trail j b"
  "job_trail j (Record ev # tr) = (if job_move j ev then [(ae_From ev, ae_To ev)] else []) @ job_trail j tr"
  "job_trail j (Committed out # tr) = job_trail j tr" "job_trail j (CommitFailed out # tr) = job_trail j tr"
  "job_trail j (AbortCalled out # tr) = job_trail j tr"
  by (simp_all add: job_trail_def)

lemma markBuildRunning_clear:
  "no_fault env \<Longrightarrow> snd (markBuildRunning env b db) = (if b = 0 then db else update_build b (\<lambda>r.
     if br_State r \<in> {''BUILD_RESOLUTION'', ''BUILD_QUEUED''}
     then r\<lparr>br_State := ''BUILD_RUNNING'', br_StartedAt := coalesce (br_StartedAt r) (Some (pe_now env))\<rparr> else r) db)"
  by (simp add: markBuildRunning_def exec_clear)

lemma update_build_other [simp]:
  "db_jobs (update_build b f db) = db_jobs db" "db_transitions (update_build b f db) = db_transitions db"
  "db_outputs (update_build b f db) = db_outputs db"
  by (simp_all add: update_build_def split: option.splits)

lemma release_rows_other [simp]:
  "db_jobs (release_rows b db) = db_jobs db" "db_transitions (release_rows b db) = db_transitions db"
  "db_outputs (release_rows b db) = db_outputs db" "db_builds (release_rows b db) = db_builds db"
  by (simp_all add: release_rows_def)

lemma recordBuildEvent_other:
  "db_jobs (snd (recordBuildEvent env ev db)) = db_jobs db"
  "db_transitions (snd (recordBuildEvent env ev db)) = db_transitions db"
  "db_outputs (snd (recordBuildEvent env ev db)) = db_outputs db"
  by (auto simp: recordBuildEvent_def and_then_def exec_def releaseBuildLocks_def markBuildRunning_def split: option.splits)

lemma recorded_state [simp]: "bj_State (recorded_job env ev job) = ae_To ev" "bj_BuildID (recorded_job env ev job) = bj_BuildID job"
  "bj_JobSpecRID (recorded_job env ev job) = bj_JobSpecRID job"
  by (simp_all add: recorded_job_def Let_def)

text \<open>An event without faults: the row of its job moves if it is in the state the event leaves.\<close>

lemma pg_Record_job:
  fixes env :: pg_env and ev :: AuditEvent and db :: build_db
  assumes "no_fault env"
  defines "db' \<equiv> snd (pg_Record env ev db)"
  shows "gm_get (db_jobs db') j = (case gm_get (db_jobs db) j of None \<Rightarrow> None
      | Some row \<Rightarrow> Some (if job_move j ev \<and> bj_State row = ae_From ev then recorded_job env ev row else row))"
    "job_log db' j = job_log db j @
      (if job_move j ev \<and> job_state db j = Some (ae_From ev) then [(ae_From ev, ae_To ev)] else [])"
    "db_outputs db' = db_outputs db"
proof -
  have q: "pe_fault env st = None" for st using assms(1) by (simp add: no_fault_def)
  consider (build) "ae_JobID ev = 0" | (skip) "ae_JobID ev \<noteq> 0" "ae_From ev = [] \<or> ae_To ev = [] \<or> ae_From ev = ae_To ev"
    | (move) "ae_JobID ev \<noteq> 0" "\<not> (ae_From ev = [] \<or> ae_To ev = [] \<or> ae_From ev = ae_To ev)" by blast
  then have "gm_get (db_jobs db') j = (case gm_get (db_jobs db) j of None \<Rightarrow> None
      | Some row \<Rightarrow> Some (if job_move j ev \<and> bj_State row = ae_From ev then recorded_job env ev row else row)) \<and>
    job_log db' j = job_log db j @
      (if job_move j ev \<and> job_state db j = Some (ae_From ev) then [(ae_From ev, ae_To ev)] else []) \<and>
    db_outputs db' = db_outputs db"
  proof cases
    case build
    then have "db' = snd (recordBuildEvent env ev db)" by (simp add: db'_def pg_Record_def)
    with build recordBuildEvent_other [of env ev db] show ?thesis
      by (auto simp: job_move_def job_log_def split: option.splits)
  next
    case skip
    then have "db' = db" by (auto simp: db'_def pg_Record_def)
    with skip show ?thesis by (auto simp: job_move_def split: option.splits)
  next
    case move
    define db1 where "db1 = (if ae_To ev \<in> {''RUN_PENDING'', ''RUNNING''} then snd (markBuildRunning env (ae_BuildID ev) db) else db)"
    have same: "db_jobs db1 = db_jobs db" "db_transitions db1 = db_transitions db" "db_outputs db1 = db_outputs db"
      by (simp_all add: db1_def markBuildRunning_clear [OF assms(1)])
    obtain hit db2 where c: "cas_job (ae_JobID ev) (ae_From ev) (recorded_job env ev) db1 = (hit, db2)" by fastforce
    have db': "db' = (if hit then add_transition (ae_JobID ev) (ae_From ev) (ae_To ev) (ae_Reason ev) db2 else db2)"
      unfolding db'_def pg_Record_def Let_def db1_def [symmetric] using move c
      by (cases hit) (simp_all add: q exec_clear [OF assms(1)])
    show ?thesis
    proof (cases "gm_get (db_jobs db) (ae_JobID ev)")
      case None
      then show ?thesis using c move same
        by (auto simp: db' cas_job_def job_move_def job_log_def job_state_def split: option.splits)
    next
      case (Some row)
      then show ?thesis using c move same
        by (auto simp: db' cas_job_def job_move_def job_log_def job_state_def add_transition_def split: option.splits if_splits)
    qed
  qed
  then show "gm_get (db_jobs db') j = (case gm_get (db_jobs db) j of None \<Rightarrow> None
      | Some row \<Rightarrow> Some (if job_move j ev \<and> bj_State row = ae_From ev then recorded_job env ev row else row))"
    "job_log db' j = job_log db j @
      (if job_move j ev \<and> job_state db j = Some (ae_From ev) then [(ae_From ev, ae_To ev)] else [])"
    "db_outputs db' = db_outputs db" by blast+
qed

definition calm :: "(nat \<Rightarrow> step_env) \<Rightarrow> bool" where
  "calm envs \<longleftrightarrow> (\<forall>k. no_fault (se_pg (envs k)))"

lemma outputs_other [simp]:
  "db_jobs (update_outputs tx f db) = db_jobs db" "db_transitions (update_outputs tx f db) = db_transitions db"
  "db_builds (update_outputs tx f db) = db_builds db" "db_locks (update_outputs tx f db) = db_locks db"
  by (simp_all add: update_outputs_def)

lemma tx_clear:
  "no_fault env \<Longrightarrow> snd (wired_Commit c (pg_Commit env) out db) =
     (if Handles (ot_DatasetRID out) then db else update_outputs out (\<lambda>row. row\<lparr>ow_Committed := True\<rparr>) db)"
  "no_fault env \<Longrightarrow> snd (wired_Abort c (pg_Abort env) out db) =
     (if Handles (ot_DatasetRID out) then db else update_outputs out (\<lambda>row. row\<lparr>ow_Aborted := True\<rparr>) db)"
  by (simp_all add: pg_Commit_def pg_Abort_def and_then_def exec_clear)

lemma apply_effect_tx:
  assumes "no_fault (se_pg env)" "\<And>ev. e \<noteq> Record ev"
  shows "db_jobs (apply_effect env e db) = db_jobs db" "db_transitions (apply_effect env e db) = db_transitions db"
    "db_builds (apply_effect env e db) = db_builds db" "db_locks (apply_effect env e db) = db_locks db"
  using assms by (cases e; simp add: tx_clear [OF assms(1)])+

lemma apply_effect_untouched:
  assumes "no_fault (se_pg env)" "\<not> (\<exists>ev. e = Record ev \<and> job_move j ev)"
  shows "job_state (apply_effect env e db) j = job_state db j \<and> job_log (apply_effect env e db) j = job_log db j"
proof (cases e)
  case (Record ev)
  then show ?thesis using pg_Record_job(1,2) [OF assms(1), of ev db j] assms(2)
    by (auto simp: job_state_def split: option.splits)
qed (use apply_effect_tx [OF assms(1), of e] in \<open>simp_all add: job_state_def job_log_def\<close>)

lemma job_trail_skip: "\<not> (\<exists>ev. e = Record ev \<and> job_move j ev) \<Longrightarrow> job_trail j (e # tr) = job_trail j tr"
  by (cases e) simp_all

text \<open>A job follows its trail: its row ends where the trail ends and the audit table repeats it.\<close>

lemma apply_effects_trail:
  assumes "calm envs" "job_state db j = Some s" "trail_ok (\<lambda>a b. True) s (job_trail j tr) t"
  shows "job_state (apply_effects envs k tr db) j = Some t \<and>
    job_log (apply_effects envs k tr db) j = job_log db j @ job_trail j tr"
  using assms(2,3)
proof (induction tr arbitrary: k db s)
  case (Cons e tr)
  let ?db = "apply_effect (envs k) e db"
  have q: "no_fault (se_pg (envs k))" using assms(1) by (simp add: calm_def)
  show ?case
  proof (cases "\<exists>ev. e = Record ev \<and> job_move j ev")
    case True
    then obtain ev where e: "e = Record ev" "job_move j ev" by blast
    then have s: "ae_From ev = s" and rest: "trail_ok (\<lambda>a b. True) (ae_To ev) (job_trail j tr) t"
      using Cons.prems(2) by simp_all
    obtain row where "gm_get (db_jobs db) j = Some row" "bj_State row = s" using Cons.prems(1) by (auto simp: job_state_def)
    then have "job_state ?db j = Some (ae_To ev)" "job_log ?db j = job_log db j @ [(ae_From ev, ae_To ev)]"
      using pg_Record_job(1,2) [OF q, of ev db j] e s Cons.prems(1) by (simp_all add: job_state_def)
    with Cons.IH [OF this(1) rest, of "Suc k"] e show ?thesis by simp
  next
    case False
    from Cons.IH [of ?db s "Suc k"] Cons.prems job_trail_skip [OF False] apply_effect_untouched [OF q False, of db]
    show ?thesis by simp
  qed
qed simp

lemma apply_effects_untouched:
  assumes "calm envs" "job_trail j tr = []"
  shows "job_state (apply_effects envs k tr db) j = job_state db j \<and> job_log (apply_effects envs k tr db) j = job_log db j"
  using assms(2)
proof (induction tr arbitrary: k db)
  case (Cons e tr)
  have q: "no_fault (se_pg (envs k))" using assms(1) by (simp add: calm_def)
  have no: "\<not> (\<exists>ev. e = Record ev \<and> job_move j ev)" using Cons.prems by auto
  then have "job_trail j tr = []" using Cons.prems job_trail_skip by metis
  from Cons.IH [OF this, of "Suc k"] apply_effect_untouched [OF q no] show ?case by simp
qed simp

lemma apply_effects_job_build:
  assumes "calm envs"
  shows "job_build (apply_effects envs k tr db) j = job_build db j"
proof (induction tr arbitrary: k db)
  case (Cons e tr)
  have q: "no_fault (se_pg (envs k))" using assms by (simp add: calm_def)
  have "job_build (apply_effect (envs k) e db) j = job_build db j"
  proof (cases e)
    case (Record ev)
    then show ?thesis using pg_Record_job(1) [OF q, of ev db j]
      by (auto simp: job_build_def split: option.splits)
  qed (use apply_effect_tx [OF q, of e] in \<open>simp_all add: job_build_def\<close>)
  with Cons.IH [of "Suc k" "apply_effect (envs k) e db"] show ?case by simp
qed simp

text \<open>The events of the nodes of a build change no lock, no other build, and keep the row of the build.\<close>

definition node_event :: "uuid \<Rightarrow> effect \<Rightarrow> bool" where
  "node_event b e \<longleftrightarrow> (\<forall>ev. e = Record ev \<longrightarrow> ae_BuildID ev = b \<and> ae_JobID ev \<noteq> 0)"

lemma cas_job_other: "cas_job j s f db = (hit, db') \<Longrightarrow> db_builds db' = db_builds db \<and> db_locks db' = db_locks db"
  by (auto simp: cas_job_def split: option.splits if_splits)

lemma apply_effect_build:
  assumes "no_fault (se_pg env)" "node_event b e"
  shows "db_locks (apply_effect env e db) = db_locks db \<and>
    (\<exists>f. db_builds (apply_effect env e db) = db_builds (update_build b f db))"
proof (cases e)
  case (Record ev)
  then have ev: "ae_BuildID ev = b" "ae_JobID ev \<noteq> 0" using assms(2) by (simp_all add: node_event_def)
  have q: "pe_fault (se_pg env) st = None" for st using assms(1) by (simp add: no_fault_def)
  have id: "db_builds db = db_builds (update_build b (\<lambda>r. r) db)"
    by (auto simp: update_build_def gm_put_def gm_get_def intro: update_triv [symmetric] split: option.splits)
  show ?thesis
  proof (cases "ae_From ev = [] \<or> ae_To ev = [] \<or> ae_From ev = ae_To ev")
    case True
    then have "apply_effect env e db = db" using Record by (auto simp: pg_Record_def ev(2) recordBuildEvent_def)
    with id show ?thesis by auto
  next
    case False
    define db1 where "db1 = (if ae_To ev \<in> {''RUN_PENDING'', ''RUNNING''} then snd (markBuildRunning (se_pg env) b db) else db)"
    have db1: "db_locks db1 = db_locks db" "\<exists>f. db_builds db1 = db_builds (update_build b f db)"
      using id by (auto simp: db1_def markBuildRunning_clear [OF assms(1)])
    obtain hit db2 where c: "cas_job (ae_JobID ev) (ae_From ev) (recorded_job (se_pg env) ev) db1 = (hit, db2)" by fastforce
    have "apply_effect env e db = (if hit then add_transition (ae_JobID ev) (ae_From ev) (ae_To ev) (ae_Reason ev) db2 else db2)"
      unfolding Record apply_effect.simps pg_Record_def Let_def ev(1) db1_def [symmetric] using False ev(2) c
      by (cases hit) (simp_all add: q exec_clear [OF assms(1)])
    then show ?thesis using cas_job_other [OF c] db1 by (auto simp: add_transition_def)
  qed
next
  case (Committed out)
  then show ?thesis using apply_effect_tx [OF assms(1), of e db] by (auto intro!: exI [of _ "\<lambda>r. r"] simp: update_build_def gm_put_def gm_get_def update_triv split: option.splits)
next
  case (CommitFailed out)
  then show ?thesis using apply_effect_tx [OF assms(1), of e db] by (auto intro!: exI [of _ "\<lambda>r. r"] simp: update_build_def gm_put_def gm_get_def update_triv split: option.splits)
next
  case (AbortCalled out)
  then show ?thesis using apply_effect_tx [OF assms(1), of e db] by (auto intro!: exI [of _ "\<lambda>r. r"] simp: update_build_def gm_put_def gm_get_def update_triv split: option.splits)
qed

lemma update_build_get:
  "gm_get (db_builds (update_build b f db)) b' =
     (if b' = b then map_option f (gm_get (db_builds db) b) else gm_get (db_builds db) b')"
  by (simp add: update_build_def split: option.splits)

lemma apply_effects_build:
  assumes "calm envs" "\<forall>e \<in> set tr. node_event b e"
  shows "db_locks (apply_effects envs k tr db) = db_locks db \<and>
    (\<forall>b'. b' \<noteq> b \<longrightarrow> gm_get (db_builds (apply_effects envs k tr db)) b' = gm_get (db_builds db) b') \<and>
    (gm_get (db_builds (apply_effects envs k tr db)) b = None \<longleftrightarrow> gm_get (db_builds db) b = None)"
  using assms(2)
proof (induction tr arbitrary: k db)
  case (Cons e tr)
  let ?db = "apply_effect (envs k) e db"
  have q: "no_fault (se_pg (envs k))" using assms(1) by (simp add: calm_def)
  obtain f where "db_locks ?db = db_locks db" "db_builds ?db = db_builds (update_build b f db)"
    using apply_effect_build [OF q, of b e db] Cons.prems by auto
  then show ?case using Cons.IH [of "Suc k" ?db] Cons.prems by (simp add: update_build_get)
qed simp

lemma apply_effects_append:
  "apply_effects envs k (a @ b) db = apply_effects envs (k + length a) b (apply_effects envs k a db)"
  by (induction a arbitrary: k db) simp_all

text \<open>The record of the end writes the state of the build and releases its locks.\<close>

lemma terminal_event_effect:
  assumes "no_fault (se_pg env)" "b \<noteq> 0" "final \<in> {BuildCompleted, BuildFailed, BuildAborted}"
    "gm_get (db_builds db) b \<noteq> None" "gm_ok (db_locks db)"
  defines "db' \<equiv> apply_effect env (terminal_event b final) db"
  shows "build_state db' b = Some (build_state_string final)" "db_jobs db' = db_jobs db" "db_transitions db' = db_transitions db"
    "db_outputs db' = db_outputs db"
    "b' \<noteq> b \<Longrightarrow> gm_get (db_builds db') b' = gm_get (db_builds db) b'"
    "lock_holder db' d = (if lock_holder db d = Some b then None else lock_holder db d)"
proof -
  obtain ev where e: "terminal_event b final = Record ev" and ev: "ae_JobID ev = 0" "ae_BuildID ev = b"
    "ae_To ev = build_state_string final"
    by (simp add: terminal_event_def)
  have "build_state_string final \<in> {''BUILD_COMPLETED'', ''BUILD_FAILED'', ''BUILD_ABORTED''}"
    using assms(3) by auto
  then have db': "db' = release_rows b (update_build b (finish_build (se_pg env) ev) db)"
    using ev assms(2,3)
    by (auto simp: db'_def e pg_Record_def recordBuildEvent_def and_then_def releaseBuildLocks_def exec_clear [OF assms(1)])
  have "br_State (finish_build (se_pg env) ev r) = build_state_string final" for r
    using ev(3) by (simp add: finish_build_def Let_def)
  then show "build_state db' b = Some (build_state_string final)"
    using assms(4) by (cases "gm_get (db_builds db) b") (simp_all add: db' build_state_def update_build_get)
  show "db_jobs db' = db_jobs db" "db_transitions db' = db_transitions db" "db_outputs db' = db_outputs db"
    by (simp_all add: db')
  show "b' \<noteq> b \<Longrightarrow> gm_get (db_builds db') b' = gm_get (db_builds db) b'"
    by (simp add: db' update_build_get)
  have "gm_ok (db_locks (update_build b (finish_build (se_pg env) ev) db))" using assms(5) by simp
  from release_rows_holder [OF this, of b d]
  show "lock_holder db' d = (if lock_holder db d = Some b then None else lock_holder db d)"
    by (simp add: db' lock_holder_def)
qed

section \<open>What a segment does\<close>

lemma job_state_node [simp]: "job_state_string (job_state_of s) = node_state_string s"
  by (cases s) simp_all

lemma node_state_nonempty [simp]: "node_state_string s \<noteq> []" "[] \<noteq> node_state_string s"
  by (cases s; simp)+

lemma node_state_string_inj [simp]: "node_state_string s = node_state_string t \<longleftrightarrow> s = t"
  by (cases s; cases t) simp_all

lemma moves_Cons: "moves (e # tr) = moves [e] @ moves tr"
  using moves_simps(2) [of "[e]" tr] by simp

lemma seg_trail:
  assumes "\<forall>e \<in> set seg. node_effect bid n e" "nd_JobID n \<noteq> 0" "trail_ok (\<lambda>a b. a \<noteq> b) s (moves seg) t"
  shows "trail_ok (\<lambda>a b. True) (job_state_string s) (job_trail (nd_JobID n) seg) (job_state_string t)"
  using assms(1,3)
proof (induction seg arbitrary: s)
  case (Cons e seg)
  show ?case
  proof (cases "\<exists>ev a b. e = Record ev \<and> ae_From ev = node_state_string a \<and> ae_To ev = node_state_string b")
    case True
    then obtain ev a b where e: "e = Record ev" "ae_From ev = node_state_string a" "ae_To ev = node_state_string b" by blast
    then have "moves (e # seg) = (job_state_of a, job_state_of b) # moves seg"
      by (simp add: moves_def parse_node_state)
    then have s: "job_state_of a = s" "job_state_of b \<noteq> s" "trail_ok (\<lambda>a b. a \<noteq> b) (job_state_of b) (moves seg) t"
      using Cons.prems(2) by auto
    have j: "ae_JobID ev = nd_JobID n" using Cons.prems(1) e(1) by simp
    have "trail_ok (\<lambda>a b. True) (node_state_string b) (job_trail (nd_JobID n) seg) (job_state_string t)"
      using Cons.IH [OF _ s(3)] Cons.prems(1) by simp
    moreover have "a \<noteq> b" using s by auto
    ultimately show ?thesis using e j s(1) assms(2) by (auto simp: job_move_def)
  next
    case False
    then have "\<forall>ev. e = Record ev \<longrightarrow> ae_From ev = [] \<and> ae_To ev = []" using Cons.prems(1) by auto
    then have "moves [e] = []" "job_trail (nd_JobID n) (e # seg) = job_trail (nd_JobID n) seg"
      using parse_empty by (cases e; auto simp: moves_def job_move_def)+
    then show ?thesis using Cons moves_Cons [of e seg] by simp
  qed
qed (simp add: moves_def)

lemma seg_trail_other:
  "\<forall>e \<in> set seg. node_effect bid n e \<Longrightarrow> j \<noteq> nd_JobID n \<Longrightarrow> job_trail j seg = []"
proof (induction seg)
  case (Cons e seg)
  then show ?case by (cases e) (auto simp: job_move_def)
qed simp

text \<open>In a trace of segments of nodes with different jobs, the trail of a job is that of its own segment.\<close>

lemma job_trail_segments:
  assumes "distinct (map fst segs)" "(i, st, seg) \<in> set segs"
    and "\<And>i' st' seg'. (i', st', seg') \<in> set segs \<Longrightarrow> i' \<noteq> i \<Longrightarrow> job_trail j seg' = []"
  shows "job_trail j (concat (map (snd \<circ> snd) segs)) = job_trail j seg"
proof -
  obtain xs ys where s: "segs = xs @ (i, st, seg) # ys" using assms(2) by (meson split_list)
  have none: "job_trail j (concat (map (snd \<circ> snd) zs)) = []" if "set zs \<subseteq> set segs" "i \<notin> fst ` set zs" for zs
    using that
  proof (induction zs)
    case (Cons z zs)
    obtain i' st' seg' where z: "z = (i', st', seg')" by (cases z)
    then have "(i', st', seg') \<in> set segs" "i' \<noteq> i" using Cons.prems by auto
    then have "job_trail j seg' = []" by (rule assms(3))
    with Cons z show ?case by simp
  qed simp
  have "job_trail j (concat (map (snd \<circ> snd) xs)) = []" "job_trail j (concat (map (snd \<circ> snd) ys)) = []"
    by (rule none; use assms(1) in \<open>auto simp: s\<close>)+
  then show ?thesis by (simp add: s)
qed

section \<open>The whole run\<close>

lemma LoadPlan_plan:
  assumes "LoadPlan env dg b db = Inr plan"
  obtains row where "gm_get (db_builds db) b = Some row" "pl_BuildID plan = b"
    "pl_Nodes plan = map (\<lambda>(j, job). plan_node dg (br_ForceBuild row) db b (j, job) (output_rows db j))
       (filter (\<lambda>(j, job). bj_BuildID job = b) (db_jobs db))"
proof -
  obtain row nodes where row: "gm_get (db_builds db) b = Some row" "pl_BuildID plan = b" "pl_Nodes plan = nodes"
    and nodes: "mapE (\<lambda>(j, job). bindE (outputsForJob env db j)
        (\<lambda>outs. Inr (plan_node dg (br_ForceBuild row) db b (j, job) outs)))
      (filter (\<lambda>(j, job). bj_BuildID job = b) (db_jobs db)) = Inr nodes"
    using assms by (auto simp: LoadPlan_def bindE_Inr_iff split: option.splits list.splits)
  have "list_all2 (\<lambda>(j, job) n. n = plan_node dg (br_ForceBuild row) db b (j, job) (output_rows db j))
      (filter (\<lambda>(j, job). bj_BuildID job = b) (db_jobs db)) nodes"
    using mapE_all [OF nodes]
    by (rule list_all2_mono) (auto simp: bindE_Inr_iff outputsForJob_def split: option.splits prod.splits)
  then have "pl_Nodes plan = map (\<lambda>(j, job). plan_node dg (br_ForceBuild row) db b (j, job) (output_rows db j))
      (filter (\<lambda>(j, job). bj_BuildID job = b) (db_jobs db))"
    unfolding row(3) by (auto simp: list_all2_conv_all_nth intro!: nth_equalityI split: prod.splits)
  from that [OF row(1,2) this] show thesis .
qed

lemma plan_node_fields [simp]:
  "nd_ID (plan_node dg force db b (j, job) outs) = bj_JobSpecRID job" "nd_JobID (plan_node dg force db b (j, job) outs) = j"
  "nd_Outputs (plan_node dg force db b (j, job) outs) = outs" "nd_StaleSkipped (plan_node dg force db b (j, job) outs) = bj_StaleSkipped job"
  "nd_DependsOn (plan_node dg force db b (j, job) outs) = dependenciesForBuild db b j"
  by (simp_all add: plan_node_def)

lemma normalizePlan_same [simp]:
  "pl_Nodes (normalizePlan par plan) = pl_Nodes plan" "pl_BuildID (normalizePlan par plan) = pl_BuildID plan"
  by (simp_all add: normalizePlan_def Let_def)

lemma node_of_plan:
  assumes "newExecutionGraph plan = Inr g" "n \<in> set (pl_Nodes plan)"
  shows "node_of g (nd_ID n) = sorted_node n"
proof -
  have "sorted_node n \<in> set (eg_nodes g)" using newExecutionGraph_ok [OF assms(1)] assms(2) by simp
  moreover have "\<forall>n \<in> set (eg_nodes g). gm_get (eg_byID g) (nd_ID n) = Some n"
    using newExecutionGraph_ok [OF assms(1)] by (simp add: graph_ok_def)
  ultimately have "gm_get (eg_byID g) (nd_ID (sorted_node n)) = Some (sorted_node n)" by blast
  then show ?thesis by (simp add: node_of_def)
qed

lemma sorted_node_fields [simp]:
  "nd_JobID (sorted_node n) = nd_JobID n" "nd_Outputs (sorted_node n) = nd_Outputs n" "nd_StaleSkipped (sorted_node n) = nd_StaleSkipped n"
  by (simp_all add: sorted_node_def)

lemma outcome_final: "oc_FinalState (outcome_of g s) \<in> {BuildCompleted, BuildFailed, BuildAborted}"
  by (simp add: outcome_of_def Let_def)

text \<open>The gate lets no node with an Iceberg output complete, unless it is skipped.\<close>

definition plain_if_done :: "Node \<Rightarrow> NodeState \<Rightarrow> bool" where
  "plain_if_done n st \<longleftrightarrow> (st = NodeCompleted \<and> \<not> nd_StaleSkipped n \<longrightarrow> (\<forall>out \<in> set (nd_Outputs n). \<not> Handles (ot_DatasetRID out)))"

lemma gate_iter_simps [simp]:
  "it_cancelled (gate_iter c plan it) = it_cancelled it" "it_cancel_after (gate_iter c plan it) = it_cancel_after it"
  "it_drive (gate_iter c plan it) i = gate_drive c (plan_outputs plan i) (it_drive it i)"
  by (simp_all add: gate_iter_def)

lemma gate_sticky [simp]: "ctx_sticky (\<lambda>k. gate_iter c plan (envs k)) \<longleftrightarrow> ctx_sticky envs"
  by (simp add: ctx_sticky_def)

lemma gated_plain:
  assumes "commits_ok (\<lambda>k. gate_iter c plan (envs k)) n i st" "plan_outputs plan i = nd_Outputs n"
  shows "plain_if_done n st"
proof -
  have "\<not> Handles (ot_DatasetRID out)" if st: "st = NodeCompleted" "\<not> nd_StaleSkipped n" and out: "out \<in> set (nd_Outputs n)" for out
  proof
    assume h: "Handles (ot_DatasetRID out)"
    obtain k where k: "\<forall>j < length (nd_Outputs n). dv_commit (gate_drive c (nd_Outputs n) (it_drive (envs k) i)) j = None"
      using assms st by (auto simp: commits_ok_def)
    obtain j where j: "j < length (nd_Outputs n)" "nd_Outputs n ! j = out" using out by (auto simp: in_set_conv_nth)
    obtain e where "wired_Commit c (\<lambda>tx s. (dv_commit (it_drive (envs k) i) j, s)) out () = (Some e, ())"
      using wired_iceberg(1) [OF h, of c "\<lambda>tx s. (dv_commit (it_drive (envs k) i) j, s)" "()"] by blast
    moreover have "dv_commit (gate_drive c (nd_Outputs n) (it_drive (envs k) i)) j =
      fst (wired_Commit c (\<lambda>tx s. (dv_commit (it_drive (envs k) i) j, s)) out ())"
      unfolding gate_drive_def j(2) [symmetric] using j(1) by (simp del: wired_plain)
    ultimately have "dv_commit (gate_drive c (nd_Outputs n) (it_drive (envs k) i)) j = Some e" by (simp only: fst_conv)
    with k j(1) show False by (metis option.distinct(1))
  qed
  then show ?thesis by (auto simp: plain_if_done_def)
qed

text \<open>What a run consists of: the plan, and the trace as segments of the jobs of the build.\<close>

definition job_segments :: "build_db \<Rightarrow> uuid \<Rightarrow> Outcome \<Rightarrow> segment list \<Rightarrow> bool" where
  "job_segments db b out segs \<longleftrightarrow> distinct (map fst segs) \<and>
     (\<forall>(i, st, seg) \<in> set segs. \<exists>j job n. gm_get (db_jobs db) j = Some job \<and> bj_BuildID job = b \<and> bj_JobSpecRID job = i \<and>
        gm_get (oc_Nodes out) i = Some st \<and> node_seg b n st seg \<and> nd_JobID n = j \<and> nd_Outputs n = output_rows db j \<and>
        nd_StaleSkipped n = bj_StaleSkipped job \<and> plain_if_done n st) \<and>
     (\<forall>j job. gm_get (db_jobs db) j = Some job \<longrightarrow> bj_BuildID job = b \<longrightarrow> (\<exists>st seg n. (bj_JobSpecRID job, st, seg) \<in> set segs \<and>
        gm_get (oc_Nodes out) (bj_JobSpecRID job) = Some st \<and> node_seg b n st seg \<and> nd_JobID n = j \<and>
        nd_Outputs n = output_rows db j \<and> nd_StaleSkipped n = bj_StaleSkipped job \<and> plain_if_done n st))"

lemma ExecutePipeline_segments:
  assumes run: "ExecutePipeline env dg par fuel envs steps b db = Some (Executed out, db')" and ok: "gm_ok (db_jobs db)"
  obtains segs where "job_segments db b out segs" "gm_get (db_builds db) b \<noteq> None"
    "oc_FinalState out \<in> {BuildCompleted, BuildFailed, BuildAborted}"
    "db' = apply_effects steps 0 (concat (map (snd \<circ> snd) segs) @ [terminal_event b (oc_FinalState out)]) db"
proof -
  obtain plan tr where plan: "LoadPlan env dg b db = Inr plan"
    and ex: "Execute fuel (\<lambda>k. gate_iter (pe_catalog env) plan (envs k)) (normalizePlan par plan) = Some (Inr (out, tr))" and db': "db' = apply_effects steps 0 tr db"
    using run by (auto simp: ExecutePipeline_def split: sum.splits option.splits)
  obtain row where row: "gm_get (db_builds db) b = Some row" "pl_BuildID plan = b"
    and nodes: "pl_Nodes plan = map (\<lambda>(j, job). plan_node dg (br_ForceBuild row) db b (j, job) (output_rows db j))
       (filter (\<lambda>(j, job). bj_BuildID job = b) (db_jobs db))"
    using plan by (rule LoadPlan_plan)
  obtain g segs where g: "newExecutionGraph (normalizePlan par plan) = Inr g"
    and tr: "tr = concat (map (snd \<circ> snd) segs) @ [terminal_event b (oc_FinalState out)]"
    and segs: "distinct (map fst segs)" "fst ` set segs = nd_ID ` set (pl_Nodes plan)"
    and each: "\<And>i st seg. (i, st, seg) \<in> set segs \<Longrightarrow> gm_get (oc_Nodes out) i = Some st \<and> node_seg b (node_of g i) st seg \<and>
      commits_ok (\<lambda>k. gate_iter (pe_catalog env) plan (envs k)) (node_of g i) i st"
    using Execute_segments [OF ex] row(2) by (simp only: normalizePlan_same) blast
  have found: "plan_outputs plan i = nd_Outputs (node_of g i)" if n: "n \<in> set (pl_Nodes plan)" "nd_ID n = i" for n i
  proof -
    have "List.find (\<lambda>n. nd_ID n = i) (pl_Nodes plan) \<noteq> None" using n by (auto simp: find_None_iff)
    then obtain m where m: "List.find (\<lambda>n. nd_ID n = i) (pl_Nodes plan) = Some m" by blast
    then have "m \<in> set (pl_Nodes plan)" "nd_ID m = i" by (auto simp: find_Some_iff)
    then have "node_of g i = sorted_node m" using node_of_plan [OF g, of m] by simp
    then show ?thesis by (simp add: plan_outputs_def m)
  qed
  have job_node: "(\<exists>j job. n = plan_node dg (br_ForceBuild row) db b (j, job) (output_rows db j) \<and> gm_get (db_jobs db) j = Some job \<and>
      bj_BuildID job = b)" if "n \<in> set (pl_Nodes plan)" for n
    using that gm_get_in_set [OF ok] by (auto simp: nodes)
  have node_job: "plan_node dg (br_ForceBuild row) db b (j, job) (output_rows db j) \<in> set (pl_Nodes plan)"
    if "gm_get (db_jobs db) j = Some job" "bj_BuildID job = b" for j job
    using that gm_get_in_set [OF ok, of j job] by (force simp: nodes)
  have "\<exists>j job n. gm_get (db_jobs db) j = Some job \<and> bj_BuildID job = b \<and> bj_JobSpecRID job = i \<and>
        gm_get (oc_Nodes out) i = Some st \<and> node_seg b n st seg \<and> nd_JobID n = j \<and> nd_Outputs n = output_rows db j \<and>
        nd_StaleSkipped n = bj_StaleSkipped job \<and> plain_if_done n st" if s: "(i, st, seg) \<in> set segs" for i st seg
  proof -
    have "i \<in> fst ` set segs" using s by (force simp: image_iff)
    then obtain n where n: "n \<in> set (pl_Nodes plan)" "nd_ID n = i" using segs(2) by auto
    obtain j job where job: "n = plan_node dg (br_ForceBuild row) db b (j, job) (output_rows db j)" "gm_get (db_jobs db) j = Some job"
      "bj_BuildID job = b" using job_node [OF n(1)] by blast
    have "node_of g i = sorted_node n" using node_of_plan [OF g, of n] n by simp
    moreover have "plain_if_done (node_of g i) st" using each [OF s] found [OF n] by (auto intro: gated_plain)
    ultimately show ?thesis using each [OF s] n(2) job by (intro exI [of _ j] exI [of _ job] exI [of _ "sorted_node n"]) auto
  qed
  moreover have "\<exists>st seg n. (bj_JobSpecRID job, st, seg) \<in> set segs \<and>
        gm_get (oc_Nodes out) (bj_JobSpecRID job) = Some st \<and> node_seg b n st seg \<and> nd_JobID n = j \<and>
        nd_Outputs n = output_rows db j \<and> nd_StaleSkipped n = bj_StaleSkipped job \<and> plain_if_done n st"
    if job: "gm_get (db_jobs db) j = Some job" "bj_BuildID job = b" for j job
  proof -
    let ?n = "plan_node dg (br_ForceBuild row) db b (j, job) (output_rows db j)"
    note n = node_job [OF job]
    then have "bj_JobSpecRID job \<in> fst ` set segs" unfolding segs(2) by (force simp: image_iff)
    then obtain st seg where s: "(bj_JobSpecRID job, st, seg) \<in> set segs" by auto
    have "node_of g (bj_JobSpecRID job) = sorted_node ?n" using node_of_plan [OF g, of ?n] n by simp
    moreover have "plain_if_done (node_of g (bj_JobSpecRID job)) st"
      using each [OF s] found [OF n, of "bj_JobSpecRID job"] by (auto intro: gated_plain)
    ultimately show ?thesis using each [OF s] s by (intro exI [of _ st] exI [of _ seg] exI [of _ "sorted_node ?n"]) simp
  qed
  ultimately have "job_segments db b out segs" using segs(1) by (auto simp: job_segments_def)
  moreover have "oc_FinalState out \<in> {BuildCompleted, BuildFailed, BuildAborted}"
    using Execute_Inr [OF ex] outcome_final by metis
  ultimately show thesis using that row(1) db' tr by simp
qed

lemma concat_segs: "e \<in> set (concat (map (snd \<circ> snd) segs)) \<longleftrightarrow> (\<exists>i st seg. (i, st, seg) \<in> set segs \<and> e \<in> set seg)"
  by force

text \<open>The trail of a job in the trace of its build, and of any other job.\<close>

lemma segments_trail:
  assumes segs: "job_segments db b out segs" and ok: "gm_ok (db_jobs db)"
    and job: "gm_get (db_jobs db) j = Some job" "bj_BuildID job = b" "j \<noteq> 0"
  shows "\<exists>st. gm_get (oc_Nodes out) (bj_JobSpecRID job) = Some st \<and> terminal st \<and>
    trail_ok (\<lambda>a b. True) ''WAITING'' (job_trail j (concat (map (snd \<circ> snd) segs))) (node_state_string st)"
proof -
  obtain st seg n where s: "(bj_JobSpecRID job, st, seg) \<in> set segs" "gm_get (oc_Nodes out) (bj_JobSpecRID job) = Some st"
    "node_seg b n st seg" "nd_JobID n = j"
    using segs job(1,2) unfolding job_segments_def by blast
  have "job_trail j seg' = []" if s': "(i', st', seg') \<in> set segs" "i' \<noteq> bj_JobSpecRID job" for i' st' seg'
  proof -
    obtain j' job' n' where n': "gm_get (db_jobs db) j' = Some job'" "bj_JobSpecRID job' = i'" "node_seg b n' st' seg'" "nd_JobID n' = j'"
      using segs s'(1) unfolding job_segments_def by blast
    then have "j' \<noteq> j" using job(1) s'(2) by auto
    then show ?thesis using n' by (intro seg_trail_other) (auto simp: node_seg_def)
  qed
  moreover have "distinct (map fst segs)" using segs by (simp add: job_segments_def)
  ultimately have "job_trail j (concat (map (snd \<circ> snd) segs)) = job_trail j seg"
    using job_trail_segments [OF _ s(1)] by blast
  moreover have "trail_ok (\<lambda>a b. True) ''WAITING'' (job_trail j seg) (node_state_string st)"
    using seg_trail [of seg b n JobWaiting "job_state_of st"] s(3,4) job(3) by (simp add: node_seg_def)
  ultimately show ?thesis using s(2,3) by (auto simp: node_seg_def)
qed

lemma segments_trail_other:
  assumes segs: "job_segments db b out segs" and job: "job_build db j \<noteq> Some b"
  shows "job_trail j (concat (map (snd \<circ> snd) segs)) = []"
proof -
  have "job_trail j seg = []" if s: "(i, st, seg) \<in> set segs" for i st seg
  proof -
    obtain j' job' n' where n': "gm_get (db_jobs db) j' = Some job'" "bj_BuildID job' = b" "node_seg b n' st seg" "nd_JobID n' = j'"
      using segs s unfolding job_segments_def by blast
    then have "j' \<noteq> j" using job by (auto simp: job_build_def)
    then show ?thesis using n' by (intro seg_trail_other) (auto simp: node_seg_def)
  qed
  then show ?thesis
  proof (induction segs)
    case (Cons s segs)
    obtain i st seg where s: "s = (i, st, seg)" by (cases s)
    have "job_trail j seg = []" using Cons.prems [of i st seg] s by simp
    moreover have "job_trail j (concat (map (snd \<circ> snd) segs)) = []" by (rule Cons.IH) (use Cons.prems in auto)
    ultimately show ?case by (simp add: s comp_def)
  qed simp
qed

definition job_spec :: "build_db \<Rightarrow> uuid \<Rightarrow> string option" where
  "job_spec db j = map_option bj_JobSpecRID (gm_get (db_jobs db) j)"

lemma job_state_jobs: "db_jobs db' = db_jobs db \<Longrightarrow> job_state db' = job_state db"
  by (simp add: job_state_def fun_eq_iff)

lemma ExecutePipeline_rows:
  assumes run: "ExecutePipeline env dg par fuel envs steps b db = Some (Executed out, db')" and calm: "calm steps"
    and ok: "gm_ok (db_jobs db)" "gm_ok (db_locks db)" and b: "b \<noteq> 0"
    and fresh: "\<And>j. job_build db j = Some b \<Longrightarrow> j \<noteq> 0 \<and> job_state db j = Some ''WAITING''"
  shows "build_state db' b = Some (build_state_string (oc_FinalState out)) \<and>
    (\<forall>j r. job_build db j = Some b \<longrightarrow> job_spec db j = Some r \<longrightarrow> (\<exists>st trail. gm_get (oc_Nodes out) r = Some st \<and> terminal st \<and>
       job_state db' j = Some (node_state_string st) \<and> job_log db' j = job_log db j @ trail \<and>
       trail_ok (\<lambda>a b. True) ''WAITING'' trail (node_state_string st))) \<and>
    (\<forall>j. job_build db j \<noteq> Some b \<longrightarrow> job_state db' j = job_state db j \<and> job_log db' j = job_log db j) \<and>
    (\<forall>b'. b' \<noteq> b \<longrightarrow> gm_get (db_builds db') b' = gm_get (db_builds db) b') \<and>
    (\<forall>d. lock_holder db' d = (if lock_holder db d = Some b then None else lock_holder db d))"
proof -
  obtain segs where segs: "job_segments db b out segs" and row: "gm_get (db_builds db) b \<noteq> None"
    and final: "oc_FinalState out \<in> {BuildCompleted, BuildFailed, BuildAborted}"
    and db': "db' = apply_effects steps 0 (concat (map (snd \<circ> snd) segs) @ [terminal_event b (oc_FinalState out)]) db"
    using run ok(1) by (rule ExecutePipeline_segments)
  let ?tr = "concat (map (snd \<circ> snd) segs)"
  define db1 where "db1 = apply_effects steps 0 ?tr db"
  define k where "k = length ?tr"
  have db'_eq: "db' = apply_effect (steps k) (terminal_event b (oc_FinalState out)) db1"
    by (simp add: db' db1_def k_def apply_effects_append)
  have q: "no_fault (se_pg (steps k))" using calm by (simp add: calm_def)
  have "node_event b e" if e: "e \<in> set ?tr" for e
  proof -
    obtain i st seg where s: "(i, st, seg) \<in> set segs" "e \<in> set seg" using e by (auto simp: concat_segs)
    obtain j job n where n: "gm_get (db_jobs db) j = Some job" "bj_BuildID job = b" "node_seg b n st seg" "nd_JobID n = j"
      using segs s(1) unfolding job_segments_def by blast
    have "j \<noteq> 0" using fresh [of j] n(1,2) by (simp add: job_build_def)
    then show ?thesis using n(3,4) s(2) by (auto simp: node_seg_def node_event_def)
  qed
  then have "\<forall>e \<in> set ?tr. node_event b e" by blast
  note B = apply_effects_build [OF calm this, of 0 db, folded db1_def]
  have row1: "gm_get (db_builds db1) b \<noteq> None" and locks1: "db_locks db1 = db_locks db"
    using B row by blast+
  then have "gm_ok (db_locks db1)" using ok(2) by simp
  note T = terminal_event_effect [OF q b final row1 this, folded db'_eq]
  have js: "job_state db' = job_state db1" using T(2) by (rule job_state_jobs)
  have jl: "job_log db' j = job_log db1 j" for j using T(3) by (simp add: job_log_def)
  have other: "job_state db1 j = job_state db j \<and> job_log db1 j = job_log db j" if "job_build db j \<noteq> Some b" for j
    using apply_effects_untouched [OF calm segments_trail_other [OF segs that], of 0 db] by (simp add: db1_def)
  have own: "\<exists>st trail. gm_get (oc_Nodes out) r = Some st \<and> terminal st \<and> job_state db1 j = Some (node_state_string st) \<and>
      job_log db1 j = job_log db j @ trail \<and> trail_ok (\<lambda>a b. True) ''WAITING'' trail (node_state_string st)"
    if jb: "job_build db j = Some b" "job_spec db j = Some r" for j r
  proof -
    obtain job where job: "gm_get (db_jobs db) j = Some job" "bj_BuildID job = b" "bj_JobSpecRID job = r"
      using jb by (auto simp: job_build_def job_spec_def)
    note f = fresh [OF jb(1)]
    obtain st where st: "gm_get (oc_Nodes out) r = Some st" "terminal st"
      "trail_ok (\<lambda>a b. True) ''WAITING'' (job_trail j ?tr) (node_state_string st)"
      using segments_trail [OF segs ok(1) job(1,2)] f job(3) by auto
    from apply_effects_trail [OF calm _ st(3), of db 0] f st show ?thesis by (auto simp: db1_def)
  qed
  have "\<forall>b'. b' \<noteq> b \<longrightarrow> gm_get (db_builds db') b' = gm_get (db_builds db) b'" using B T(5) by simp
  moreover have "\<forall>d. lock_holder db' d = (if lock_holder db d = Some b then None else lock_holder db d)"
    using T(6) locks1 by (simp add: lock_holder_def)
  ultimately show ?thesis using T(1) own other by (simp add: js jl)
qed

lemma Execute_returns:
  assumes "newExecutionGraph plan = Inr g" "ctx_sticky envs"
  shows "\<exists>out tr. Execute (2 * length (pl_Nodes plan) + 2) envs plan = Some (Inr (out, tr))"
proof -
  have ok: "graph_ok g" using newExecutionGraph_ok [OF assms(1)] by simp
  have "weight (init_state g) + 2 \<le> 2 * length (pl_Nodes plan) + 2"
    using nodes_le [OF assms(1)] by (simp add: weight_def init_state_def)
  from exec_loop_terminates [OF ok config_pos assms(2) init_inv [OF ok] this, of plan 0] assms(1)
  show ?thesis by (auto simp: Execute_def Let_def)
qed

lemma plan_ok_accepted: "plan_ok plan \<Longrightarrow> \<exists>g. newExecutionGraph plan = Inr g"
  using newExecutionGraph_rejects by (cases "newExecutionGraph plan") auto

lemma ExecutePipeline_returns:
  assumes "LoadPlan env dg b db = Inr plan" "plan_ok plan" "ctx_sticky envs"
  shows "\<exists>out db'. ExecutePipeline env dg par (2 * length (pl_Nodes plan) + 2) envs steps b db = Some (Executed out, db')"
proof -
  have "plan_ok (normalizePlan par plan)" using assms(2) by (simp add: plan_ok_def plan_depends_def)
  then obtain g where "newExecutionGraph (normalizePlan par plan) = Inr g" using plan_ok_accepted by blast
  moreover have "ctx_sticky (\<lambda>k. gate_iter (pe_catalog env) plan (envs k))" using assms(3) by simp
  ultimately obtain out tr where "Execute (2 * length (pl_Nodes plan) + 2) (\<lambda>k. gate_iter (pe_catalog env) plan (envs k)) (normalizePlan par plan) =
      Some (Inr (out, tr))" using Execute_returns by (metis normalizePlan_same(1))
  then show ?thesis using assms(1) by (simp add: ExecutePipeline_def)
qed

section \<open>The outputs of a run\<close>

definition tx_on :: "OutputTransaction \<Rightarrow> effect \<Rightarrow> bool" where
  "tx_on out e \<longleftrightarrow> e = Committed out \<or> e = CommitFailed out \<or> e = AbortCalled out"

text \<open>What an effect makes of one output row: Iceberg rows and rows of other transactions stay as they are.\<close>

lemma apply_effect_output:
  assumes q: "no_fault (se_pg env)" and row: "gm_get (db_outputs db) (j, d) = Some row"
  obtains row' where "gm_get (db_outputs (apply_effect env e db)) (j, d) = Some row'" "output_of d row' = output_of d row"
    "Handles d \<or> \<not> tx_on (output_of d row) e \<longrightarrow> row' = row"
    "\<not> Handles d \<longrightarrow> (ow_Aborted row' \<longleftrightarrow> ow_Aborted row \<or> e = AbortCalled (output_of d row))"
    "ow_Committed row' \<longrightarrow> ow_Committed row \<or> e = Committed (output_of d row) \<or> e = CommitFailed (output_of d row)"
    "\<not> Handles d \<longrightarrow> ow_Committed row \<or> e = Committed (output_of d row) \<longrightarrow> ow_Committed row'"
proof (cases e)
  case (Record ev)
  then show thesis using that [of row] pg_Record_job(3) [OF q, of ev db] row by simp
next
  case (Committed out)
  have "output_of d row = out \<longrightarrow> ot_DatasetRID out = d" by (auto simp: output_of_def)
  then show thesis
    by (intro that [of "if output_of d row = out \<and> \<not> Handles d then row\<lparr>ow_Committed := True\<rparr> else row"])
      (auto simp: Committed tx_clear [OF q] update_outputs_get row tx_on_def)
next
  case (CommitFailed out)
  have "output_of d row = out \<longrightarrow> ot_DatasetRID out = d" by (auto simp: output_of_def)
  then show thesis
    by (intro that [of "if se_reached env \<and> output_of d row = out \<and> \<not> Handles d then row\<lparr>ow_Committed := True\<rparr> else row"])
      (auto simp: CommitFailed update_outputs_get row tx_on_def)
next
  case (AbortCalled out)
  have "output_of d row = out \<longrightarrow> ot_DatasetRID out = d" by (auto simp: output_of_def)
  then show thesis
    by (intro that [of "if output_of d row = out \<and> \<not> Handles d then row\<lparr>ow_Aborted := True\<rparr> else row"])
      (auto simp: AbortCalled tx_clear [OF q] update_outputs_get row tx_on_def)
qed

lemma apply_effects_output:
  assumes "calm envs" "gm_get (db_outputs db) (j, d) = Some row"
  shows "\<exists>row'. gm_get (db_outputs (apply_effects envs k tr db)) (j, d) = Some row' \<and> output_of d row' = output_of d row \<and>
    (Handles d \<or> (\<forall>e \<in> set tr. \<not> tx_on (output_of d row) e) \<longrightarrow> row' = row) \<and>
    (\<not> Handles d \<longrightarrow> (ow_Aborted row' \<longleftrightarrow> ow_Aborted row \<or> AbortCalled (output_of d row) \<in> set tr)) \<and>
    (ow_Committed row' \<longrightarrow> ow_Committed row \<or> Committed (output_of d row) \<in> set tr \<or> CommitFailed (output_of d row) \<in> set tr) \<and>
    (\<not> Handles d \<longrightarrow> ow_Committed row \<or> Committed (output_of d row) \<in> set tr \<longrightarrow> ow_Committed row')"
  using assms(2)
proof (induction tr arbitrary: k db row)
  case (Cons e tr)
  have q: "no_fault (se_pg (envs k))" using assms(1) by (simp add: calm_def)
  obtain row1 where row1: "gm_get (db_outputs (apply_effect (envs k) e db)) (j, d) = Some row1" "output_of d row1 = output_of d row"
    "Handles d \<or> \<not> tx_on (output_of d row) e \<longrightarrow> row1 = row"
    "\<not> Handles d \<longrightarrow> (ow_Aborted row1 \<longleftrightarrow> ow_Aborted row \<or> e = AbortCalled (output_of d row))"
    "ow_Committed row1 \<longrightarrow> ow_Committed row \<or> e = Committed (output_of d row) \<or> e = CommitFailed (output_of d row)"
    "\<not> Handles d \<longrightarrow> ow_Committed row \<or> e = Committed (output_of d row) \<longrightarrow> ow_Committed row1"
    by (rule apply_effect_output [OF q Cons.prems, of e])
  obtain row2 where row2: "gm_get (db_outputs (apply_effects envs k (e # tr) db)) (j, d) = Some row2" "output_of d row2 = output_of d row"
    "Handles d \<or> (\<forall>e \<in> set tr. \<not> tx_on (output_of d row) e) \<longrightarrow> row2 = row1"
    "\<not> Handles d \<longrightarrow> (ow_Aborted row2 \<longleftrightarrow> ow_Aborted row1 \<or> AbortCalled (output_of d row) \<in> set tr)"
    "ow_Committed row2 \<longrightarrow> ow_Committed row1 \<or> Committed (output_of d row) \<in> set tr \<or> CommitFailed (output_of d row) \<in> set tr"
    "\<not> Handles d \<longrightarrow> ow_Committed row1 \<or> Committed (output_of d row) \<in> set tr \<longrightarrow> ow_Committed row2"
    using Cons.IH [OF row1(1), of "Suc k"] unfolding row1(2) apply_effects.simps by blast
  have "Handles d \<or> (\<forall>e' \<in> set (e # tr). \<not> tx_on (output_of d row) e') \<longrightarrow> row2 = row"
    using row1(3) row2(3) by (metis list.set_intros)
  moreover have "\<not> Handles d \<longrightarrow> (ow_Aborted row2 \<longleftrightarrow> ow_Aborted row \<or> AbortCalled (output_of d row) \<in> set (e # tr))"
    using row1(4) row2(4) unfolding list.set insert_iff by blast
  moreover have "ow_Committed row2 \<longrightarrow> ow_Committed row \<or> Committed (output_of d row) \<in> set (e # tr) \<or> CommitFailed (output_of d row) \<in> set (e # tr)"
    using row1(5) row2(5) unfolding list.set insert_iff by blast
  moreover have "\<not> Handles d \<longrightarrow> ow_Committed row \<or> Committed (output_of d row) \<in> set (e # tr) \<longrightarrow> ow_Committed row2"
    using row1(6) row2(6) unfolding list.set insert_iff by blast
  ultimately show ?case using row2(1,2) by blast
qed simp

lemma tx_calls_set: "e \<in> set (tx_calls tr) \<longleftrightarrow> e \<in> set tr \<and> (\<forall>ev. e \<noteq> Record ev)"
  by (auto simp: tx_calls_def split: effect.splits)

lemma seg_outputs:
  assumes "node_seg b n st seg" "out \<in> set (nd_Outputs n)"
  shows "if st = NodeCompleted \<and> \<not> nd_StaleSkipped n
    then Committed out \<in> set seg \<and> AbortCalled out \<notin> set seg \<and> CommitFailed out \<notin> set seg else AbortCalled out \<in> set seg"
proof -
  have "Committed out \<in> set seg \<longleftrightarrow> Committed out \<in> set (tx_calls seg)" "AbortCalled out \<in> set seg \<longleftrightarrow> AbortCalled out \<in> set (tx_calls seg)"
    "CommitFailed out \<in> set seg \<longleftrightarrow> CommitFailed out \<in> set (tx_calls seg)" by (simp_all add: tx_calls_set)
  with assms show ?thesis by (auto simp: node_seg_def split: if_splits)
qed

text \<open>The calls of a run are on outputs of its jobs.\<close>

lemma segments_calls:
  assumes segs: "job_segments db b out segs" and e: "e \<in> set (concat (map (snd \<circ> snd) segs))" "tx_on o' e"
  shows "\<exists>i st seg j. (i, st, seg) \<in> set segs \<and> e \<in> set seg \<and> job_build db j = Some b \<and> job_spec db j = Some i \<and> o' \<in> set (output_rows db j)"
proof -
  obtain i st seg where s: "(i, st, seg) \<in> set segs" "e \<in> set seg" using e(1) by (auto simp: concat_segs)
  obtain j job n where n: "gm_get (db_jobs db) j = Some job" "bj_BuildID job = b" "bj_JobSpecRID job = i"
    "node_seg b n st seg" "nd_Outputs n = output_rows db j"
    using segs s(1) unfolding job_segments_def by blast
  have "node_effect b n e" using n(4) s(2) by (simp add: node_seg_def)
  then have "o' \<in> set (output_rows db j)" using e(2) n(5) by (auto simp: tx_on_def)
  moreover have "job_build db j = Some b" "job_spec db j = Some i" using n(1-3) by (simp_all add: job_build_def job_spec_def)
  ultimately show ?thesis using s by blast
qed

lemma terminal_no_call [simp]: "\<not> tx_on o' (terminal_event b final)"
  by (simp add: tx_on_def terminal_event_def)

text \<open>An output row whose transaction is no output of the build in its dataset stays as it is.\<close>

lemma ExecutePipeline_other_outputs:
  assumes run: "ExecutePipeline env dg par fuel envs steps b db = Some (Executed out, db')" and calm: "calm steps"
    and ok: "gm_ok (db_jobs db)" "gm_ok (db_outputs db)"
    and row: "gm_get (db_outputs db) (j, d) = Some row" and other: "\<not> build_output db b d (ow_TransactionRID row)"
  shows "gm_get (db_outputs db') (j, d) = Some row"
proof -
  obtain segs where segs: "job_segments db b out segs"
    and db': "db' = apply_effects steps 0 (concat (map (snd \<circ> snd) segs) @ [terminal_event b (oc_FinalState out)]) db"
    using run ok(1) by (rule ExecutePipeline_segments) blast
  have "\<not> tx_on (output_of d row) e" if e: "e \<in> set (concat (map (snd \<circ> snd) segs))" for e
  proof
    assume "tx_on (output_of d row) e"
    then obtain j' where j': "job_build db j' = Some b" "output_of d row \<in> set (output_rows db j')"
      using segments_calls [OF segs e] by blast
    then have "build_output db b d (ow_TransactionRID row)"
      using output_rows_iff [OF ok(2), of "output_of d row" j'] by (auto simp: build_output_def output_of_def)
    with other show False ..
  qed
  then have "\<forall>e \<in> set (concat (map (snd \<circ> snd) segs) @ [terminal_event b (oc_FinalState out)]). \<not> tx_on (output_of d row) e" by auto
  then show ?thesis using apply_effects_output [OF calm row] unfolding db' by blast
qed

lemma ExecutePipeline_output_rows:
  assumes run: "ExecutePipeline env dg par fuel envs steps b db = Some (Executed out, db')" and calm: "calm steps"
    and ok: "gm_ok (db_jobs db)" "gm_ok (db_outputs db)"
    and job: "gm_get (db_jobs db) j = Some job" "bj_BuildID job = b" and row: "gm_get (db_outputs db) (j, d) = Some row"
    and own: "\<And>j' row'. job_build db j' = Some b \<Longrightarrow> gm_get (db_outputs db) (j', d) = Some row' \<Longrightarrow>
      ow_TransactionRID row' = ow_TransactionRID row \<Longrightarrow> j' = j"
  shows "\<exists>row'. gm_get (db_outputs db') (j, d) = Some row' \<and>
    (if Handles d then row' = row \<and> (gm_get (oc_Nodes out) (bj_JobSpecRID job) = Some NodeCompleted \<longrightarrow> bj_StaleSkipped job)
     else if gm_get (oc_Nodes out) (bj_JobSpecRID job) = Some NodeCompleted \<and> \<not> bj_StaleSkipped job
     then ow_Committed row' \<and> ow_Aborted row' = ow_Aborted row else ow_Aborted row')"
proof -
  obtain segs where segs: "job_segments db b out segs"
    and db': "db' = apply_effects steps 0 (concat (map (snd \<circ> snd) segs) @ [terminal_event b (oc_FinalState out)]) db"
    using run ok(1) by (rule ExecutePipeline_segments) blast
  let ?tr = "concat (map (snd \<circ> snd) segs)" and ?o = "output_of d row"
  obtain st seg n where s: "(bj_JobSpecRID job, st, seg) \<in> set segs" "gm_get (oc_Nodes out) (bj_JobSpecRID job) = Some st"
    "node_seg b n st seg" "nd_JobID n = j" "nd_Outputs n = output_rows db j" "nd_StaleSkipped n = bj_StaleSkipped job" "plain_if_done n st"
    using segs job unfolding job_segments_def by blast
  have o: "?o \<in> set (nd_Outputs n)" using s(5) row output_rows_iff [OF ok(2), of "output_of d row" j] by auto
  have only: "e \<in> set (?tr @ [terminal_event b (oc_FinalState out)]) \<longleftrightarrow> e \<in> set seg" if e: "tx_on ?o e" for e
  proof
    show "e \<in> set seg \<Longrightarrow> e \<in> set (?tr @ [terminal_event b (oc_FinalState out)])" using s(1) concat_segs [of e segs] by (metis Un_iff set_append)
    assume "e \<in> set (?tr @ [terminal_event b (oc_FinalState out)])"
    then have "e \<in> set ?tr" using e by auto
    then obtain i' st' seg' j' where s': "(i', st', seg') \<in> set segs" "e \<in> set seg'" "job_build db j' = Some b" "job_spec db j' = Some i'"
      "?o \<in> set (output_rows db j')" using segments_calls [OF segs _ e] by blast
    then obtain row' where "gm_get (db_outputs db) (j', d) = Some row'" "ow_TransactionRID row' = ow_TransactionRID row"
      using output_rows_iff [OF ok(2)] by (auto simp: output_of_def)
    then have "j' = j" using own [of j' row'] s'(3) by simp
    then have "i' = bj_JobSpecRID job" using s'(4) job(1) by (simp add: job_spec_def)
    moreover have "distinct (map fst segs)" using segs by (simp add: job_segments_def)
    ultimately have "seg' = seg" using s(1) s'(1) by (auto dest: eq_key_imp_eq_value)
    then show "e \<in> set seg" using s'(2) by simp
  qed
  have ends: "Committed ?o \<in> set (?tr @ [terminal_event b (oc_FinalState out)]) \<longleftrightarrow> Committed ?o \<in> set seg"
    "AbortCalled ?o \<in> set (?tr @ [terminal_event b (oc_FinalState out)]) \<longleftrightarrow> AbortCalled ?o \<in> set seg"
    by (simp_all only: only tx_on_def effect.simps simp_thms)
  obtain row' where row': "gm_get (db_outputs db') (j, d) = Some row'" "Handles d \<longrightarrow> row' = row"
    "\<not> Handles d \<longrightarrow> (ow_Aborted row' \<longleftrightarrow> ow_Aborted row \<or> AbortCalled ?o \<in> set seg)"
    "\<not> Handles d \<longrightarrow> ow_Committed row \<or> Committed ?o \<in> set seg \<longrightarrow> ow_Committed row'"
    using apply_effects_output [OF calm row, of 0 "?tr @ [terminal_event b (oc_FinalState out)]"] unfolding ends db' by blast
  have "Handles d \<Longrightarrow> st = NodeCompleted \<Longrightarrow> bj_StaleSkipped job"
    using s(6,7) o unfolding plain_if_done_def by (auto simp: output_of_def)
  then show ?thesis using row' seg_outputs [OF s(3) o] s(2,6) by (auto split: if_splits)
qed

section \<open>Properties\<close>

text \<open>
  C4. A run of a persisted build whose jobs all wait, without database faults and with any runner, order of
  results and moment of cancellation: \<open>ExecutePipeline\<close> returns; the row of the build has the final state
  of the outcome; the row of every job of the build has the terminal state of its node, reached by the
  transitions that the audit table lists for it, from WAITING on; the locks of the build are released. Rows of
  other builds, states and audit entries of their jobs, output rows of other transactions, and locks of others
  are untouched.
\<close>

theorem ExecutePipeline_settles:
  assumes "LoadPlan env dg b db = Inr plan" "plan_ok plan" "ctx_sticky envs" "calm steps"
    and "gm_ok (db_jobs db)" "gm_ok (db_locks db)" "gm_ok (db_outputs db)" "b \<noteq> 0"
    and "\<And>j. job_build db j = Some b \<Longrightarrow> j \<noteq> 0 \<and> job_state db j = Some ''WAITING''"
  shows "\<exists>out db'. ExecutePipeline env dg par (2 * length (pl_Nodes plan) + 2) envs steps b db = Some (Executed out, db') \<and>
    build_state db' b = Some (build_state_string (oc_FinalState out)) \<and>
    (\<forall>j r. job_build db j = Some b \<longrightarrow> job_spec db j = Some r \<longrightarrow> (\<exists>st trail. gm_get (oc_Nodes out) r = Some st \<and> terminal st \<and>
       job_state db' j = Some (node_state_string st) \<and> job_log db' j = job_log db j @ trail \<and>
       trail_ok (\<lambda>a b. True) ''WAITING'' trail (node_state_string st))) \<and>
    (\<forall>j. job_build db j \<noteq> Some b \<longrightarrow> job_state db' j = job_state db j \<and> job_log db' j = job_log db j) \<and>
    (\<forall>b'. b' \<noteq> b \<longrightarrow> gm_get (db_builds db') b' = gm_get (db_builds db) b') \<and>
    (\<forall>j d row. gm_get (db_outputs db) (j, d) = Some row \<longrightarrow> \<not> build_output db b d (ow_TransactionRID row) \<longrightarrow>
       gm_get (db_outputs db') (j, d) = Some row) \<and>
    (\<forall>d. lock_holder db' d = (if lock_holder db d = Some b then None else lock_holder db d))"
proof -
  obtain out db' where run: "ExecutePipeline env dg par (2 * length (pl_Nodes plan) + 2) envs steps b db = Some (Executed out, db')"
    using ExecutePipeline_returns [OF assms(1-3)] by blast
  note other = ExecutePipeline_other_outputs [OF run assms(4,5,7)]
  show ?thesis using ExecutePipeline_rows [OF run assms(4-6,8,9)] run other by (intro exI [of _ out] exI [of _ db']) simp
qed

text \<open>
  C5. In a run without database faults, for an output of a job whose transaction is no output of another job of the
  build: if the job ran and completed, the output is committed and not aborted by the run; if not, also if the job
  was skipped as fresh, it is aborted. An Iceberg output is an exception: no call reaches its row, which stays as
  it is, and its job does not complete unless it is skipped.
\<close>

theorem ExecutePipeline_outputs:
  assumes "ExecutePipeline env dg par fuel envs steps b db = Some (Executed out, db')" "calm steps"
    and "gm_ok (db_jobs db)" "gm_ok (db_outputs db)"
    and "gm_get (db_jobs db) j = Some job" "bj_BuildID job = b" "gm_get (db_outputs db) (j, d) = Some row"
    and "\<And>j' row'. job_build db j' = Some b \<Longrightarrow> gm_get (db_outputs db) (j', d) = Some row' \<Longrightarrow>
      ow_TransactionRID row' = ow_TransactionRID row \<Longrightarrow> j' = j"
  shows "\<exists>row'. gm_get (db_outputs db') (j, d) = Some row' \<and>
    (if Handles d then row' = row \<and> (gm_get (oc_Nodes out) (bj_JobSpecRID job) = Some NodeCompleted \<longrightarrow> bj_StaleSkipped job)
     else if gm_get (oc_Nodes out) (bj_JobSpecRID job) = Some NodeCompleted \<and> \<not> bj_StaleSkipped job
     then ow_Committed row' \<and> ow_Aborted row' = ow_Aborted row else ow_Aborted row')"
  by (rule ExecutePipeline_output_rows [OF assms])

section \<open>Examples\<close>

text \<open>A build of two jobs, the first of which depends on the second.\<close>

definition db_2 :: build_db where
  "db_2 = db_0\<lparr>
     db_builds := [(9, row_0\<lparr>br_State := ''BUILD_RESOLUTION''\<rparr>)],
     db_jobs := [(30, job_0\<lparr>bj_State := ''WAITING''\<rparr>), (31, job_0\<lparr>bj_JobSpecRID := ''s4'', bj_State := ''WAITING''\<rparr>)],
     db_outputs := [((30, ''y''), \<lparr>ow_TransactionRID = ''t'', ow_Committed = False, ow_Aborted = False\<rparr>),
       ((31, ''x''), \<lparr>ow_TransactionRID = ''u'', ow_Committed = False, ow_Aborted = False\<rparr>)],
     db_deps := [(30, 31)]\<rparr>"

definition steps_0 :: "nat \<Rightarrow> step_env" where
  "steps_0 k = \<lparr>se_pg = env_0, se_reached = False\<rparr>"

definition plan_2 :: Plan where
  "plan_2 = (case LoadPlan env_0 dg_0 9 db_2 of Inr plan \<Rightarrow> plan | Inl _ \<Rightarrow> plan_3)"

lemma plan_2_loaded: "LoadPlan env_0 dg_0 9 db_2 = Inr plan_2" "length (pl_Nodes plan_2) = 2"
proof -
  have "\<not> Sum_Type.isl (LoadPlan env_0 dg_0 9 db_2)" by code_simp
  then show "LoadPlan env_0 dg_0 9 db_2 = Inr plan_2" by (auto simp: plan_2_def split: sum.splits)
  show "length (pl_Nodes plan_2) = 2" by code_simp
qed

lemma plan_2_ok: "plan_ok plan_2"
proof -
  have "\<not> Sum_Type.isl (newExecutionGraph plan_2)" by code_simp
  then show ?thesis using newExecutionGraph_accepts by (cases "newExecutionGraph plan_2") auto
qed

lemma steps_0_calm: "calm steps_0"
  by (simp add: calm_def steps_0_def no_fault_def env_0_def)

lemma db_2_facts:
  "gm_ok (db_jobs db_2)" "gm_ok (db_locks db_2)" "gm_ok (db_outputs db_2)"
  "job_build db_2 j = Some 9 \<Longrightarrow> j \<noteq> 0 \<and> job_state db_2 j = Some ''WAITING''"
  by (auto simp: db_2_def db_0_def gm_ok_def job_build_def job_state_def gm_get_def job_0_def split: if_splits)

theorem ExecutePipeline_settles_witness:
  "\<exists>out db'. ExecutePipeline env_0 dg_0 4 6 (env_3 [''s4'']) steps_0 9 db_2 = Some (Executed out, db') \<and>
     build_state db' 9 = Some (build_state_string (oc_FinalState out)) \<and> lock_holder db' ''y'' = None"
proof -
  have "lock_holder db_2 ''y'' = Some 9" by (simp add: db_2_def db_0_def lock_holder_def gm_get_def)
  then show ?thesis
    using ExecutePipeline_settles [OF plan_2_loaded(1) plan_2_ok env_3_sticky [of "[''s4'']"] steps_0_calm db_2_facts(1-3) _ db_2_facts(4), of 4]
    by (auto simp: plan_2_loaded(2))
qed

lemma run_2:
  "map_option (\<lambda>(r, db'). (case r of Executed out \<Rightarrow> map_option node_state_string (gm_get (oc_Nodes out) ''s3'') | _ \<Rightarrow> None, job_state db' 30))
     (ExecutePipeline env_0 dg_0 4 6 (env_3 [''s4'']) steps_0 9 db_2) = Some (Some ''ABORTED'', Some ''ABORTED'')"
  by code_simp

theorem ExecutePipeline_outputs_witness:
  "\<exists>out db' row'. ExecutePipeline env_0 dg_0 4 6 (env_3 [''s4'']) steps_0 9 db_2 = Some (Executed out, db') \<and>
     gm_get (oc_Nodes out) ''s3'' = Some NodeAborted \<and> gm_get (db_outputs db') (30, ''y'') = Some row' \<and> ow_Aborted row'"
proof -
  obtain r db' where run: "ExecutePipeline env_0 dg_0 4 6 (env_3 [''s4'']) steps_0 9 db_2 = Some (r, db')"
    using run_2 by auto
  obtain out where r: "r = Executed out" and st: "map_option node_state_string (gm_get (oc_Nodes out) ''s3'') = Some ''ABORTED''"
    using run_2 run by (cases r) auto
  have n: "gm_get (oc_Nodes out) ''s3'' = Some NodeAborted"
    using st node_state_string_inj [of _ NodeAborted] by (auto simp del: node_state_string_inj)
  have job: "gm_get (db_jobs db_2) 30 = Some (job_0\<lparr>bj_State := ''WAITING''\<rparr>)"
    "gm_get (db_outputs db_2) (30, ''y'') = Some \<lparr>ow_TransactionRID = ''t'', ow_Committed = False, ow_Aborted = False\<rparr>"
    by (simp_all add: db_2_def gm_get_def)
  have own: "gm_get (db_outputs db_2) (j', ''y'') = Some row' \<Longrightarrow> j' = 30" for j' row'
    by (auto simp: db_2_def gm_get_def split: if_splits)
  have "\<not> Handles ''y''" by code_simp
  with ExecutePipeline_outputs [OF run [unfolded r] steps_0_calm db_2_facts(1,3) job(1) _ job(2)] own n run r
  show ?thesis by (auto simp: job_0_def)
qed

section \<open>Where the code falls short\<close>

text \<open>
  The transitions of a node that starts or completes are recorded with the context of the run, while those
  of its failure or abort use a fresh one. A cancellation that comes between the launch of a node and
  its first record therefore leaves the row of the job in WAITING, since the later records find no row in
  the state they leave; a cancellation between the last commit and the last record leaves it in RUNNING.
  The build ends in BUILD_ABORTED and in BUILD_COMPLETED.
\<close>

definition db_3 :: build_db where
  "db_3 = db_2\<lparr>db_jobs := [(30, job_0\<lparr>bj_State := ''WAITING''\<rparr>)], db_deps := []\<rparr>"

definition cancelled_steps :: "nat set \<Rightarrow> nat \<Rightarrow> step_env" where
  "cancelled_steps ks k = \<lparr>se_pg = env_0\<lparr>pe_fault := (\<lambda>st. if k \<in> ks then Some ''context canceled'' else None)\<rparr>, se_reached = False\<rparr>"

definition cancelled_run :: "nat \<Rightarrow> iter_env" where
  "cancelled_run k = \<lparr>it_cancelled = 0 < k, it_cancel_after = None, it_pick = 0,
     it_drive = (\<lambda>i. \<lparr>dv_ctx = (\<lambda>_. Some ''context canceled''), dv_run = (\<lambda>_. Inl ''context canceled''), dv_ctx_retry = (\<lambda>_. True),
       dv_commit = (\<lambda>_. None), dv_abort = (\<lambda>_. None), dv_ctx_end = True\<rparr>)\<rparr>"

definition end_of_run :: "(nat \<Rightarrow> iter_env) \<Rightarrow> nat set \<Rightarrow> string option \<times> string option \<times> string option" where
  "end_of_run envs ks = (case ExecutePipeline env_0 dg_0 4 4 envs (cancelled_steps ks) 9 db_3 of
      Some (Executed out, db') \<Rightarrow>
        (map_option node_state_string (gm_get (oc_Nodes out) ''s3''), job_state db' 30, build_state db' 9)
    | _ \<Rightarrow> (None, None, None))"

theorem cancelled_run_leaves_rows:
  "end_of_run cancelled_run {0, 1} = (Some ''ABORTED'', Some ''WAITING'', Some ''BUILD_ABORTED'') \<and>
   end_of_run (env_3 []) {4} = (Some ''COMPLETED'', Some ''RUNNING'', Some ''BUILD_COMPLETED'')"
proof
  show "end_of_run cancelled_run {0, 1} = (Some ''ABORTED'', Some ''WAITING'', Some ''BUILD_ABORTED'')" by code_simp
  show "end_of_run (env_3 []) {4} = (Some ''COMPLETED'', Some ''RUNNING'', Some ''BUILD_COMPLETED'')" by code_simp
qed

text \<open>
  The record of the end of a run writes the row of the build whatever its state is: a run that another
  replica carries on after \<open>AbortBuild\<close> turns an aborted build into a completed one. And \<open>ExecutePipeline\<close> does
  not look at the state of the build: a failed build runs again, its build row ends as completed while the
  row of its job stays failed.
\<close>

theorem final_record_overwrites:
  "build_state (snd (AbortBuild env_0 9 db_0)) 9 = Some ''BUILD_ABORTED'' \<and>
   build_state (apply_effect (steps_0 0) (terminal_event 9 BuildCompleted) (snd (AbortBuild env_0 9 db_0))) 9 = Some ''BUILD_COMPLETED''"
proof
  show "build_state (snd (AbortBuild env_0 9 db_0)) 9 = Some ''BUILD_ABORTED''" by code_simp
  show "build_state (apply_effect (steps_0 0) (terminal_event 9 BuildCompleted) (snd (AbortBuild env_0 9 db_0))) 9 = Some ''BUILD_COMPLETED''"
    by code_simp
qed

definition db_4 :: build_db where
  "db_4 = db_3\<lparr>db_builds := [(9, row_0\<lparr>br_State := ''BUILD_FAILED''\<rparr>)], db_jobs := [(30, job_0\<lparr>bj_State := ''FAILED''\<rparr>)]\<rparr>"

theorem finished_build_runs_again:
  "map_option (\<lambda>(r, db'). (job_state db' 30, build_state db' 9)) (ExecutePipeline env_0 dg_0 4 4 (env_3 []) steps_0 9 db_4) =
     Some (Some ''FAILED'', Some ''BUILD_COMPLETED'')"
  by code_simp

end
