(* ===== verification/Build_Roundtrip.thy ===== *)
theory Build_Roundtrip
  imports Build_Run
begin

text \<open>
  From a request to the end of the build: the rows that \<open>PersistResolvedBuild\<close> writes are what \<open>LoadPlan\<close> reads
  back, and a build that \<open>CreateBuild\<close> accepted can be run by \<open>ExecutePipeline\<close>.
\<close>

section \<open>Tables\<close>

text \<open>The keys of the tables are unique and foreign keys refer to rows.\<close>

definition tables_ok :: "build_db \<Rightarrow> bool" where
  "tables_ok db \<longleftrightarrow> gm_ok (db_jobs db) \<and> gm_ok (db_outputs db) \<and> gm_ok (db_locks db) \<and>
     (\<forall>(j, job) \<in> set (db_jobs db). bj_BuildID job \<in> set (gm_keys (db_builds db))) \<and>
     (\<forall>(d, i, t) \<in> set (db_locks db). i \<in> set (gm_keys (db_builds db))) \<and>
     (\<forall>(j, d) \<in> set (gm_keys (db_outputs db)). j \<in> set (gm_keys (db_jobs db))) \<and>
     (\<forall>(j, dep) \<in> set (db_deps db). j \<in> set (gm_keys (db_jobs db)) \<and> dep \<in> set (gm_keys (db_jobs db)))"

lemma lock_refs:
  "gm_ok (db_locks db) \<Longrightarrow> (\<forall>(d, i, t) \<in> set (db_locks db). i \<in> K) \<longleftrightarrow> (\<forall>d i. lock_holder db d = Some i \<longrightarrow> i \<in> K)"
  using gm_get_in_set [of "db_locks db"] by (fastforce simp: lock_holder_def)

lemma tables_ok_locks: "tables_ok db \<Longrightarrow> lock_holder db d = Some i \<Longrightarrow> i \<in> set (gm_keys (db_builds db))"
  using lock_refs [of db "set (gm_keys (db_builds db))"] by (simp add: tables_ok_def)

lemma tables_ok_grow:
  assumes "tables_ok db" "set (gm_keys (db_builds db)) \<subseteq> set (gm_keys (db_builds db'))" "db_jobs db' = db_jobs db"
    "db_outputs db' = db_outputs db" "db_deps db' = db_deps db" "gm_ok (db_locks db')"
    and "\<And>d i. lock_holder db' d = Some i \<Longrightarrow> i \<in> set (gm_keys (db_builds db'))"
  shows "tables_ok db'"
  using assms(1-6) lock_refs [OF assms(6), of "set (gm_keys (db_builds db'))"] assms(7) by (auto simp: tables_ok_def)

lemma restored_locks:
  assumes "tables_ok db" "locks_gained b db db1" "b \<notin> set (gm_keys (db_builds db))"
  shows "(if lock_holder db1 d = Some b then None else lock_holder db1 d) = lock_holder db d"
proof -
  have "lock_holder db d \<noteq> Some b" using tables_ok_locks [OF assms(1), of d b] assms(3) by auto
  then show ?thesis using assms(2) by (auto simp: locks_gained_def split: if_splits)
qed

lemma gm_put_new: "gm_get m k = None \<Longrightarrow> gm_put m k v = m @ [(k, v)]"
  by (induction m) (auto simp: gm_put_def gm_get_def split: if_splits)

section \<open>The rows of a persisted build\<close>

definition waiting_row :: "uuid \<Rightarrow> (string, bool) gomap \<Rightarrow> ResolvedJob \<Rightarrow> uuid \<times> build_job_row \<Rightarrow> bool" where
  "waiting_row b fresh job r \<longleftrightarrow> fst r = rj_ID job \<and> bj_BuildID (snd r) = b \<and> bj_JobSpecRID (snd r) = rj_JobSpecRID job \<and>
     bj_State (snd r) = ''WAITING'' \<and> bj_StaleSkipped (snd r) = is_fresh fresh (rj_JobSpecRID job)"

text \<open>A row of an output that is still open, of a transaction in \<open>T\<close>.\<close>

definition open_output :: "OpenedTransaction list \<Rightarrow> string set \<Rightarrow> string \<Rightarrow> output_row \<Rightarrow> bool" where
  "open_output opened T d row \<longleftrightarrow> \<not> ow_Committed row \<and> \<not> ow_Aborted row \<and>
     ow_TransactionRID row \<in> T \<and> datasetForTransaction opened (ow_TransactionRID row) = d"

definition same_but_rows :: "build_db \<Rightarrow> build_db \<Rightarrow> bool" where
  "same_but_rows db db' \<longleftrightarrow> db_deps db' = db_deps db \<and> db_builds db' = db_builds db \<and> db_transitions db' = db_transitions db"

lemma upsert_job_row:
  assumes "upsert_job env b spec meta stale job db = Inr db'" "gm_get (db_jobs db) (rj_ID job) = None"
    "stale = is_fresh fresh (rj_JobSpecRID job)"
  shows "\<exists>r. db_jobs db' = db_jobs db @ [r] \<and> waiting_row b fresh job r" "db_outputs db' = db_outputs db" "same_but_rows db db'"
    "gm_get (db_builds db) b \<noteq> None"
  using assms by (auto simp: upsert_job_def Let_def waiting_row_def gm_put_new same_but_rows_def split: option.splits if_splits)

lemma upsert_output_row:
  assumes "upsert_output env opened job t db = Inr db'"
    "\<And>d row. gm_get (db_outputs db) (rj_ID job, d) = Some row \<Longrightarrow> open_output opened T d row" "t \<in> T"
  shows "\<exists>row. db_outputs db' = gm_put (db_outputs db) (rj_ID job, datasetForTransaction opened t) row \<and>
      open_output opened T (datasetForTransaction opened t) row"
    "db_jobs db' = db_jobs db" "same_but_rows db db'"
  using assms by (auto simp: upsert_output_def Let_def open_output_def same_but_rows_def split: option.splits)

lemma upsert_outputs_rows:
  assumes "foldE (upsert_output env opened job) txns db = Inr db'" "set txns \<subseteq> T"
    and "\<And>d row. gm_get (db_outputs db) (rj_ID job, d) = Some row \<Longrightarrow> open_output opened T d row"
  shows "(\<forall>d row. gm_get (db_outputs db') (rj_ID job, d) = Some row \<longrightarrow> open_output opened T d row) \<and>
    (\<forall>d. gm_get (db_outputs db') (rj_ID job, d) \<noteq> None \<longleftrightarrow>
       gm_get (db_outputs db) (rj_ID job, d) \<noteq> None \<or> d \<in> datasetForTransaction opened ` set txns) \<and>
    (\<forall>j d. j \<noteq> rj_ID job \<longrightarrow> gm_get (db_outputs db') (j, d) = gm_get (db_outputs db) (j, d)) \<and>
    (gm_ok (db_outputs db) \<longrightarrow> gm_ok (db_outputs db')) \<and> db_jobs db' = db_jobs db \<and> same_but_rows db db'"
  using assms
proof (induction txns arbitrary: db)
  case (Cons t txns)
  obtain db1 where one: "upsert_output env opened job t db = Inr db1"
    and rest: "foldE (upsert_output env opened job) txns db1 = Inr db'"
    using Cons.prems(1) by (auto simp: bindE_Inr_iff)
  have t: "t \<in> T" "set txns \<subseteq> T" using Cons.prems(2) by simp_all
  obtain row where row: "db_outputs db1 = gm_put (db_outputs db) (rj_ID job, datasetForTransaction opened t) row"
    "open_output opened T (datasetForTransaction opened t) row"
    using upsert_output_row(1) [OF one Cons.prems(3) t(1)] by blast
  have "open_output opened T d r" if "gm_get (db_outputs db1) (rj_ID job, d) = Some r" for d r
    using that Cons.prems(3) row by (auto split: if_splits)
  from Cons.IH [OF rest t(2) this] row(1) upsert_output_row(2,3) [OF one Cons.prems(3) t(1)]
  show ?case by (auto simp: same_but_rows_def)
qed (simp add: same_but_rows_def)

text \<open>One job with its outputs, then all of them.\<close>

definition rows_written :: "OpenedTransaction list \<Rightarrow> ResolvedJob \<Rightarrow> build_db \<Rightarrow> bool" where
  "rows_written opened job db \<longleftrightarrow>
     (\<forall>d row. gm_get (db_outputs db) (rj_ID job, d) = Some row \<longrightarrow> open_output opened (set (rj_OutputTransactionRIDs job)) d row) \<and>
     (\<forall>d. gm_get (db_outputs db) (rj_ID job, d) \<noteq> None \<longleftrightarrow> d \<in> datasetForTransaction opened ` set (rj_OutputTransactionRIDs job))"

lemma persist_job_rows:
  assumes "persist_job env dg rb fresh job db = Inr db'"
    and "gm_get (db_jobs db) (rj_ID job) = None" "\<And>d. gm_get (db_outputs db) (rj_ID job, d) = None"
  shows "\<exists>r. db_jobs db' = db_jobs db @ [r] \<and> waiting_row (rb_BuildID rb) fresh job r"
    "rows_written (rb_OpenedTransactions rb) job db'"
    "\<And>j d. j \<noteq> rj_ID job \<Longrightarrow> gm_get (db_outputs db') (j, d) = gm_get (db_outputs db) (j, d)"
    "gm_ok (db_outputs db) \<Longrightarrow> gm_ok (db_outputs db')" "same_but_rows db db'" "gm_get (db_builds db) (rb_BuildID rb) \<noteq> None"
proof -
  obtain db1 where one: "upsert_job env (rb_BuildID rb) (spec_by_rid (rb_JobSpecs rb) (rj_JobSpecRID job))
      (meta_of (stalenessMetadataBySpec dg (rb_JobSpecs rb) (rb_InputViews rb)) (rj_JobSpecRID job))
      (is_fresh fresh (rj_JobSpecRID job)) job db = Inr db1"
    and two: "foldE (upsert_output env (rb_OpenedTransactions rb) job) (rj_OutputTransactionRIDs job) db1 = Inr db'"
    using assms(1) by (auto simp: persist_job_def Let_def bindE_Inr_iff)
  note u = upsert_job_row [OF one assms(2) refl]
  have none: "gm_get (db_outputs db1) (rj_ID job, d) = None" for d using u(2) assms(3) by simp
  then have "open_output (rb_OpenedTransactions rb) (set (rj_OutputTransactionRIDs job)) d row"
    if "gm_get (db_outputs db1) (rj_ID job, d) = Some row" for d row
    using that by simp
  note v = upsert_outputs_rows [OF two order_refl this]
  show "\<exists>r. db_jobs db' = db_jobs db @ [r] \<and> waiting_row (rb_BuildID rb) fresh job r" using u(1) v by simp
  show "rows_written (rb_OpenedTransactions rb) job db'" using v none unfolding rows_written_def by blast
  show "\<And>j d. j \<noteq> rj_ID job \<Longrightarrow> gm_get (db_outputs db') (j, d) = gm_get (db_outputs db) (j, d)" using v u(2) by simp
  show "gm_ok (db_outputs db) \<Longrightarrow> gm_ok (db_outputs db')" "same_but_rows db db'" using v u(2,3) by (simp_all add: same_but_rows_def)
  show "gm_get (db_builds db) (rb_BuildID rb) \<noteq> None" by (fact u(4))
qed

lemma persist_jobs_rows:
  assumes "foldE (persist_job env dg rb fresh) js db = Inr db'" "distinct (map rj_ID js)"
    and "\<And>job d. job \<in> set js \<Longrightarrow> gm_get (db_jobs db) (rj_ID job) = None \<and> gm_get (db_outputs db) (rj_ID job, d) = None"
  shows "(\<exists>rows. db_jobs db' = db_jobs db @ rows \<and> list_all2 (waiting_row (rb_BuildID rb) fresh) js rows) \<and>
    (\<forall>job \<in> set js. rows_written (rb_OpenedTransactions rb) job db') \<and>
    (\<forall>j d. j \<notin> rj_ID ` set js \<longrightarrow> gm_get (db_outputs db') (j, d) = gm_get (db_outputs db) (j, d)) \<and>
    (gm_ok (db_outputs db) \<longrightarrow> gm_ok (db_outputs db')) \<and> same_but_rows db db'"
  using assms
proof (induction js arbitrary: db)
  case Nil
  then show ?case by (simp add: same_but_rows_def)
next
  case (Cons job js)
  obtain db1 where one: "persist_job env dg rb fresh job db = Inr db1" and rest: "foldE (persist_job env dg rb fresh) js db1 = Inr db'"
    using Cons.prems(1) by (auto simp: bindE_Inr_iff)
  have new: "gm_get (db_jobs db) (rj_ID job) = None" "\<And>d. gm_get (db_outputs db) (rj_ID job, d) = None"
    using Cons.prems(3) by simp_all
  note p = persist_job_rows [OF one new]
  obtain r where r: "db_jobs db1 = db_jobs db @ [r]" "waiting_row (rb_BuildID rb) fresh job r" using p(1) by blast
  have other: "rj_ID job' \<noteq> rj_ID job" if "job' \<in> set js" for job'
    using Cons.prems(2) that by (metis distinct.simps(2) image_eqI list.set_map list.simps(9))
  have "gm_get (db_jobs db1) (rj_ID job') = None \<and> gm_get (db_outputs db1) (rj_ID job', d) = None" if j': "job' \<in> set js" for job' d
  proof -
    have "gm_get [r] (rj_ID job') = None" using r(2) other [OF j'] by (cases r) (auto simp: gm_get_def waiting_row_def)
    then show ?thesis using Cons.prems(3) [of job' d] j' p(3) [OF other [OF j']] r(1) by (simp add: gm_get_append)
  qed
  note IH = Cons.IH [OF rest _ this]
  have dist: "distinct (map rj_ID js)" using Cons.prems(2) by simp
  note IH = IH [OF dist]
  obtain rows where rows: "db_jobs db' = db_jobs db1 @ rows" "list_all2 (waiting_row (rb_BuildID rb) fresh) js rows" using IH by blast
  have mine: "gm_get (db_outputs db') (rj_ID job, d) = gm_get (db_outputs db1) (rj_ID job, d)" for d
    using IH Cons.prems(2) by (metis distinct.simps(2) list.set_map list.simps(9))
  then have "rows_written (rb_OpenedTransactions rb) job db'" using p(2) by (simp add: rows_written_def)
  moreover have "\<exists>rows. db_jobs db' = db_jobs db @ rows \<and> list_all2 (waiting_row (rb_BuildID rb) fresh) (job # js) rows"
    using rows r by (intro exI [of _ "r # rows"]) simp
  ultimately show ?case using IH p(3-5) by (auto simp: same_but_rows_def)
qed


text \<open>The dependencies between the jobs.\<close>

definition same_but_deps :: "build_db \<Rightarrow> build_db \<Rightarrow> bool" where
  "same_but_deps db db' \<longleftrightarrow> db_jobs db' = db_jobs db \<and> db_outputs db' = db_outputs db \<and> db_builds db' = db_builds db \<and>
     db_transitions db' = db_transitions db"

lemma persist_dep_row:
  "persist_dep env m job dep db = Inr db' \<Longrightarrow> same_but_deps db db' \<and>
   set (db_deps db') = set (db_deps db) \<union> {(rj_ID job, i) | i. gm_get m dep = Some i}"
  by (auto simp: persist_dep_def same_but_deps_def split: option.splits if_splits)

lemma persist_job_deps:
  "foldE (persist_dep env m job) ds db = Inr db' \<Longrightarrow> same_but_deps db db' \<and>
   set (db_deps db') = set (db_deps db) \<union> {(rj_ID job, i) | i dep. dep \<in> set ds \<and> gm_get m dep = Some i}"
proof (induction ds arbitrary: db)
  case (Cons dep ds)
  obtain db1 where "persist_dep env m job dep db = Inr db1" "foldE (persist_dep env m job) ds db1 = Inr db'"
    using Cons.prems by (auto simp: bindE_Inr_iff)
  from persist_dep_row [OF this(1)] Cons.IH [OF this(2)] show ?case by (auto simp: same_but_deps_def)
qed (simp add: same_but_deps_def)

lemma persist_deps_rows:
  "foldE (\<lambda>job. foldE (persist_dep env m job) (rj_DependsOnJobSpecRIDs job)) js db = Inr db' \<Longrightarrow> same_but_deps db db' \<and>
   set (db_deps db') = set (db_deps db) \<union>
     {(rj_ID job, i) | job i. job \<in> set js \<and> (\<exists>dep \<in> set (rj_DependsOnJobSpecRIDs job). gm_get m dep = Some i)}"
proof (induction js arbitrary: db)
  case (Cons job js)
  obtain db1 where "foldE (persist_dep env m job) (rj_DependsOnJobSpecRIDs job) db = Inr db1"
    "foldE (\<lambda>job. foldE (persist_dep env m job) (rj_DependsOnJobSpecRIDs job)) js db1 = Inr db'"
    using Cons.prems by (auto simp: bindE_Inr_iff)
  from persist_job_deps [OF this(1)] Cons.IH [OF this(2)] show ?case by (auto simp: same_but_deps_def)
qed (simp add: same_but_deps_def)

text \<open>All that the transaction leaves behind.\<close>

definition jobs_map :: "ResolvedJob list \<Rightarrow> (string, uuid) gomap" where
  "jobs_map js = foldl (\<lambda>m job. gm_put m (rj_JobSpecRID job) (rj_ID job)) [] js"

definition new_jobs :: "ResolvedJob list \<Rightarrow> build_db \<Rightarrow> bool" where
  "new_jobs js db \<longleftrightarrow> distinct (map rj_ID js) \<and>
     (\<forall>job \<in> set js. gm_get (db_jobs db) (rj_ID job) = None \<and> (\<forall>d. gm_get (db_outputs db) (rj_ID job, d) = None))"

lemma update_build_present:
  "gm_get (db_builds (update_build b f db)) b = map_option f (gm_get (db_builds db) b)"
  "b' \<noteq> b \<Longrightarrow> gm_get (db_builds (update_build b f db)) b' = gm_get (db_builds db) b'"
  by (simp_all add: update_build_def split: option.splits)

lemma PersistResolvedBuild_rows:
  assumes "PersistResolvedBuild env dg rb db = (None, db')" "new_jobs (rb_Jobs rb) db"
  obtains fresh rows where "rb_ForceBuild rb \<Longrightarrow> fresh = []"
    "db_jobs db' = db_jobs db @ rows" "list_all2 (waiting_row (rb_BuildID rb) fresh) (rb_Jobs rb) rows"
    "\<And>job. job \<in> set (rb_Jobs rb) \<Longrightarrow> rows_written (rb_OpenedTransactions rb) job db'"
    "\<And>j d. j \<notin> rj_ID ` set (rb_Jobs rb) \<Longrightarrow> gm_get (db_outputs db') (j, d) = gm_get (db_outputs db) (j, d)"
    "gm_ok (db_outputs db) \<Longrightarrow> gm_ok (db_outputs db')"
    "set (db_deps db') = set (db_deps db) \<union> {(rj_ID job, i) | job i. job \<in> set (rb_Jobs rb) \<and>
       (\<exists>dep \<in> set (rj_DependsOnJobSpecRIDs job). gm_get (jobs_map (rb_Jobs rb)) dep = Some i)}"
    "\<exists>f. db_builds db' = db_builds (update_build (rb_BuildID rb) f db) \<and> (\<forall>r. br_AbortPolicy (f r) = br_AbortPolicy r)"
    "db_transitions db' = db_transitions db"
proof -
  define f where "f = (\<lambda>b :: build_row. b\<lparr>br_State := (if rb_QueuedReason rb \<noteq> None then ''BUILD_QUEUED'' else build_state_string (rb_State rb)),
                   br_TargetDatasetRIDs := targetDatasetRIDsFromSpecs (rb_JobSpecs rb),
                   br_QueuedAt := (if (if rb_QueuedReason rb \<noteq> None then ''BUILD_QUEUED'' else build_state_string (rb_State rb)) = ''BUILD_QUEUED'' then Some (pe_now env) else br_QueuedAt b)\<rparr>)"
  let ?db1 = "update_build (rb_BuildID rb) f db"
  obtain fresh db2 where fresh: "freshBySpec env dg rb ?db1 = Inr fresh"
    and js: "foldE (persist_job env dg rb fresh) (rb_Jobs rb) ?db1 = Inr db2"
    and deps: "foldE (\<lambda>job. foldE (persist_dep env (jobs_map (rb_Jobs rb)) job) (rj_DependsOnJobSpecRIDs job)) (rb_Jobs rb) db2 = Inr db'"
    using assms(1) unfolding PersistResolvedBuild_def persistResolvedBuild_def Let_def f_def jobs_map_def
    by (auto simp: bindE_Inr_iff split: option.splits sum.splits)
  have new: "distinct (map rj_ID (rb_Jobs rb))"
    "\<And>job d. job \<in> set (rb_Jobs rb) \<Longrightarrow> gm_get (db_jobs ?db1) (rj_ID job) = None \<and> gm_get (db_outputs ?db1) (rj_ID job, d) = None"
    using assms(2) by (simp_all add: new_jobs_def)
  note J = persist_jobs_rows [OF js new] and D = persist_deps_rows [OF deps]
  have dd: "db_deps ?db1 = db_deps db" by (simp add: update_build_def split: option.splits)
  obtain rows where rows: "db_jobs db2 = db_jobs ?db1 @ rows" "list_all2 (waiting_row (rb_BuildID rb) fresh) (rb_Jobs rb) rows"
    using J by blast
  show thesis
  proof (rule that [of fresh rows])
    show "rb_ForceBuild rb \<Longrightarrow> fresh = []" using fresh by (simp add: freshBySpec_def)
    show "db_jobs db' = db_jobs db @ rows" using rows(1) D by (simp add: same_but_deps_def)
    show "list_all2 (waiting_row (rb_BuildID rb) fresh) (rb_Jobs rb) rows" by (fact rows(2))
    show "rows_written (rb_OpenedTransactions rb) job db'" if "job \<in> set (rb_Jobs rb)" for job
      using J D that by (simp add: rows_written_def same_but_deps_def)
    show "gm_get (db_outputs db') (j, d) = gm_get (db_outputs db) (j, d)" if "j \<notin> rj_ID ` set (rb_Jobs rb)" for j d
      using J D that by (simp add: same_but_deps_def)
    show "gm_ok (db_outputs db) \<Longrightarrow> gm_ok (db_outputs db')" using J D by (simp add: same_but_deps_def)
    show "set (db_deps db') = set (db_deps db) \<union> {(rj_ID job, i) | job i. job \<in> set (rb_Jobs rb) \<and>
       (\<exists>dep \<in> set (rj_DependsOnJobSpecRIDs job). gm_get (jobs_map (rb_Jobs rb)) dep = Some i)}"
      using J D dd by (simp add: same_but_rows_def)
    show "\<exists>f. db_builds db' = db_builds (update_build (rb_BuildID rb) f db) \<and> (\<forall>r. br_AbortPolicy (f r) = br_AbortPolicy r)"
      using J D by (intro exI [of _ f]) (simp add: same_but_rows_def same_but_deps_def f_def)
    show "db_transitions db' = db_transitions db" using J D by (simp add: same_but_rows_def same_but_deps_def)
  qed
qed


section \<open>The plan of a persisted build\<close>

text \<open>What resolution guarantees of a build that does not wait, and that the UUIDs of its transactions differ.\<close>

definition planned :: "uuid_lib \<Rightarrow> ResolvedBuild \<Rightarrow> bool" where
  "planned lib rb \<longleftrightarrow> rb_Jobs rb = fst (BuildFanOutPlan lib (rb_BuildID rb) (rb_JobSpecs rb) (rb_OpenedTransactions rb)) \<and>
     distinct (map js_RID (rb_JobSpecs rb)) \<and> acyclic (spec_depends (rb_JobSpecs rb)) \<and>
     distinct (map op_DatasetRID (rb_OpenedTransactions rb)) \<and> distinct (map op_TransactionRID (rb_OpenedTransactions rb))"

definition planned_as :: "OpenedTransaction list \<Rightarrow> ResolvedJob \<Rightarrow> Node \<Rightarrow> bool" where
  "planned_as opened job n \<longleftrightarrow> nd_ID n = rj_JobSpecRID job \<and> nd_JobID n = rj_ID job \<and>
     set (nd_DependsOn n) = set (rj_DependsOnJobSpecRIDs job) \<and>
     set (nd_Outputs n) = (\<lambda>t. \<lparr>ot_DatasetRID = datasetForTransaction opened t, ot_TransactionRID = t\<rparr>) ` set (rj_OutputTransactionRIDs job)"

definition opened_map :: "OpenedTransaction list \<Rightarrow> (string, string) gomap" where
  "opened_map opened = foldl (\<lambda>m t. gm_put m (op_DatasetRID t) (op_TransactionRID t)) [] opened"

definition job_id :: "uuid_lib \<Rightarrow> uuid \<Rightarrow> string \<Rightarrow> uuid" where
  "job_id lib b rid = ul_NewSHA1 lib NameSpaceOID (ul_String lib b @ '':'' @ rid)"

lemma planned_job:
  assumes "planned lib rb" "job \<in> set (rb_Jobs rb)"
  shows "\<exists>s. s \<in> set (rb_JobSpecs rb) \<and> rj_JobSpecRID job = js_RID s \<and> rj_ID job = job_id lib (rb_BuildID rb) (js_RID s) \<and>
    rj_DependsOnJobSpecRIDs job = spec_deps (producer_map (rb_JobSpecs rb)) s \<and>
    rj_OutputTransactionRIDs job = List.map_filter (gm_get (opened_map (rb_OpenedTransactions rb))) (js_OutputDatasetRIDs s)"
  using assms by (auto simp: planned_def BuildFanOutPlan_def Let_def job_id_def opened_map_def)

lemma planned_rids: "planned lib rb \<Longrightarrow> map rj_JobSpecRID (rb_Jobs rb) = map js_RID (rb_JobSpecs rb)"
  by (simp add: planned_def BuildFanOutPlan_def Let_def)

lemma jobs_map_get: "planned lib rb \<Longrightarrow> job \<in> set (rb_Jobs rb) \<Longrightarrow> gm_get (jobs_map (rb_Jobs rb)) (rj_JobSpecRID job) = Some (rj_ID job)"
  unfolding jobs_map_def by (rule foldl_put_value) (simp_all add: planned_rids, simp add: planned_def)

text \<open>A dependency of a job is another job of the build.\<close>

lemma planned_dep:
  assumes "planned lib rb" "job \<in> set (rb_Jobs rb)" "dep \<in> set (rj_DependsOnJobSpecRIDs job)"
  shows "(rj_JobSpecRID job, dep) \<in> spec_depends (rb_JobSpecs rb)" "\<exists>job' \<in> set (rb_Jobs rb). rj_JobSpecRID job' = dep"
proof -
  obtain s where s: "s \<in> set (rb_JobSpecs rb)" "rj_JobSpecRID job = js_RID s"
    "rj_DependsOnJobSpecRIDs job = spec_deps (producer_map (rb_JobSpecs rb)) s"
    using planned_job [OF assms(1,2)] by blast
  then have "dep \<in> set (upstreams (rb_JobSpecs rb) s)" using assms(3) by (simp add: spec_deps_set)
  with s show e: "(rj_JobSpecRID job, dep) \<in> spec_depends (rb_JobSpecs rb)" by (auto simp: spec_depends_def)
  then have "dep \<in> set (map rj_JobSpecRID (rb_Jobs rb))"
    using spec_depends_rid planned_rids [OF assms(1)] by (metis list.set_map)
  then show "\<exists>job' \<in> set (rb_Jobs rb). rj_JobSpecRID job' = dep" by auto
qed

lemma find_distinct: "distinct (map f xs) \<Longrightarrow> x \<in> set xs \<Longrightarrow> List.find (\<lambda>y. f y = f x) xs = Some x"
  by (induction xs) auto

lemma planned_output:
  assumes "planned lib rb" "job \<in> set (rb_Jobs rb)" "t \<in> set (rj_OutputTransactionRIDs job)"
  shows "\<exists>o' \<in> set (rb_OpenedTransactions rb). op_TransactionRID o' = t \<and> datasetForTransaction (rb_OpenedTransactions rb) t = op_DatasetRID o'"
proof -
  obtain s :: JobSpec where "rj_OutputTransactionRIDs job = List.map_filter (gm_get (opened_map (rb_OpenedTransactions rb))) (js_OutputDatasetRIDs s)"
    using planned_job [OF assms(1,2)] by blast
  then obtain d where d: "gm_get (opened_map (rb_OpenedTransactions rb)) d = Some t"
    using assms(3) by (auto simp: List.map_filter_def)
  have "\<exists>o' \<in> set xs. op_DatasetRID o' = d \<and> op_TransactionRID o' = t"
    if "gm_get (opened_map xs) d = Some t" for xs
    using that by (induction xs rule: rev_induct) (auto simp: opened_map_def split: if_splits)
  from this [OF d] obtain o' where o': "o' \<in> set (rb_OpenedTransactions rb)" "op_TransactionRID o' = t" by blast
  then show ?thesis using find_distinct [of op_TransactionRID "rb_OpenedTransactions rb" o'] assms(1)
    by (auto simp: planned_def datasetForTransaction_def)
qed

lemma dataset_inj:
  assumes "planned lib rb" "job \<in> set (rb_Jobs rb)" "t \<in> set (rj_OutputTransactionRIDs job)" "t' \<in> set (rj_OutputTransactionRIDs job)"
    and "datasetForTransaction (rb_OpenedTransactions rb) t = datasetForTransaction (rb_OpenedTransactions rb) t'"
  shows "t = t'"
proof -
  obtain o1 o2 where o: "o1 \<in> set (rb_OpenedTransactions rb)" "o2 \<in> set (rb_OpenedTransactions rb)" "op_TransactionRID o1 = t" "op_TransactionRID o2 = t'"
    "op_DatasetRID o1 = op_DatasetRID o2"
    using planned_output [OF assms(1,2,3)] planned_output [OF assms(1,2,4)] assms(5) by metis
  have "distinct (map op_DatasetRID (rb_OpenedTransactions rb))" using assms(1) by (simp add: planned_def)
  then have "o1 = o2" using o(1,2,5) by (simp add: distinct_map inj_on_def)
  then show ?thesis using o(3,4) by simp
qed

lemma waiting_rows_get:
  assumes "list_all2 (waiting_row b fresh) js rows" "distinct (map rj_ID js)" "job \<in> set js"
  shows "\<exists>row. gm_get rows (rj_ID job) = Some row \<and> waiting_row b fresh job (rj_ID job, row)"
  using assms
proof (induction js rows rule: list_all2_induct)
  case (Cons j js r rows)
  show ?case
  proof (cases "job = j")
    case True
    then show ?thesis using Cons.hyps(1) by (cases r) (auto simp: gm_get_def waiting_row_def)
  next
    case False
    then have job: "job \<in> set js" using Cons.prems(2) by simp
    then have "rj_ID job \<noteq> rj_ID j" using Cons.prems(1) by (metis distinct.simps(2) image_eqI list.set_map list.simps(9))
    then show ?thesis using Cons.IH Cons.prems(1) job Cons.hyps(1) by (cases r) (auto simp: gm_get_def waiting_row_def)
  qed
qed simp

lemma waiting_rows_ids: "list_all2 (waiting_row b fresh) js rows \<Longrightarrow> map fst rows = map rj_ID js \<and> (\<forall>r \<in> set rows. bj_BuildID (snd r) = b)"
  by (induction js rows rule: list_all2_induct) (auto simp: waiting_row_def)


lemma map_filter_set: "set (List.map_filter f xs) = {y. \<exists>x \<in> set xs. f x = Some y}"
  by (force simp: List.map_filter_def)

lemma LoadPlan_clear:
  assumes "no_fault env" "gm_get (db_builds db) b = Some row"
  shows "\<exists>plan. LoadPlan env dg b db = Inr plan \<and> pl_BuildID plan = b \<and>
    pl_Nodes plan = map (\<lambda>(j, job). plan_node dg (br_ForceBuild row) db b (j, job) (output_rows db j))
       (filter (\<lambda>(j, job). bj_BuildID job = b) (db_jobs db))"
proof -
  have f: "pe_fault env st = None" for st using assms(1) by (simp add: no_fault_def)
  have "mapE (\<lambda>(j, job). bindE (outputsForJob env db j)
                   (\<lambda>outs. Inr (plan_node dg (br_ForceBuild row) db b (j, job) outs)))
                 (filter (\<lambda>(j, job). bj_BuildID job = b) (db_jobs db)) =
    Inr (map (\<lambda>(j, job). plan_node dg (br_ForceBuild row) db b (j, job) (output_rows db j))
       (filter (\<lambda>(j, job). bj_BuildID job = b) (db_jobs db)))"
    by (rule mapE_Inr) (auto simp: outputsForJob_def f)
  then show ?thesis by (simp add: LoadPlan_def assms(2) f List.map_filter_def)
qed

text \<open>The tables after the transaction: one new row per job, found under its id.\<close>

lemma new_jobs_tables:
  assumes "tables_ok db" "distinct (map rj_ID js)" "\<forall>job \<in> set js. rj_ID job \<notin> set (gm_keys (db_jobs db))"
  shows "new_jobs js db"
proof -
  have "gm_get (db_outputs db) (rj_ID job, d) = None" if "job \<in> set js" for job d
    using assms(1,3) that by (fastforce simp: tables_ok_def gm_get_None_iff)
  then show ?thesis using assms(2,3) by (simp add: new_jobs_def gm_get_None_iff)
qed

lemma appended_get:
  assumes "list_all2 (waiting_row b fresh) js rows" "distinct (map rj_ID js)" "job \<in> set js" "gm_get old (rj_ID job) = None"
  shows "\<exists>row. gm_get (old @ rows) (rj_ID job) = Some row \<and> waiting_row b fresh job (rj_ID job, row)"
  using waiting_rows_get [OF assms(1-3)] assms(4) by (simp add: gm_get_append)

lemma dependencies_read:
  assumes p: "planned lib rb" and d: "distinct (map rj_ID (rb_Jobs rb))" and job: "job \<in> set (rb_Jobs rb)"
    and rows: "\<And>job. job \<in> set (rb_Jobs rb) \<Longrightarrow> \<exists>row. gm_get (db_jobs db') (rj_ID job) = Some row \<and> waiting_row b fresh job (rj_ID job, row)"
    and deps: "set (db_deps db') = old \<union> {(rj_ID job, i) | job i. job \<in> set (rb_Jobs rb) \<and>
       (\<exists>dep \<in> set (rj_DependsOnJobSpecRIDs job). gm_get (jobs_map (rb_Jobs rb)) dep = Some i)}"
    and old: "\<And>i. (rj_ID job, i) \<notin> old"
  shows "set (dependenciesForBuild db' b (rj_ID job)) = set (rj_DependsOnJobSpecRIDs job)"
proof -
  have same: "job' = job" if "job' \<in> set (rb_Jobs rb)" "rj_ID job' = rj_ID job" for job'
    using that job d by (auto simp: distinct_map inj_on_def)
  obtain row where row: "gm_get (db_jobs db') (rj_ID job) = Some row" "bj_BuildID row = b"
    using rows [OF job] by (auto simp: waiting_row_def)
  have to: "\<exists>r. (rj_ID job, i) \<in> set (db_deps db') \<and> gm_get (db_jobs db') i = Some r \<and> bj_JobSpecRID r = dep"
    if dep: "dep \<in> set (rj_DependsOnJobSpecRIDs job)" "gm_get (jobs_map (rb_Jobs rb)) dep = Some i" for dep i
  proof -
    obtain job' where job': "job' \<in> set (rb_Jobs rb)" "rj_JobSpecRID job' = dep" using planned_dep(2) [OF p job dep(1)] by blast
    then have i: "i = rj_ID job'" using jobs_map_get [OF p job'(1)] dep(2) by simp
    have "(rj_ID job, i) \<in> set (db_deps db')" using dep job unfolding deps by blast
    with rows [OF job'(1)] job'(2) show ?thesis by (auto simp: waiting_row_def i)
  qed
  have from_dep: "\<exists>dep \<in> set (rj_DependsOnJobSpecRIDs job). gm_get (jobs_map (rb_Jobs rb)) dep = Some i"
    if i: "(rj_ID job, i) \<in> set (db_deps db')" for i
  proof -
    obtain job' dep where "job' \<in> set (rb_Jobs rb)" "rj_ID job' = rj_ID job"
      "dep \<in> set (rj_DependsOnJobSpecRIDs job')" "gm_get (jobs_map (rb_Jobs rb)) dep = Some i"
      using i old [of i] unfolding deps by auto
    then show ?thesis using same by metis
  qed
  have mapped: "\<exists>i. gm_get (jobs_map (rb_Jobs rb)) dep = Some i" if "dep \<in> set (rj_DependsOnJobSpecRIDs job)" for dep
    using planned_dep(2) [OF p job that] jobs_map_get [OF p] by blast
  have "set (dependenciesForBuild db' b (rj_ID job)) =
      {bj_JobSpecRID r | i r. (rj_ID job, i) \<in> set (db_deps db') \<and> gm_get (db_jobs db') i = Some r}"
    using row unfolding dependenciesForBuild_def map_filter_set
    by (auto split: if_splits) (auto intro!: bexI)
  also have "\<dots> = set (rj_DependsOnJobSpecRIDs job)"
  proof (intro equalityI subsetI)
    fix x assume "x \<in> {bj_JobSpecRID r | i r. (rj_ID job, i) \<in> set (db_deps db') \<and> gm_get (db_jobs db') i = Some r}"
    then obtain i r where i: "(rj_ID job, i) \<in> set (db_deps db')" "gm_get (db_jobs db') i = Some r" "x = bj_JobSpecRID r" by blast
    obtain dep where dep: "dep \<in> set (rj_DependsOnJobSpecRIDs job)" "gm_get (jobs_map (rb_Jobs rb)) dep = Some i"
      using from_dep [OF i(1)] by blast
    from to [OF dep] i(2,3) dep(1) show "x \<in> set (rj_DependsOnJobSpecRIDs job)" by auto
  next
    fix x assume x: "x \<in> set (rj_DependsOnJobSpecRIDs job)"
    obtain i where "gm_get (jobs_map (rb_Jobs rb)) x = Some i" using mapped [OF x] by blast
    from to [OF x this] show "x \<in> {bj_JobSpecRID r | i r. (rj_ID job, i) \<in> set (db_deps db') \<and> gm_get (db_jobs db') i = Some r}"
      by blast
  qed
  finally show ?thesis .
qed

lemma outputs_read:
  assumes p: "planned lib rb" and job: "job \<in> set (rb_Jobs rb)" and ok: "gm_ok (db_outputs db')"
    and rows: "rows_written (rb_OpenedTransactions rb) job db'"
  shows "set (output_rows db' (rj_ID job)) =
    (\<lambda>t. \<lparr>ot_DatasetRID = datasetForTransaction (rb_OpenedTransactions rb) t, ot_TransactionRID = t\<rparr>) ` set (rj_OutputTransactionRIDs job)"
proof (intro equalityI subsetI)
  fix x assume "x \<in> set (output_rows db' (rj_ID job))"
  then obtain d row where "gm_get (db_outputs db') (rj_ID job, d) = Some row" "x = output_of d row"
    using output_rows_iff [OF ok] by blast
  then show "x \<in> (\<lambda>t. \<lparr>ot_DatasetRID = datasetForTransaction (rb_OpenedTransactions rb) t, ot_TransactionRID = t\<rparr>) ` set (rj_OutputTransactionRIDs job)"
    using rows by (auto simp: rows_written_def open_output_def output_of_def)
next
  fix x assume "x \<in> (\<lambda>t. \<lparr>ot_DatasetRID = datasetForTransaction (rb_OpenedTransactions rb) t, ot_TransactionRID = t\<rparr>) ` set (rj_OutputTransactionRIDs job)"
  then obtain t where t: "t \<in> set (rj_OutputTransactionRIDs job)"
    "x = \<lparr>ot_DatasetRID = datasetForTransaction (rb_OpenedTransactions rb) t, ot_TransactionRID = t\<rparr>" by blast
  let ?d = "datasetForTransaction (rb_OpenedTransactions rb) t"
  have "gm_get (db_outputs db') (rj_ID job, ?d) \<noteq> None" using rows t(1) by (simp add: rows_written_def)
  then obtain row where row: "gm_get (db_outputs db') (rj_ID job, ?d) = Some row" by blast
  then have "ow_TransactionRID row \<in> set (rj_OutputTransactionRIDs job)"
    "datasetForTransaction (rb_OpenedTransactions rb) (ow_TransactionRID row) = ?d"
    using rows by (auto simp: rows_written_def open_output_def)
  then have "ow_TransactionRID row = t" using dataset_inj [OF p job _ t(1)] by blast
  then have "x = output_of ?d row" using t(2) by (simp add: output_of_def)
  then show "x \<in> set (output_rows db' (rj_ID job))" using row output_rows_iff [OF ok] by blast
qed


text \<open>Persisting a build and loading its plan.\<close>

definition new_build :: "ResolvedBuild \<Rightarrow> build_db \<Rightarrow> bool" where
  "new_build rb db \<longleftrightarrow> gm_get (db_builds db) (rb_BuildID rb) \<noteq> None \<and> (\<forall>j. job_build db j \<noteq> Some (rb_BuildID rb)) \<and>
     distinct (map rj_ID (rb_Jobs rb)) \<and> (\<forall>job \<in> set (rb_Jobs rb). rj_ID job \<notin> set (gm_keys (db_jobs db)))"

lemma persisted_rows:
  assumes "PersistResolvedBuild env dg rb db = (None, db')" "tables_ok db" "planned lib rb" "new_build rb db"
  obtains fresh rows brow where "rb_ForceBuild rb \<Longrightarrow> fresh = []"
    "gm_get (db_builds db') (rb_BuildID rb) = Some brow"
    "filter (\<lambda>(j, job). bj_BuildID job = rb_BuildID rb) (db_jobs db') = rows"
    "list_all2 (waiting_row (rb_BuildID rb) fresh) (rb_Jobs rb) rows"
    "gm_ok (db_jobs db')" "gm_ok (db_outputs db')" "gm_ok (db_locks db')"
    "\<And>j. job_build db' j = Some (rb_BuildID rb) \<Longrightarrow> \<exists>job \<in> set (rb_Jobs rb). j = rj_ID job"
    "\<And>job. job \<in> set (rb_Jobs rb) \<Longrightarrow> job_build db' (rj_ID job) = Some (rb_BuildID rb) \<and> job_state db' (rj_ID job) = Some ''WAITING'' \<and>
       job_spec db' (rj_ID job) = Some (rj_JobSpecRID job)"
    "\<And>job. job \<in> set (rb_Jobs rb) \<Longrightarrow> rows_written (rb_OpenedTransactions rb) job db'"
    "\<And>job. job \<in> set (rb_Jobs rb) \<Longrightarrow> set (dependenciesForBuild db' (rb_BuildID rb) (rj_ID job)) = set (rj_DependsOnJobSpecRIDs job)"
    "\<And>j row. gm_get (db_jobs db) j = Some row \<Longrightarrow> gm_get (db_jobs db') j = Some row"
    "\<And>j d row. gm_get (db_outputs db) (j, d) = Some row \<Longrightarrow> gm_get (db_outputs db') (j, d) = Some row"
    "\<And>b'. b' \<noteq> rb_BuildID rb \<Longrightarrow> gm_get (db_builds db') b' = gm_get (db_builds db) b'"
proof -
  let ?b = "rb_BuildID rb"
  have ids: "distinct (map rj_ID (rb_Jobs rb))" "\<forall>job \<in> set (rb_Jobs rb). rj_ID job \<notin> set (gm_keys (db_jobs db))"
    and none: "\<And>j. job_build db j \<noteq> Some ?b" and bld: "gm_get (db_builds db) ?b \<noteq> None"
    using assms(4) by (simp_all add: new_build_def)
  have ok: "gm_ok (db_jobs db)" "gm_ok (db_outputs db)" "gm_ok (db_locks db)" using assms(2) by (simp_all add: tables_ok_def)
  have "new_jobs (rb_Jobs rb) db" by (rule new_jobs_tables [OF assms(2) ids])
  with assms(1) obtain fresh rows where P: "rb_ForceBuild rb \<Longrightarrow> fresh = []"
    "db_jobs db' = db_jobs db @ rows" "list_all2 (waiting_row ?b fresh) (rb_Jobs rb) rows"
    "\<And>job. job \<in> set (rb_Jobs rb) \<Longrightarrow> rows_written (rb_OpenedTransactions rb) job db'"
    "gm_ok (db_outputs db) \<Longrightarrow> gm_ok (db_outputs db')"
    "set (db_deps db') = set (db_deps db) \<union> {(rj_ID job, i) | job i. job \<in> set (rb_Jobs rb) \<and>
       (\<exists>dep \<in> set (rj_DependsOnJobSpecRIDs job). gm_get (jobs_map (rb_Jobs rb)) dep = Some i)}"
    "\<exists>f. db_builds db' = db_builds (update_build ?b f db) \<and> (\<forall>r. br_AbortPolicy (f r) = br_AbortPolicy r)"
    "\<And>j d. j \<notin> rj_ID ` set (rb_Jobs rb) \<Longrightarrow> gm_get (db_outputs db') (j, d) = gm_get (db_outputs db) (j, d)"
    by (rule PersistResolvedBuild_rows) blast
  have get: "\<exists>row. gm_get (db_jobs db') (rj_ID job) = Some row \<and> waiting_row ?b fresh job (rj_ID job, row)"
    if "job \<in> set (rb_Jobs rb)" for job
    unfolding P(2) using ids(2) that by (intro appended_get [OF P(3) ids(1) that]) (simp add: gm_get_None_iff)
  note r = waiting_rows_ids [OF P(3)]
  have "filter (\<lambda>(j, job). bj_BuildID job = ?b) (db_jobs db) = []"
    using none gm_get_in_set [OF ok(1)] by (fastforce simp: job_build_def filter_empty_conv)
  moreover have "filter (\<lambda>(j, job). bj_BuildID job = ?b) rows = rows" using r by (auto simp: filter_id_conv)
  ultimately have rows: "filter (\<lambda>(j, job). bj_BuildID job = ?b) (db_jobs db') = rows" by (simp add: P(2))
  have jobs_ok: "gm_ok (db_jobs db')" using ok(1) r ids by (force simp: P(2) gm_ok_def gm_keys_def)
  have "\<exists>job \<in> set (rb_Jobs rb). j = rj_ID job" if mine: "job_build db' j = Some ?b" for j
  proof -
    obtain row where row: "gm_get (db_jobs db') j = Some row" "bj_BuildID row = ?b" using mine by (auto simp: job_build_def)
    then have "(j, row) \<in> set rows" using gm_get_in_set [OF jobs_ok] by (auto simp: rows [symmetric])
    then have "j \<in> set (map fst rows)" by force
    then show ?thesis using r by auto
  qed
  moreover have "set (dependenciesForBuild db' ?b (rj_ID job)) = set (rj_DependsOnJobSpecRIDs job)" if "job \<in> set (rb_Jobs rb)" for job
    using assms(2) ids(2) that by (intro dependencies_read [OF assms(3) ids(1) that get P(6)]) (auto simp: tables_ok_def)
  moreover have "job_build db' (rj_ID job) = Some ?b \<and> job_state db' (rj_ID job) = Some ''WAITING'' \<and> job_spec db' (rj_ID job) = Some (rj_JobSpecRID job)"
    if "job \<in> set (rb_Jobs rb)" for job
    using get [OF that] by (auto simp: job_build_def job_state_def job_spec_def waiting_row_def)
  moreover have "\<exists>brow. gm_get (db_builds db') ?b = Some brow" using P(7) bld by (auto simp: update_build_present)
  moreover have "gm_ok (db_locks db')" using PersistResolvedBuild_locks [OF assms(1)] ok(3) by simp
  moreover have "gm_get (db_jobs db') j = Some row" if "gm_get (db_jobs db) j = Some row" for j row
    using that by (simp add: P(2) gm_get_append)
  moreover have "gm_get (db_outputs db') (j, d) = Some row" if o: "gm_get (db_outputs db) (j, d) = Some row" for j d row
  proof -
    have "(j, d) \<in> set (gm_keys (db_outputs db))" using o by (metis gm_get_None_iff option.distinct(1))
    then have "j \<in> set (gm_keys (db_jobs db))" using assms(2) by (auto simp: tables_ok_def)
    then have "j \<notin> rj_ID ` set (rb_Jobs rb)" using ids(2) by auto
    then show ?thesis using P(8) o by simp
  qed
  moreover have "gm_get (db_builds db') b' = gm_get (db_builds db) b'" if "b' \<noteq> ?b" for b'
    using P(7) that by (auto simp: update_build_present)
  ultimately show thesis using that [OF P(1) _ rows P(3) jobs_ok P(5) [OF ok(2)]] P(4) by blast
qed

lemma persisted_jobs:
  assumes "PersistResolvedBuild env dg rb db = (None, db')" "tables_ok db" "planned lib rb" "new_build rb db"
  shows "gm_ok (db_jobs db')" "gm_ok (db_outputs db')" "gm_ok (db_locks db')"
    "job_build db' j = Some (rb_BuildID rb) \<Longrightarrow> \<exists>job \<in> set (rb_Jobs rb). j = rj_ID job"
    "job \<in> set (rb_Jobs rb) \<Longrightarrow> job_build db' (rj_ID job) = Some (rb_BuildID rb) \<and> job_state db' (rj_ID job) = Some ''WAITING'' \<and>
       job_spec db' (rj_ID job) = Some (rj_JobSpecRID job)"
    "job \<in> set (rb_Jobs rb) \<Longrightarrow> rows_written (rb_OpenedTransactions rb) job db'"
    "gm_get (db_jobs db) j = Some row \<Longrightarrow> gm_get (db_jobs db') j = Some row"
    "gm_get (db_outputs db) (j, d) = Some orow \<Longrightarrow> gm_get (db_outputs db') (j, d) = Some orow"
    "b' \<noteq> rb_BuildID rb \<Longrightarrow> gm_get (db_builds db') b' = gm_get (db_builds db) b'"
  using assms by (rule persisted_rows; simp)+

lemma persisted_plan:
  assumes "PersistResolvedBuild env dg rb db = (None, db')" "tables_ok db" "planned lib rb" "new_build rb db"
    and "\<And>s. s \<in> set (rb_JobSpecs rb) \<Longrightarrow> js_RID s \<noteq> []" "no_fault env'"
  shows "\<exists>plan. LoadPlan env' dg' (rb_BuildID rb) db' = Inr plan \<and> plan_ok plan \<and> pl_BuildID plan = rb_BuildID rb \<and>
    list_all2 (planned_as (rb_OpenedTransactions rb)) (rb_Jobs rb) (pl_Nodes plan) \<and>
    (rb_ForceBuild rb \<longrightarrow> (\<forall>n \<in> set (pl_Nodes plan). \<not> nd_StaleSkipped n))"
proof -
  let ?b = "rb_BuildID rb"
  obtain fresh rows brow where P: "rb_ForceBuild rb \<Longrightarrow> fresh = []" "gm_get (db_builds db') ?b = Some brow"
    "filter (\<lambda>(j, job). bj_BuildID job = ?b) (db_jobs db') = rows"
    "list_all2 (waiting_row ?b fresh) (rb_Jobs rb) rows" "gm_ok (db_outputs db')"
    "\<And>job. job \<in> set (rb_Jobs rb) \<Longrightarrow> rows_written (rb_OpenedTransactions rb) job db'"
    "\<And>job. job \<in> set (rb_Jobs rb) \<Longrightarrow> set (dependenciesForBuild db' ?b (rj_ID job)) = set (rj_DependsOnJobSpecRIDs job)"
    using assms(1-4) by (rule persisted_rows) blast
  define node where "node = (\<lambda>(j, job). plan_node dg' (br_ForceBuild brow) db' ?b (j, job) (output_rows db' j))"
  obtain plan where plan: "LoadPlan env' dg' ?b db' = Inr plan" "pl_BuildID plan = ?b" "pl_Nodes plan = map node rows"
    using LoadPlan_clear [OF assms(6) P(2), of dg'] unfolding P(3) node_def by blast
  have "list_all2 (\<lambda>job r. planned_as (rb_OpenedTransactions rb) job (node r) \<and> (rb_ForceBuild rb \<longrightarrow> \<not> nd_StaleSkipped (node r))) (rb_Jobs rb) rows"
  proof (rule list.rel_mono_strong [OF P(4)])
    fix job r assume job: "job \<in> set (rb_Jobs rb)" and w: "waiting_row ?b fresh job r"
    obtain row where r: "r = (rj_ID job, row)" "bj_JobSpecRID row = rj_JobSpecRID job" "bj_StaleSkipped row = is_fresh fresh (rj_JobSpecRID job)"
      using w by (cases r) (auto simp: waiting_row_def)
    show "planned_as (rb_OpenedTransactions rb) job (node r) \<and> (rb_ForceBuild rb \<longrightarrow> \<not> nd_StaleSkipped (node r))"
      using P(7) [OF job] outputs_read [OF assms(3) job P(5) P(6) [OF job]] r P(1)
      by (simp add: planned_as_def node_def is_fresh_def)
  qed
  then have nodes: "list_all2 (planned_as (rb_OpenedTransactions rb)) (rb_Jobs rb) (pl_Nodes plan)"
    and force: "rb_ForceBuild rb \<longrightarrow> (\<forall>n \<in> set (pl_Nodes plan). \<not> nd_StaleSkipped n)"
    unfolding plan(3) by (auto simp: list_all2_map2 list_all2_conv_all_nth set_conv_nth)
  have "map nd_ID (pl_Nodes plan) = map rj_JobSpecRID (rb_Jobs rb)"
    using nodes by (auto simp: list_all2_conv_all_nth planned_as_def intro!: nth_equalityI)
  then have ids: "map nd_ID (pl_Nodes plan) = map js_RID (rb_JobSpecs rb)" using planned_rids [OF assms(3)] by simp
  have origin: "\<exists>job \<in> set (rb_Jobs rb). planned_as (rb_OpenedTransactions rb) job n" if "n \<in> set (pl_Nodes plan)" for n
    using nodes that by (metis in_set_conv_nth list_all2_conv_all_nth nth_mem)
  have dep: "(nd_ID n, d) \<in> spec_depends (rb_JobSpecs rb)" if n: "n \<in> set (pl_Nodes plan)" "d \<in> set (nd_DependsOn n)" for n d
  proof -
    obtain job where "job \<in> set (rb_Jobs rb)" "planned_as (rb_OpenedTransactions rb) job n" using origin [OF n(1)] by blast
    then show ?thesis using planned_dep(1) [OF assms(3)] n(2) by (simp add: planned_as_def)
  qed
  have idset: "nd_ID ` set (pl_Nodes plan) = js_RID ` set (rb_JobSpecs rb)" using ids by (metis list.set_map)
  have "plan_ok plan" unfolding plan_ok_def
  proof (intro conjI ballI)
    fix n assume n: "n \<in> set (pl_Nodes plan)"
    then have "nd_ID n \<in> js_RID ` set (rb_JobSpecs rb)" using idset by blast
    then show "nd_ID n \<noteq> []" using assms(5) by (metis imageE)
    show "set (nd_DependsOn n) \<subseteq> nd_ID ` set (pl_Nodes plan)" using dep [OF n] spec_depends_rid unfolding idset by blast
  next
    show "distinct (map nd_ID (pl_Nodes plan))" using ids assms(3) by (simp add: planned_def)
    have "plan_depends plan \<subseteq> spec_depends (rb_JobSpecs rb)" using dep by (auto simp: plan_depends_def)
    then show "acyclic (plan_depends plan)" using assms(3) acyclic_subset by (auto simp: planned_def)
  qed
  then show ?thesis using plan(1,2) nodes force by blast
qed


section \<open>From the request to the persisted build\<close>

text \<open>Opening a build adds its row; resolving it changes locks and transactions only.\<close>

definition only_locks :: "build_db \<Rightarrow> build_db \<Rightarrow> bool" where
  "only_locks db db' \<longleftrightarrow> db_builds db' = db_builds db \<and> db_jobs db' = db_jobs db \<and> db_outputs db' = db_outputs db \<and>
     db_deps db' = db_deps db \<and> (gm_ok (db_locks db) \<longrightarrow> gm_ok (db_locks db'))"

lemma only_locks_refl: "only_locks db db"
  by (simp add: only_locks_def)

lemma only_locks_trans: "only_locks a b \<Longrightarrow> only_locks b c \<Longrightarrow> only_locks a c"
  by (simp add: only_locks_def)

lemma pg_ports_only_locks:
  "dv_OpenTransaction (pg_versioning env) d branch db = (r, db') \<Longrightarrow> only_locks db db'"
  "bl_TryAcquire (pg_locks env) d b txn db = (r', db') \<Longrightarrow> only_locks db db'"
  by (auto simp: pg_versioning_def pg_OpenTransaction_def pg_locks_def pg_TryAcquire_def only_locks_def Let_def
      split: option.splits if_splits)

lemma acquire_loop_only_locks:
  "acquire_loop b branch (pg_versioning env) (Some (pg_locks env)) outs seen opened db = (r, db') \<Longrightarrow> only_locks db db'"
proof (induction outs arbitrary: seen opened db)
  case (Cons d outs)
  show ?case
  proof (cases "d \<in> set seen")
    case True
    then show ?thesis using Cons.IH Cons.prems by simp
  next
    case False
    obtain r1 db1 where op: "dv_OpenTransaction (pg_versioning env) d branch db = (r1, db1)" by fastforce
    note o1 = pg_ports_only_locks(1) [OF op]
    show ?thesis
    proof (cases r1)
      case (Inl e)
      then show ?thesis using Cons.prems False op o1 by simp
    next
      case (Inr txn)
      obtain r2 db2 where try': "bl_TryAcquire (pg_locks env) d b txn db1 = (r2, db2)" by fastforce
      note o2 = only_locks_trans [OF o1 pg_ports_only_locks(2) [OF try']]
      show ?thesis
      proof (cases r2 rule: try_result_cases)
        case (3 h)
        then have "acquire_loop b branch (pg_versioning env) (Some (pg_locks env)) outs (d # seen)
            (opened @ [\<lparr>op_DatasetRID = d, op_TransactionRID = txn\<rparr>]) db2 = (r, db')"
          using Cons.prems False op Inr try' by simp
        from only_locks_trans [OF o2 Cons.IH [OF this]] show ?thesis .
      qed (use Cons.prems False op Inr try' o2 in simp_all)
    qed
  qed
qed (simp add: only_locks_refl)

lemma ResolveBuild_only_locks:
  assumes "ResolveBuild lib now newID args repo (pg_versioning env) (Some (pg_locks env)) db = Some (r, db')"
  shows "only_locks db db'"
proof (cases "db' = db")
  case False
  obtain specs views where "resolve_locked lib now newID args specs views (pg_versioning env) (Some (pg_locks env)) db = (r, db')"
    using ResolveBuild_unchanged [OF assms False] by blast
  then show ?thesis using False
    by (auto simp: resolve_locked_def Let_def AcquireLocks_def dest!: acquire_loop_only_locks split: sum.splits bool.splits prod.splits)
qed (simp add: only_locks_refl)

lemma OpenBuild_row:
  assumes "OpenBuild env args b db = (None, db')"
  shows "gm_get (db_builds db') b \<noteq> None" "set (gm_keys (db_builds db)) \<subseteq> set (gm_keys (db_builds db'))"
    "db_jobs db' = db_jobs db" "db_outputs db' = db_outputs db" "db_deps db' = db_deps db" "db_locks db' = db_locks db"
    "b' \<noteq> b \<Longrightarrow> gm_get (db_builds db') b' = gm_get (db_builds db) b'"
  using assms by (auto simp: OpenBuild_def Let_def exec_def split: option.splits if_splits)

text \<open>What a build that does not wait consists of.\<close>

lemma resolved_planned:
  assumes "ResolveBuild lib now newID args repo client locks s = Some (Inr rb, s')" "rb_QueuedReason rb = None"
    and "distinct (map op_TransactionRID (rb_OpenedTransactions rb))"
  shows "planned lib rb" "op_DatasetRID ` set (rb_OpenedTransactions rb) = outputSet (rb_JobSpecs rb)"
    "\<And>spec. spec \<in> set (rb_JobSpecs rb) \<Longrightarrow> \<exists>d \<in> set (ra_OutputDatasetRIDs args).
       repo (ra_PipelineRID args) d (ra_BuildBranch args) (ra_JobSpecFallback args) s = Inr (Some spec)"
proof -
  obtain specs views where load: "LoadJobSpecs (ra_PipelineRID args) (ra_BuildBranch args) (ra_JobSpecFallback args)
      (ra_OutputDatasetRIDs args) repo s = Inr specs"
    and acyc: "DetectCycles specs = Some (Inr ())"
    and locked: "resolve_locked lib now newID args specs views client locks s = (Inr rb, s')"
    using assms(1) by (rule ResolveBuild_Inr)
  note specs = LoadJobSpecs_facts [OF load] and rb = resolve_locked_Inr [OF locked]
  have dag: "acyclic (spec_depends specs)" using DetectCycles_verdict [OF specs(1)] acyc by auto
  have "acquire_loop (rb_BuildID rb) (ra_BuildBranch args) client locks
      (concat (map js_OutputDatasetRIDs specs)) [] [] s = (Inr (rb_OpenedTransactions rb), s')"
    using rb(5) [OF assms(2)] by (simp add: AcquireLocks_def)
  from acquire_loop_opened [OF this] have opened: "distinct (map op_DatasetRID (rb_OpenedTransactions rb))"
    "op_DatasetRID ` set (rb_OpenedTransactions rb) = outputSet specs" by (auto simp: outputSet_def)
  show "planned lib rb" using rb(1) rb(5) [OF assms(2)] specs(1) dag opened(1) assms(3) by (simp add: planned_def)
  show "op_DatasetRID ` set (rb_OpenedTransactions rb) = outputSet (rb_JobSpecs rb)" using opened(2) rb(1) by simp
  show "\<And>spec. spec \<in> set (rb_JobSpecs rb) \<Longrightarrow> \<exists>d \<in> set (ra_OutputDatasetRIDs args).
       repo (ra_PipelineRID args) d (ra_BuildBranch args) (ra_JobSpecFallback args) s = Inr (Some spec)"
    using specs(4) rb(1) by blast
qed

text \<open>Each opened transaction has a row at one of the jobs.\<close>

lemma opened_row:
  assumes p: "planned lib rb" and outs: "op_DatasetRID ` set (rb_OpenedTransactions rb) = outputSet (rb_JobSpecs rb)"
    and written: "\<And>job. job \<in> set (rb_Jobs rb) \<Longrightarrow> rows_written (rb_OpenedTransactions rb) job db"
    and t: "t \<in> set (rb_OpenedTransactions rb)"
  shows "\<exists>job \<in> set (rb_Jobs rb). \<exists>row. gm_get (db_outputs db) (rj_ID job, op_DatasetRID t) = Some row \<and> ow_TransactionRID row = op_TransactionRID t"
proof -
  obtain s where s: "s \<in> set (rb_JobSpecs rb)" "op_DatasetRID t \<in> set (js_OutputDatasetRIDs s)"
    using outs t by (auto simp: outputSet_def)
  have "js_RID s \<in> set (map rj_JobSpecRID (rb_Jobs rb))" using s(1) by (simp add: planned_rids [OF p])
  then obtain job where job: "job \<in> set (rb_Jobs rb)" "rj_JobSpecRID job = js_RID s" by auto
  obtain s' :: JobSpec where s': "s' \<in> set (rb_JobSpecs rb)" "rj_JobSpecRID job = js_RID s'"
    "rj_OutputTransactionRIDs job = List.map_filter (gm_get (opened_map (rb_OpenedTransactions rb))) (js_OutputDatasetRIDs s')"
    using planned_job [OF p job(1)] by blast
  have "distinct (map js_RID (rb_JobSpecs rb))" using p by (simp add: planned_def)
  then have "s' = s" using s(1) s'(1,2) job(2) by (simp add: distinct_map inj_on_def)
  have "gm_get (opened_map (rb_OpenedTransactions rb)) (op_DatasetRID t) = Some (op_TransactionRID t)"
    unfolding opened_map_def using p t by (intro foldl_put_value) (simp_all add: planned_def)
  then have mem: "op_TransactionRID t \<in> set (rj_OutputTransactionRIDs job)"
    using s(2) by (auto simp: s'(3) \<open>s' = s\<close> map_filter_set)
  obtain o' where o': "o' \<in> set (rb_OpenedTransactions rb)" "op_TransactionRID o' = op_TransactionRID t"
    "datasetForTransaction (rb_OpenedTransactions rb) (op_TransactionRID t) = op_DatasetRID o'"
    using planned_output [OF p job(1) mem] by blast
  have "distinct (map op_TransactionRID (rb_OpenedTransactions rb))" using p by (simp add: planned_def)
  then have "o' = t" using o'(1,2) t by (simp add: distinct_map inj_on_def)
  then have d: "datasetForTransaction (rb_OpenedTransactions rb) (op_TransactionRID t) = op_DatasetRID t" using o'(3) by simp
  have "gm_get (db_outputs db) (rj_ID job, op_DatasetRID t) \<noteq> None"
    using written [OF job(1)] mem d unfolding rows_written_def by (metis imageI)
  then obtain row where row: "gm_get (db_outputs db) (rj_ID job, op_DatasetRID t) = Some row" by blast
  then have "ow_TransactionRID row \<in> set (rj_OutputTransactionRIDs job)"
    "datasetForTransaction (rb_OpenedTransactions rb) (ow_TransactionRID row) = op_DatasetRID t"
    using written [OF job(1)] by (auto simp: rows_written_def open_output_def)
  then have "ow_TransactionRID row = op_TransactionRID t" using dataset_inj [OF p job(1) _ mem] d by simp
  with job(1) row show ?thesis by blast
qed

text \<open>
  Whatever the other rows of its transaction do, an output of the build ends committed or aborted, unless it is an
  Iceberg output, whose row no call reaches.
\<close>

definition output_settled :: "string \<Rightarrow> output_row \<Rightarrow> output_row \<Rightarrow> bool" where
  "output_settled d row row' \<longleftrightarrow> (if Handles d then row' = row
     else ow_TransactionRID row' = ow_TransactionRID row \<and> (ow_Committed row' \<or> ow_Aborted row'))"

lemma ExecutePipeline_output_ends:
  assumes run: "ExecutePipeline env dg par fuel envs steps b db = Some (Executed out, db')" and calm: "calm steps"
    and ok: "gm_ok (db_jobs db)" "gm_ok (db_outputs db)"
    and job: "job_build db j = Some b" and row: "gm_get (db_outputs db) (j, d) = Some row"
  shows "\<exists>row'. gm_get (db_outputs db') (j, d) = Some row' \<and> output_settled d row row'"
proof -
  obtain segs where segs: "job_segments db b out segs"
    and db': "db' = apply_effects steps 0 (concat (map (snd \<circ> snd) segs) @ [terminal_event b (oc_FinalState out)]) db"
    using run ok(1) by (rule ExecutePipeline_segments)
  let ?o = "output_of d row" and ?tr = "concat (map (snd \<circ> snd) segs) @ [terminal_event b (oc_FinalState out)]"
  obtain r where r: "gm_get (db_jobs db) j = Some r" "bj_BuildID r = b" using job by (auto simp: job_build_def)
  obtain st seg n where s: "(bj_JobSpecRID r, st, seg) \<in> set segs" "node_seg b n st seg" "nd_Outputs n = output_rows db j"
    using segs r unfolding job_segments_def by blast
  have "?o \<in> set (nd_Outputs n)" using s(3) row output_rows_iff [OF ok(2), of ?o j] by auto
  from seg_outputs [OF s(2) this] have "Committed ?o \<in> set seg \<or> AbortCalled ?o \<in> set seg"
    by (simp split: if_splits)
  moreover have "e \<in> set ?tr" if "e \<in> set seg" for e
    using iffD2 [OF concat_segs [of e segs]] s(1) that by (metis Un_iff set_append)
  ultimately have calls: "Committed ?o \<in> set ?tr \<or> AbortCalled ?o \<in> set ?tr" by blast
  obtain row' where row': "gm_get (db_outputs db') (j, d) = Some row'" "output_of d row' = ?o" "Handles d \<longrightarrow> row' = row"
    "\<not> Handles d \<longrightarrow> (ow_Aborted row' \<longleftrightarrow> ow_Aborted row \<or> AbortCalled ?o \<in> set ?tr)"
    "\<not> Handles d \<longrightarrow> ow_Committed row \<or> Committed ?o \<in> set ?tr \<longrightarrow> ow_Committed row'"
    using apply_effects_output [OF calm row, of 0 ?tr] unfolding db' by blast
  have "ow_TransactionRID row' = ow_TransactionRID row" using row'(2) by (simp add: output_of_def)
  then have "output_settled d row row'" using row'(3-5) calls unfolding output_settled_def by presburger
  with row'(1) show ?thesis by blast
qed

text \<open>An accepted build that does not wait, step by step.\<close>

definition fresh_ids :: "uuid_lib \<Rightarrow> uuid \<Rightarrow> string set \<Rightarrow> build_db \<Rightarrow> bool" where
  "fresh_ids lib b R db \<longleftrightarrow> b \<noteq> 0 \<and> b \<notin> set (gm_keys (db_builds db)) \<and> inj_on (job_id lib b) R \<and>
     (\<forall>r \<in> R. job_id lib b r \<noteq> 0 \<and> job_id lib b r \<notin> set (gm_keys (db_jobs db)))"

lemma accepted_build:
  assumes "CreateBuild env dg repo b body who db = Some (Accepted i st None n opened, db')" "tables_ok db"
    and repo: "\<And>d s spec. d \<in> set (cb_OutputDatasetRIDs body) \<Longrightarrow>
      repo (cb_PipelineRID body) d (cb_BuildBranch body) (cb_JobSpecFallback body) s = Inr (Some spec) \<Longrightarrow> js_RID spec \<in> R"
    and ids: "fresh_ids (pe_uuids env) b R db" and txns: "distinct (map op_TransactionRID opened)"
  obtains rb db2 where "rb_BuildID rb = b" "rb_OpenedTransactions rb = opened" "length (rb_JobSpecs rb) = n"
    "PersistResolvedBuild env dg rb db2 = (None, db')" "tables_ok db2" "planned (pe_uuids env) rb" "new_build rb db2"
    "op_DatasetRID ` set opened = outputSet (rb_JobSpecs rb)" "js_RID ` set (rb_JobSpecs rb) \<subseteq> R"
    "\<And>job. job \<in> set (rb_Jobs rb) \<Longrightarrow> rj_ID job \<noteq> 0" "db_jobs db2 = db_jobs db" "locks_gained b db db'"
    "db_outputs db2 = db_outputs db" "\<And>b'. b' \<noteq> b \<Longrightarrow> gm_get (db_builds db2) b' = gm_get (db_builds db) b'"
proof -
  obtain args0 where args0: "createBuildArgs body who = Inr args0"
    using assms(1) by (auto simp: CreateBuild_def split: sum.splits)
  define args where "args = args0\<lparr>ra_BuildID := Some b\<rparr>"
  have fields: "ra_PipelineRID args = cb_PipelineRID body" "ra_BuildBranch args = cb_BuildBranch body"
    "ra_JobSpecFallback args = cb_JobSpecFallback body" "ra_OutputDatasetRIDs args = cb_OutputDatasetRIDs body" "ra_BuildID args = Some b"
    using args0 by (auto simp: args_def createBuildArgs_def split: option.splits)
  obtain db1 rb db2 where open': "OpenBuild env args b db = (None, db1)"
    and res: "ResolveBuild (pe_uuids env) (pe_now env) b args repo (pg_versioning env) (Some (pg_locks env)) db1 = Some (Inr rb, db2)"
    and per: "PersistResolvedBuild env dg rb db2 = (None, db')"
    and rb: "rb_QueuedReason rb = None" "length (rb_JobSpecs rb) = n" "rb_OpenedTransactions rb = opened"
    using assms(1) args0 by (auto simp: CreateBuild_def Let_def args_def split: prod.splits option.splits sum.splits)
  note O = OpenBuild_row [OF open'] and L = ResolveBuild_only_locks [OF res] and G = ResolveBuild_gained [OF res fields(5)]
  have id: "rb_BuildID rb = b" using G(2) [OF refl] by simp
  have txns': "distinct (map op_TransactionRID (rb_OpenedTransactions rb))" using txns rb(3) by simp
  note R = resolved_planned [OF res rb(1) txns']
  have rids: "js_RID ` set (rb_JobSpecs rb) \<subseteq> R" using R(3) repo unfolding fields by blast
  have bkey: "b \<in> set (gm_keys (db_builds db2))" using O(1) L by (simp add: only_locks_def gm_get_None_iff)
  have keys: "set (gm_keys (db_builds db)) \<subseteq> set (gm_keys (db_builds db2))" using O(2) L by (simp add: only_locks_def)
  have rows: "db_jobs db2 = db_jobs db" "db_outputs db2 = db_outputs db" "db_deps db2 = db_deps db" "gm_ok (db_locks db2)"
    using O L assms(2) by (simp_all add: only_locks_def tables_ok_def)
  have gained: "locks_gained b db db2" using G(1) unfolding locks_gained_def lock_holder_cong [OF O(6)] .
  then have "i \<in> set (gm_keys (db_builds db2))" if "lock_holder db2 d = Some i" for d i
    using that bkey keys tables_ok_locks [OF assms(2)] unfolding locks_gained_def by (metis option.inject subsetD)
  then have tables: "tables_ok db2" by (rule tables_ok_grow [OF assms(2) keys rows])
  have dist: "distinct (map js_RID (rb_JobSpecs rb))" using R(1) by (simp add: planned_def)
  have job: "rj_ID job = job_id (pe_uuids env) b (rj_JobSpecRID job) \<and> rj_JobSpecRID job \<in> R" if "job \<in> set (rb_Jobs rb)" for job
    using planned_job [OF R(1) that] rids id by auto
  have "distinct (map rj_JobSpecRID (rb_Jobs rb))" using dist planned_rids [OF R(1)] by simp
  moreover have "inj_on (job_id (pe_uuids env) b) R" using ids by (simp add: fresh_ids_def)
  ultimately have dj: "distinct (map rj_ID (rb_Jobs rb))" using job by (auto simp: distinct_map inj_on_def)
  have "bj_BuildID row \<noteq> b" if "gm_get (db_jobs db) j = Some row" for j row
    using that ids assms(2) gm_get_in_set [of "db_jobs db" j row] by (auto simp: tables_ok_def fresh_ids_def)
  then have "job_build db2 j \<noteq> Some b" for j by (auto simp: job_build_def rows(1))
  then have new: "new_build rb db2" using dj job ids bkey by (auto simp: new_build_def id rows(1) fresh_ids_def gm_get_None_iff)
  have gained': "locks_gained b db db'"
    using gained unfolding locks_gained_def lock_holder_cong [OF PersistResolvedBuild_locks [OF per]] .
  have nz: "rj_ID job \<noteq> 0" if "job \<in> set (rb_Jobs rb)" for job using job [OF that] ids by (simp add: fresh_ids_def)
  have others: "gm_get (db_builds db2) b' = gm_get (db_builds db) b'" if "b' \<noteq> b" for b'
    using O(7) [OF that] L by (simp add: only_locks_def)
  show thesis
    using that [OF id rb(3,2) per tables R(1) new _ rids nz rows(1) gained' rows(2) others] R(2) rb(3) by simp
qed


lemma ExecutePipeline_job_build:
  assumes "ExecutePipeline env dg par fuel envs steps b db = Some (Executed out, db')" "calm steps" "gm_ok (db_jobs db)"
  shows "job_build db' = job_build db" "oc_FinalState out \<in> {BuildCompleted, BuildFailed, BuildAborted}"
proof -
  obtain segs :: "segment list" where "oc_FinalState out \<in> {BuildCompleted, BuildFailed, BuildAborted}"
    "db' = apply_effects steps 0 (concat (map (snd \<circ> snd) segs) @ [terminal_event b (oc_FinalState out)]) db"
    using assms(1,3) by (rule ExecutePipeline_segments) blast
  then show "job_build db' = job_build db" "oc_FinalState out \<in> {BuildCompleted, BuildFailed, BuildAborted}"
    using apply_effects_job_build [OF assms(2)] by auto
qed


text \<open>The outputs of a persisted build are of the transactions opened for it.\<close>

lemma persisted_outputs:
  assumes "PersistResolvedBuild env dg rb db = (None, db')" "tables_ok db" "planned lib rb" "new_build rb db"
    and "build_output db' (rb_BuildID rb) d txn"
  shows "txn \<in> op_TransactionRID ` set (rb_OpenedTransactions rb)"
proof -
  note P = persisted_jobs [OF assms(1-4)]
  obtain j row where j: "job_build db' j = Some (rb_BuildID rb)" "gm_get (db_outputs db') (j, d) = Some row" "ow_TransactionRID row = txn"
    using assms(5) by (auto simp: build_output_def)
  obtain job where job: "job \<in> set (rb_Jobs rb)" "j = rj_ID job" using P(4) [OF j(1)] by blast
  then have "txn \<in> set (rj_OutputTransactionRIDs job)" using P(6) [OF job(1)] j(2,3) by (auto simp: rows_written_def open_output_def)
  from planned_output [OF assms(3) job(1) this] show ?thesis by blast
qed

text \<open>How a transaction opened for the build ends: an Iceberg output stays open.\<close>

definition opened_ends :: "uuid \<Rightarrow> build_db \<Rightarrow> OpenedTransaction \<Rightarrow> bool" where
  "opened_ends b db t \<longleftrightarrow> (\<exists>j row. job_build db j = Some b \<and> gm_get (db_outputs db) (j, op_DatasetRID t) = Some row \<and>
     ow_TransactionRID row = op_TransactionRID t \<and>
     (if Handles (op_DatasetRID t) then \<not> ow_Committed row \<and> \<not> ow_Aborted row else ow_Committed row \<or> ow_Aborted row))"

text \<open>The run of a persisted build.\<close>

lemma persisted_run:
  assumes B: "PersistResolvedBuild env dg rb db0 = (None, db1)" "tables_ok db0" "planned lib rb" "new_build rb db0"
    and outs: "op_DatasetRID ` set (rb_OpenedTransactions rb) = outputSet (rb_JobSpecs rb)"
    and named: "\<And>s. s \<in> set (rb_JobSpecs rb) \<Longrightarrow> js_RID s \<noteq> []"
    and ids: "\<And>job. job \<in> set (rb_Jobs rb) \<Longrightarrow> rj_ID job \<noteq> 0" "rb_BuildID rb \<noteq> 0"
    and run: "no_fault env'" "ctx_sticky envs" "calm steps"
  defines "b \<equiv> rb_BuildID rb"
  obtains out db2 where "ExecutePipeline env' dg' par (2 * length (rb_JobSpecs rb) + 2) envs steps b db1 = Some (Executed out, db2)"
    "oc_FinalState out \<in> {BuildCompleted, BuildFailed, BuildAborted}" "build_state db2 b = Some (build_state_string (oc_FinalState out))"
    "\<And>j. job_build db2 j = Some b \<Longrightarrow> \<exists>st. terminal st \<and> job_state db2 j = Some (node_state_string st)"
    "\<And>t. t \<in> set (rb_OpenedTransactions rb) \<Longrightarrow> opened_ends b db2 t"
    "\<And>d. lock_holder db2 d = (if lock_holder db1 d = Some b then None else lock_holder db1 d)"
    "\<And>j. job_build db0 j \<noteq> None \<Longrightarrow> job_state db2 j = job_state db0 j"
    "\<And>b'. b' \<noteq> b \<Longrightarrow> gm_get (db_builds db2) b' = gm_get (db_builds db0) b'"
    "\<And>j d row. gm_get (db_outputs db0) (j, d) = Some row \<Longrightarrow> ow_TransactionRID row \<notin> op_TransactionRID ` set (rb_OpenedTransactions rb) \<Longrightarrow>
       gm_get (db_outputs db2) (j, d) = Some row"
proof -
  note P = persisted_jobs [OF B, folded b_def]
  obtain plan where plan: "LoadPlan env' dg' b db1 = Inr plan" "plan_ok plan"
    "list_all2 (planned_as (rb_OpenedTransactions rb)) (rb_Jobs rb) (pl_Nodes plan)"
    using persisted_plan [OF B named run(1)] unfolding b_def by blast
  have "length (pl_Nodes plan) = length (rb_JobSpecs rb)"
    using list_all2_lengthD [OF plan(3)] planned_rids [OF B(3)] by (metis length_map)
  then obtain out db2 where run': "ExecutePipeline env' dg' par (2 * length (rb_JobSpecs rb) + 2) envs steps b db1 = Some (Executed out, db2)"
    using ExecutePipeline_returns [OF plan(1,2) run(2)] by metis
  have waiting: "j \<noteq> 0 \<and> job_state db1 j = Some ''WAITING''" if "job_build db1 j = Some b" for j
    using P(4) [OF that] P(5) ids(1) by auto
  note E = ExecutePipeline_rows [OF run' run(3) P(1,3) ids(2) [folded b_def] waiting]
  note same = ExecutePipeline_job_build [OF run' run(3) P(1)]
  have ends: "\<exists>st. terminal st \<and> job_state db2 j = Some (node_state_string st)" if "job_build db2 j = Some b" for j
  proof -
    have j: "job_build db1 j = Some b" using that same(1) by simp
    then obtain r where "job_spec db1 j = Some r" using P(4,5) by blast
    with E j show ?thesis by blast
  qed
  have outputs: "opened_ends b db2 t" if t: "t \<in> set (rb_OpenedTransactions rb)" for t
  proof -
    obtain job row where job: "job \<in> set (rb_Jobs rb)" "gm_get (db_outputs db1) (rj_ID job, op_DatasetRID t) = Some row"
      "ow_TransactionRID row = op_TransactionRID t"
      using opened_row [OF B(3) outs P(6) t] by blast
    have jb: "job_build db1 (rj_ID job) = Some b" using P(5) [OF job(1)] by simp
    have "open_output (rb_OpenedTransactions rb) (set (rj_OutputTransactionRIDs job)) (op_DatasetRID t) row"
      using P(6) [OF job(1)] job(2) by (simp add: rows_written_def)
    then have opn: "\<not> ow_Committed row" "\<not> ow_Aborted row" by (simp_all add: open_output_def)
    obtain row' where "gm_get (db_outputs db2) (rj_ID job, op_DatasetRID t) = Some row'" "output_settled (op_DatasetRID t) row row'"
      using ExecutePipeline_output_ends [OF run' run(3) P(1,2) jb job(2)] by blast
    then show ?thesis using jb job(3) opn unfolding same(1) [symmetric] by (auto simp: opened_ends_def output_settled_def split: if_splits)
  qed
  have others: "job_state db2 j = job_state db0 j" if known: "job_build db0 j \<noteq> None" for j
  proof -
    obtain row where row: "gm_get (db_jobs db0) j = Some row" using known by (auto simp: job_build_def)
    note row1 = P(7) [OF row]
    have "job_build db0 j \<noteq> Some b" using B(4) by (simp add: new_build_def b_def)
    then have "job_build db1 j \<noteq> Some b" using row row1 by (simp add: job_build_def)
    then have "job_state db2 j = job_state db1 j" using E by blast
    then show ?thesis using row row1 by (simp add: job_state_def)
  qed
  have builds: "gm_get (db_builds db2) b' = gm_get (db_builds db0) b'" if "b' \<noteq> b" for b'
    using E P(9) [of b'] that by (simp add: b_def)
  have older: "gm_get (db_outputs db2) (j, d) = Some row" if row: "gm_get (db_outputs db0) (j, d) = Some row"
    and txn: "ow_TransactionRID row \<notin> op_TransactionRID ` set (rb_OpenedTransactions rb)" for j d row
  proof (rule ExecutePipeline_other_outputs [OF run' run(3) P(1,2) P(8) [OF row]])
    show "\<not> build_output db1 b d (ow_TransactionRID row)" using persisted_outputs [OF B] txn unfolding b_def by blast
  qed
  show thesis by (rule that [OF run' same(2) _ ends outputs _ others builds older]) (use E in simp_all)
qed

section \<open>Properties\<close>

text \<open>
  C3. A resolved build that was persisted is read back as the plan of its jobs: one node per job in their order,
  with the job's id, dependencies and output transactions; the executor accepts the plan, and a forced build
  skips no node.
\<close>

theorem PersistResolvedBuild_LoadPlan:
  assumes "PersistResolvedBuild env dg rb db = (None, db')" "tables_ok db" "planned lib rb" "new_build rb db"
    and "\<And>s. s \<in> set (rb_JobSpecs rb) \<Longrightarrow> js_RID s \<noteq> []" "no_fault env'"
  shows "\<exists>plan. LoadPlan env' dg' (rb_BuildID rb) db' = Inr plan \<and> plan_ok plan \<and> pl_BuildID plan = rb_BuildID rb \<and>
    list_all2 (planned_as (rb_OpenedTransactions rb)) (rb_Jobs rb) (pl_Nodes plan) \<and>
    (rb_ForceBuild rb \<longrightarrow> (\<forall>n \<in> set (pl_Nodes plan). \<not> nd_StaleSkipped n))"
  by (rule persisted_plan [OF assms])

text \<open>
  C2. From request to end. Suppose \<open>CreateBuild\<close> accepts a build that does not wait, on tables with unique keys and
  no dangling reference; the ids from the UUID library are new, the job specs the repository finds are
  named, and the transactions it opened have different RIDs. Then \<open>ExecutePipeline\<close>, without faults of the database
  while it runs, ends, for any runner, order of results and moment of cancellation. The build and all of its jobs
  are in a final state; each output it opened has a row at one of its jobs that is committed or aborted, but an Iceberg
  output, which no call reaches, is still open. The locks are those from before the request, and so are the rows of all
  other builds, the states of the jobs that were there, and the output rows that were there and are of other
  transactions.
\<close>

theorem created_build_runs:
  assumes "CreateBuild env dg repo b body who db = Some (Accepted i st None n opened, db1)" "tables_ok db"
    and "\<forall>d \<in> set (cb_OutputDatasetRIDs body). \<forall>s spec.
      repo (cb_PipelineRID body) d (cb_BuildBranch body) (cb_JobSpecFallback body) s = Inr (Some spec) \<longrightarrow> js_RID spec \<in> R"
    and "fresh_ids (pe_uuids env) b R db" "[] \<notin> R" "distinct (map op_TransactionRID opened)"
    and "no_fault env'" "ctx_sticky envs" "calm steps"
  shows "\<exists>out db2. ExecutePipeline env' dg' par (2 * n + 2) envs steps b db1 = Some (Executed out, db2) \<and>
    oc_FinalState out \<in> {BuildCompleted, BuildFailed, BuildAborted} \<and> build_state db2 b = Some (build_state_string (oc_FinalState out)) \<and>
    (\<forall>j. job_build db2 j = Some b \<longrightarrow> (\<exists>st. terminal st \<and> job_state db2 j = Some (node_state_string st))) \<and>
    (\<forall>t \<in> set opened. opened_ends b db2 t) \<and>
    (\<forall>d. lock_holder db2 d = lock_holder db d) \<and>
    (\<forall>b'. b' \<noteq> b \<longrightarrow> gm_get (db_builds db2) b' = gm_get (db_builds db) b') \<and>
    (\<forall>j. job_build db j \<noteq> None \<longrightarrow> job_state db2 j = job_state db j) \<and>
    (\<forall>j d row. gm_get (db_outputs db) (j, d) = Some row \<longrightarrow> ow_TransactionRID row \<notin> op_TransactionRID ` set opened \<longrightarrow>
       gm_get (db_outputs db2) (j, d) = Some row)"
proof -
  have rids: "js_RID spec \<in> R" if "d \<in> set (cb_OutputDatasetRIDs body)"
    "repo (cb_PipelineRID body) d (cb_BuildBranch body) (cb_JobSpecFallback body) s = Inr (Some spec)" for d s spec
    using that assms(3) by blast
  obtain rb db0 where B: "rb_BuildID rb = b" "rb_OpenedTransactions rb = opened" "length (rb_JobSpecs rb) = n"
    "PersistResolvedBuild env dg rb db0 = (None, db1)" "tables_ok db0" "planned (pe_uuids env) rb" "new_build rb db0"
    "op_DatasetRID ` set opened = outputSet (rb_JobSpecs rb)" "js_RID ` set (rb_JobSpecs rb) \<subseteq> R"
    "\<And>job. job \<in> set (rb_Jobs rb) \<Longrightarrow> rj_ID job \<noteq> 0" "db_jobs db0 = db_jobs db" "locks_gained b db db1"
    "db_outputs db0 = db_outputs db" "\<And>b'. b' \<noteq> b \<Longrightarrow> gm_get (db_builds db0) b' = gm_get (db_builds db) b'"
    by (rule accepted_build [OF assms(1,2) rids assms(4,6)]) blast+
  have named: "js_RID s \<noteq> []" if "s \<in> set (rb_JobSpecs rb)" for s using that B(9) assms(5) by auto
  have b: "rb_BuildID rb \<noteq> 0" using assms(4) by (simp add: fresh_ids_def B(1))
  obtain out db2 where R: "ExecutePipeline env' dg' par (2 * n + 2) envs steps b db1 = Some (Executed out, db2)"
    "oc_FinalState out \<in> {BuildCompleted, BuildFailed, BuildAborted}" "build_state db2 b = Some (build_state_string (oc_FinalState out))"
    "\<And>j. job_build db2 j = Some b \<Longrightarrow> \<exists>st. terminal st \<and> job_state db2 j = Some (node_state_string st)"
    "\<And>t. t \<in> set opened \<Longrightarrow> opened_ends b db2 t"
    "\<And>d. lock_holder db2 d = (if lock_holder db1 d = Some b then None else lock_holder db1 d)"
    "\<And>j. job_build db0 j \<noteq> None \<Longrightarrow> job_state db2 j = job_state db0 j"
    "\<And>b'. b' \<noteq> b \<Longrightarrow> gm_get (db_builds db2) b' = gm_get (db_builds db0) b'"
    "\<And>j d row. gm_get (db_outputs db0) (j, d) = Some row \<Longrightarrow> ow_TransactionRID row \<notin> op_TransactionRID ` set opened \<Longrightarrow>
       gm_get (db_outputs db2) (j, d) = Some row"
    by (rule persisted_run [OF B(4-7) _ named B(10) b assms(7-9), unfolded B(1-3)]) (use B(8) in blast)+
  have locks: "lock_holder db2 d = lock_holder db d" for d
    using R(6) restored_locks [OF assms(2) B(12)] assms(4) by (simp add: fresh_ids_def)
  have "job_build db0 = job_build db" "job_state db0 = job_state db" using B(11) by (simp_all add: job_build_def job_state_def fun_eq_iff)
  then show ?thesis using R locks B(13,14) by (intro exI [of _ out] exI [of _ db2]) simp
qed

section \<open>Examples\<close>

text \<open>Two jobs, y from x, while another build holds the lock of z.\<close>

definition env_1 :: pg_env where
  "env_1 = env_0\<lparr>pe_newID := (\<lambda>d. if d = ''x'' then 3 else 4),
     pe_uuids := \<lparr>ul_NewSHA1 = (\<lambda>u s. if last s = CHR ''1'' then 40 else 41), ul_Parse = (\<lambda>s. None),
       ul_String = (\<lambda>u. if u = 5 then ''b5'' else if u = 3 then ''t3'' else ''t4'')\<rparr>\<rparr>"

definition repo_1 :: "build_db JobSpecRepository" where
  "repo_1 = (\<lambda>pipeline output' branch chain s.
     Inr (if output' = ''x'' then Some (spec_of ''s1'' [] [''x'']) else if output' = ''y'' then Some (spec_of ''s2'' [''x''] [''y'']) else None))"

definition db_5 :: build_db where
  "db_5 = db_0\<lparr>db_outputs := [((30, ''z''), \<lparr>ow_TransactionRID = ''t'', ow_Committed = False, ow_Aborted = False\<rparr>)],
     db_locks := [(''z'', 9, ''t'')]\<rparr>"

definition opened_1 :: "OpenedTransaction list" where
  "opened_1 = [\<lparr>op_DatasetRID = ''x'', op_TransactionRID = ''ri.foundry.main.transaction.t3''\<rparr>,
     \<lparr>op_DatasetRID = ''y'', op_TransactionRID = ''ri.foundry.main.transaction.t4''\<rparr>]"

lemma create_1: "map_option fst (CreateBuild env_1 dg_0 repo_1 5 (request_for [''x'', ''y'']) [] db_5) =
    Some (Accepted 5 BuildResolution None 2 opened_1)"
  by code_simp

lemma db_5_ok: "tables_ok db_5"
  by code_simp

lemma new_ids_1: "fresh_ids (pe_uuids env_1) 5 {''s1'', ''s2''} db_5"
  by code_simp

lemma plain_x: "\<not> Handles ''x''"
  by code_simp

lemma env_0_clear: "no_fault env_0"
  by (simp add: no_fault_def env_0_def)

theorem created_build_runs_witness:
  "\<exists>db1 out db2 j row. CreateBuild env_1 dg_0 repo_1 5 (request_for [''x'', ''y'']) [] db_5 = Some (Accepted 5 BuildResolution None 2 opened_1, db1) \<and>
     ExecutePipeline env_0 dg_0 4 6 (env_3 [''s1'']) steps_0 5 db1 = Some (Executed out, db2) \<and>
     job_build db2 j = Some 5 \<and> gm_get (db_outputs db2) (j, ''x'') = Some row \<and> (ow_Committed row \<or> ow_Aborted row) \<and>
     lock_holder db2 ''z'' = Some 9"
proof -
  obtain db1 where c: "CreateBuild env_1 dg_0 repo_1 5 (request_for [''x'', ''y'']) [] db_5 = Some (Accepted 5 BuildResolution None 2 opened_1, db1)"
    using create_1 by auto
  let ?q = "request_for [''x'', ''y'']"
  have r: "\<forall>d \<in> set (cb_OutputDatasetRIDs ?q). \<forall>s spec.
      repo_1 (cb_PipelineRID ?q) d (cb_BuildBranch ?q) (cb_JobSpecFallback ?q) s = Inr (Some spec) \<longrightarrow> js_RID spec \<in> {''s1'', ''s2''}"
    by (auto simp: repo_1_def spec_of_def split: if_splits)
  have "distinct (map op_TransactionRID opened_1)" by code_simp
  then obtain out db2 where run: "ExecutePipeline env_0 dg_0 4 (2 * 2 + 2) (env_3 [''s1'']) steps_0 5 db1 = Some (Executed out, db2)"
    and outs: "\<forall>t \<in> set opened_1. opened_ends 5 db2 t"
    and locks: "\<forall>d. lock_holder db2 d = lock_holder db_5 d"
    using created_build_runs [OF c db_5_ok r new_ids_1 _ _ env_0_clear env_3_sticky [of "[''s1'']"] steps_0_calm, where dg' = dg_0 and par = 4] by auto
  have "lock_holder db2 ''z'' = Some 9" using locks by (simp add: db_5_def lock_holder_def gm_get_def)
  moreover obtain j row where "job_build db2 j = Some 5" "gm_get (db_outputs db2) (j, ''x'') = Some row" "ow_Committed row \<or> ow_Aborted row"
    using outs plain_x by (auto simp: opened_1_def opened_ends_def)
  ultimately show ?thesis using c run by fastforce
qed

definition rb_1 :: ResolvedBuild where
  "rb_1 = \<lparr>rb_BuildID = 9, rb_State = BuildResolution, rb_ForceBuild = True,
     rb_JobSpecs = [spec_of ''s1'' [] [''x''], spec_of ''s2'' [''x''] [''y'']], rb_InputViews = [], rb_OpenedTransactions = opened_1,
     rb_Jobs = fst (BuildFanOutPlan (pe_uuids env_1) 9 [spec_of ''s1'' [] [''x''], spec_of ''s2'' [''x''] [''y'']] opened_1),
     rb_FanOutStages = [[''s1''], [''s2'']], rb_QueuedReason = None, rb_ResolvedAt = 7\<rparr>"

definition db_6 :: build_db where
  "db_6 = db_5\<lparr>db_jobs := [], db_outputs := []\<rparr>"

lemma rb_1_planned: "planned (pe_uuids env_1) rb_1"
proof -
  have "DetectCycles (rb_JobSpecs rb_1) = Some (Inr ())" "distinct (map js_RID (rb_JobSpecs rb_1))"
    "distinct (map op_DatasetRID (rb_OpenedTransactions rb_1)) \<and> distinct (map op_TransactionRID (rb_OpenedTransactions rb_1))" by code_simp+
  then show ?thesis using DetectCycles_verdict [of "rb_JobSpecs rb_1"] by (auto simp: planned_def rb_1_def)
qed

lemma persist_1: "fst (PersistResolvedBuild env_1 dg_0 rb_1 db_6) = None"
  by code_simp

lemma db_6_ok: "tables_ok db_6" "gm_get (db_builds db_6) 9 \<noteq> None" "distinct (map rj_ID (rb_Jobs rb_1))"
  by code_simp+

theorem PersistResolvedBuild_LoadPlan_witness:
  "\<exists>db' plan. PersistResolvedBuild env_1 dg_0 rb_1 db_6 = (None, db') \<and> LoadPlan env_0 dg_0 9 db' = Inr plan \<and>
     map nd_ID (pl_Nodes plan) = [''s1'', ''s2''] \<and> (\<forall>n \<in> set (pl_Nodes plan). \<not> nd_StaleSkipped n)"
proof -
  obtain db' where p: "PersistResolvedBuild env_1 dg_0 rb_1 db_6 = (None, db')"
    using persist_1 by (cases "PersistResolvedBuild env_1 dg_0 rb_1 db_6") auto
  have "new_build rb_1 db_6" using db_6_ok(2,3) by (simp add: new_build_def job_build_def db_6_def rb_1_def)
  moreover have "js_RID s \<noteq> []" if "s \<in> set (rb_JobSpecs rb_1)" for s using that by (auto simp: rb_1_def spec_of_def)
  ultimately obtain plan where plan: "LoadPlan env_0 dg_0 (rb_BuildID rb_1) db' = Inr plan"
    "list_all2 (planned_as (rb_OpenedTransactions rb_1)) (rb_Jobs rb_1) (pl_Nodes plan)"
    "rb_ForceBuild rb_1 \<longrightarrow> (\<forall>n \<in> set (pl_Nodes plan). \<not> nd_StaleSkipped n)"
    using PersistResolvedBuild_LoadPlan [OF p db_6_ok(1) rb_1_planned _ _ env_0_clear, where dg' = dg_0] by blast
  have "map nd_ID (pl_Nodes plan) = map rj_JobSpecRID (rb_Jobs rb_1)"
    using plan(2) by (auto simp: list_all2_conv_all_nth planned_as_def intro!: nth_equalityI)
  also have "\<dots> = [''s1'', ''s2'']" by code_simp
  finally show ?thesis using p plan by (auto simp: rb_1_def)
qed

section \<open>Where the code falls short\<close>

text \<open>
  Two specs may list the same output; the build opens one transaction for it and both jobs own it. When
  one job fails and the other completes, the rows of that output are both committed and aborted.
\<close>

definition new_row :: "string \<Rightarrow> string list \<Rightarrow> string list \<Rightarrow> build_job_row" where
  "new_row rid outs txns = job_0\<lparr>bj_BuildID := 5, bj_JobSpecRID := rid, bj_OutputDatasetRIDs := outs, bj_State := ''WAITING'',
     bj_OutputTransactionRIDs := txns, bj_StateChangedAt := 7\<rparr>"

definition tx_x :: string where "tx_x = ''ri.foundry.main.transaction.t3''"

definition tx_y :: string where "tx_y = ''ri.foundry.main.transaction.t4''"

definition open_row :: "string \<Rightarrow> output_row" where
  "open_row tx = \<lparr>ow_TransactionRID = tx, ow_Committed = False, ow_Aborted = False\<rparr>"

definition db_8 :: build_db where
  "db_8 = db_5\<lparr>
     db_builds := db_builds db_5 @ [(5, row_0\<lparr>br_TargetDatasetRIDs := [''x'', ''y''], br_State := ''BUILD_RESOLUTION''\<rparr>)],
     db_jobs := db_jobs db_5 @ [(40, new_row ''s1'' [''x''] [tx_x]), (41, new_row ''s2'' [''x'', ''y''] [tx_x, tx_y])],
     db_outputs := db_outputs db_5 @ [((40, ''x''), open_row tx_x), ((41, ''x''), open_row tx_x), ((41, ''y''), open_row tx_y)],
     db_locks := db_locks db_5 @ [(''x'', 5, tx_x), (''y'', 5, tx_y)],
     db_transactions := [(tx_x, ''x'', ''master''), (tx_y, ''y'', ''master'')]\<rparr>"

lemma create_shared:
  "CreateBuild env_1 dg_0 repo_0 5 (request_for [''x'', ''y'']) [] db_5 = Some (Accepted 5 BuildResolution None 2 opened_1, db_8)"
  by code_simp

lemma run_shared:
  "map_option (\<lambda>(r, db2). map (\<lambda>(k, row). (k, ow_Committed row, ow_Aborted row)) (drop 1 (db_outputs db2)))
     (ExecutePipeline env_0 dg_0 4 6 (env_3 [''s1'']) steps_0 5 db_8) =
   Some [((40, ''x''), True, True), ((41, ''x''), True, True), ((41, ''y''), True, False)]"
  by code_simp

theorem shared_output_both_ends:
  "\<exists>db1. CreateBuild env_1 dg_0 repo_0 5 (request_for [''x'', ''y'']) [] db_5 = Some (Accepted 5 BuildResolution None 2 opened_1, db1) \<and>
     map_option (\<lambda>(r, db2). map (\<lambda>(k, row). (k, ow_Committed row, ow_Aborted row)) (drop 1 (db_outputs db2)))
       (ExecutePipeline env_0 dg_0 4 6 (env_3 [''s1'']) steps_0 5 db1) =
     Some [((40, ''x''), True, True), ((41, ''x''), True, True), ((41, ''y''), True, False)]"
  using create_shared run_shared by blast

text \<open>
  A build that waits for an upstream build is persisted without jobs, and nothing resolves it again. Its
  plan is empty, and running it completes the build although no output was built.
\<close>

definition db_7 :: build_db where
  "db_7 = db_5\<lparr>db_branches := db_branches db_5 @ [\<lparr>bw_DatasetRID = ''z'', bw_Name = ''master'', bw_Head = None, bw_Schema = []\<rparr>]\<rparr>"

definition repo_2 :: "build_db JobSpecRepository" where
  "repo_2 = (\<lambda>pipeline output' branch chain s. Inr (Some (spec_of ''s1'' [''z''] [''x''])))"

definition db_9 :: build_db where
  "db_9 = db_7\<lparr>db_builds := db_builds db_7 @ [(5, row_0\<lparr>br_TargetDatasetRIDs := [''x''], br_State := ''BUILD_QUEUED'', br_QueuedAt := Some 7\<rparr>)]\<rparr>"

lemma create_queued:
  "CreateBuild env_1 dg_0 repo_2 5 (request_for [''x'']) [] db_7 =
     Some (Accepted 5 BuildQueued (Some ''upstream build in progress'') 1 [], db_9)"
  by code_simp

lemma run_queued:
  "map_option (\<lambda>(r, db2). (build_state db2 5, filter (\<lambda>(j, job). bj_BuildID job = 5) (db_jobs db2)))
     (ExecutePipeline env_0 dg_0 4 2 (env_3 []) steps_0 5 db_9) = Some (Some ''BUILD_COMPLETED'', [])"
  by code_simp

theorem queued_build_completes_empty:
  "\<exists>db1. CreateBuild env_1 dg_0 repo_2 5 (request_for [''x'']) [] db_7 =
       Some (Accepted 5 BuildQueued (Some ''upstream build in progress'') 1 [], db1) \<and>
     map_option (\<lambda>(r, db2). (build_state db2 5, filter (\<lambda>(j, job). bj_BuildID job = 5) (db_jobs db2)))
       (ExecutePipeline env_0 dg_0 4 2 (env_3 []) steps_0 5 db1) = Some (Some ''BUILD_COMPLETED'', [])"
  using create_queued run_queued by blast

end
