(* ===== verification/Spec2Isabelle.thy ===== *)
theory Spec2Isabelle
  imports Dataset_Views Retention Pipeline_Dag Lifecycle State_Store Automation_Run Idempotency Outbox
    Effect_Dispatcher Consumer_Safety Approvals Executor_Outcome Saga_Consumer Trigger_Safety Build_Roundtrip
begin

text \<open>
  Verification of the core logic of OpenFoundry, a platform of services around versioned datasets,
  pipelines and automations. The development follows the Go code under \<open>src/libs\<close> and \<open>src/services\<close>;
  every theory names the files it models, and a definition has the name of the function it models
  (with a prefix where two components use one name).

  \<^bold>\<open>Parts and how they interact.\<close>
  A dataset is a history of transactions on branches: \<open>Dataset_Views\<close> computes the files visible at a
  transaction and \<open>Retention\<close> decides which branches may be archived. A pipeline is a graph of nodes that
  \<open>Pipeline_Dag\<close> orders; the build service runs such a graph with the executor (\<open>Executor\<close>,
  \<open>Executor_Node\<close>, \<open>Executor_Safety\<close>, \<open>Executor_Outcome\<close>), whose jobs follow the state diagram of
  \<open>Lifecycle\<close>. A build comes into being by resolution (\<open>Job_Graph\<close>, \<open>Build_Resolver\<close>): its specs are loaded, its
  inputs resolved, its outputs locked; the tables it lives in, the persisted jobs and the plan read back from
  them are in \<open>Build_Store\<close> and \<open>Build_Persist\<close>, and \<open>Build_Handlers\<close> has the handlers that create, preview and
  abort it. \<open>Build_Run\<close> is its end: the plan is loaded from the tables, the executor runs it (\<open>Executor_Trace\<close> cuts its
  effects into one piece per node) and its events and transaction calls change the tables. \<open>Build_Roundtrip\<close> joins both ends: what resolution persists is what
  the run reads. Builds are started by schedules (\<open>Schedule\<close>, \<open>Trigger_Json\<close>, \<open>Trigger_Safety\<close>), whose time
  triggers are cron expressions (\<open>Calendar\<close>, \<open>Cron\<close>, \<open>Cron_Eval\<close>, \<open>Cron_Safety\<close>, \<open>Cron_Next\<close>).
  The workflow service consumes conditions from Kafka (\<open>Condition_Consumer\<close>, \<open>Consumer_Safety\<close>): each
  message is recorded by the deduplication library (\<open>Idempotency\<close>), creates or claims a run in the
  optimistic-concurrency store (\<open>State_Store\<close>, \<open>Automation_Run\<close>), has its effect dispatched over HTTP
  (\<open>Effect_Dispatcher\<close>) and lands with an event in the transactional outbox (\<open>Outbox\<close>). Approval requests
  (\<open>Approvals\<close>) use the same store and outbox, and operations of several steps run as sagas (\<open>Saga\<close>,
  \<open>Saga_Consumer\<close>). \<open>Prelude\<close>, \<open>Go_Strings\<close>, \<open>Json_Codec\<close>, \<open>Graph_Search\<close> and \<open>Kahn\<close> hold what several of
  them share: Go maps as association lists, results as sums, strings, JSON objects, graph searches.

  \<^bold>\<open>How state and effects are modelled.\<close>
  Structs are records, tagged values are datatypes, errors are the left summand of a result, and
  every early return of the code is a branch. A table of Postgres is a map; a statement may fail, as the
  environment of the call says, and a transaction that is not committed leaves the tables as they
  were. An effect of the executor says which port was called (\<open>AbortCalled\<close>: the call of \<open>Abort\<close>, whatever it
  answered); what the call does to the tables is in \<open>Build_Run\<close>, behind the gate for Iceberg outputs of \<open>Build_Store\<close>. What the code only calls and what is not under \<open>src\<close> (the UUID library, HTTP clients, the
  task runner, the time-zone database) is a parameter. Clock readings are parameters too. Integers whose
  width matters are words: durations of the retention, values of cron fields. Counters that grow by one, such as
  the versions of rows, are integers; the upper end of their column type is not modelled.

  \<^bold>\<open>Interfaces.\<close>
  \<open>lifecycle\<close> and \<open>ranked_lifecycle\<close> (in \<open>Lifecycle\<close>) state what the state diagrams share; they are
  interpreted for jobs, automation runs and approvals. \<open>aggregate_ok\<close> (in \<open>State_Store\<close>) is what the
  store asks of the aggregate it keeps, interpreted for runs and approvals, which yields that no update is
  lost. \<open>idem_store\<close> (in \<open>Idempotency\<close>) is the deduplication store, interpreted for the in-memory and the
  Postgres one. \<open>counted_graph\<close> and \<open>kahn_maps\<close> (in \<open>Kahn\<close>, \<open>Pipeline_Dag\<close>) carry Kahn's algorithm to the
  two planners, \<open>sorted_scan\<close> (in \<open>Job_Graph\<close>) to the one of the resolver. \<open>lock_table\<close> (in \<open>Build_Resolver\<close>) is what the
  resolver relies on of its lock port, interpreted for the Postgres one.

  \<^bold>\<open>What the lemmas show, theory by theory.\<close>
  \<^item> \<open>Dataset_Views\<close> (\<open>dataset-versioning-service/internal/domain/views.go\<close>): the listing refines the
    specification of a replay that starts at the last snapshot in the window.
  \<^item> \<open>Retention\<close> (\<open>.../domain/retention/retention.go\<close>): resolution finds the nearest ancestor with a policy;
    the archive decision, and the overflow of the duration from 106752 days on.
  \<^item> \<open>Pipeline_Dag\<close> (\<open>pipeline-build-service/internal/domain/engine/dag.go\<close>) with \<open>Kahn\<close> and \<open>Graph_Search\<close>:
    orders and stages respect dependencies, an error is reported exactly if there is no order.
  \<^item> \<open>Lifecycle\<close> (\<open>.../domain/joblifecycle\<close>, \<open>.../models/job.go\<close>): rows and audit trail stay in step under
    every call and fault, terminal jobs stay terminal.
  \<^item> \<open>Executor*\<close> (\<open>.../domain/executor/executor.go\<close>): the main loop as a sequence of iterations, for every order
    in which results arrive and every moment of cancellation; its invariant, termination after at most \<open>2n + 2\<close>
    iterations, dependencies first, isolation of failures, and the transactions of the outputs of a node.
  \<^item> \<open>State_Store\<close>, \<open>Automation_Run\<close>, \<open>Approvals\<close> (\<open>libs/state-machine\<close>, \<open>workflow-automation-service\<close>): the
    table under any interleaving of clients, the retry loop, the diagrams and their JSON form, the sweep.
  \<^item> \<open>Idempotency\<close>, \<open>Outbox\<close>, \<open>Effect_Dispatcher\<close>, \<open>Condition_Consumer\<close>, \<open>Consumer_Safety\<close>: at most one effect
    per event and at most one dispatch per condition under every fault; a run is terminal exactly if its
    outcome is in the log; what is lost when a delivery fails after it was recorded.
  \<^item> \<open>Saga\<close>, \<open>Saga_Consumer\<close> (\<open>libs/saga\<close>, \<open>workflow-automation-service/internal/automationoperations\<close>): a failed step is
    compensated by the completed ones in reverse order, a resumed saga skips its completed steps, a request
    lands in a terminal state unless its type or input is invalid.
  \<^item> \<open>Cron*\<close> (\<open>libs/scheduling-cron\<close>): parsed schedules are well-formed; the wall-clock search returns the
    least firing time, the search over instants is sound in every zone and exact in one with a fixed offset;
    the early occurrence that is missed east of UTC when clocks are set back. \<open>Calendar\<close> is the model of the Gregorian
    calendar that package \<open>time\<close> provides; its months are counted from the year 0.
  \<^item> \<open>Schedule\<close>, \<open>Trigger_Json\<close>, \<open>Trigger_Safety\<close> (\<open>pipeline-build-service/internal/domain/schedule\<close>): triggers evaluate to the
    truth value of their formula, observations accumulate over events, triggers survive their encoding,
    backfill windows are complete and contiguous; a rare schedule that is never due.
  \<^item> \<open>Job_Graph\<close>, \<open>Build_Resolver\<close> (\<open>pipeline-build-service/internal/domain/resolver\<close>): cycles of specs are found exactly,
    stages respect dependencies, what a resolved build contains, the order of a fallback chain.
  \<^item> \<open>Build_Store\<close>, \<open>Build_Persist\<close>, \<open>Build_Handlers\<close> (\<open>.../postgres/repository.go\<close>, \<open>.../handler/build_resolution.go\<close>,
    \<open>.../handler/abort.go\<close>): no build takes the lock of another; an abort settles every job of its build and
    releases its locks, unless the build has an Iceberg output, which the gate that \<open>main.go\<close> wires refuses and which keeps the
    build in BUILD_ABORTING; a job is skipped as fresh only with all it depends on; the lock a failed build keeps.
  \<^item> \<open>Executor_Trace\<close>, \<open>Build_Run\<close> (\<open>.../handler/execution.go\<close>): a run of a persisted build whose jobs wait returns, its job rows,
    audit rows, outputs and locks end as its outcome says, and Iceberg outputs stay as they are; what a cancellation, a second replica or a second run leave wrong.
  \<^item> \<open>Build_Roundtrip\<close>: a persisted build is read back as the plan of its jobs, and an accepted build runs to an end that leaves
    no job open, no lock behind and no output undecided but the Iceberg ones; two specs with one output, and a build that waited for
    another, are where this fails.

  \<^bold>\<open>Bounds and fuel.\<close>
  The main loop of the executor has \<open>2n + 2\<close> iterations of fuel for \<open>n\<close> nodes, which \<open>Execute_terminates\<close>
  shows to be enough. The loop over the values of a cron component has one iteration per value of its range,
  which suffices because its step is positive. The two loops of the cron evaluator are partial functions
  whose value \<open>None\<close> stands for not returning; \<open>findNextMatch_least\<close> and \<open>NextFireAfter_sound\<close> show that
  they return. The consumers' loops run over the finite list of messages that are polled.

  \<^bold>\<open>Assumptions on the modelled standard library.\<close>
  Text is ASCII where case is folded or space trimmed. In the JSON objects of \<open>Json_Codec\<close> leaves are typed and field names match
  exactly; \<open>Trigger_Json\<close> reads JSON values themselves and folds the case of names. Instants are integers in
  nanoseconds (seconds in the cron evaluator) without the bounds of \<open>time.Time\<close>.

  \<^bold>\<open>Not modelled.\<close>
  HTTP handlers that only decode, call and encode, queries that only list, pipeline runs and the runners of their node
  kinds, Spark submissions, repositories that only build SQL, drivers of external systems, generated protocol code, the
  web applications and SDKs. Of modelled components: the random jitter of the dispatcher's back-off, the OpenLineage header of the
  outbox, an Iceberg adapter (none is wired) and the committer that also writes ontology objects, logging and metrics. The ontology, AI and connector services are left to later work; the manifest lists
  them with the reason.
\<close>

end
